(* ===== verification/Prelude.thy ===== *)
theory Prelude
  imports Main "HOL-Library.Word" "HOL-Library.List_Lexorder" "HOL-Library.Char_ord"
begin

unbundle bit_operations_syntax

text \<open>
  The vocabulary every component of the model shares: bytes and 16-bit words, the outcome of
  a Go call (a result, an \<open>error\<close> value, or a panic), big-endian encodings, and the
  sequence number arithmetic of fixed-width byte strings.
\<close>

section \<open>Rewriting collections\<close>

named_theorems codec_simps \<open>reading back what the encoders write\<close>
named_theorems outcome_simps \<open>evaluation of the outcome monad\<close>

section \<open>Bytes and identifiers\<close>

type_synonym byte = "8 word"
type_synonym bytes = "byte list"
type_synonym u16 = "16 word"

text \<open>A Go string is a byte sequence; \<open><\<close> on \<^typ>\<open>string\<close> is Go's bytewise order.\<close>

definition bytes_of_string :: "string \<Rightarrow> bytes" where
  "bytes_of_string s = map of_char s"

section \<open>Outcomes of a Go call\<close>

text \<open>
  The \<open>error\<close> values of \<open>e2ewebsocket\<close>, one constructor per message the source
  builds, and those of \<open>crypto\<close> and \<open>crypto/ecdh_curve\<close>; \<open>LibError\<close> is an error returned by a package outside the repository.
\<close>

datatype error =
    ErrNoSupported | ErrShortRand | ErrMarshal
  | ErrUnexpectedMessage | ErrProtocolVersion
  | ErrUnconfiguredSuite | ErrUnconfiguredScheme
  | ErrInitialHandshake | ErrIncorrectRenegotiation
  | ErrKeyAgreementType | ErrKeyAgreementInit
  | ErrKeyExchange | ErrUnsupportedCurve | ErrUnsupportedKemGroup
  | ErrInvalidSigAlg | ErrUnsupportedSigAlg | ErrUnknownSigType
  | ErrWrongKeyType | ErrSignature
  | ErrHandshakeTooLong | ErrSessionClosed
  | AlertUnexpectedMessage | AlertHandshakeFailure | AlertInternalError
  | AlertBadRecordMAC | AlertNonceZero
  | ErrHandshakeNoResult | ErrHandshakeMarked
  | ErrNilMsgData | ErrNotConnected
  | ErrBypassSecureWS | ErrDropSecureWS
  | ErrNoCert | ErrNoKey | ErrNoPubKey | ErrMallocFailure | ErrNilParameter | ErrEmptyKey | ErrNoData
  | ErrNilRemoteKey | ErrKeyTypeMismatch | ErrCurveMismatch | ErrLocalKeyNotNil | ErrStandardECDH | ErrKeySize
  | LibError

datatype 'a res = Ok 'a | Fail error | Panic string

fun bind_res :: "'a res \<Rightarrow> ('a \<Rightarrow> 'b res) \<Rightarrow> 'b res" where
  "bind_res (Ok x) f = f x"
| "bind_res (Fail e) f = Fail e"
| "bind_res (Panic p) f = Panic p"

fun of_option :: "error \<Rightarrow> 'a option \<Rightarrow> 'a res" where
  "of_option e None = Fail e"
| "of_option e (Some x) = Ok x"

declare bind_res.simps [outcome_simps] of_option.simps [outcome_simps]

lemma bind_res_Ok_iff [outcome_simps]:
  "bind_res m f = Ok y \<longleftrightarrow> (\<exists>x. m = Ok x \<and> f x = Ok y)"
  by (cases m) auto

lemma of_option_Ok_iff [outcome_simps]: "of_option e m = Ok x \<longleftrightarrow> m = Some x"
  by (cases m) auto

lemma bind_res_assoc: "bind_res (bind_res m f) g = bind_res m (\<lambda>x. bind_res (f x) g)"
  by (cases m) auto

lemma bind_res_cong [fundef_cong]:
  "m = m' \<Longrightarrow> (\<And>x. m' = Ok x \<Longrightarrow> f x = f' x) \<Longrightarrow> bind_res m f = bind_res m' f'"
  by (cases m') auto

section \<open>Big-endian 16-bit values\<close>

definition be16 :: "u16 \<Rightarrow> bytes" where
  "be16 w = [ucast (drop_bit 8 w), ucast w]"

definition join16 :: "byte \<Rightarrow> byte \<Rightarrow> u16" where
  "join16 hi lo = ucast lo OR push_bit 8 (ucast hi)"

lemma length_be16 [simp]: "length (be16 w) = 2"
  by (simp add: be16_def)

lemma join16_be16 [codec_simps]: "join16 (ucast (drop_bit 8 w)) (ucast w) = w"
  by (rule bit_word_eqI)
    (auto simp: join16_def bit_or_iff bit_push_bit_iff bit_ucast_iff bit_drop_bit_eq)

lemma ucast_join16 [codec_simps]:
  "(ucast (join16 h l) :: byte) = l" "(ucast (drop_bit 8 (join16 h l)) :: byte) = h"
  by (rule bit_word_eqI,
      auto simp: join16_def bit_or_iff bit_push_bit_iff bit_ucast_iff bit_drop_bit_eq
        dest: bit_imp_le_length)+

lemma join16_inject: "join16 h l = join16 h' l' \<longleftrightarrow> h = h' \<and> l = l'"
  using ucast_join16 by metis

text \<open>The two low bytes of a Go \<open>int\<close> length: \<open>byte(n>>8), byte(n)\<close>.\<close>

definition len16 :: "nat \<Rightarrow> bytes" where
  "len16 n = [of_nat (n div 256), of_nat n]"

definition nat16 :: "byte \<Rightarrow> byte \<Rightarrow> nat" where
  "nat16 hi lo = 256 * unat hi + unat lo"

lemma length_len16 [simp]: "length (len16 n) = 2"
  by (simp add: len16_def)

lemma unat_of_nat_byte: "unat (of_nat n :: byte) = n mod 256"
  by (simp add: unat_of_nat)

lemma nat16_len16: "nat16 (of_nat (n div 256)) (of_nat n) = n mod 65536"
proof -
  have "256 * (n div 256 mod 256) + n mod 256 = n mod 65536"
    using mod_mult2_eq [of n 256 256] by simp
  then show ?thesis by (simp add: nat16_def unat_of_nat_byte)
qed

lemma nat16_len16_small [codec_simps]:
  "n < 65536 \<Longrightarrow> nat16 (of_nat (n div 256)) (of_nat n) = n"
  by (simp add: nat16_len16)

lemma unat_byte_less [simp]: "unat (b :: byte) < 256"
  using unsigned_less [of b] by simp

lemma nat16_bound: "nat16 h l < 65536"
  using unat_byte_less [of h] unat_byte_less [of l] unfolding nat16_def by linarith

section \<open>Lists\<close>

lemma find_Some_in: "find P xs = Some x \<Longrightarrow> x \<in> set xs \<and> P x"
  by (induction xs) (auto split: if_splits)

lemma find_None: "find P xs = None \<longleftrightarrow> (\<forall>x\<in>set xs. \<not> P x)"
  by (induction xs) auto

lemma map_of_map_key: "map_of (map (\<lambda>k. (k, f k)) ks) k = (if k \<in> set ks then Some (f k) else None)"
  by (induction ks) auto

section \<open>Refinement\<close>

text \<open>
  The contract between a component and its abstract specification: every operation keeps the
  invariant, and what it does to the state is what the specification does to the abstraction.
  Whole runs then correspond.
\<close>

locale op_refinement =
  fixes inv :: "'s \<Rightarrow> bool" and abs :: "'s \<Rightarrow> 'a"
    and step :: "'e \<Rightarrow> 's \<Rightarrow> 's" and spec :: "'e \<Rightarrow> 'a \<Rightarrow> 'a"
  assumes inv_step: "inv s \<Longrightarrow> inv (step e s)"
    and abs_step: "inv s \<Longrightarrow> abs (step e s) = spec e (abs s)"
begin

lemma inv_run: "inv s \<Longrightarrow> inv (fold step es s)"
  by (induction es arbitrary: s) (auto intro: inv_step)

lemma abs_run: "inv s \<Longrightarrow> abs (fold step es s) = fold spec es (abs s)"
  by (induction es arbitrary: s) (auto simp: inv_step abs_step)

end

end
