(* ===== verification/Sm4Aead.thy ===== *)
theory Sm4Aead
  imports Prelude
begin

text \<open>
  \<open>crypto/sm4tongsuo\<close> and the parts of \<open>crypto/cipher.go\<close> it rests on: the SM4
  encrypter and decrypter objects and the AEAD built from them.  Tongsuo's EVP interface is C
  code outside the repository, so it is the parameter \<open>evp\<close> of every operation; what
  the code relies on is the predicate \<open>gcm_lib\<close>.
\<close>

section \<open>The EVP library\<close>

text \<open>
  The calls the Go code makes, by cipher name: lookup, context creation, key length, setting
  the AEAD IV length, the CCM set-up calls, and the whole Init/Update/Final sequence of an
  encryption (ciphertext and tag) or a decryption under a tag.  \<open>None\<close> or \<open>False\<close> is
  a library failure.
\<close>

record evp =
  evp_find :: "string \<Rightarrow> bool"
  evp_init :: "string \<Rightarrow> bool"
  evp_key_length :: "string \<Rightarrow> nat"
  evp_iv_length :: "string \<Rightarrow> nat"
  evp_set_ivlen :: "string \<Rightarrow> nat \<Rightarrow> bool"
  evp_ccm_setup :: "nat \<Rightarrow> bool"
  evp_encrypt :: "string \<Rightarrow> bytes \<Rightarrow> bytes \<Rightarrow> bytes option \<Rightarrow> bytes \<Rightarrow> (bytes \<times> bytes) option"
  evp_decrypt :: "string \<Rightarrow> bytes \<Rightarrow> bytes \<Rightarrow> bytes option \<Rightarrow> bytes \<Rightarrow> bytes option \<Rightarrow> bytes option"

text \<open>
  What GCM documents: a 16-byte key and a non-empty IV always encrypt, to a ciphertext as long
  as the plaintext and a 16-byte tag; decryption inverts encryption; and decryption accepts a
  ciphertext and a tag only if encrypting the result gives exactly them (the keystream and the
  tag are functions of key, IV, additional data and text).
\<close>

abbreviation gcm_name :: string where
  "gcm_name \<equiv> ''SM4-GCM''"

definition gcm_lib :: "evp \<Rightarrow> bool" where
  "gcm_lib L \<longleftrightarrow>
     evp_find L gcm_name \<and> evp_init L gcm_name \<and> evp_key_length L gcm_name = 16 \<and>
     (\<forall>n. 0 < n \<longrightarrow> evp_set_ivlen L gcm_name n) \<and>
     (\<forall>k iv a p. length k = 16 \<and> iv \<noteq> [] \<longrightarrow>
        (\<exists>c t. evp_encrypt L gcm_name k iv a p = Some (c, t) \<and>
               length c = length p \<and> length t = 16)) \<and>
     (\<forall>k iv a p c t. evp_encrypt L gcm_name k iv a p = Some (c, t) \<longrightarrow>
        evp_decrypt L gcm_name k iv a c (Some t) = Some p) \<and>
     (\<forall>k iv a p c t. evp_decrypt L gcm_name k iv a c (Some t) = Some p \<longrightarrow>
        evp_encrypt L gcm_name k iv a p = Some (c, t))"

lemma gcm_libD:
  assumes "gcm_lib L"
  shows "evp_find L gcm_name" "evp_init L gcm_name" "evp_key_length L gcm_name = 16"
    "0 < n \<Longrightarrow> evp_set_ivlen L gcm_name n"
    "length k = 16 \<Longrightarrow> iv \<noteq> [] \<Longrightarrow>
       \<exists>c t. evp_encrypt L gcm_name k iv a p = Some (c, t) \<and> length c = length p \<and> length t = 16"
    "evp_encrypt L gcm_name k iv a p = Some (c, t) \<Longrightarrow>
       evp_decrypt L gcm_name k iv a c (Some t) = Some p"
    "evp_decrypt L gcm_name k iv a c (Some t) = Some p \<Longrightarrow>
       evp_encrypt L gcm_name k iv a p = Some (c, t)"
  using assms unfolding gcm_lib_def by blast+

section \<open>The cipher contexts\<close>

datatype mode = ModeECB | ModeCBC | ModeCFB | ModeOFB | ModeCTR | ModeGCM | ModeCCM | ModeOther int

fun getSM4Cipher :: "evp \<Rightarrow> mode \<Rightarrow> string res" where
  "getSM4Cipher L m =
     (case (case m of ModeECB \<Rightarrow> Some ''SM4-ECB'' | ModeCBC \<Rightarrow> Some ''SM4-CBC''
                    | ModeCFB \<Rightarrow> Some ''SM4-CFB'' | ModeOFB \<Rightarrow> Some ''SM4-OFB''
                    | ModeCTR \<Rightarrow> Some ''SM4-CTR'' | ModeGCM \<Rightarrow> Some gcm_name
                    | ModeCCM \<Rightarrow> Some ''SM4-CCM'' | ModeOther _ \<Rightarrow> None) of
        None \<Rightarrow> Fail LibError
      | Some n \<Rightarrow> if evp_find L n then Ok n else Fail LibError)"

text \<open>
  \<open>cctx\<close> is the C context: the cipher it was initialised with, the IV length last set
  by the control call, and the tag of the last finished encryption.
\<close>

record cctx =
  cc_cipher :: string
  cc_ivlen :: nat
  cc_tag :: "bytes option"

definition NewCipherCtx :: "evp \<Rightarrow> string \<Rightarrow> cctx res" where
  "NewCipherCtx L n =
     (if evp_init L n then Ok \<lparr>cc_cipher = n, cc_ivlen = evp_iv_length L n, cc_tag = None\<rparr>
      else Fail LibError)"

definition SetCtrlIvLen :: "evp \<Rightarrow> cctx \<Rightarrow> nat \<Rightarrow> cctx res" where
  "SetCtrlIvLen L c n =
     (if evp_set_ivlen L (cc_cipher c) n then Ok (c\<lparr>cc_ivlen := n\<rparr>) else Fail LibError)"

text \<open>\<open>SetKeyAndIV\<close> on non-nil slices: the length checks, before the key is installed.\<close>

definition SetKeyAndIV :: "evp \<Rightarrow> cctx \<Rightarrow> bytes \<Rightarrow> bytes \<Rightarrow> unit res" where
  "SetKeyAndIV L c key iv =
     (if length key \<noteq> evp_key_length L (cc_cipher c) then Fail LibError
      else if length iv \<noteq> cc_ivlen c then Fail LibError
      else if key = [] \<or> iv = [] then Panic ''index out of range''
      else Ok ())"

definition GetTagBytes :: "cctx \<Rightarrow> nat \<Rightarrow> bytes res" where
  "GetTagBytes c n =
     (if n = 0 then Panic ''index out of range''
      else case cc_tag c of None \<Rightarrow> Fail LibError
           | Some t \<Rightarrow> if n \<le> length t then Ok (take n t) else Fail LibError)"

section \<open>Encrypter and decrypter\<close>

record sm4Encrypter =
  e_ctx :: cctx
  e_key :: bytes
  e_iv :: bytes
  e_aad :: "bytes option"
  e_tagLen :: nat

record sm4Decrypter =
  d_ctx :: cctx
  d_key :: bytes
  d_iv :: bytes
  d_aad :: "bytes option"
  d_tag :: "bytes option"

definition prepare_ivlen :: "evp \<Rightarrow> mode \<Rightarrow> bytes \<Rightarrow> cctx \<Rightarrow> cctx res" where
  "prepare_ivlen L m iv c =
     (if iv \<noteq> [] \<and> (m = ModeGCM \<or> m = ModeCCM) then SetCtrlIvLen L c (length iv) else Ok c)"

definition NewEncrypter :: "evp \<Rightarrow> mode \<Rightarrow> bytes \<Rightarrow> bytes \<Rightarrow> sm4Encrypter res" where
  "NewEncrypter L m key iv =
     bind_res (getSM4Cipher L m) (\<lambda>n.
     let tagLen = (if m = ModeGCM then 16 else if m = ModeCCM then 12 else 0) in
     bind_res (NewCipherCtx L n) (\<lambda>c.
     bind_res (prepare_ivlen L m iv c) (\<lambda>c.
     Ok \<lparr>e_ctx = c, e_key = key, e_iv = iv, e_aad = None, e_tagLen = tagLen\<rparr>)))"

definition NewDecrypter :: "evp \<Rightarrow> mode \<Rightarrow> bytes \<Rightarrow> bytes \<Rightarrow> sm4Decrypter res" where
  "NewDecrypter L m key iv =
     bind_res (getSM4Cipher L m) (\<lambda>n.
     bind_res (NewCipherCtx L n) (\<lambda>c.
     bind_res (prepare_ivlen L m iv c) (\<lambda>c.
     Ok \<lparr>d_ctx = c, d_key = key, d_iv = iv, d_aad = None, d_tag = None\<rparr>)))"

definition enc_SetAAD :: "bytes \<Rightarrow> sm4Encrypter \<Rightarrow> sm4Encrypter" where
  "enc_SetAAD a e = e\<lparr>e_aad := Some a\<rparr>"

definition SetTagLen :: "nat \<Rightarrow> sm4Encrypter \<Rightarrow> sm4Encrypter" where
  "SetTagLen n e = e\<lparr>e_tagLen := n\<rparr>"

definition dec_SetAAD :: "bytes \<Rightarrow> sm4Decrypter \<Rightarrow> sm4Decrypter" where
  "dec_SetAAD a d = d\<lparr>d_aad := Some a\<rparr>"

definition dec_SetTag :: "bytes \<Rightarrow> sm4Decrypter \<Rightarrow> sm4Decrypter" where
  "dec_SetTag t d = d\<lparr>d_tag := Some t\<rparr>"

definition GetTag :: "sm4Encrypter \<Rightarrow> bytes res" where
  "GetTag e = GetTagBytes (e_ctx e) (e_tagLen e)"

text \<open>
  \<open>EncryptAll\<close> leaves the tag of this encryption in the context, which \<open>GetTag\<close>
  reads.  An empty, non-nil AAD would take the address of its first byte: a panic.
\<close>

definition EncryptAll :: "evp \<Rightarrow> sm4Encrypter \<Rightarrow> bytes \<Rightarrow> (bytes \<times> sm4Encrypter) res" where
  "EncryptAll L e src =
     (let isCcm = (cc_cipher (e_ctx e) = ''SM4-CCM'') in
      if isCcm \<and> \<not> evp_ccm_setup L (e_tagLen e) then Fail LibError
      else bind_res (SetKeyAndIV L (e_ctx e) (e_key e) (e_iv e)) (\<lambda>_.
        if e_aad e = Some [] then Panic ''index out of range''
        else case evp_encrypt L (cc_cipher (e_ctx e)) (e_key e) (e_iv e) (e_aad e) src of
               None \<Rightarrow> Fail LibError
             | Some (ct, tag) \<Rightarrow> Ok (ct, e\<lparr>e_ctx := (e_ctx e)\<lparr>cc_tag := Some tag\<rparr>\<rparr>)))"

definition DecryptAll :: "evp \<Rightarrow> sm4Decrypter \<Rightarrow> bytes \<Rightarrow> bytes res" where
  "DecryptAll L d src =
     (if d_tag d = Some [] then Panic ''index out of range''
      else bind_res (SetKeyAndIV L (d_ctx d) (d_key d) (d_iv d)) (\<lambda>_.
        if d_aad d = Some [] then Panic ''index out of range''
        else of_option LibError
               (evp_decrypt L (cc_cipher (d_ctx d)) (d_key d) (d_iv d) (d_aad d) src (d_tag d))))"

section \<open>The AEAD object of the record layer\<close>

record sm4AEADCipher =
  aead_enc :: sm4Encrypter
  aead_dec :: sm4Decrypter

text \<open>\<open>NewSm4AEADCipher\<close> returns nil (here \<open>None\<close>) when a context cannot be made.\<close>

definition NewSm4AEADCipher :: "evp \<Rightarrow> bytes \<Rightarrow> bytes \<Rightarrow> sm4AEADCipher option" where
  "NewSm4AEADCipher L key iv =
     (case NewEncrypter L ModeGCM key iv of
        Ok e \<Rightarrow> (case NewDecrypter L ModeGCM key iv of
                  Ok d \<Rightarrow> Some \<lparr>aead_enc = e, aead_dec = d\<rparr>
                | _ \<Rightarrow> None)
      | _ \<Rightarrow> None)"

definition NonceSize :: "sm4AEADCipher \<Rightarrow> nat" where
  "NonceSize c = 12"

definition Overhead :: "sm4AEADCipher \<Rightarrow> nat" where
  "Overhead c = 16"

definition ExplicitNonceLen :: "sm4AEADCipher \<Rightarrow> nat" where
  "ExplicitNonceLen c = NonceSize c"

text \<open>
  \<open>Seal\<close>: the \<open>nonce\<close> argument is not used; an error returns nil, which drops
  \<open>dst\<close> as well.  The result is the record and the object with its new context.
\<close>

definition Seal :: "evp \<Rightarrow> sm4AEADCipher \<Rightarrow> bytes \<Rightarrow> bytes \<Rightarrow> bytes \<Rightarrow> bytes \<Rightarrow> (bytes \<times> sm4AEADCipher) res" where
  "Seal L c dst nonce plaintext aad =
     (let e = enc_SetAAD aad (aead_enc c) in
      case EncryptAll L e plaintext of
        Panic p \<Rightarrow> Panic p
      | Fail _ \<Rightarrow> Ok ([], c\<lparr>aead_enc := e\<rparr>)
      | Ok (ct, e') \<Rightarrow>
          (case GetTag e' of
             Panic p \<Rightarrow> Panic p
           | Fail _ \<Rightarrow> Ok ([], c\<lparr>aead_enc := e'\<rparr>)
           | Ok tag \<Rightarrow> Ok (dst @ ct @ tag, c\<lparr>aead_enc := e'\<rparr>)))"

text \<open>\<open>Open\<close>: \<open>dst\<close> and \<open>nonce\<close> are not used.\<close>

definition Open :: "evp \<Rightarrow> sm4AEADCipher \<Rightarrow> bytes \<Rightarrow> bytes \<Rightarrow> bytes \<Rightarrow> bytes res \<times> sm4AEADCipher" where
  "Open L c nonce ciphertext aad =
     (if length ciphertext < Overhead c then (Panic ''slice bounds out of range'', c)
      else
        let n = length ciphertext - Overhead c;
            d = dec_SetTag (drop n ciphertext) (dec_SetAAD aad (aead_dec c))
        in (DecryptAll L d (take n ciphertext), c\<lparr>aead_dec := d\<rparr>))"

section \<open>The AEAD object as a function of its key and IV\<close>

text \<open>
  Abstractly an AEAD object is a key and an IV: \<open>gcm_box\<close> is the record it makes and
  \<open>gcm_unbox\<close> the reading of one.  The context, the stored AAD and the stored tag do not
  matter, and neither does the nonce argument.
\<close>

definition gcm_box :: "evp \<Rightarrow> bytes \<Rightarrow> bytes \<Rightarrow> bytes \<Rightarrow> bytes \<Rightarrow> bytes" where
  "gcm_box L k iv a p =
     (case evp_encrypt L gcm_name k iv (Some a) p of Some (c, t) \<Rightarrow> c @ t | None \<Rightarrow> [])"

definition gcm_unbox :: "evp \<Rightarrow> bytes \<Rightarrow> bytes \<Rightarrow> bytes \<Rightarrow> bytes \<Rightarrow> bytes option" where
  "gcm_unbox L k iv a x =
     (let n = length x - 16 in evp_decrypt L gcm_name k iv (Some a) (take n x) (Some (drop n x)))"

definition aead_of :: "sm4AEADCipher \<Rightarrow> bytes \<Rightarrow> bytes \<Rightarrow> bool" where
  "aead_of c k iv \<longleftrightarrow>
     cc_cipher (e_ctx (aead_enc c)) = gcm_name \<and> cc_ivlen (e_ctx (aead_enc c)) = length iv \<and>
     e_key (aead_enc c) = k \<and> e_iv (aead_enc c) = iv \<and> e_tagLen (aead_enc c) = 16 \<and>
     cc_cipher (d_ctx (aead_dec c)) = gcm_name \<and> cc_ivlen (d_ctx (aead_dec c)) = length iv \<and>
     d_key (aead_dec c) = k \<and> d_iv (aead_dec c) = iv"

lemma NewSm4AEADCipher_aead_of:
  assumes "gcm_lib L" "iv \<noteq> []"
  shows "\<exists>c. NewSm4AEADCipher L k iv = Some c \<and> aead_of c k iv"
  using gcm_libD(1,2) [OF assms(1)] gcm_libD(4) [OF assms(1), of "length iv"] assms(2)
  by (simp add: NewSm4AEADCipher_def NewEncrypter_def NewDecrypter_def NewCipherCtx_def
      prepare_ivlen_def SetCtrlIvLen_def aead_of_def)

lemma length_gcm_box:
  assumes "gcm_lib L" "length k = 16" "iv \<noteq> []"
  shows "length (gcm_box L k iv a p) = length p + 16"
  using gcm_libD(5) [OF assms, of "Some a" p] by (auto simp: gcm_box_def)

lemma gcm_unbox_box:
  assumes "gcm_lib L" "length k = 16" "iv \<noteq> []"
  shows "gcm_unbox L k iv a (gcm_box L k iv a p) = Some p"
proof -
  obtain c t where ct: "evp_encrypt L gcm_name k iv (Some a) p = Some (c, t)"
    and len: "length c = length p" "length t = 16"
    using gcm_libD(5) [OF assms, of "Some a" p] by blast
  show ?thesis
    using gcm_libD(6) [OF assms(1) ct] len by (simp add: gcm_unbox_def gcm_box_def ct)
qed

lemma gcm_unbox_only_box:
  assumes "gcm_lib L" "gcm_unbox L k iv a x = Some p"
  shows "x = gcm_box L k iv a p"
proof -
  let ?n = "length x - 16"
  have "evp_decrypt L gcm_name k iv (Some a) (take ?n x) (Some (drop ?n x)) = Some p"
    using assms(2) by (simp add: gcm_unbox_def Let_def)
  then show ?thesis
    by (simp add: gcm_libD(7) [OF assms(1)] gcm_box_def)
qed

lemma Seal_box:
  assumes L: "gcm_lib L" and c: "aead_of c k iv" and k: "length k = 16" "iv \<noteq> []" "a \<noteq> []"
  shows "\<exists>c'. Seal L c dst nonce p a = Ok (dst @ gcm_box L k iv a p, c') \<and> aead_of c' k iv"
proof -
  obtain ct t where ct: "evp_encrypt L gcm_name k iv (Some a) p = Some (ct, t)"
    and t: "length t = 16"
    using gcm_libD(5) [OF L k(1,2), of "Some a" p] by blast
  have "k \<noteq> []" using k(1) by auto
  then show ?thesis
    using c k ct t gcm_libD(3) [OF L]
    by (simp add: Seal_def EncryptAll_def SetKeyAndIV_def enc_SetAAD_def aead_of_def
        GetTag_def GetTagBytes_def gcm_box_def)
qed

lemma Open_unbox:
  assumes L: "gcm_lib L" and c: "aead_of c k iv" and k: "length k = 16" "iv \<noteq> []" "a \<noteq> []"
    and x: "16 \<le> length x"
  shows "\<exists>c'. Open L c nonce x a = (of_option LibError (gcm_unbox L k iv a x), c') \<and> aead_of c' k iv"
proof -
  have "k \<noteq> []" using k(1) by auto
  moreover have "drop (length x - 16) x \<noteq> []" using x by simp
  ultimately show ?thesis
    using c k x gcm_libD(3) [OF L]
    by (simp add: Open_def Overhead_def DecryptAll_def SetKeyAndIV_def dec_SetAAD_def dec_SetTag_def
        aead_of_def gcm_unbox_def Let_def)
qed

section \<open>The contract of an authenticated box\<close>

text \<open>
  What the record layer relies on, for the keys that are valid: a box is longer than its text by a
  constant, it opens to its text under the same additional data, and nothing else opens.
\<close>

locale sealed_box =
  fixes valid :: "'k \<Rightarrow> bool"
    and box :: "'k \<Rightarrow> bytes \<Rightarrow> bytes \<Rightarrow> bytes"
    and unbox :: "'k \<Rightarrow> bytes \<Rightarrow> bytes \<Rightarrow> bytes option"
    and overhead :: nat
  assumes length_box: "valid k \<Longrightarrow> length (box k a p) = length p + overhead"
    and unbox_box: "valid k \<Longrightarrow> unbox k a (box k a p) = Some p"
    and unbox_only: "valid k \<Longrightarrow> unbox k a x = Some p \<Longrightarrow> x = box k a p"
begin

text \<open>Numbered messages: the additional data is a function of number and length.\<close>

fun send_all :: "'k \<Rightarrow> (nat \<Rightarrow> nat \<Rightarrow> bytes) \<Rightarrow> nat \<Rightarrow> bytes list \<Rightarrow> bytes list" where
  "send_all k aad n [] = []"
| "send_all k aad n (p # ps) = box k (aad n (length p)) p # send_all k aad (Suc n) ps"

fun recv_all :: "'k \<Rightarrow> (nat \<Rightarrow> nat \<Rightarrow> bytes) \<Rightarrow> nat \<Rightarrow> bytes list \<Rightarrow> bytes list option" where
  "recv_all k aad n [] = Some []"
| "recv_all k aad n (x # xs) =
     (case unbox k (aad n (length x - overhead)) x of None \<Rightarrow> None
      | Some p \<Rightarrow> map_option ((#) p) (recv_all k aad (Suc n) xs))"

lemma recv_send: "valid k \<Longrightarrow> recv_all k aad n (send_all k aad n ps) = Some ps"
  by (induction ps arbitrary: n) (simp_all add: length_box unbox_box)

lemma recv_only:
  assumes "valid k" "recv_all k aad n xs = Some ps"
  shows "xs = send_all k aad n ps"
  using assms(2)
proof (induction xs arbitrary: n ps)
  case (Cons x xs)
  then obtain p qs where p: "unbox k (aad n (length x - overhead)) x = Some p"
      "recv_all k aad (Suc n) xs = Some qs" "ps = p # qs"
    by (auto split: option.splits)
  then have "x = box k (aad n (length x - overhead)) p" using unbox_only [OF assms(1)] by blast
  moreover from this have "length x - overhead = length p" using length_box [OF assms(1)] by (metis diff_add_inverse2)
  ultimately show ?case using Cons.IH [OF p(2)] p(3) by simp
qed simp

end

type_synonym gcm_key = "evp \<times> bytes \<times> bytes"

fun gcm_valid :: "gcm_key \<Rightarrow> bool" where
  "gcm_valid (L, k, iv) \<longleftrightarrow> gcm_lib L \<and> length k = 16 \<and> iv \<noteq> []"

fun gcm_box_key :: "gcm_key \<Rightarrow> bytes \<Rightarrow> bytes \<Rightarrow> bytes" where
  "gcm_box_key (L, k, iv) = gcm_box L k iv"

fun gcm_unbox_key :: "gcm_key \<Rightarrow> bytes \<Rightarrow> bytes \<Rightarrow> bytes option" where
  "gcm_unbox_key (L, k, iv) = gcm_unbox L k iv"

interpretation gcm: sealed_box gcm_valid gcm_box_key gcm_unbox_key 16
proof unfold_locales
  fix k :: gcm_key and a p x
  obtain L kk iv where k: "k = (L, kk, iv)" by (metis prod_cases3)
  show "length (gcm_box_key k a p) = length p + 16" if "gcm_valid k" using that length_gcm_box by (simp add: k)
  show "gcm_unbox_key k a (gcm_box_key k a p) = Some p" if "gcm_valid k" using that gcm_unbox_box by (simp add: k)
  show "x = gcm_box_key k a p" if "gcm_valid k" "gcm_unbox_key k a x = Some p"
    using that gcm_unbox_only_box by (simp add: k)
qed

text \<open>A library in which the keystream and the tag are constant, for the witnesses.\<close>

definition exEvp :: evp where
  "exEvp = \<lparr>evp_find = (\<lambda>_. True), evp_init = (\<lambda>_. True), evp_key_length = (\<lambda>_. 16), evp_iv_length = (\<lambda>_. 12),
     evp_set_ivlen = (\<lambda>_ _. True), evp_ccm_setup = (\<lambda>_. True),
     evp_encrypt = (\<lambda>_ k iv a p. Some (p, replicate 16 (of_nat (length p)))),
     evp_decrypt = (\<lambda>_ k iv a c t. if t = Some (replicate 16 (of_nat (length c))) then Some c else None)\<rparr>"

lemma exEvp_gcm_lib [simp]: "gcm_lib exEvp"
  by (auto simp: gcm_lib_def exEvp_def split: if_splits)

text \<open>The AEAD object keeps its promise: under a 16-byte key and any IV, what \<open>Seal\<close> returns
  for a text and additional data, \<open>Open\<close> of an object with the same key and IV turns back into the
  text, whatever nonces the two calls were given and whatever the objects did before.\<close>

theorem aead_roundtrip:
  assumes "gcm_lib L" "length k = 16" "iv \<noteq> []" "a \<noteq> []" "aead_of c k iv" "aead_of d k iv"
  shows "\<exists>box c' d'. Seal L c dst nonce p a = Ok (dst @ box, c') \<and> length box = length p + Overhead c \<and>
    Open L d nonce' box a = (Ok p, d') \<and> aead_of c' k iv \<and> aead_of d' k iv"
proof -
  obtain c' where c: "Seal L c dst nonce p a = Ok (dst @ gcm_box L k iv a p, c')" "aead_of c' k iv"
    using Seal_box [OF assms(1,5,2-4)] by blast
  have l: "length (gcm_box L k iv a p) = length p + 16" using length_gcm_box [OF assms(1-3)] .
  obtain d' where d: "Open L d nonce' (gcm_box L k iv a p) a = (of_option LibError (gcm_unbox L k iv a (gcm_box L k iv a p)), d')"
      "aead_of d' k iv"
    using Open_unbox [OF assms(1,6,2-4), of "gcm_box L k iv a p" nonce'] l by auto
  show ?thesis using c d l gcm_unbox_box [OF assms(1-3)] by (auto simp: Overhead_def)
qed

definition exKey :: bytes where "exKey = replicate 16 1"
definition exAead :: sm4AEADCipher where "exAead = the (NewSm4AEADCipher exEvp exKey [1, 2, 3, 4])"

lemma exAead_of: "aead_of exAead exKey [1, 2, 3, 4]"
  using NewSm4AEADCipher_aead_of [of exEvp "[1, 2, 3, 4]" exKey] by (auto simp: exAead_def)

lemma aead_roundtrip_witness:
  "\<exists>box d'. Open exEvp exAead [5] box [9] = (Ok [7, 8], d') \<and> length box = 18"
  using aead_roundtrip [OF exEvp_gcm_lib _ _ _ exAead_of exAead_of, of "[9]" "[]" "[0]" "[7, 8]" "[5]"]
  by (auto simp: exKey_def Overhead_def)

end
