(* ===== verification/Common.thy ===== *)
theory Common
  imports Sm4Aead
begin

text \<open>
  \<open>e2ewebsocket/common.go\<close>, \<open>tool_func.go\<close> and \<open>cipher_suites*.go\<close>: the protocol
  constants, the connection configuration with its defaults, the cipher suite table of the two
  builds (with and without the tag \<open>sm2mlkem\<close>), and the selection of a common version, suite
  and signature scheme.
\<close>

section \<open>Constants\<close>

definition maxHandshake :: nat where "maxHandshake = 65536"

definition scsvRenegotiation :: u16 where "scsvRenegotiation = 0x00ff"

definition typeHelloMsg :: byte where "typeHelloMsg = 1"
definition typeKeyExchange :: byte where "typeKeyExchange = 12"
definition typeFinished :: byte where "typeFinished = 20"

definition extensionSupportedCurves :: u16 where "extensionSupportedCurves = 10"
definition extensionSignatureAlgorithms :: u16 where "extensionSignatureAlgorithms = 13"
definition extensionSupportedVersions :: u16 where "extensionSupportedVersions = 43"

definition SM2WithSM3 :: u16 where "SM2WithSM3 = 0x0909"
definition SM2CurveP256V1 :: u16 where "SM2CurveP256V1 = 4152"
definition VersionE2E1 :: u16 where "VersionE2E1 = 0x0301"
definition VersionE2E2 :: u16 where "VersionE2E2 = 0x0302"

lemmas wire_consts =
  typeHelloMsg_def typeKeyExchange_def typeFinished_def extensionSupportedCurves_def
  extensionSignatureAlgorithms_def extensionSupportedVersions_def

text \<open>The record types; any other first byte is \<open>UnknownRecord\<close>.\<close>

datatype recordType =
    RecordAlert | RecordHandshake | RecordApplicationData | RecordChangeCipherSpec
  | RecordSecureControl | UnknownRecord byte

fun recordByte :: "recordType \<Rightarrow> byte" where
  "recordByte RecordAlert = 21"
| "recordByte RecordHandshake = 22"
| "recordByte RecordApplicationData = 23"
| "recordByte RecordChangeCipherSpec = 24"
| "recordByte RecordSecureControl = 25"
| "recordByte (UnknownRecord b) = b"

definition recordType_of :: "byte \<Rightarrow> recordType" where
  "recordType_of b =
     (if b = 21 then RecordAlert else if b = 22 then RecordHandshake
      else if b = 23 then RecordApplicationData else if b = 24 then RecordChangeCipherSpec
      else if b = 25 then RecordSecureControl else UnknownRecord b)"

lemma recordByte_recordType_of [simp]: "recordByte (recordType_of b) = b"
  by (simp add: recordType_of_def)

lemma recordType_of_recordByte [simp]:
  "\<forall>b. t \<noteq> UnknownRecord b \<Longrightarrow> recordType_of (recordByte t) = t"
  by (cases t) (auto simp: recordType_of_def)

section \<open>Slices\<close>

text \<open>
  \<open>Intersection(a, b)\<close> returns the first element of its SECOND argument that occurs in the
  first, and the zero value if there is none.
\<close>

definition Intersection :: "'a::zero list \<Rightarrow> 'a list \<Rightarrow> 'a" where
  "Intersection a b = (case find (\<lambda>v. v \<in> set a) b of Some v \<Rightarrow> v | None \<Rightarrow> 0)"

definition BEUint16 :: "bytes \<Rightarrow> u16 res" where
  "BEUint16 b = (if length b < 2 then Panic ''index out of range'' else Ok (join16 (b ! 0) (b ! 1)))"

text \<open>
  \<open>sliceForAppend\<close>: the head extends \<open>src\<close> by \<open>n\<close> bytes, inside the spare capacity of
  its array (whose old content shows) when that is large enough, in a zeroed copy otherwise.
\<close>

definition sliceForAppend :: "bytes \<Rightarrow> bytes \<Rightarrow> nat \<Rightarrow> bytes \<times> bytes" where
  "sliceForAppend src spare n =
     (let tail = (if n \<le> length spare then take n spare else replicate n 0) in (src @ tail, tail))"

text \<open>Go's \<open>copy(dst, src)\<close>: the shorter length is copied, the rest of \<open>dst\<close> stays.\<close>

definition go_copy :: "'a list \<Rightarrow> 'a list \<Rightarrow> 'a list" where
  "go_copy dst src = take (length dst) src @ drop (length src) dst"

lemma length_go_copy [simp]: "length (go_copy dst src) = length dst"
  by (simp add: go_copy_def)

section \<open>Configuration\<close>

datatype build = DefaultBuild | SM2MLKEMBuild

text \<open>A slice the source compares with nil is an option: \<open>None\<close> is nil.\<close>

record config =
  c_Version :: u16
  c_supportedVersions :: "u16 list option"
  c_CipherSuites :: "u16 list option"
  c_EnableSM2MLKEM :: bool
  c_CurvePreferences :: "u16 list option"
  c_SignatureSchemePreference :: "u16 list option"
  c_KeyStorePath :: string

definition emptyConfig :: config where
  "emptyConfig = \<lparr>c_Version = 0, c_supportedVersions = None, c_CipherSuites = None,
     c_EnableSM2MLKEM = False, c_CurvePreferences = None, c_SignatureSchemePreference = None,
     c_KeyStorePath = []\<rparr>"

definition supportedVersions :: "u16 list" where
  "supportedVersions = [VersionE2E1, VersionE2E2]"

definition defaultSupportedSignatureAlgorithms :: "u16 list" where
  "defaultSupportedSignatureAlgorithms = [SM2WithSM3]"

definition keyStorePath :: "config \<Rightarrow> string" where
  "keyStorePath c = (if c_KeyStorePath c = [] then ''./static_key'' else c_KeyStorePath c)"

definition defaultCurvePreferences :: "u16 list" where
  "defaultCurvePreferences = [4588, 29, 23, 24, 25]"

text \<open>\<open>curvePreferences\<close> is called on a non-nil receiver; \<open>DeleteFunc\<close> keeps the rest.\<close>

definition curvePreferences :: "config \<Rightarrow> u16 list" where
  "curvePreferences c =
     (case c_CurvePreferences c of
        Some (x # xs) \<Rightarrow> filter (\<lambda>v. v \<in> set (x # xs)) defaultCurvePreferences
      | _ \<Rightarrow> defaultCurvePreferences)"

definition mutualVersion :: "config \<Rightarrow> u16 list option \<Rightarrow> u16 \<times> bool" where
  "mutualVersion c peerVersions =
     (let picked = Intersection (case c_supportedVersions c of None \<Rightarrow> [] | Some vs \<Rightarrow> vs)
                     (case peerVersions of None \<Rightarrow> [] | Some vs \<Rightarrow> vs)
      in case peerVersions of None \<Rightarrow> (0, False) | Some _ \<Rightarrow> (picked, True))"

section \<open>Cipher suites\<close>

definition suiteTLS12 :: "64 word" where "suiteTLS12 = push_bit 2 1"
definition suiteSHA384 :: "64 word" where "suiteSHA384 = push_bit 3 1"
definition suiteSM3 :: "64 word" where "suiteSM3 = push_bit 4 1"

datatype kaKind = SM2KA | SM2MLKEMKA | OtherKA

text \<open>
  The cipher installed in a half connection (\<open>any\<close> in the source): a stream cipher, an AEAD,
  or anything else.  Only \<open>AEADObj\<close> is ever built.
\<close>

datatype cipherObj = StreamObj | AEADObj sm4AEADCipher | OtherObj

record cipherSuite =
  cs_id :: u16
  cs_keyLen :: nat
  cs_macLen :: nat
  cs_ivLen :: nat
  cs_ka :: kaKind
  cs_flags :: "64 word"
  cs_cipher :: "(bytes \<Rightarrow> bytes \<Rightarrow> bool \<Rightarrow> cipherObj) option"
  cs_mac :: "(bytes \<Rightarrow> bytes) option"
  cs_aead :: "evp \<Rightarrow> bytes \<Rightarrow> bytes \<Rightarrow> cipherObj option"

definition aeadSM4 :: "evp \<Rightarrow> bytes \<Rightarrow> bytes \<Rightarrow> cipherObj option" where
  "aeadSM4 L key iv = map_option AEADObj (NewSm4AEADCipher L key iv)"

definition E2E_SM2KEYAGREEMENT_WITH_SM4_128_GCM_SM3 :: u16 where
  "E2E_SM2KEYAGREEMENT_WITH_SM4_128_GCM_SM3 = 0x002b"

definition E2E_SM2MLKEM768_WITH_SM4_128_GCM_SM3 :: u16 where
  "E2E_SM2MLKEM768_WITH_SM4_128_GCM_SM3 = 0x0031"

lemmas suite_ids =
  E2E_SM2KEYAGREEMENT_WITH_SM4_128_GCM_SM3_def E2E_SM2MLKEM768_WITH_SM4_128_GCM_SM3_def

definition suiteSM2 :: cipherSuite where
  "suiteSM2 = \<lparr>cs_id = E2E_SM2KEYAGREEMENT_WITH_SM4_128_GCM_SM3, cs_keyLen = 16, cs_macLen = 0,
     cs_ivLen = 4, cs_ka = SM2KA, cs_flags = suiteTLS12, cs_cipher = None, cs_mac = None,
     cs_aead = aeadSM4\<rparr>"

definition suiteSM2MLKEM :: cipherSuite where
  "suiteSM2MLKEM = \<lparr>cs_id = E2E_SM2MLKEM768_WITH_SM4_128_GCM_SM3, cs_keyLen = 16, cs_macLen = 0,
     cs_ivLen = 4, cs_ka = SM2MLKEMKA, cs_flags = suiteTLS12 OR suiteSM3, cs_cipher = None,
     cs_mac = None, cs_aead = aeadSM4\<rparr>"

fun cipherSuitesPreferenceOrder :: "build \<Rightarrow> u16 list" where
  "cipherSuitesPreferenceOrder DefaultBuild = [E2E_SM2KEYAGREEMENT_WITH_SM4_128_GCM_SM3]"
| "cipherSuitesPreferenceOrder SM2MLKEMBuild =
     [E2E_SM2MLKEM768_WITH_SM4_128_GCM_SM3] @ [E2E_SM2KEYAGREEMENT_WITH_SM4_128_GCM_SM3]"

definition cipherSuites :: "build \<Rightarrow> u16 \<Rightarrow> cipherSuite option" where
  "cipherSuites b =
     (let base = [E2E_SM2KEYAGREEMENT_WITH_SM4_128_GCM_SM3 \<mapsto> suiteSM2] in
      case b of DefaultBuild \<Rightarrow> base
      | SM2MLKEMBuild \<Rightarrow> base(E2E_SM2MLKEM768_WITH_SM4_128_GCM_SM3 \<mapsto> suiteSM2MLKEM))"

definition cipherSuiteByID :: "build \<Rightarrow> u16 \<Rightarrow> cipherSuite option" where
  "cipherSuiteByID b i = cipherSuites b i"

fun defaultCipherSuitesForConfig :: "build \<Rightarrow> config \<Rightarrow> u16 list \<Rightarrow> u16 list" where
  "defaultCipherSuitesForConfig DefaultBuild c suites = suites"
| "defaultCipherSuitesForConfig SM2MLKEMBuild c suites =
     (if c_EnableSM2MLKEM c then suites
      else filter (\<lambda>i. i \<noteq> E2E_SM2MLKEM768_WITH_SM4_128_GCM_SM3) suites)"

definition configCipherSuites :: "build \<Rightarrow> config \<Rightarrow> u16 list" where
  "configCipherSuites b c =
     (case c_CipherSuites c of
        None \<Rightarrow> defaultCipherSuitesForConfig b c (cipherSuitesPreferenceOrder b)
      | Some s \<Rightarrow> s)"

fun mutualCipherSuiteOld :: "build \<Rightarrow> u16 list \<Rightarrow> u16 \<Rightarrow> cipherSuite option" where
  "mutualCipherSuiteOld b [] want = None"
| "mutualCipherSuiteOld b (i # have) want =
     (if i = want then cipherSuiteByID b i else mutualCipherSuiteOld b have want)"

definition mutualCipherSuite :: "build \<Rightarrow> u16 list \<Rightarrow> u16 list \<Rightarrow> cipherSuite option" where
  "mutualCipherSuite b have want =
     (let picked = Intersection have want in
      if picked = 0 then None else cipherSuiteByID b picked)"

definition mutualSignatureScheme :: "u16 list \<Rightarrow> u16 list \<Rightarrow> u16" where
  "mutualSignatureScheme have want = Intersection have want"

section \<open>Selection\<close>

lemma Intersection_mem:
  "Intersection a b \<noteq> 0 \<Longrightarrow> Intersection a b \<in> set a \<and> Intersection a b \<in> set b"
  by (auto simp: Intersection_def split: option.splits dest: find_Some_in)

lemma Intersection_eq_0:
  "0 \<notin> set b \<Longrightarrow> Intersection a b = 0 \<longleftrightarrow> set a \<inter> set b = {}"
  by (auto simp: Intersection_def find_None split: option.splits dest: find_Some_in)

text \<open>
  The choice follows the order of the second list.  Two sides that each pass the peer's list
  second agree when both lists are filters of one common order.
\<close>

lemma find_filter: "find P (filter Q xs) = find (\<lambda>x. Q x \<and> P x) xs"
  by (induction xs) auto

lemma Intersection_filter:
  "Intersection (filter P xs) (filter Q xs) = (case find (\<lambda>v. P v \<and> Q v) xs of Some v \<Rightarrow> v | None \<Rightarrow> 0)"
proof -
  have "find (\<lambda>x. Q x \<and> x \<in> set (filter P xs)) ys = find (\<lambda>v. P v \<and> Q v) ys"
    if "set ys \<subseteq> set xs" for ys
    using that by (induction ys) auto
  then show ?thesis by (simp add: Intersection_def find_filter)
qed

lemma Intersection_filter_sym:
  "Intersection (filter P xs) (filter Q xs) = Intersection (filter Q xs) (filter P xs)"
  by (simp add: Intersection_filter conj_commute)

lemma mutualCipherSuiteOld_eq:
  "mutualCipherSuiteOld b have want = (if want \<in> set have then cipherSuiteByID b want else None)"
  by (induction b "have" want rule: mutualCipherSuiteOld.induct) auto

text \<open>Every suite of either build is filed under its own id and carries the SM4 AEAD.\<close>

lemma cipherSuiteByID_wf:
  assumes "cipherSuiteByID b i = Some s"
  shows "cs_id s = i" "i \<noteq> 0" "cs_keyLen s = 16" "cs_macLen s = 0" "cs_ivLen s = 4"
    "cs_cipher s = None" "cs_aead s = aeadSM4" "i \<in> set (cipherSuitesPreferenceOrder b)"
    "cs_ka s = (if i = E2E_SM2KEYAGREEMENT_WITH_SM4_128_GCM_SM3 then SM2KA else SM2MLKEMKA)"
  using assms
  by (auto simp: cipherSuiteByID_def cipherSuites_def suiteSM2_def suiteSM2MLKEM_def suite_ids Let_def
      split: build.splits if_splits)

lemma cipherSuiteByID_preference:
  "i \<in> set (cipherSuitesPreferenceOrder b) \<Longrightarrow> \<exists>s. cipherSuiteByID b i = Some s"
  by (cases b) (auto simp: cipherSuiteByID_def cipherSuites_def suite_ids Let_def)

lemma mutualCipherSuite_Some:
  "mutualCipherSuite b have want = Some s \<Longrightarrow> cs_id s = Intersection have want \<and> cs_id s \<in> set have \<inter> set want"
  using Intersection_mem [of "have" want] cipherSuiteByID_wf(1)
  by (auto simp: mutualCipherSuite_def Let_def split: if_splits)

end
