(* ===== verification/HandshakeMessage.thy ===== *)
theory HandshakeMessage
  imports Common
begin

text \<open>
  \<open>e2ewebsocket/handshake_message.go\<close>: the hello, key exchange and finished messages, their
  marshalling and parsing, and the dispatch on the message type of \<open>session.go\<close> and
  \<open>conn.go\<close>.  The byte builder and reader are \<open>golang.org/x/crypto/cryptobyte\<close>, a package
  outside the repository: they are the parameter \<open>cryptobyte\<close> of the codecs, and
  \<open>cryptobyte_ok\<close> is what its documentation promises.
\<close>

section \<open>The cryptobyte package\<close>

text \<open>
  A \<open>Builder\<close> is the bytes added so far, or \<open>None\<close> once it holds an error; a
  \<open>String\<close> is the bytes still to be read, and a read returns the value and the rest.
\<close>

type_synonym builder = "bytes option"

record cryptobyte =
  cb_AddUint8 :: "byte \<Rightarrow> builder \<Rightarrow> builder"
  cb_AddUint16 :: "u16 \<Rightarrow> builder \<Rightarrow> builder"
  cb_AddBytes :: "bytes \<Rightarrow> builder \<Rightarrow> builder"
  cb_SetError :: "builder \<Rightarrow> builder"
  cb_AddUint8LengthPrefixed :: "(builder \<Rightarrow> builder) \<Rightarrow> builder \<Rightarrow> builder"
  cb_AddUint16LengthPrefixed :: "(builder \<Rightarrow> builder) \<Rightarrow> builder \<Rightarrow> builder"
  cb_AddUint24LengthPrefixed :: "(builder \<Rightarrow> builder) \<Rightarrow> builder \<Rightarrow> builder"
  cb_Skip :: "nat \<Rightarrow> bytes \<Rightarrow> bytes option"
  cb_ReadUint16 :: "bytes \<Rightarrow> (u16 \<times> bytes) option"
  cb_ReadBytes :: "nat \<Rightarrow> bytes \<Rightarrow> (bytes \<times> bytes) option"
  cb_ReadUint8LengthPrefixed :: "bytes \<Rightarrow> (bytes \<times> bytes) option"
  cb_ReadUint16LengthPrefixed :: "bytes \<Rightarrow> (bytes \<times> bytes) option"
  cb_ReadUint24LengthPrefixed :: "bytes \<Rightarrow> (bytes \<times> bytes) option"

text \<open>Length prefixes are big-endian, and a content too long for its prefix is an error.\<close>

definition len24 :: "nat \<Rightarrow> bytes" where
  "len24 n = [of_nat (n div 65536), of_nat (n div 256), of_nat n]"

definition nat24 :: "byte \<Rightarrow> byte \<Rightarrow> byte \<Rightarrow> nat" where
  "nat24 a b c = 65536 * unat a + 256 * unat b + unat c"

lemma nat24_len24 [codec_simps]:
  assumes "n < 16777216"
  shows "nat24 (of_nat (n div 65536)) (of_nat (n div 256)) (of_nat n) = n"
proof -
  have "256 * (n div 256 mod 256) + n mod 256 = n mod 65536"
    using mod_mult2_eq [of n 256 256] by simp
  moreover have "65536 * (n div 65536) + n mod 65536 = n"
    by (rule mult_div_mod_eq)
  moreover have "n div 65536 mod 256 = n div 65536"
    using assms by (simp add: less_mult_imp_div_less)
  ultimately show ?thesis
    unfolding nat24_def unat_of_nat_byte by linarith
qed

definition prefixed :: "nat \<Rightarrow> (nat \<Rightarrow> bytes) \<Rightarrow> (builder \<Rightarrow> builder) \<Rightarrow> builder \<Rightarrow> builder" where
  "prefixed limit enc f b =
     (case b of None \<Rightarrow> None
      | Some xs \<Rightarrow> (case f (Some []) of None \<Rightarrow> None
          | Some c \<Rightarrow> if length c < limit then Some (xs @ enc (length c) @ c) else None))"

definition split_at :: "nat \<Rightarrow> bytes \<Rightarrow> (bytes \<times> bytes) option" where
  "split_at n s = (if n \<le> length s then Some (take n s, drop n s) else None)"

fun read_lp8 :: "bytes \<Rightarrow> (bytes \<times> bytes) option" where
  "read_lp8 (a # s) = split_at (unat a) s"
| "read_lp8 _ = None"

fun read_lp16 :: "bytes \<Rightarrow> (bytes \<times> bytes) option" where
  "read_lp16 (a # b # s) = split_at (nat16 a b) s"
| "read_lp16 _ = None"

fun read_lp24 :: "bytes \<Rightarrow> (bytes \<times> bytes) option" where
  "read_lp24 (a # b # c # s) = split_at (nat24 a b c) s"
| "read_lp24 _ = None"

fun read_be16 :: "bytes \<Rightarrow> (u16 \<times> bytes) option" where
  "read_be16 (a # b # s) = Some (join16 a b, s)"
| "read_be16 _ = None"

text \<open>The documented behaviour, as a package that has it.\<close>

definition doc_cryptobyte :: cryptobyte where
  "doc_cryptobyte = \<lparr>
     cb_AddUint8 = (\<lambda>x. map_option (\<lambda>xs. xs @ [x])),
     cb_AddUint16 = (\<lambda>w. map_option (\<lambda>xs. xs @ be16 w)),
     cb_AddBytes = (\<lambda>ys. map_option (\<lambda>xs. xs @ ys)),
     cb_SetError = (\<lambda>_. None),
     cb_AddUint8LengthPrefixed = prefixed 256 (\<lambda>n. [of_nat n]),
     cb_AddUint16LengthPrefixed = prefixed 65536 len16,
     cb_AddUint24LengthPrefixed = prefixed 16777216 len24,
     cb_Skip = (\<lambda>n s. map_option snd (split_at n s)),
     cb_ReadUint16 = read_be16,
     cb_ReadBytes = split_at,
     cb_ReadUint8LengthPrefixed = read_lp8,
     cb_ReadUint16LengthPrefixed = read_lp16,
     cb_ReadUint24LengthPrefixed = read_lp24\<rparr>"

definition cryptobyte_ok :: "cryptobyte \<Rightarrow> bool" where
  "cryptobyte_ok C \<longleftrightarrow>
     (\<forall>x b. cb_AddUint8 C x b = map_option (\<lambda>xs. xs @ [x]) b) \<and>
     (\<forall>w b. cb_AddUint16 C w b = map_option (\<lambda>xs. xs @ be16 w) b) \<and>
     (\<forall>ys b. cb_AddBytes C ys b = map_option (\<lambda>xs. xs @ ys) b) \<and>
     (\<forall>b. cb_SetError C b = None) \<and>
     (\<forall>f b. cb_AddUint8LengthPrefixed C f b = prefixed 256 (\<lambda>n. [of_nat n]) f b) \<and>
     (\<forall>f b. cb_AddUint16LengthPrefixed C f b = prefixed 65536 len16 f b) \<and>
     (\<forall>f b. cb_AddUint24LengthPrefixed C f b = prefixed 16777216 len24 f b) \<and>
     (\<forall>n s. cb_Skip C n s = map_option snd (split_at n s)) \<and>
     (\<forall>s. cb_ReadUint16 C s = read_be16 s) \<and>
     (\<forall>n s. cb_ReadBytes C n s = split_at n s) \<and>
     (\<forall>s. cb_ReadUint8LengthPrefixed C s = read_lp8 s) \<and>
     (\<forall>s. cb_ReadUint16LengthPrefixed C s = read_lp16 s) \<and>
     (\<forall>s. cb_ReadUint24LengthPrefixed C s = read_lp24 s)"

lemma cryptobyte_ok_doc [simp]: "cryptobyte_ok doc_cryptobyte"
  by (simp add: cryptobyte_ok_def doc_cryptobyte_def)

lemma cryptobyte_ok_eq: "cryptobyte_ok C \<Longrightarrow> C = doc_cryptobyte"
  by (cases C) (simp add: cryptobyte_ok_def doc_cryptobyte_def fun_eq_iff)

lemma cb_doc [simp]:
  "cb_AddUint8 doc_cryptobyte x b = map_option (\<lambda>xs. xs @ [x]) b"
  "cb_AddUint16 doc_cryptobyte w b = map_option (\<lambda>xs. xs @ be16 w) b"
  "cb_AddBytes doc_cryptobyte ys b = map_option (\<lambda>xs. xs @ ys) b"
  "cb_SetError doc_cryptobyte b = None"
  "cb_AddUint8LengthPrefixed doc_cryptobyte f b = prefixed 256 (\<lambda>n. [of_nat n]) f b"
  "cb_AddUint16LengthPrefixed doc_cryptobyte f b = prefixed 65536 len16 f b"
  "cb_AddUint24LengthPrefixed doc_cryptobyte f b = prefixed 16777216 len24 f b"
  "cb_Skip doc_cryptobyte n s = map_option snd (split_at n s)"
  "cb_ReadUint16 doc_cryptobyte s = read_be16 s"
  "cb_ReadBytes doc_cryptobyte n s = split_at n s"
  "cb_ReadUint8LengthPrefixed doc_cryptobyte s = read_lp8 s"
  "cb_ReadUint16LengthPrefixed doc_cryptobyte s = read_lp16 s"
  "cb_ReadUint24LengthPrefixed doc_cryptobyte s = read_lp24 s"
  by (simp_all add: doc_cryptobyte_def)

section \<open>The messages\<close>

record helloMsg =
  h_original :: "bytes option"
  h_random :: bytes
  h_cipherSuites :: "u16 list"
  h_supportedVersions :: "u16 list option"
  h_supportedCurves :: "u16 list"
  h_supportedSignatureAlgorithms :: "u16 list"
  h_secureRenegotiationSupported :: bool
  h_secureRenegotiation :: bytes
  h_extensions :: "u16 list"

definition slice :: "'a list option \<Rightarrow> 'a list" where
  "slice x = (case x of None \<Rightarrow> [] | Some xs \<Rightarrow> xs)"

lemma slice_simps [simp]: "slice None = []" "slice (Some xs) = xs"
  by (simp_all add: slice_def)

fun addUint16s :: "cryptobyte \<Rightarrow> u16 list \<Rightarrow> builder \<Rightarrow> builder" where
  "addUint16s C [] b = b"
| "addUint16s C (w # ws) b = addUint16s C ws (cb_AddUint16 C w b)"

definition addBytesWithLength :: "cryptobyte \<Rightarrow> bytes \<Rightarrow> nat \<Rightarrow> builder \<Rightarrow> builder" where
  "addBytesWithLength C v n b = (if length v \<noteq> n then cb_SetError C b else cb_AddBytes C v b)"

text \<open>The three extensions, each left out when its list is empty.\<close>

definition addVersionsExt :: "cryptobyte \<Rightarrow> u16 list \<Rightarrow> builder \<Rightarrow> builder" where
  "addVersionsExt C vs b =
     (if 0 < length vs
      then cb_AddUint16LengthPrefixed C (cb_AddUint8LengthPrefixed C (addUint16s C vs))
             (cb_AddUint16 C extensionSupportedVersions b)
      else b)"

definition addListExt :: "cryptobyte \<Rightarrow> u16 \<Rightarrow> u16 list \<Rightarrow> builder \<Rightarrow> builder" where
  "addListExt C ext vs b =
     (if 0 < length vs
      then cb_AddUint16LengthPrefixed C (cb_AddUint16LengthPrefixed C (addUint16s C vs))
             (cb_AddUint16 C ext b)
      else b)"

definition helloMsg_exts :: "cryptobyte \<Rightarrow> helloMsg \<Rightarrow> builder" where
  "helloMsg_exts C m =
     addListExt C extensionSignatureAlgorithms (h_supportedSignatureAlgorithms m)
       (addListExt C extensionSupportedCurves (h_supportedCurves m)
         (addVersionsExt C (slice (h_supportedVersions m)) (Some [])))"

definition helloMsg_body :: "cryptobyte \<Rightarrow> helloMsg \<Rightarrow> u16 \<Rightarrow> bytes \<Rightarrow> builder \<Rightarrow> builder" where
  "helloMsg_body C m v0 extBytes b =
     (let b = cb_AddUint16 C v0 b;
          b = addBytesWithLength C (h_random m) 32 b;
          b = cb_AddUint16LengthPrefixed C (addUint16s C (h_cipherSuites m)) b
      in if 0 < length extBytes then cb_AddUint16LengthPrefixed C (cb_AddBytes C extBytes) b else b)"

definition helloMsg_marshal :: "cryptobyte \<Rightarrow> helloMsg \<Rightarrow> bytes res" where
  "helloMsg_marshal C m =
     bind_res (of_option ErrMarshal (helloMsg_exts C m)) (\<lambda>extBytes.
     case slice (h_supportedVersions m) of
       [] \<Rightarrow> Panic ''index out of range''
     | v0 # _ \<Rightarrow> of_option ErrMarshal
         (cb_AddUint24LengthPrefixed C (helloMsg_body C m v0 extBytes)
           (cb_AddUint8 C typeHelloMsg (Some []))))"

section \<open>Parsing\<close>

text \<open>
  The read loops run until the input is empty; every successful read of the package shortens
  it, so the length of the input is fuel enough (\<open>readUint16s_eq\<close> below).
\<close>

fun readUint16s :: "cryptobyte \<Rightarrow> nat \<Rightarrow> bytes \<Rightarrow> u16 list option" where
  "readUint16s C fuel s =
     (if s = [] then Some []
      else case fuel of 0 \<Rightarrow> None
        | Suc fuel \<Rightarrow>
            (case cb_ReadUint16 C s of None \<Rightarrow> None
             | Some (w, s') \<Rightarrow> map_option ((#) w) (readUint16s C fuel s')))"

declare readUint16s.simps [simp del]

text \<open>
  One extension: \<open>None\<close> is the parser's \<open>return false\<close>.  An unknown extension is skipped
  before the check that its data was used up.
\<close>

definition readListExt :: "cryptobyte \<Rightarrow> (bytes \<Rightarrow> (bytes \<times> bytes) option) \<Rightarrow> bytes \<Rightarrow> u16 list option" where
  "readListExt C rd extData =
     (case rd extData of None \<Rightarrow> None
      | Some (xs, rest) \<Rightarrow>
          if xs = [] then None
          else (case readUint16s C (length xs) xs of None \<Rightarrow> None
                | Some ws \<Rightarrow> if rest \<noteq> [] then None else Some ws))"

definition readExtension :: "cryptobyte \<Rightarrow> u16 \<Rightarrow> bytes \<Rightarrow> helloMsg \<Rightarrow> helloMsg option" where
  "readExtension C ext extData m =
     (if ext = extensionSupportedCurves then
        map_option (\<lambda>ws. m\<lparr>h_supportedCurves := h_supportedCurves m @ ws\<rparr>)
          (readListExt C (cb_ReadUint16LengthPrefixed C) extData)
      else if ext = extensionSupportedVersions then
        map_option (\<lambda>ws. m\<lparr>h_supportedVersions := Some (slice (h_supportedVersions m) @ ws)\<rparr>)
          (readListExt C (cb_ReadUint8LengthPrefixed C) extData)
      else if ext = extensionSignatureAlgorithms then
        map_option (\<lambda>ws. m\<lparr>h_supportedSignatureAlgorithms := h_supportedSignatureAlgorithms m @ ws\<rparr>)
          (readListExt C (cb_ReadUint16LengthPrefixed C) extData)
      else Some m)"

fun readExtensions :: "cryptobyte \<Rightarrow> nat \<Rightarrow> bytes \<Rightarrow> u16 list \<Rightarrow> helloMsg \<Rightarrow> helloMsg option" where
  "readExtensions C fuel s seen m =
     (if s = [] then Some m
      else case fuel of 0 \<Rightarrow> None
        | Suc fuel \<Rightarrow>
            (case cb_ReadUint16 C s of None \<Rightarrow> None
             | Some (ext, s1) \<Rightarrow>
                 (case cb_ReadUint16LengthPrefixed C s1 of None \<Rightarrow> None
                  | Some (extData, s2) \<Rightarrow>
                      if ext \<in> set seen then None
                      else (case readExtension C ext extData
                                   (m\<lparr>h_extensions := h_extensions m @ [ext]\<rparr>) of
                              None \<Rightarrow> None
                            | Some m' \<Rightarrow> readExtensions C fuel s2 (ext # seen) m'))))"

declare readExtensions.simps [simp del]

definition hello_init :: "bytes \<Rightarrow> bytes \<Rightarrow> u16 list \<Rightarrow> u16 \<Rightarrow> helloMsg" where
  "hello_init data random suites v0 =
     \<lparr>h_original = Some data, h_random = random, h_cipherSuites = suites,
      h_supportedVersions = Some [v0], h_supportedCurves = [],
      h_supportedSignatureAlgorithms = [],
      h_secureRenegotiationSupported = scsvRenegotiation \<in> set suites,
      h_secureRenegotiation = [], h_extensions = []\<rparr>"

definition helloMsg_unmarshal :: "cryptobyte \<Rightarrow> bytes \<Rightarrow> helloMsg option" where
  "helloMsg_unmarshal C data =
     Option.bind (cb_Skip C 4 data) (\<lambda>s.
     Option.bind (cb_ReadUint16 C s) (\<lambda>(v0, s).
     Option.bind (cb_ReadBytes C 32 s) (\<lambda>(random, s).
     Option.bind (cb_ReadUint16LengthPrefixed C s) (\<lambda>(cs, s).
     Option.bind (readUint16s C (length cs) cs) (\<lambda>suites.
     let m = hello_init data random suites v0 in
     if s = [] then Some m
     else Option.bind (cb_ReadUint16LengthPrefixed C s) (\<lambda>(exts, s).
       if s \<noteq> [] then None
       else readExtensions C (length exts) exts [] m))))))"

text \<open>The key exchange message writes its length by hand and does not read it back.\<close>

definition keyExchangeMsg_marshal :: "bytes \<Rightarrow> bytes" where
  "keyExchangeMsg_marshal key = typeKeyExchange # len24 (length key) @ key"

definition keyExchangeMsg_unmarshal :: "bytes \<Rightarrow> bytes option" where
  "keyExchangeMsg_unmarshal data = (if length data < 4 then None else Some (drop 4 data))"

definition finishedMsg_marshal :: "cryptobyte \<Rightarrow> bytes \<Rightarrow> bytes res" where
  "finishedMsg_marshal C verifyData =
     of_option ErrMarshal
       (cb_AddUint24LengthPrefixed C (cb_AddBytes C verifyData)
         (cb_AddUint8 C typeFinished (Some [])))"

definition finishedMsg_unmarshal :: "cryptobyte \<Rightarrow> bytes \<Rightarrow> bytes option" where
  "finishedMsg_unmarshal C data =
     (case cb_Skip C 1 data of None \<Rightarrow> None
      | Some s \<Rightarrow> (case cb_ReadUint24LengthPrefixed C s of None \<Rightarrow> None
      | Some (v, s) \<Rightarrow> if s = [] then Some v else None))"

section \<open>Dispatch on the message type\<close>

datatype handshakeMessage = Hello helloMsg | KeyExchange bytes | Finished bytes

fun marshal :: "cryptobyte \<Rightarrow> handshakeMessage \<Rightarrow> bytes res" where
  "marshal C (Hello m) = helloMsg_marshal C m"
| "marshal C (KeyExchange key) = Ok (keyExchangeMsg_marshal key)"
| "marshal C (Finished v) = finishedMsg_marshal C v"

definition unmarshalAs :: "cryptobyte \<Rightarrow> byte \<Rightarrow> bytes \<Rightarrow> handshakeMessage option" where
  "unmarshalAs C t data =
     (if t = typeHelloMsg then map_option Hello (helloMsg_unmarshal C data)
      else if t = typeKeyExchange then map_option KeyExchange (keyExchangeMsg_unmarshal data)
      else if t = typeFinished then map_option Finished (finishedMsg_unmarshal C data)
      else None)"

text \<open>
  \<open>unmarshalHandshakeMessage\<close> of \<open>session.go\<close> indexes \<open>data[0]\<close> unchecked and appends to
  the transcript, when there is one, after a successful parse; its two error returns are the
  same value.
\<close>

definition unmarshalHandshakeMessage ::
  "cryptobyte \<Rightarrow> bytes \<Rightarrow> bytes option \<Rightarrow> (handshakeMessage \<times> bytes option) res" where
  "unmarshalHandshakeMessage C data transcript =
     (case data of
        [] \<Rightarrow> Panic ''index out of range''
      | t # _ \<Rightarrow> (case unmarshalAs C t data of
            None \<Rightarrow> Fail AlertUnexpectedMessage
          | Some m \<Rightarrow> Ok (m, map_option (\<lambda>h. h @ data) transcript)))"

definition parsePlaintextHandshakeMessage :: "cryptobyte \<Rightarrow> bytes \<Rightarrow> handshakeMessage option" where
  "parsePlaintextHandshakeMessage C data =
     (case data of [] \<Rightarrow> None | t # _ \<Rightarrow> unmarshalAs C t data)"

definition isPlaintextHandshakeMessage :: "cryptobyte \<Rightarrow> bytes \<Rightarrow> bool" where
  "isPlaintextHandshakeMessage C data \<longleftrightarrow> parsePlaintextHandshakeMessage C data \<noteq> None"

definition isPlaintextHelloRecord :: "cryptobyte \<Rightarrow> bytes \<Rightarrow> bool" where
  "isPlaintextHelloRecord C content =
     (if length content < 2 \<or> recordType_of (hd content) \<noteq> RecordHandshake then False
      else case parsePlaintextHandshakeMessage C (tl content) of
             Some (Hello _) \<Rightarrow> True | _ \<Rightarrow> False)"

text \<open>\<open>transcriptMsg\<close>: the original bytes when the message has them, its encoding if not.\<close>

definition originalBytes :: "handshakeMessage \<Rightarrow> bytes option" where
  "originalBytes m = (case m of Hello h \<Rightarrow> h_original h | _ \<Rightarrow> None)"

definition transcriptMsg :: "cryptobyte \<Rightarrow> handshakeMessage \<Rightarrow> bytes \<Rightarrow> bytes res" where
  "transcriptMsg C msg h =
     (case originalBytes msg of
        Some orig \<Rightarrow> Ok (h @ orig)
      | None \<Rightarrow> bind_res (marshal C msg) (\<lambda>data. Ok (h @ data)))"

section \<open>Lists of 16-bit values\<close>

definition u16s :: "u16 list \<Rightarrow> bytes" where
  "u16s ws = concat (map be16 ws)"

lemma u16s_simps [simp]: "u16s [] = []" "u16s (w # ws) = be16 w @ u16s ws"
  by (simp_all add: u16s_def)

lemma length_u16s [simp]: "length (u16s ws) = 2 * length ws"
  by (induction ws) auto

lemma u16s_eq_Nil [simp]: "u16s ws = [] \<longleftrightarrow> ws = []"
  by (cases ws) (auto simp: be16_def)

lemma addUint16s_doc: "addUint16s doc_cryptobyte ws (Some xs) = Some (xs @ u16s ws)"
  by (induction ws arbitrary: xs) auto

lemma addUint16s_None: "addUint16s doc_cryptobyte ws None = None"
  by (induction ws) auto

fun words16 :: "bytes \<Rightarrow> u16 list option" where
  "words16 [] = Some []"
| "words16 [a] = None"
| "words16 (a # b # s) = map_option ((#) (join16 a b)) (words16 s)"

lemma words16_u16s [simp]: "words16 (u16s ws) = Some ws"
  by (induction ws) (auto simp: be16_def codec_simps)

lemma words16_Some: "words16 s = Some ws \<Longrightarrow> s = u16s ws"
  by (induction s arbitrary: ws rule: words16.induct) (auto simp: be16_def codec_simps)

lemma readUint16s_eq: "length s \<le> n \<Longrightarrow> readUint16s doc_cryptobyte n s = words16 s"
proof (induction s arbitrary: n rule: words16.induct)
  case 1
  show ?case by (subst readUint16s.simps) simp
next
  case (2 a)
  then show ?case by (subst readUint16s.simps) (auto split: nat.splits)
next
  case (3 a b s)
  then obtain n' where "n = Suc n'" "length s \<le> n'"
    by (cases n) auto
  with 3 show ?case by (subst readUint16s.simps) simp
qed

section \<open>The encoding of a hello\<close>

definition ext_block :: "u16 \<Rightarrow> bytes \<Rightarrow> bytes" where
  "ext_block ext content = be16 ext @ len16 (length content) @ content"

definition list_ext :: "u16 \<Rightarrow> u16 list \<Rightarrow> bytes" where
  "list_ext ext ws = (if ws = [] then [] else ext_block ext (len16 (2 * length ws) @ u16s ws))"

definition versions_ext :: "u16 list \<Rightarrow> bytes" where
  "versions_ext ws =
     (if ws = [] then [] else ext_block extensionSupportedVersions (of_nat (2 * length ws) # u16s ws))"

definition hello_exts :: "helloMsg \<Rightarrow> bytes" where
  "hello_exts m =
     versions_ext (slice (h_supportedVersions m)) @
     list_ext extensionSupportedCurves (h_supportedCurves m) @
     list_ext extensionSignatureAlgorithms (h_supportedSignatureAlgorithms m)"

definition hello_body :: "helloMsg \<Rightarrow> bytes" where
  "hello_body m =
     be16 (hd (slice (h_supportedVersions m))) @ h_random m @
     (len16 (2 * length (h_cipherSuites m)) @ u16s (h_cipherSuites m)) @
     (len16 (length (hello_exts m)) @ hello_exts m)"

definition hello_bytes :: "helloMsg \<Rightarrow> bytes" where
  "hello_bytes m = typeHelloMsg # len24 (length (hello_body m)) @ hello_body m"

text \<open>What a hello needs to have an encoding: a 32-byte random and lists that fit.\<close>

definition hello_fits :: "helloMsg \<Rightarrow> bool" where
  "hello_fits m \<longleftrightarrow>
     length (h_random m) = 32 \<and> length (slice (h_supportedVersions m)) < 128 \<and>
     length (h_supportedCurves m) < 32767 \<and>
     length (h_supportedSignatureAlgorithms m) < 32767 \<and>
     length (h_cipherSuites m) < 32768 \<and> length (hello_exts m) < 65536"

lemma prefixed_simps [simp]:
  "prefixed n e f None = None"
  "f (Some []) = Some c \<Longrightarrow> prefixed n e f (Some xs) =
     (if length c < n then Some (xs @ e (length c) @ c) else None)"
  "f (Some []) = None \<Longrightarrow> prefixed n e f b = None"
  by (auto simp: prefixed_def split: option.splits)

lemma addListExt_doc:
  "addListExt doc_cryptobyte ext ws (Some xs) =
     (if length ws < 32767 then Some (xs @ list_ext ext ws) else None)"
  by (auto simp: addListExt_def list_ext_def ext_block_def addUint16s_doc prefixed_def)

lemma addListExt_None: "addListExt doc_cryptobyte ext ws None = None"
  by (auto simp: addListExt_def)

lemma addVersionsExt_doc:
  "addVersionsExt doc_cryptobyte ws (Some xs) =
     (if length ws < 128 then Some (xs @ versions_ext ws) else None)"
  by (auto simp: addVersionsExt_def versions_ext_def ext_block_def addUint16s_doc prefixed_def)

lemma helloMsg_exts_doc:
  "helloMsg_exts doc_cryptobyte m =
     (if length (slice (h_supportedVersions m)) < 128 \<and> length (h_supportedCurves m) < 32767 \<and>
         length (h_supportedSignatureAlgorithms m) < 32767
      then Some (hello_exts m) else None)"
  by (auto simp: helloMsg_exts_def hello_exts_def addVersionsExt_doc addListExt_doc addListExt_None)

lemma hello_exts_nonempty:
  "slice (h_supportedVersions m) \<noteq> [] \<Longrightarrow> hello_exts m \<noteq> []"
  by (simp add: hello_exts_def versions_ext_def ext_block_def be16_def)

lemma helloMsg_body_doc:
  assumes "slice (h_supportedVersions m) = v0 # vs"
  shows "helloMsg_body doc_cryptobyte m v0 (hello_exts m) (Some []) =
    (if length (h_random m) = 32 \<and> length (h_cipherSuites m) < 32768 \<and> length (hello_exts m) < 65536
     then Some (hello_body m) else None)"
  using hello_exts_nonempty [of m] assms
  by (auto simp: helloMsg_body_def addBytesWithLength_def addUint16s_doc hello_body_def prefixed_def Let_def)

lemma hello_body_bound:
  "hello_fits m \<Longrightarrow> length (hello_body m) < 16777216"
  by (simp add: hello_fits_def hello_body_def)

theorem helloMsg_marshal_doc:
  "helloMsg_marshal doc_cryptobyte m =
     (if length (slice (h_supportedVersions m)) < 128 \<and> length (h_supportedCurves m) < 32767 \<and>
         length (h_supportedSignatureAlgorithms m) < 32767 \<and> slice (h_supportedVersions m) = []
      then Panic ''index out of range''
      else if hello_fits m then Ok (hello_bytes m) else Fail ErrMarshal)"
proof (cases "slice (h_supportedVersions m)")
  case Nil
  then show ?thesis
    by (auto simp: helloMsg_marshal_def helloMsg_exts_doc hello_fits_def)
next
  case (Cons v0 vs)
  then show ?thesis
    using hello_body_bound [of m]
    by (auto simp: helloMsg_marshal_def helloMsg_exts_doc helloMsg_body_doc hello_fits_def
        hello_bytes_def prefixed_def split: option.splits)
qed

section \<open>Reading a hello back\<close>

lemma split_at_append [simp]: "split_at (length xs) (xs @ ys) = Some (xs, ys)"
  by (simp add: split_at_def)

lemma split_at_exact: "length xs = n \<Longrightarrow> split_at n (xs @ ys) = Some (xs, ys)"
  by auto

lemma read_lp16_block:
  "length c < 65536 \<Longrightarrow> read_lp16 (len16 (length c) @ c @ rest) = Some (c, rest)"
  by (simp add: len16_def codec_simps)

lemma read_lp8_block:
  "length c < 256 \<Longrightarrow> read_lp8 (of_nat (length c) # c @ rest) = Some (c, rest)"
  by (simp add: unat_of_nat_byte)

lemma read_be16_be16 [simp]: "read_be16 (be16 w @ rest) = Some (w, rest)"
  by (simp add: be16_def codec_simps)

lemma readListExt_u16s:
  assumes "ws \<noteq> []" "rd extData = Some (u16s ws, [])"
  shows "readListExt doc_cryptobyte rd extData = Some ws"
  using assms by (simp add: readListExt_def readUint16s_eq)

text \<open>One step of the extension loop on an encoded extension.\<close>

lemma readExtensions_block:
  assumes "length content < 65536" "ext \<notin> set seen"
    "readExtension doc_cryptobyte ext content (m\<lparr>h_extensions := h_extensions m @ [ext]\<rparr>) = Some m'"
  shows "readExtensions doc_cryptobyte (Suc fuel) (ext_block ext content @ rest) seen m =
         readExtensions doc_cryptobyte fuel rest (ext # seen) m'"
  using assms by (subst readExtensions.simps)
    (simp add: ext_block_def read_lp16_block, simp add: be16_def)

lemma readExtensions_Nil [simp]: "readExtensions C fuel [] seen m = Some m"
  by (subst readExtensions.simps) simp

lemma readExtension_versions:
  assumes "ws \<noteq> []" "length ws < 128"
  shows "readExtension doc_cryptobyte extensionSupportedVersions (of_nat (2 * length ws) # u16s ws) m =
     Some (m\<lparr>h_supportedVersions := Some (slice (h_supportedVersions m) @ ws)\<rparr>)"
proof -
  have "read_lp8 (of_nat (2 * length ws) # u16s ws) = Some (u16s ws, [])"
    using read_lp8_block [of "u16s ws" "[]"] assms by simp
  then show ?thesis
    using assms by (simp add: readExtension_def readListExt_u16s wire_consts)
qed

lemma readExtension_list:
  assumes "ws \<noteq> []" "length ws < 32767"
  shows "readExtension doc_cryptobyte extensionSupportedCurves (len16 (2 * length ws) @ u16s ws) m =
        Some (m\<lparr>h_supportedCurves := h_supportedCurves m @ ws\<rparr>)"
    and "readExtension doc_cryptobyte extensionSignatureAlgorithms (len16 (2 * length ws) @ u16s ws) m =
        Some (m\<lparr>h_supportedSignatureAlgorithms := h_supportedSignatureAlgorithms m @ ws\<rparr>)"
proof -
  have "read_lp16 (len16 (2 * length ws) @ u16s ws) = Some (u16s ws, [])"
    using read_lp16_block [of "u16s ws" "[]"] assms by simp
  then show "readExtension doc_cryptobyte extensionSupportedCurves (len16 (2 * length ws) @ u16s ws) m =
        Some (m\<lparr>h_supportedCurves := h_supportedCurves m @ ws\<rparr>)"
    and "readExtension doc_cryptobyte extensionSignatureAlgorithms (len16 (2 * length ws) @ u16s ws) m =
        Some (m\<lparr>h_supportedSignatureAlgorithms := h_supportedSignatureAlgorithms m @ ws\<rparr>)"
    using assms by (simp_all add: readExtension_def readListExt_u16s wire_consts)
qed

text \<open>One step of the loop on each of the three encoded extensions.\<close>

lemma readExtensions_versions_ext:
  assumes "ws \<noteq> []" "length ws < 128" "extensionSupportedVersions \<notin> set seen"
  shows "readExtensions doc_cryptobyte (Suc fuel) (versions_ext ws @ rest) seen m =
    readExtensions doc_cryptobyte fuel rest (extensionSupportedVersions # seen)
      (m\<lparr>h_extensions := h_extensions m @ [extensionSupportedVersions],
         h_supportedVersions := Some (slice (h_supportedVersions m) @ ws)\<rparr>)"
  using readExtensions_block [OF _ assms(3) readExtension_versions [OF assms(1,2)]] assms
  by (simp only: versions_ext_def if_False) simp

lemma readExtensions_curves_ext:
  assumes "ws \<noteq> []" "length ws < 32767" "extensionSupportedCurves \<notin> set seen"
  shows "readExtensions doc_cryptobyte (Suc fuel) (list_ext extensionSupportedCurves ws @ rest) seen m =
    readExtensions doc_cryptobyte fuel rest (extensionSupportedCurves # seen)
      (m\<lparr>h_extensions := h_extensions m @ [extensionSupportedCurves],
         h_supportedCurves := h_supportedCurves m @ ws\<rparr>)"
  using readExtensions_block [OF _ assms(3) readExtension_list(1) [OF assms(1,2)]] assms
  by (simp only: list_ext_def if_False) simp

lemma readExtensions_sigalgs_ext:
  assumes "ws \<noteq> []" "length ws < 32767" "extensionSignatureAlgorithms \<notin> set seen"
  shows "readExtensions doc_cryptobyte (Suc fuel) (list_ext extensionSignatureAlgorithms ws) seen m =
    Some (m\<lparr>h_extensions := h_extensions m @ [extensionSignatureAlgorithms],
         h_supportedSignatureAlgorithms := h_supportedSignatureAlgorithms m @ ws\<rparr>)"
  using readExtensions_block [OF _ assms(3) readExtension_list(2) [OF assms(1,2)], where rest = "[]"] assms
  by (simp only: list_ext_def if_False) simp

text \<open>What parsing the encoding of \<open>m\<close> gives.\<close>

definition hello_readback :: "helloMsg \<Rightarrow> helloMsg" where
  "hello_readback m = \<lparr>
     h_original = Some (hello_bytes m), h_random = h_random m, h_cipherSuites = h_cipherSuites m,
     h_supportedVersions =
       Some (hd (slice (h_supportedVersions m)) # slice (h_supportedVersions m)),
     h_supportedCurves = h_supportedCurves m,
     h_supportedSignatureAlgorithms = h_supportedSignatureAlgorithms m,
     h_secureRenegotiationSupported = scsvRenegotiation \<in> set (h_cipherSuites m),
     h_secureRenegotiation = [],
     h_extensions = [extensionSupportedVersions] @
       (if h_supportedCurves m = [] then [] else [extensionSupportedCurves]) @
       (if h_supportedSignatureAlgorithms m = [] then [] else [extensionSignatureAlgorithms])\<rparr>"

lemma readExtensions_hello:
  assumes fits: "hello_fits m" and vs: "slice (h_supportedVersions m) \<noteq> []"
    and m0: "h_supportedVersions m0 = Some [v0]" "h_supportedCurves m0 = []"
      "h_supportedSignatureAlgorithms m0 = []" "h_extensions m0 = []"
    and n: "3 \<le> n"
  shows "readExtensions doc_cryptobyte n (hello_exts m) [] m0 =
    Some (m0\<lparr>h_supportedVersions := Some (v0 # slice (h_supportedVersions m)),
             h_supportedCurves := h_supportedCurves m,
             h_supportedSignatureAlgorithms := h_supportedSignatureAlgorithms m,
             h_extensions := h_extensions (hello_readback m)\<rparr>)"
proof -
  obtain k where k: "n = Suc (Suc (Suc k))" using n by (auto simp: numeral_3_eq_3 Suc_le_eq less_iff_Suc_add)
  have lens: "length (slice (h_supportedVersions m)) < 128" "length (h_supportedCurves m) < 32767"
    "length (h_supportedSignatureAlgorithms m) < 32767"
    using fits by (auto simp: hello_fits_def)
  have codes: "extensionSupportedCurves \<noteq> extensionSupportedVersions"
    "extensionSignatureAlgorithms \<noteq> extensionSupportedVersions"
    "extensionSignatureAlgorithms \<noteq> extensionSupportedCurves"
    by (simp_all add: wire_consts)
  show ?thesis
    unfolding k hello_exts_def using vs lens m0 codes
    by (cases "h_supportedCurves m = []"; cases "h_supportedSignatureAlgorithms m = []";
        simp add: readExtensions_versions_ext readExtensions_versions_ext [where rest = "[]", simplified]
          readExtensions_curves_ext readExtensions_curves_ext [where rest = "[]", simplified]
          readExtensions_sigalgs_ext
          list_ext_def [of _ "[]"] hello_readback_def)
qed

theorem helloMsg_unmarshal_bytes:
  assumes fits: "hello_fits m" and vs: "slice (h_supportedVersions m) \<noteq> []"
  shows "helloMsg_unmarshal doc_cryptobyte (hello_bytes m) = Some (hello_readback m)"
proof -
  have r: "length (h_random m) = 32" "length (h_cipherSuites m) < 32768" "length (hello_exts m) < 65536"
    using fits by (auto simp: hello_fits_def)
  have skip: "split_at 4 (hello_bytes m) = Some (typeHelloMsg # len24 (length (hello_body m)), hello_body m)"
    unfolding hello_bytes_def using split_at_exact [of "typeHelloMsg # len24 (length (hello_body m))" 4]
    by (simp add: len24_def)
  have suites: "read_lp16 (len16 (2 * length (h_cipherSuites m)) @ u16s (h_cipherSuites m) @ rest) =
      Some (u16s (h_cipherSuites m), rest)" for rest
    using read_lp16_block [of "u16s (h_cipherSuites m)" rest] r by simp
  have exts: "read_lp16 (len16 (length (hello_exts m)) @ hello_exts m) = Some (hello_exts m, [])"
    using read_lp16_block [of "hello_exts m" "[]"] r by simp
  have n3: "3 \<le> length (hello_exts m)"
    using vs by (cases "slice (h_supportedVersions m)")
      (auto simp: hello_exts_def versions_ext_def ext_block_def)
  show ?thesis
    using skip suites exts r n3 readExtensions_hello [OF fits vs _ _ _ _ n3]
    by (simp add: helloMsg_unmarshal_def hello_body_def split_at_exact readUint16s_eq len16_def
        hello_init_def hello_readback_def)
qed

section \<open>The other messages and the dispatch\<close>

lemma finishedMsg_marshal_doc:
  "finishedMsg_marshal doc_cryptobyte v =
     (if length v < 16777216 then Ok (typeFinished # len24 (length v) @ v) else Fail ErrMarshal)"
  by (simp add: finishedMsg_marshal_def)

lemma read_lp24_block:
  "length c < 16777216 \<Longrightarrow> read_lp24 (len24 (length c) @ c @ rest) = Some (c, rest)"
  by (simp add: len24_def codec_simps)

lemma finishedMsg_unmarshal_bytes:
  assumes "length v < 16777216"
  shows "finishedMsg_unmarshal doc_cryptobyte (typeFinished # len24 (length v) @ v) = Some v"
proof -
  have "split_at 1 (typeFinished # len24 (length v) @ v) = Some ([typeFinished], len24 (length v) @ v)"
    using split_at_exact [of "[typeFinished]" 1] by simp
  then show ?thesis
    using read_lp24_block [OF assms, of "[]"] by (simp add: finishedMsg_unmarshal_def)
qed

lemma keyExchangeMsg_roundtrip [simp]:
  "keyExchangeMsg_unmarshal (keyExchangeMsg_marshal key) = Some key"
  by (simp add: keyExchangeMsg_unmarshal_def keyExchangeMsg_marshal_def len24_def)

text \<open>What the receiver sees of a message.\<close>

fun readback :: "handshakeMessage \<Rightarrow> handshakeMessage" where
  "readback (Hello m) = Hello (hello_readback m)"
| "readback m = m"

lemma hello_bytes_Ok:
  "helloMsg_marshal doc_cryptobyte m = Ok d \<Longrightarrow>
     hello_fits m \<and> slice (h_supportedVersions m) \<noteq> [] \<and> d = hello_bytes m"
  by (auto simp: helloMsg_marshal_doc hello_fits_def split: if_splits)

lemma unmarshalAs_marshal:
  assumes "marshal doc_cryptobyte msg = Ok d"
  shows "d \<noteq> [] \<and> unmarshalAs doc_cryptobyte (hd d) d = Some (readback msg)"
proof (cases msg)
  case (Hello m)
  then have "hello_fits m" "slice (h_supportedVersions m) \<noteq> []" "d = hello_bytes m"
    using hello_bytes_Ok assms by auto
  then show ?thesis
    using Hello helloMsg_unmarshal_bytes [of m] by (simp add: unmarshalAs_def hello_bytes_def)
next
  case (KeyExchange key)
  then show ?thesis
    using assms keyExchangeMsg_roundtrip [of key]
    by (auto simp: unmarshalAs_def keyExchangeMsg_marshal_def wire_consts)
next
  case (Finished v)
  then show ?thesis
    using assms finishedMsg_unmarshal_bytes [of v]
    by (auto simp: unmarshalAs_def finishedMsg_marshal_doc wire_consts split: if_splits)
qed

text \<open>Every hello the parser accepts.\<close>

lemma readExtension_frame:
  "readExtension C ext d m = Some m' \<Longrightarrow>
     h_extensions m' = h_extensions m \<and> h_random m' = h_random m \<and> h_original m' = h_original m \<and>
     h_cipherSuites m' = h_cipherSuites m \<and>
     h_secureRenegotiation m' = h_secureRenegotiation m \<and>
     h_secureRenegotiationSupported m' = h_secureRenegotiationSupported m \<and>
     (\<exists>ws. slice (h_supportedVersions m') = slice (h_supportedVersions m) @ ws) \<and>
     (h_supportedVersions m \<noteq> None \<longrightarrow> h_supportedVersions m' \<noteq> None)"
  by (auto simp: readExtension_def split: if_splits)

lemma readExtensions_inv:
  assumes "readExtensions C n s seen m = Some m'"
    and "distinct (h_extensions m)" "set (h_extensions m) = set seen"
  shows "distinct (h_extensions m') \<and> h_random m' = h_random m \<and> h_original m' = h_original m \<and>
    h_cipherSuites m' = h_cipherSuites m \<and>
    h_secureRenegotiation m' = h_secureRenegotiation m \<and>
    h_secureRenegotiationSupported m' = h_secureRenegotiationSupported m \<and>
    (\<exists>ws. slice (h_supportedVersions m') = slice (h_supportedVersions m) @ ws) \<and>
    (h_supportedVersions m \<noteq> None \<longrightarrow> h_supportedVersions m' \<noteq> None)"
  using assms
proof (induction n arbitrary: s seen m)
  case 0
  then show ?case by (simp add: readExtensions.simps split: if_splits)
next
  case (Suc n)
  show ?case
  proof (cases "s = []")
    case True
    with Suc.prems show ?thesis by (simp add: readExtensions.simps)
  next
    case False
    then obtain ext s1 extData s2 m1 where
      step: "ext \<notin> set seen"
        "readExtension C ext extData (m\<lparr>h_extensions := h_extensions m @ [ext]\<rparr>) = Some m1"
        "readExtensions C n s2 (ext # seen) m1 = Some m'"
      using Suc.prems(1)
      by (subst (asm) readExtensions.simps) (auto split: option.splits if_splits)
    have m1: "distinct (h_extensions m1)" "set (h_extensions m1) = set (ext # seen)"
      using readExtension_frame [OF step(2)] step(1) Suc.prems(2,3) by auto
    show ?thesis
      using Suc.IH [OF step(3) m1] readExtension_frame [OF step(2)] by auto
  qed
qed

lemma helloMsg_unmarshal_shape:
  assumes "helloMsg_unmarshal doc_cryptobyte d = Some m"
  shows "\<exists>random suites v0 n s. length random = 32 \<and>
    readExtensions doc_cryptobyte n s [] (hello_init d random suites v0) = Some m"
proof -
  obtain s0 random s1 suites v0 n e where
    r: "split_at 32 s0 = Some (random, s1)" and
    m: "readExtensions doc_cryptobyte n e [] (hello_init d random suites v0) = Some m \<or>
        hello_init d random suites v0 = m"
    using assms
    by (fastforce simp: helloMsg_unmarshal_def bind_eq_Some_conv Let_def split: if_splits)
  then have "\<exists>n e. readExtensions doc_cryptobyte n e [] (hello_init d random suites v0) = Some m"
    by (metis readExtensions_Nil)
  moreover have "length random = 32"
    using r by (auto simp: split_at_def split: if_splits)
  ultimately show ?thesis by blast
qed

lemma helloMsg_unmarshal_inv:
  assumes "helloMsg_unmarshal doc_cryptobyte d = Some m"
  shows "h_original m = Some d" "length (h_random m) = 32" "distinct (h_extensions m)"
    "h_secureRenegotiation m = []" "\<exists>v vs. h_supportedVersions m = Some (v # vs)"
    "h_secureRenegotiationSupported m = (scsvRenegotiation \<in> set (h_cipherSuites m))"
proof -
  obtain random suites v0 n s where
    r: "length random = 32" and
    m: "readExtensions doc_cryptobyte n s [] (hello_init d random suites v0) = Some m"
    using helloMsg_unmarshal_shape [OF assms] by blast
  have inv: "distinct (h_extensions m) \<and> h_random m = random \<and> h_original m = Some d \<and>
    h_cipherSuites m = suites \<and> h_secureRenegotiation m = [] \<and>
    h_secureRenegotiationSupported m = (scsvRenegotiation \<in> set suites) \<and>
    (\<exists>ws. slice (h_supportedVersions m) = v0 # ws) \<and> h_supportedVersions m \<noteq> None"
    using readExtensions_inv [OF m] by (simp add: hello_init_def)
  then show "h_original m = Some d" "length (h_random m) = 32" "distinct (h_extensions m)"
    "h_secureRenegotiation m = []" "\<exists>v vs. h_supportedVersions m = Some (v # vs)"
    "h_secureRenegotiationSupported m = (scsvRenegotiation \<in> set (h_cipherSuites m))"
    using r by auto
qed

section \<open>Properties\<close>

text \<open>C35: Marshalling a hello and parsing the bytes gives back the hello: its random, suites,
  curves and signature schemes, and its versions with the first one repeated in front (it is
  also the legacy version field).  The renegotiation data of the sender is not transmitted.\<close>

theorem hello_roundtrip:
  assumes "cryptobyte_ok C" and "helloMsg_marshal C m = Ok d"
  shows "\<exists>m'. helloMsg_unmarshal C d = Some m' \<and>
    h_original m' = Some d \<and> h_random m' = h_random m \<and> h_cipherSuites m' = h_cipherSuites m \<and>
    h_supportedVersions m' =
      Some (hd (slice (h_supportedVersions m)) # slice (h_supportedVersions m)) \<and>
    h_supportedCurves m' = h_supportedCurves m \<and>
    h_supportedSignatureAlgorithms m' = h_supportedSignatureAlgorithms m \<and>
    h_secureRenegotiation m' = []"
proof -
  have C: "C = doc_cryptobyte" using assms(1) by (rule cryptobyte_ok_eq)
  have m: "hello_fits m" "slice (h_supportedVersions m) \<noteq> []" "d = hello_bytes m"
    using hello_bytes_Ok assms(2) C by auto
  then show ?thesis
    using helloMsg_unmarshal_bytes [of m] by (simp add: C hello_readback_def)
qed

definition sample_hello :: helloMsg where
  "sample_hello = \<lparr>h_original = None, h_random = replicate 32 7, h_cipherSuites = [0x2b],
     h_supportedVersions = Some supportedVersions, h_supportedCurves = defaultCurvePreferences,
     h_supportedSignatureAlgorithms = [SM2WithSM3], h_secureRenegotiationSupported = True,
     h_secureRenegotiation = [1, 2], h_extensions = []\<rparr>"

lemma sample_hello_Ok: "helloMsg_marshal doc_cryptobyte sample_hello = Ok (hello_bytes sample_hello)"
  by (simp add: helloMsg_marshal_doc hello_fits_def sample_hello_def hello_exts_def versions_ext_def
      list_ext_def ext_block_def supportedVersions_def defaultCurvePreferences_def)

theorem hello_roundtrip_witness:
  "\<exists>m'. helloMsg_unmarshal doc_cryptobyte (hello_bytes sample_hello) = Some m' \<and>
     h_cipherSuites m' = [0x2b] \<and> h_supportedVersions m' = Some [0x0301, 0x0301, 0x0302]"
  using hello_roundtrip [OF cryptobyte_ok_doc sample_hello_Ok]
  by (auto simp: sample_hello_def supportedVersions_def VersionE2E1_def VersionE2E2_def)

text \<open>Marshalling a hello has exactly three outcomes: a hello with no supported version
  panics (index out of range) once its extensions are encoded; a hello whose random is not 32
  bytes or whose lists overflow their length prefixes is an error; any other is encoded.\<close>

theorem hello_marshal_outcomes:
  assumes "cryptobyte_ok C"
  shows "helloMsg_marshal C m =
    (if slice (h_supportedVersions m) = [] \<and> length (h_supportedCurves m) < 32767 \<and>
        length (h_supportedSignatureAlgorithms m) < 32767 then Panic ''index out of range''
     else if hello_fits m then Ok (hello_bytes m) else Fail ErrMarshal)"
  using cryptobyte_ok_eq [OF assms] by (auto simp: helloMsg_marshal_doc)

theorem hello_marshal_outcomes_witness:
  "helloMsg_marshal doc_cryptobyte (sample_hello\<lparr>h_supportedVersions := None\<rparr>) = Panic ''index out of range''
   \<and> helloMsg_marshal doc_cryptobyte (sample_hello\<lparr>h_random := [1]\<rparr>) = Fail ErrMarshal"
  unfolding hello_marshal_outcomes [OF cryptobyte_ok_doc]
  by (simp add: hello_fits_def sample_hello_def supportedVersions_def defaultCurvePreferences_def)

text \<open>Every hello the parser accepts is well formed: a 32-byte random, no extension twice,
  at least one version (so the version list is never nil), the raw bytes kept for the
  transcript, renegotiation data always empty, and renegotiation support exactly when the
  signalling suite 0x00ff is offered.\<close>

theorem hello_unmarshal_wf:
  assumes "cryptobyte_ok C" and "helloMsg_unmarshal C d = Some m"
  shows "h_original m = Some d \<and> length (h_random m) = 32 \<and> distinct (h_extensions m) \<and>
    h_secureRenegotiation m = [] \<and> (\<exists>v vs. h_supportedVersions m = Some (v # vs)) \<and>
    h_secureRenegotiationSupported m = (scsvRenegotiation \<in> set (h_cipherSuites m))"
  using helloMsg_unmarshal_inv assms(2) unfolding cryptobyte_ok_eq [OF assms(1)] by blast

lemma sample_hello_read:
  "helloMsg_unmarshal doc_cryptobyte (hello_bytes sample_hello) = Some (hello_readback sample_hello)"
  using hello_bytes_Ok [OF sample_hello_Ok] by (simp add: helloMsg_unmarshal_bytes)

theorem hello_unmarshal_wf_witness:
  "distinct (h_extensions (hello_readback sample_hello)) \<and>
   \<not> h_secureRenegotiationSupported (hello_readback sample_hello)"
  using hello_unmarshal_wf [OF cryptobyte_ok_doc sample_hello_read]
  by (simp add: hello_readback_def sample_hello_def scsvRenegotiation_def)

text \<open>The dispatch of a session on the first byte recovers every marshalled message with its
  own parser, and extends the transcript, when one is passed, by exactly the bytes received.\<close>

theorem unmarshal_dispatch_roundtrip:
  assumes "cryptobyte_ok C" and "marshal C msg = Ok d"
  shows "unmarshalHandshakeMessage C d transcript =
     Ok (readback msg, map_option (\<lambda>h. h @ d) transcript) \<and>
    parsePlaintextHandshakeMessage C d = Some (readback msg)"
  using unmarshalAs_marshal [of msg d] assms(2) unfolding cryptobyte_ok_eq [OF assms(1)]
  by (cases d) (auto simp: unmarshalHandshakeMessage_def parsePlaintextHandshakeMessage_def)

theorem unmarshal_dispatch_roundtrip_witness:
  "unmarshalHandshakeMessage doc_cryptobyte [20, 0, 0, 2, 5, 6] (Some [9]) =
     Ok (Finished [5, 6], Some [9, 20, 0, 0, 2, 5, 6])"
  using unmarshal_dispatch_roundtrip [OF cryptobyte_ok_doc, of "Finished [5, 6]" "[20, 0, 0, 2, 5, 6]" "Some [9]"]
  by (simp add: finishedMsg_marshal_doc typeFinished_def len24_def)

end
