(* ===== verification/ImParser.thy ===== *)
theory ImParser
  imports Prelude
begin

text \<open>
  \<open>e2ewebsocket/im_parser\<close> and its OpenIM implementation \<open>openim_marshal\<close>: the message
  object the secure connection works on, the outbound and inbound conversions, and the cache of
  messages already delivered in real time.  Protobuf, the encoder and the compressor behind the
  parser's interfaces are the parameter \<open>codec\<close>; identifiers and clock readings made by
  other packages are arguments.
\<close>

section \<open>Decimal numerals\<close>

text \<open>\<open>fmt.Sprintf\<close> with \<open>%d\<close>.\<close>

fun decimal_nat :: "nat \<Rightarrow> string" where
  "decimal_nat n =
     (if n < 10 then [char_of (48 + n)] else decimal_nat (n div 10) @ [char_of (48 + n mod 10)])"

declare decimal_nat.simps [simp del]

definition decimal :: "int \<Rightarrow> string" where
  "decimal i = (if i < 0 then CHR ''-'' # decimal_nat (nat (- i)) else decimal_nat (nat i))"

section \<open>Markers and prefixes\<close>

definition SecureWSMarker :: string where
  "SecureWSMarker = ''__secure_ws__:''"

definition HasPrefix :: "string \<Rightarrow> string \<Rightarrow> bool" where
  "HasPrefix s p \<longleftrightarrow> take (length p) s = p"

definition TrimPrefix :: "string \<Rightarrow> string \<Rightarrow> string" where
  "TrimPrefix s p = (if HasPrefix s p then drop (length p) s else s)"

lemma HasPrefix_append [simp]: "HasPrefix (p @ s) p"
  by (simp add: HasPrefix_def)

lemma TrimPrefix_append [simp]: "TrimPrefix (p @ s) p = s"
  by (simp add: TrimPrefix_def)

lemma HasPrefix_decompose: "HasPrefix s p \<longleftrightarrow> (\<exists>r. s = p @ r)"
  by (metis HasPrefix_append HasPrefix_def append_take_drop_id)

section \<open>The OpenIM structures\<close>

text \<open>
  The fields of \<open>sdkws.MsgData\<close> that the code reads or writes; \<open>sd_other\<close> stands for the
  fields that only travel along.
\<close>

record sdkMsg =
  sd_SendID :: string
  sd_RecvID :: string
  sd_ClientMsgID :: string
  sd_ServerMsgID :: string
  sd_SenderPlatformID :: int
  sd_SenderNickname :: string
  sd_SessionType :: int
  sd_MsgFrom :: int
  sd_ContentType :: int
  sd_Content :: bytes
  sd_Seq :: int
  sd_CreateTime :: int
  sd_Status :: int
  sd_Options :: "(string \<times> bool) list"
  sd_AttachedInfo :: string
  sd_Ex :: string
  sd_other :: bytes

text \<open>
  A \<open>PullMsgs\<close> is its message pointers (\<open>None\<close> is nil) and the fields copied along; a
  \<open>PushMessages\<close> is a map from conversations, listed in the order in which a \<open>range\<close>
  visits it.
\<close>

record pullMsgs =
  pm_Msgs :: "sdkMsg option list"
  pm_rest :: bytes

type_synonym pushMessages = "(string \<times> pullMsgs option) list"

record Req =
  rq_ReqIdentifier :: int
  rq_Token :: string
  rq_SendID :: string
  rq_OperationID :: string
  rq_MsgIncr :: string
  rq_Data :: bytes

record Resp =
  rs_ReqIdentifier :: int
  rs_MsgIncr :: string
  rs_OperationID :: string
  rs_ErrCode :: int
  rs_ErrMsg :: string
  rs_Data :: bytes

text \<open>
  The \<open>PushMsg\<close> of a message object.  \<open>singleMessagePush\<close> puts the very pointer of the
  inner message into the push, so a later \<open>SetContent\<close> shows in both: \<open>SinglePush conv rest\<close>
  is a push whose only message is the object's own inner message.
\<close>

datatype pushRef = SinglePush string bytes | FullPush pushMessages

record MsgData =
  md_inner :: "sdkMsg option"
  md_Req :: "Req option"
  md_Resp :: "Resp option"
  md_Push :: "pushRef option"
  md_SecureRead :: bool

definition push_of :: "sdkMsg option \<Rightarrow> pushRef \<Rightarrow> pushMessages" where
  "push_of inner r =
     (case r of SinglePush conv rest \<Rightarrow> [(conv, Some \<lparr>pm_Msgs = [inner], pm_rest = rest\<rparr>)]
      | FullPush p \<Rightarrow> p)"

subsection \<open>Accessors\<close>

definition GetSendID :: "MsgData \<Rightarrow> string" where
  "GetSendID m = (case md_inner m of None \<Rightarrow> [] | Some d \<Rightarrow> sd_SendID d)"

definition GetRecvID :: "MsgData \<Rightarrow> string" where
  "GetRecvID m = (case md_inner m of None \<Rightarrow> [] | Some d \<Rightarrow> sd_RecvID d)"

definition GetContent :: "MsgData \<Rightarrow> bytes" where
  "GetContent m = (case md_inner m of None \<Rightarrow> [] | Some d \<Rightarrow> sd_Content d)"

definition SetContent :: "bytes \<Rightarrow> MsgData \<Rightarrow> MsgData" where
  "SetContent c m = m\<lparr>md_inner := map_option (sd_Content_update (\<lambda>_. c)) (md_inner m)\<rparr>"

definition GetEx :: "MsgData \<Rightarrow> string" where
  "GetEx m = (case md_inner m of None \<Rightarrow> [] | Some d \<Rightarrow> sd_Ex d)"

definition SetEx :: "string \<Rightarrow> MsgData \<Rightarrow> MsgData" where
  "SetEx e m = m\<lparr>md_inner := map_option (sd_Ex_update (\<lambda>_. e)) (md_inner m)\<rparr>"

definition IsSecureReadBound :: "MsgData \<Rightarrow> bool" where
  "IsSecureReadBound m = md_SecureRead m"

definition ReadReqIdentifier :: "MsgData \<Rightarrow> int" where
  "ReadReqIdentifier m = (case md_Resp m of None \<Rightarrow> 0 | Some r \<Rightarrow> rs_ReqIdentifier r)"

definition GetClientMsgID :: "MsgData \<Rightarrow> string" where
  "GetClientMsgID m = (case md_inner m of None \<Rightarrow> [] | Some d \<Rightarrow> sd_ClientMsgID d)"

definition GetServerMsgID :: "MsgData \<Rightarrow> string" where
  "GetServerMsgID m = (case md_inner m of None \<Rightarrow> [] | Some d \<Rightarrow> sd_ServerMsgID d)"

definition GetSeq :: "MsgData \<Rightarrow> int" where
  "GetSeq m = (case md_inner m of None \<Rightarrow> 0 | Some d \<Rightarrow> sd_Seq d)"

section \<open>The parser and its codec\<close>

record codec =
  pb_marshalMsg :: "sdkMsg \<Rightarrow> bytes option"
  pb_unmarshalMsg :: "bytes \<Rightarrow> sdkMsg option"
  pb_marshalPush :: "pushMessages \<Rightarrow> bytes option"
  pb_unmarshalPush :: "bytes \<Rightarrow> pushMessages option"
  enc_Req :: "Req \<Rightarrow> bytes option"
  dec_Req :: "bytes \<Rightarrow> Req option"
  enc_Resp :: "Resp \<Rightarrow> bytes option"
  dec_Resp :: "bytes \<Rightarrow> Resp option"
  compress :: "bytes \<Rightarrow> bytes option"
  decompress :: "bytes \<Rightarrow> bytes option"

text \<open>
  What the code relies on: reading back what was written, for each layer.
\<close>

definition codec_ok :: "codec \<Rightarrow> bool" where
  "codec_ok K \<longleftrightarrow>
     (\<forall>m b. pb_marshalMsg K m = Some b \<longrightarrow> pb_unmarshalMsg K b = Some m) \<and>
     (\<forall>p b. pb_marshalPush K p = Some b \<longrightarrow> pb_unmarshalPush K b = Some p) \<and>
     (\<forall>r b. enc_Req K r = Some b \<longrightarrow> dec_Req K b = Some r) \<and>
     (\<forall>r b. enc_Resp K r = Some b \<longrightarrow> dec_Resp K b = Some r) \<and>
     (\<forall>x b. compress K x = Some b \<longrightarrow> decompress K b = Some x)"

text \<open>The parser's own state is the map of messages delivered in real time.\<close>

type_synonym realtimeMap = "string \<rightharpoonup> sdkMsg"

section \<open>Outbound (write bound)\<close>

definition secureTextContentType :: int where "secureTextContentType = 101"

definition shouldSecureOutbound :: "sdkMsg \<Rightarrow> bool" where
  "shouldSecureOutbound m =
     (if sd_SendID m = [] \<or> sd_RecvID m = [] then False
      else if sd_SessionType m \<noteq> 1 then False
      else sd_ContentType m = secureTextContentType)"

definition decodeAndDecompressWriteBound :: "codec \<Rightarrow> bytes \<Rightarrow> Req res" where
  "decodeAndDecompressWriteBound K data =
     bind_res (of_option LibError (decompress K data)) (\<lambda>d. of_option LibError (dec_Req K d))"

definition encodeAndCompressWriteBound :: "codec \<Rightarrow> Req \<Rightarrow> bytes res" where
  "encodeAndCompressWriteBound K r =
     bind_res (of_option LibError (enc_Req K r)) (\<lambda>d. of_option LibError (compress K d))"

definition BytesToMsgDataWriteBound :: "codec \<Rightarrow> bytes \<Rightarrow> MsgData res" where
  "BytesToMsgDataWriteBound K data =
     bind_res (decodeAndDecompressWriteBound K data) (\<lambda>req.
     if rq_ReqIdentifier req \<noteq> 1003 then Fail ErrBypassSecureWS
     else case pb_unmarshalMsg K (rq_Data req) of
            None \<Rightarrow> Fail ErrBypassSecureWS
          | Some d \<Rightarrow>
              if \<not> shouldSecureOutbound d then Fail ErrBypassSecureWS
              else Ok \<lparr>md_inner = Some d, md_Req = Some req, md_Resp = None, md_Push = None,
                       md_SecureRead = False\<rparr>)"

text \<open>\<open>uuid\<close> and \<open>now\<close> are the fresh identifier and the clock in milliseconds.\<close>

definition constructReq :: "string \<Rightarrow> int \<Rightarrow> bytes \<Rightarrow> string \<Rightarrow> Req" where
  "constructReq uuid now data sendID =
     \<lparr>rq_ReqIdentifier = 1003, rq_Token = [], rq_SendID = sendID,
      rq_OperationID = SecureWSMarker @ uuid,
      rq_MsgIncr = SecureWSMarker @ (sendID @ ''_'' @ decimal now), rq_Data = data\<rparr>"

definition MsgDataToBytesWriteBound :: "codec \<Rightarrow> string \<Rightarrow> int \<Rightarrow> MsgData \<Rightarrow> bytes res" where
  "MsgDataToBytesWriteBound K uuid now m =
     (case md_inner m of None \<Rightarrow> Fail LibError
      | Some d \<Rightarrow>
          bind_res (of_option LibError (pb_marshalMsg K d)) (\<lambda>msgBytes.
          encodeAndCompressWriteBound K
            (case md_Req m of Some req \<Rightarrow> req\<lparr>rq_Data := msgBytes\<rparr>
             | None \<Rightarrow> constructReq uuid now msgBytes (sd_SendID d))))"

definition secureControlOptions :: "(string \<times> bool) list" where
  "secureControlOptions =
     [(''history'', False), (''persistent'', False), (''unreadCount'', False),
      (''conversationUpdate'', False), (''offlinePush'', False), (''senderSync'', False),
      (''notPrivate'', False), (''senderConversationUpdate'', False)]"

text \<open>\<open>clientMsgID\<close> is the random identifier (empty when the random source fails).\<close>

definition ConstructMsgData :: "string \<Rightarrow> int \<Rightarrow> string \<Rightarrow> string \<Rightarrow> bytes \<Rightarrow> MsgData" where
  "ConstructMsgData clientMsgID now sendID recvID msg =
     \<lparr>md_inner = Some \<lparr>sd_SendID = sendID, sd_RecvID = recvID, sd_ClientMsgID = clientMsgID,
        sd_ServerMsgID = [], sd_SenderPlatformID = 5, sd_SenderNickname = ''secure-ws'',
        sd_SessionType = 1, sd_MsgFrom = 100, sd_ContentType = secureTextContentType,
        sd_Content = msg, sd_Seq = 0, sd_CreateTime = now, sd_Status = 1,
        sd_Options = secureControlOptions, sd_AttachedInfo = ''null'', sd_Ex = [], sd_other = []\<rparr>,
      md_Req = None, md_Resp = None, md_Push = None, md_SecureRead = False\<rparr>"

text \<open>\<open>randomString\<close>: the draws of \<open>rand.Int\<close> below 36, \<open>None\<close> a failing draw.\<close>

definition charset :: string where
  "charset = ''abcdefghijklmnopqrstuvwxyz0123456789''"

fun randomString :: "nat \<Rightarrow> nat option list \<Rightarrow> string res" where
  "randomString 0 draws = Ok []"
| "randomString (Suc n) (Some i # draws) =
     bind_res (randomString n draws) (\<lambda>r. Ok (charset ! (i mod 36) # r))"
| "randomString (Suc n) _ = Fail LibError"

section \<open>Inbound (read bound)\<close>

definition realtimePushReqIdentifier :: int where "realtimePushReqIdentifier = 2001"

definition isSecureInternalResp :: "Resp \<Rightarrow> bool" where
  "isSecureInternalResp r \<longleftrightarrow>
     HasPrefix (rs_OperationID r) SecureWSMarker \<or> HasPrefix (rs_MsgIncr r) SecureWSMarker"

definition decodeAndDecompressReadBound :: "codec \<Rightarrow> bytes \<Rightarrow> Resp res" where
  "decodeAndDecompressReadBound K data =
     bind_res (of_option LibError (decompress K data)) (\<lambda>d. of_option LibError (dec_Resp K d))"

definition encodeAndCompressReadBound :: "codec \<Rightarrow> Resp \<Rightarrow> bytes res" where
  "encodeAndCompressReadBound K r =
     bind_res (of_option LibError (enc_Resp K r)) (\<lambda>d. of_option LibError (compress K d))"

definition realtimeMsgKey :: "string \<Rightarrow> sdkMsg option \<Rightarrow> string" where
  "realtimeMsgKey conv msg =
     (case msg of None \<Rightarrow> []
      | Some m \<Rightarrow>
          if conv = [] then []
          else if sd_Seq m \<noteq> 0 then conv @ ''#seq:'' @ decimal (sd_Seq m)
          else if sd_ServerMsgID m \<noteq> [] then conv @ ''#server:'' @ sd_ServerMsgID m
          else if sd_ClientMsgID m \<noteq> [] then conv @ ''#client:'' @ sd_ClientMsgID m
          else [])"

text \<open>\<open>singleMessagePush\<close> for the non-nil \<open>pullMsg\<close> and \<open>raw\<close> of its one caller.\<close>

definition singleMessagePush :: "string \<Rightarrow> pullMsgs \<Rightarrow> sdkMsg \<Rightarrow> pushRef" where
  "singleMessagePush conv pull raw =
     SinglePush (if conv = [] then sd_RecvID raw else conv) (pm_rest pull)"

text \<open>The item made of one pushed message: its marker is taken off and remembered.\<close>

definition readItem :: "Resp \<Rightarrow> string \<Rightarrow> pullMsgs \<Rightarrow> sdkMsg \<Rightarrow> MsgData" where
  "readItem resp conv pull raw =
     (let secure = HasPrefix (sd_Ex raw) SecureWSMarker in
      \<lparr>md_inner = Some (if secure then raw\<lparr>sd_Ex := TrimPrefix (sd_Ex raw) SecureWSMarker\<rparr> else raw),
       md_Req = None, md_Resp = Some resp,
       md_Push = Some (singleMessagePush conv pull raw), md_SecureRead = secure\<rparr>)"

definition readItems :: "Resp \<Rightarrow> pushMessages \<Rightarrow> MsgData list" where
  "readItems resp push =
     concat (map (\<lambda>(conv, pull).
       case pull of None \<Rightarrow> []
       | Some pl \<Rightarrow> concat (map (\<lambda>raw. case raw of None \<Rightarrow> [] | Some r \<Rightarrow> [readItem resp conv pl r])
                              (pm_Msgs pl))) push)"

definition takeRealtimeMsgData :: "string \<Rightarrow> sdkMsg \<Rightarrow> realtimeMap \<Rightarrow> sdkMsg option \<times> realtimeMap" where
  "takeRealtimeMsgData conv msg rt =
     (let key = realtimeMsgKey conv (Some msg) in
      if key = [] then (None, rt) else (rt key, rt(key := None)))"

text \<open>One conversation of \<open>sanitizeSyncedPushMessages\<close>: nil pointers are dropped, marked
  messages are replaced by the remembered plaintext or dropped, the rest is kept.\<close>

fun sanitizeMsgs :: "string \<Rightarrow> sdkMsg option list \<Rightarrow> realtimeMap \<Rightarrow> sdkMsg option list \<times> bool \<times> realtimeMap" where
  "sanitizeMsgs conv [] rt = ([], False, rt)"
| "sanitizeMsgs conv (None # ms) rt = sanitizeMsgs conv ms rt"
| "sanitizeMsgs conv (Some raw # ms) rt =
     (if HasPrefix (sd_Ex raw) SecureWSMarker
      then (let (cached, rt1) = takeRealtimeMsgData conv raw rt;
                (out, _, rt2) = sanitizeMsgs conv ms rt1
            in ((case cached of None \<Rightarrow> out | Some c \<Rightarrow> Some c # out), True, rt2))
      else (let (out, removed, rt1) = sanitizeMsgs conv ms rt in (Some raw # out, removed, rt1)))"

fun sanitizePush :: "pushMessages \<Rightarrow> realtimeMap \<Rightarrow> pushMessages \<times> bool \<times> realtimeMap" where
  "sanitizePush [] rt = ([], False, rt)"
| "sanitizePush ((conv, None) # cs) rt =
     (let (out, removed, rt1) = sanitizePush cs rt in ((conv, None) # out, removed, rt1))"
| "sanitizePush ((conv, Some pl) # cs) rt =
     (let (ms, rem1, rt1) = sanitizeMsgs conv (pm_Msgs pl) rt;
          (out, rem2, rt2) = sanitizePush cs rt1
      in ((conv, Some (pl\<lparr>pm_Msgs := ms\<rparr>)) # out, rem1 \<or> rem2, rt2))"

definition sanitizeSyncedPushMessages :: "pushMessages \<Rightarrow> realtimeMap \<Rightarrow> pushMessages option \<times> realtimeMap" where
  "sanitizeSyncedPushMessages push rt =
     (if push = [] then (None, rt)
      else let (out, removed, rt') = sanitizePush push rt
           in ((if removed then Some out else None), rt'))"

definition BytesToMsgDataReadBoundBatch ::
  "codec \<Rightarrow> bytes \<Rightarrow> realtimeMap \<Rightarrow> MsgData list res \<times> realtimeMap" where
  "BytesToMsgDataReadBoundBatch K data rt =
     (case decodeAndDecompressReadBound K data of
        Fail e \<Rightarrow> (Fail e, rt)
      | Panic p \<Rightarrow> (Panic p, rt)
      | Ok resp \<Rightarrow>
          let internal = (if isSecureInternalResp resp then Fail ErrDropSecureWS
                          else Fail ErrBypassSecureWS)
          in (case pb_unmarshalPush K (rs_Data resp) of
                None \<Rightarrow> (internal, rt)
              | Some push \<Rightarrow>
                  if push = [] then (internal, rt)
                  else if rs_ReqIdentifier resp \<noteq> realtimePushReqIdentifier then
                    (if isSecureInternalResp resp then (Fail ErrDropSecureWS, rt)
                     else (case sanitizeSyncedPushMessages push rt of
                             (Some sanitized, rt') \<Rightarrow>
                               (Ok [\<lparr>md_inner = None, md_Req = None, md_Resp = Some resp,
                                     md_Push = Some (FullPush sanitized), md_SecureRead = False\<rparr>], rt')
                           | (None, rt') \<Rightarrow> (Fail ErrBypassSecureWS, rt')))
                  else let items = readItems resp push in
                    if \<not> (\<exists>i\<in>set items. md_SecureRead i) then (internal, rt)
                    else if items = [] then (Fail LibError, rt)
                    else (Ok items, rt)))"

definition BytesToMsgDataReadBound :: "codec \<Rightarrow> bytes \<Rightarrow> realtimeMap \<Rightarrow> MsgData res \<times> realtimeMap" where
  "BytesToMsgDataReadBound K data rt =
     (case BytesToMsgDataReadBoundBatch K data rt of
        (Ok items, rt') \<Rightarrow>
          (case items of [] \<Rightarrow> (Fail LibError, rt')
           | i # _ \<Rightarrow> (case find md_SecureRead items of Some s \<Rightarrow> (Ok s, rt') | None \<Rightarrow> (Ok i, rt')))
      | (Fail e, rt') \<Rightarrow> (Fail e, rt')
      | (Panic p, rt') \<Rightarrow> (Panic p, rt'))"

fun rememberMsgs :: "string \<Rightarrow> sdkMsg option list \<Rightarrow> realtimeMap \<Rightarrow> realtimeMap" where
  "rememberMsgs conv [] rt = rt"
| "rememberMsgs conv (m # ms) rt =
     rememberMsgs conv ms
       (case m of None \<Rightarrow> rt
        | Some d \<Rightarrow> if realtimeMsgKey conv m = [] then rt else rt(realtimeMsgKey conv m \<mapsto> d))"

fun rememberRealtimePushMessages :: "pushMessages \<Rightarrow> realtimeMap \<Rightarrow> realtimeMap" where
  "rememberRealtimePushMessages [] rt = rt"
| "rememberRealtimePushMessages ((conv, pull) # cs) rt =
     rememberRealtimePushMessages cs
       (case pull of None \<Rightarrow> rt | Some pl \<Rightarrow> rememberMsgs conv (pm_Msgs pl) rt)"

definition constructResp :: "string \<Rightarrow> int \<Rightarrow> bytes \<Rightarrow> Resp" where
  "constructResp uuid now data =
     \<lparr>rs_ReqIdentifier = 1003, rs_MsgIncr = decimal now, rs_OperationID = uuid, rs_ErrCode = 0,
      rs_ErrMsg = [], rs_Data = data\<rparr>"

definition readPush :: "MsgData \<Rightarrow> pushMessages" where
  "readPush m =
     (case md_Push m of Some r \<Rightarrow> push_of (md_inner m) r
      | None \<Rightarrow> [(GetRecvID m, Some \<lparr>pm_Msgs = [md_inner m], pm_rest = []\<rparr>)])"

text \<open>
  The object's own \<open>Resp\<close> is overwritten with the new data; nothing reads it again before
  the next overwrite, so only the bytes and the parser's map are results.
\<close>

definition MsgDataToBytesReadBound ::
  "codec \<Rightarrow> string \<Rightarrow> int \<Rightarrow> MsgData \<Rightarrow> realtimeMap \<Rightarrow> bytes res \<times> realtimeMap" where
  "MsgDataToBytesReadBound K uuid now m rt =
     (if md_inner m = None \<and> md_Push m = None then (Fail LibError, rt)
      else
        let push = readPush m;
            rt' = (if md_SecureRead m \<and> (\<exists>r. md_Resp m = Some r \<and> rs_ReqIdentifier r = realtimePushReqIdentifier)
                   then rememberRealtimePushMessages push rt else rt)
        in (bind_res (of_option LibError (pb_marshalPush K push)) (\<lambda>pushMsgBytes.
            encodeAndCompressReadBound K
              (case md_Resp m of Some r \<Rightarrow> r\<lparr>rs_Data := pushMsgBytes\<rparr>
               | None \<Rightarrow> constructResp uuid now pushMsgBytes)), rt'))"

section \<open>Lemmas\<close>

lemma codec_okD:
  assumes "codec_ok K"
  shows "pb_marshalMsg K m = Some b \<Longrightarrow> pb_unmarshalMsg K b = Some m"
    "pb_marshalPush K p = Some b \<Longrightarrow> pb_unmarshalPush K b = Some p"
    "enc_Req K rq = Some b \<Longrightarrow> dec_Req K b = Some rq"
    "enc_Resp K rs = Some b \<Longrightarrow> dec_Resp K b = Some rs"
    "compress K x = Some b \<Longrightarrow> decompress K b = Some x"
  using assms by (auto simp: codec_ok_def)

lemma decode_encode_ReadBound:
  assumes "codec_ok K" "encodeAndCompressReadBound K r = Ok b"
  shows "decodeAndDecompressReadBound K b = Ok r"
proof -
  obtain d where "enc_Resp K r = Some d" "compress K d = Some b"
    using assms(2) by (auto simp: encodeAndCompressReadBound_def outcome_simps)
  then show ?thesis
    using codec_okD(4,5) [OF assms(1)] by (simp add: decodeAndDecompressReadBound_def)
qed

lemma decode_encode_WriteBound:
  assumes "codec_ok K" "encodeAndCompressWriteBound K r = Ok b"
  shows "decodeAndDecompressWriteBound K b = Ok r"
proof -
  obtain d where "enc_Req K r = Some d" "compress K d = Some b"
    using assms(2) by (auto simp: encodeAndCompressWriteBound_def outcome_simps)
  then show ?thesis
    using codec_okD(3,5) [OF assms(1)] by (simp add: decodeAndDecompressWriteBound_def)
qed

lemma map_le_ran: "m \<subseteq>\<^sub>m n \<Longrightarrow> ran m \<subseteq> ran n"
  by (fastforce simp: map_le_def ran_def dom_def)

lemma takeRealtime_map_le:
  "takeRealtimeMsgData conv m rt = (c, rt') \<Longrightarrow> rt' \<subseteq>\<^sub>m rt \<and> (\<forall>d. c = Some d \<longrightarrow> d \<in> ran rt)"
  by (auto simp: takeRealtimeMsgData_def Let_def map_le_def ran_def split: if_splits)

definition marked :: "sdkMsg \<Rightarrow> bool" where
  "marked m \<longleftrightarrow> HasPrefix (sd_Ex m) SecureWSMarker"

lemma sanitizeMsgs_sound:
  assumes "sanitizeMsgs conv ms rt = (out, removed, rt')"
  shows "rt' \<subseteq>\<^sub>m rt \<and> None \<notin> set out \<and>
    (\<forall>d. Some d \<in> set out \<longrightarrow> Some d \<in> set ms \<and> \<not> marked d \<or> d \<in> ran rt) \<and>
    (removed \<longleftrightarrow> (\<exists>d. Some d \<in> set ms \<and> marked d))"
  using assms
proof (induction conv ms rt arbitrary: out removed rt' rule: sanitizeMsgs.induct)
  case (3 conv raw ms rt)
  show ?case
  proof (cases "HasPrefix (sd_Ex raw) SecureWSMarker")
    case True
    obtain cached rt1 where t: "takeRealtimeMsgData conv raw rt = (cached, rt1)" by fastforce
    obtain out2 r2 rt2 where s: "sanitizeMsgs conv ms rt1 = (out2, r2, rt2)" by (metis prod_cases3)
    have le: "rt1 \<subseteq>\<^sub>m rt" "\<forall>d. cached = Some d \<longrightarrow> d \<in> ran rt"
      using takeRealtime_map_le [OF t] by auto
    have IH: "rt2 \<subseteq>\<^sub>m rt1" "None \<notin> set out2"
      "\<forall>d. Some d \<in> set out2 \<longrightarrow> Some d \<in> set ms \<and> \<not> marked d \<or> d \<in> ran rt1"
      using "3.IH"(1) [OF True t [symmetric] refl s] by simp_all
    have ran: "ran rt1 \<subseteq> ran rt" using le(1) by (rule map_le_ran)
    have res: "rt' = rt2" "removed" "out = (case cached of None \<Rightarrow> out2 | Some c \<Rightarrow> Some c # out2)"
      using "3.prems" True t s by auto
    have "rt2 \<subseteq>\<^sub>m rt" using map_le_trans [OF IH(1) le(1)] .
    moreover have "None \<notin> set out" using IH(2) res(3) by (cases cached) auto
    moreover have "Some d \<in> set ms \<and> \<not> marked d \<or> d \<in> ran rt" if "Some d \<in> set out" for d
      using that IH(3) ran le(2) res(3) by (cases cached) auto
    ultimately show ?thesis using res(1,2) True by (auto simp: marked_def)
  next
    case False
    obtain out2 r2 rt2 where s: "sanitizeMsgs conv ms rt = (out2, r2, rt2)" by (metis prod_cases3)
    show ?thesis
      using "3.IH"(2) [OF False s] "3.prems" False s by (auto simp: marked_def)
  qed
qed auto

definition push_msgs :: "pushMessages \<Rightarrow> sdkMsg set" where
  "push_msgs push = {d. \<exists>conv pl. (conv, Some pl) \<in> set push \<and> Some d \<in> set (pm_Msgs pl)}"

lemma push_msgs_simps [simp]:
  "push_msgs [] = {}" "push_msgs ((conv, None) # cs) = push_msgs cs"
  "push_msgs ((conv, Some pl) # cs) = {d. Some d \<in> set (pm_Msgs pl)} \<union> push_msgs cs"
  by (auto simp: push_msgs_def)

lemma sanitizePush_sound:
  assumes "sanitizePush push rt = (out, removed, rt')"
  shows "rt' \<subseteq>\<^sub>m rt \<and> map fst out = map fst push \<and>
    (\<forall>d\<in>push_msgs out. d \<in> push_msgs push \<and> \<not> marked d \<or> d \<in> ran rt) \<and>
    (removed \<longleftrightarrow> (\<exists>d\<in>push_msgs push. marked d))"
  using assms
proof (induction push rt arbitrary: out removed rt' rule: sanitizePush.induct)
  case (2 conv cs rt)
  then show ?case by (fastforce split: prod.splits)
next
  case (3 conv pl cs rt)
  obtain ms r1 rt1 where m: "sanitizeMsgs conv (pm_Msgs pl) rt = (ms, r1, rt1)" by (metis prod_cases3)
  obtain out2 r2 rt2 where c: "sanitizePush cs rt1 = (out2, r2, rt2)" by (metis prod_cases3)
  note M = sanitizeMsgs_sound [OF m]
  have ran: "ran rt1 \<subseteq> ran rt" using M by (blast dest: map_le_ran)
  have I: "rt2 \<subseteq>\<^sub>m rt1" "map fst out2 = map fst cs" "r2 \<longleftrightarrow> (\<exists>d\<in>push_msgs cs. marked d)"
    "\<And>d. d \<in> push_msgs out2 \<Longrightarrow> d \<in> push_msgs cs \<and> \<not> marked d \<or> d \<in> ran rt1"
    using "3.IH" [OF m [symmetric] refl refl c] by blast+
  have e: "out = (conv, Some (pl\<lparr>pm_Msgs := ms\<rparr>)) # out2" "removed \<longleftrightarrow> r1 \<or> r2" "rt' = rt2"
    using "3.prems" m c by auto
  have "rt' \<subseteq>\<^sub>m rt" using map_le_trans I(1) M e(3) by blast
  moreover have "d \<in> push_msgs ((conv, Some pl) # cs) \<and> \<not> marked d \<or> d \<in> ran rt" if "d \<in> push_msgs out" for d
    using that M ran I(4) e(1) by auto
  moreover have "removed \<longleftrightarrow> (\<exists>d\<in>push_msgs ((conv, Some pl) # cs). marked d)"
    using e(2) M I(3) by (simp add: bex_Un)
  ultimately show ?case using e(1) I(2) by simp
qed auto

lemma rememberMsgs_last:
  "rememberMsgs conv (ms @ [Some d]) rt =
     (if realtimeMsgKey conv (Some d) = [] then rememberMsgs conv ms rt
      else (rememberMsgs conv ms rt)(realtimeMsgKey conv (Some d) \<mapsto> d))"
  by (induction ms arbitrary: rt) auto

lemma readPush_readItem:
  assumes "marked raw"
  shows "readPush (SetContent c (readItem resp conv pl raw)) =
    [(if conv = [] then sd_RecvID raw else conv,
      Some \<lparr>pm_Msgs = [Some (raw\<lparr>sd_Ex := TrimPrefix (sd_Ex raw) SecureWSMarker, sd_Content := c\<rparr>)],
            pm_rest = pm_rest pl\<rparr>)]"
  using assms
  by (simp add: readPush_def readItem_def SetContent_def push_of_def singleMessagePush_def marked_def)

section \<open>A concrete codec for the witnesses\<close>

text \<open>Each layer knows two values, written as one byte; compression is the identity.\<close>

definition enc2 :: "'a \<Rightarrow> 'a \<Rightarrow> 'a \<Rightarrow> bytes option" where
  "enc2 a b x = (if x = a then Some [0] else if x = b then Some [1] else None)"

definition dec2 :: "'a \<Rightarrow> 'a \<Rightarrow> bytes \<Rightarrow> 'a option" where
  "dec2 a b y = (if y = [0] then Some a else if y = [1] then Some b else None)"

definition table_codec ::
  "sdkMsg \<times> sdkMsg \<Rightarrow> pushMessages \<times> pushMessages \<Rightarrow> Req \<times> Req \<Rightarrow> Resp \<times> Resp \<Rightarrow> codec" where
  "table_codec ms ps qs rs =
     \<lparr>pb_marshalMsg = enc2 (fst ms) (snd ms), pb_unmarshalMsg = dec2 (fst ms) (snd ms),
      pb_marshalPush = enc2 (fst ps) (snd ps), pb_unmarshalPush = dec2 (fst ps) (snd ps),
      enc_Req = enc2 (fst qs) (snd qs), dec_Req = dec2 (fst qs) (snd qs),
      enc_Resp = enc2 (fst rs) (snd rs), dec_Resp = dec2 (fst rs) (snd rs),
      compress = Some, decompress = Some\<rparr>"

lemma dec2_enc2 [simp]: "enc2 a b x = Some y \<Longrightarrow> dec2 a b y = Some x"
  by (auto simp: enc2_def dec2_def split: if_splits)

lemma table_codec_ok: "codec_ok (table_codec ms ps qs rs)"
  by (auto simp: codec_ok_def table_codec_def)

definition exMsg :: sdkMsg where
  "exMsg = \<lparr>sd_SendID = ''a'', sd_RecvID = ''b'', sd_ClientMsgID = ''c1'', sd_ServerMsgID = ''s1'',
     sd_SenderPlatformID = 5, sd_SenderNickname = ''n'', sd_SessionType = 1, sd_MsgFrom = 100,
     sd_ContentType = 101, sd_Content = [7], sd_Seq = 3, sd_CreateTime = 1, sd_Status = 1,
     sd_Options = [], sd_AttachedInfo = [], sd_Ex = SecureWSMarker @ ''x'', sd_other = []\<rparr>"

definition exPlain :: sdkMsg where
  "exPlain = exMsg\<lparr>sd_Ex := ''x'', sd_Content := [9]\<rparr>"

definition exResp :: Resp where
  "exResp = \<lparr>rs_ReqIdentifier = 2001, rs_MsgIncr = ''1'', rs_OperationID = ''o'', rs_ErrCode = 0,
     rs_ErrMsg = [], rs_Data = [0]\<rparr>"

definition exPush :: pushMessages where
  "exPush = [(''conv'', Some \<lparr>pm_Msgs = [Some exMsg], pm_rest = []\<rparr>)]"

definition exPushPlain :: pushMessages where
  "exPushPlain = [(''conv'', Some \<lparr>pm_Msgs = [Some exPlain], pm_rest = []\<rparr>)]"

definition exReq :: Req where
  "exReq = \<lparr>rq_ReqIdentifier = 1003, rq_Token = ''t'', rq_SendID = ''a'', rq_OperationID = ''o'',
     rq_MsgIncr = ''1'', rq_Data = [0]\<rparr>"

definition exCodec :: codec where
  "exCodec = table_codec (exMsg, exPlain) (exPush, exPushPlain) (exReq, exReq\<lparr>rq_Data := [1]\<rparr>)
     (exResp, exResp\<lparr>rs_Data := [1]\<rparr>)"

lemmas ex_defs = exCodec_def table_codec_def exReq_def exPushPlain_def exPush_def exResp_def
  exPlain_def exMsg_def enc2_def dec2_def SecureWSMarker_def

section \<open>Properties\<close>

lemma readItems_secure:
  assumes "i \<in> set (readItems resp push)"
  shows "\<exists>conv pl raw. (conv, Some pl) \<in> set push \<and> Some raw \<in> set (pm_Msgs pl) \<and> i = readItem resp conv pl raw"
  using assms by (auto simp: readItems_def split: option.splits)

text \<open>A frame that the secure layer itself caused (an answer to one of its control
  requests) is never handed through to the application: it is dropped, unless it is a real-time
  push that carries a secured message, which goes through decryption.\<close>

theorem internal_response_hidden:
  assumes "decodeAndDecompressReadBound K data = Ok resp" "isSecureInternalResp resp"
  shows "fst (BytesToMsgDataReadBoundBatch K data rt) = Fail ErrDropSecureWS \<or>
    rs_ReqIdentifier resp = realtimePushReqIdentifier \<and>
    (\<exists>items. fst (BytesToMsgDataReadBoundBatch K data rt) = Ok items \<and> (\<exists>i\<in>set items. md_SecureRead i))"
  using assms by (auto simp: BytesToMsgDataReadBoundBatch_def Let_def split: option.splits)

definition exInternal :: Resp where
  "exInternal = exResp\<lparr>rs_ReqIdentifier := 1003, rs_OperationID := SecureWSMarker @ ''u''\<rparr>"

lemma internal_response_hidden_witness:
  "fst (BytesToMsgDataReadBoundBatch (exCodec\<lparr>dec_Resp := dec2 exInternal exInternal\<rparr>) [0] Map.empty)
     = Fail ErrDropSecureWS"
proof -
  have "decodeAndDecompressReadBound (exCodec\<lparr>dec_Resp := dec2 exInternal exInternal\<rparr>) [0] = Ok exInternal"
    by (simp add: decodeAndDecompressReadBound_def exCodec_def table_codec_def dec2_def)
  moreover have "isSecureInternalResp exInternal" "rs_ReqIdentifier exInternal \<noteq> realtimePushReqIdentifier"
    by (simp_all add: isSecureInternalResp_def exInternal_def realtimePushReqIdentifier_def)
  ultimately show ?thesis using internal_response_hidden by blast
qed

text \<open>A pull response that is delivered after sanitizing has the conversations of the
  original, and every message in it is either an unmarked message of the original or a plaintext
  remembered from a real-time push; no ciphertext gets through, and nothing is added to the
  parser's map.\<close>

theorem sanitized_delivery:
  assumes "BytesToMsgDataReadBoundBatch K data rt = (Ok items, rt')"
    "decodeAndDecompressReadBound K data = Ok resp"
    "rs_ReqIdentifier resp \<noteq> realtimePushReqIdentifier"
  shows "rt' \<subseteq>\<^sub>m rt \<and>
    (\<exists>push m out. pb_unmarshalPush K (rs_Data resp) = Some push \<and> items = [m] \<and>
       md_Push m = Some (FullPush out) \<and> \<not> md_SecureRead m \<and> map fst out = map fst push \<and>
       (\<exists>d\<in>push_msgs push. marked d) \<and>
       (\<forall>d\<in>push_msgs out. d \<in> push_msgs push \<and> \<not> marked d \<or> d \<in> ran rt))"
proof -
  obtain push out where p: "pb_unmarshalPush K (rs_Data resp) = Some push"
      "sanitizeSyncedPushMessages push rt = (Some out, rt')"
      "items = [\<lparr>md_inner = None, md_Req = None, md_Resp = Some resp,
          md_Push = Some (FullPush out), md_SecureRead = False\<rparr>]"
    using assms
    by (auto simp: BytesToMsgDataReadBoundBatch_def Let_def split: option.splits if_splits prod.splits)
  obtain removed where s: "sanitizePush push rt = (out, removed, rt')" "removed"
    using p(2) by (auto simp: sanitizeSyncedPushMessages_def Let_def split: if_splits prod.splits)
  then show ?thesis using sanitizePush_sound [OF s(1)] p by simp
qed

definition exPulled :: Resp where
  "exPulled = exResp\<lparr>rs_ReqIdentifier := 1002\<rparr>"

lemma sanitized_delivery_witness:
  "\<exists>m out. fst (BytesToMsgDataReadBoundBatch (exCodec\<lparr>dec_Resp := dec2 exPulled exPulled\<rparr>) [0]
       [''conv#seq:3'' \<mapsto> exPlain]) = Ok [m] \<and> md_Push m = Some (FullPush out) \<and> push_msgs out \<subseteq> {exPlain}"
proof -
  let ?K = "exCodec\<lparr>dec_Resp := dec2 exPulled exPulled\<rparr>"
  let ?rt = "[''conv#seq:3'' \<mapsto> exPlain]"
  have d: "decodeAndDecompressReadBound ?K [0] = Ok exPulled"
    by (simp add: decodeAndDecompressReadBound_def exCodec_def table_codec_def dec2_def)
  have r: "rs_ReqIdentifier exPulled \<noteq> realtimePushReqIdentifier" "\<not> isSecureInternalResp exPulled"
    by (simp_all add: exPulled_def exResp_def realtimePushReqIdentifier_def isSecureInternalResp_def
        HasPrefix_def SecureWSMarker_def)
  have mk: "marked exMsg" by (simp add: marked_def exMsg_def)
  have p: "pb_unmarshalPush ?K (rs_Data exPulled) = Some exPush"
    by (simp add: exCodec_def table_codec_def dec2_def exPulled_def exResp_def)
  have "realtimeMsgKey ''conv'' (Some exMsg) = ''conv#seq:3''"
    by (simp add: realtimeMsgKey_def exMsg_def decimal_def decimal_nat.simps char_of_def bit_0)
  then have t: "takeRealtimeMsgData ''conv'' exMsg ?rt = (Some exPlain, ?rt(''conv#seq:3'' := None))"
    by (simp add: takeRealtimeMsgData_def)
  obtain items rt' where b: "BytesToMsgDataReadBoundBatch ?K [0] ?rt = (Ok items, rt')"
    using d r p mk t
    by (simp add: BytesToMsgDataReadBoundBatch_def exPush_def sanitizeSyncedPushMessages_def marked_def)
  show ?thesis
    using sanitized_delivery [OF b d r(1)] b p mk by (fastforce simp: exPush_def push_msgs_def)
qed

text \<open>A secured message taken out of a real-time push and decrypted in place is delivered
  as the same frame with that one message: its plaintext, the marker taken off its extension
  field, all other fields as they came; the plaintext is then remembered under the message's key.\<close>

theorem secure_read_reencode:
  assumes "codec_ok K"
    "BytesToMsgDataReadBoundBatch K data rt = (Ok items, rt0)" "i \<in> set items" "md_SecureRead i"
    "MsgDataToBytesReadBound K uuid now (SetContent plain i) rt = (Ok out, rt')"
  shows "\<exists>resp conv raw rest d.
    decodeAndDecompressReadBound K data = Ok resp \<and> rs_ReqIdentifier resp = realtimePushReqIdentifier \<and>
    d = raw\<lparr>sd_Ex := drop (length SecureWSMarker) (sd_Ex raw), sd_Content := plain\<rparr> \<and> marked raw \<and>
    (\<exists>bytes. decodeAndDecompressReadBound K out = Ok (resp\<lparr>rs_Data := bytes\<rparr>) \<and>
       pb_unmarshalPush K bytes = Some [(conv, Some \<lparr>pm_Msgs = [Some d], pm_rest = rest\<rparr>)]) \<and>
    rt' = (if realtimeMsgKey conv (Some d) = [] then rt else rt(realtimeMsgKey conv (Some d) \<mapsto> d))"
proof -
  obtain resp push where r: "decodeAndDecompressReadBound K data = Ok resp"
      "rs_ReqIdentifier resp = realtimePushReqIdentifier" "items = readItems resp push"
    using assms(2-4)
    by (auto simp: BytesToMsgDataReadBoundBatch_def Let_def split: option.splits if_splits prod.splits res.splits)
  obtain c pl raw where i: "i = readItem resp c pl raw"
    using readItems_secure assms(3) r(3) by blast
  have m: "marked raw" using assms(4) i by (simp add: readItem_def Let_def marked_def)
  define conv where "conv = (if c = [] then sd_RecvID raw else c)"
  define d where "d = raw\<lparr>sd_Ex := drop (length SecureWSMarker) (sd_Ex raw), sd_Content := plain\<rparr>"
  have rp: "readPush (SetContent plain i) = [(conv, Some \<lparr>pm_Msgs = [Some d], pm_rest = pm_rest pl\<rparr>)]"
    using readPush_readItem [OF m] m i by (simp add: conv_def d_def TrimPrefix_def marked_def)
  have f: "md_inner (SetContent plain i) \<noteq> None" "md_SecureRead (SetContent plain i)"
      "md_Resp (SetContent plain i) = Some resp"
    using i m by (auto simp: SetContent_def readItem_def Let_def marked_def)
  obtain bytes where b: "pb_marshalPush K (readPush (SetContent plain i)) = Some bytes"
      "encodeAndCompressReadBound K (resp\<lparr>rs_Data := bytes\<rparr>) = Ok out"
      "rt' = rememberRealtimePushMessages (readPush (SetContent plain i)) rt"
    using assms(5) f r(2) by (auto simp: MsgDataToBytesReadBound_def Let_def outcome_simps)
  show ?thesis
    using r(1,2) m decode_encode_ReadBound [OF assms(1) b(2)] codec_okD(2) [OF assms(1) b(1)] b(3) rp d_def
    by auto
qed

lemma secure_read_reencode_witness:
  "\<exists>out. fst (MsgDataToBytesReadBound exCodec ''u'' 0
      (SetContent [9] (readItem exResp ''conv'' \<lparr>pm_Msgs = [Some exMsg], pm_rest = []\<rparr> exMsg)) Map.empty) = Ok out \<and>
    (\<exists>resp bytes. decodeAndDecompressReadBound exCodec out = Ok (resp\<lparr>rs_Data := bytes\<rparr>))"
proof -
  let ?i = "readItem exResp ''conv'' \<lparr>pm_Msgs = [Some exMsg], pm_rest = []\<rparr> exMsg"
  have mk: "marked exMsg" by (simp add: marked_def exMsg_def)
  have "readItems exResp exPush = [?i]" by (simp add: readItems_def exPush_def)
  moreover have s: "md_SecureRead ?i" using mk by (simp add: readItem_def marked_def)
  moreover have "rs_ReqIdentifier exResp = realtimePushReqIdentifier"
    by (simp add: exResp_def realtimePushReqIdentifier_def)
  moreover have "decodeAndDecompressReadBound exCodec [0] = Ok exResp" "pb_unmarshalPush exCodec (rs_Data exResp) = Some exPush"
    by (simp_all add: decodeAndDecompressReadBound_def exCodec_def table_codec_def dec2_def exResp_def)
  ultimately have b: "BytesToMsgDataReadBoundBatch exCodec [0] Map.empty = (Ok [?i], Map.empty)"
    by (simp add: BytesToMsgDataReadBoundBatch_def Let_def exPush_def)
  have d: "exMsg\<lparr>sd_Ex := TrimPrefix (sd_Ex exMsg) SecureWSMarker, sd_Content := [9]\<rparr> = exPlain"
    by (simp add: exMsg_def exPlain_def)
  have rp: "readPush (SetContent [9] ?i) = exPushPlain"
    using readPush_readItem [OF mk] by (simp add: exPushPlain_def d)
  have ne: "exPushPlain \<noteq> exPush" by (simp add: exPush_def exPushPlain_def exMsg_def exPlain_def)
  have "fst (MsgDataToBytesReadBound exCodec ''u'' 0 (SetContent [9] ?i) Map.empty) = Ok [1]"
    using ne unfolding MsgDataToBytesReadBound_def rp
    by (simp add: Let_def readItem_def SetContent_def exCodec_def table_codec_def enc2_def
        encodeAndCompressReadBound_def exResp_def)
  then obtain rt' where o: "MsgDataToBytesReadBound exCodec ''u'' 0 (SetContent [9] ?i) Map.empty = (Ok [1], rt')"
    by (metis prod.collapse)
  show ?thesis
    using secure_read_reencode [OF table_codec_ok [of "(exMsg, exPlain)" "(exPush, exPushPlain)"
      "(exReq, exReq\<lparr>rq_Data := [1]\<rparr>)" "(exResp, exResp\<lparr>rs_Data := [1]\<rparr>)", folded exCodec_def] b _ s o] o
    by auto
qed

text \<open>A message remembered at its real-time delivery replaces exactly one synced copy of
  itself: the copy, still encrypted and marked, becomes the remembered plaintext, and the entry is
  gone, so that a second copy is dropped.\<close>

theorem remembered_once:
  assumes "marked raw" "realtimeMsgKey conv (Some raw) = k" "realtimeMsgKey conv (Some d) = k" "k \<noteq> []"
  shows "sanitizeMsgs conv [Some raw, Some raw] (rememberMsgs conv (ms @ [Some d]) rt) =
     ([Some d], True, (rememberMsgs conv ms rt)(k := None))"
  using assms
  by (simp add: rememberMsgs_last marked_def takeRealtimeMsgData_def Let_def)

lemma remembered_once_witness:
  "fst (sanitizeMsgs ''conv'' [Some exMsg, Some exMsg] (rememberMsgs ''conv'' [Some exPlain] Map.empty)) = [Some exPlain]"
  using remembered_once [of exMsg "''conv''" "realtimeMsgKey ''conv'' (Some exMsg)" exPlain "[]" Map.empty]
  by (simp add: marked_def realtimeMsgKey_def exMsg_def exPlain_def)

text \<open>An outbound text message is sent in the client's own request envelope: what the
  server decodes is the client's request with only the message data changed, and that data is the
  client's message with the given content and extension field; the message was one of those the
  layer has to secure.\<close>

theorem outbound_envelope:
  assumes "codec_ok K" "BytesToMsgDataWriteBound K data = Ok m"
    "MsgDataToBytesWriteBound K uuid now (SetEx e (SetContent c m)) = Ok out"
  shows "\<exists>req d bytes. decodeAndDecompressWriteBound K data = Ok req \<and> rq_ReqIdentifier req = 1003 \<and>
    pb_unmarshalMsg K (rq_Data req) = Some d \<and> shouldSecureOutbound d \<and>
    decodeAndDecompressWriteBound K out = Ok (req\<lparr>rq_Data := bytes\<rparr>) \<and>
    pb_unmarshalMsg K bytes = Some (d\<lparr>sd_Content := c, sd_Ex := e\<rparr>)"
proof -
  obtain req d where r: "decodeAndDecompressWriteBound K data = Ok req" "rq_ReqIdentifier req = 1003"
      "pb_unmarshalMsg K (rq_Data req) = Some d" "shouldSecureOutbound d"
      "md_inner m = Some d" "md_Req m = Some req"
    using assms(2) by (auto simp: BytesToMsgDataWriteBound_def outcome_simps split: option.splits if_splits)
  obtain bytes where b: "pb_marshalMsg K (d\<lparr>sd_Content := c, sd_Ex := e\<rparr>) = Some bytes"
      "encodeAndCompressWriteBound K (req\<lparr>rq_Data := bytes\<rparr>) = Ok out"
    using assms(3) r(5,6) by (auto simp: MsgDataToBytesWriteBound_def SetEx_def SetContent_def outcome_simps)
  show ?thesis
    using r decode_encode_WriteBound [OF assms(1) b(2)] codec_okD(1) [OF assms(1) b(1)] by blast
qed

lemma outbound_envelope_witness:
  "\<exists>m out d. BytesToMsgDataWriteBound exCodec [0] = Ok m \<and>
     MsgDataToBytesWriteBound exCodec ''u'' 0 (SetEx ''x'' (SetContent [9] m)) = Ok out \<and> shouldSecureOutbound d"
proof -
  define m where "m = \<lparr>md_inner = Some exMsg, md_Req = Some exReq, md_Resp = None, md_Push = None, md_SecureRead = False\<rparr>"
  have b: "BytesToMsgDataWriteBound exCodec [0] = Ok m"
    by (simp add: BytesToMsgDataWriteBound_def decodeAndDecompressWriteBound_def m_def exCodec_def
        table_codec_def dec2_def exReq_def shouldSecureOutbound_def exMsg_def secureTextContentType_def)
  have d: "exMsg\<lparr>sd_Content := [9], sd_Ex := ''x''\<rparr> = exPlain" by (simp add: exPlain_def)
  have ne: "exPlain \<noteq> exMsg" by (simp add: exPlain_def exMsg_def)
  have o: "MsgDataToBytesWriteBound exCodec ''u'' 0 (SetEx ''x'' (SetContent [9] m)) = Ok [1]"
    using ne d
    by (simp add: MsgDataToBytesWriteBound_def m_def SetEx_def SetContent_def exCodec_def table_codec_def
        enc2_def encodeAndCompressWriteBound_def exReq_def)
  have ok: "codec_ok exCodec" unfolding exCodec_def by (rule table_codec_ok)
  show ?thesis using outbound_envelope [OF ok b o] b o by blast
qed

text \<open>A control message of the handshake (built by \<open>ConstructMsgData\<close>) goes out in a
  request whose operation id and message id carry the marker, so that every answer that echoes
  either of them is recognised as internal; and a message constructed with both ids is one that
  the peer's outbound filter would accept as securable.\<close>

theorem control_request_marked:
  assumes "codec_ok K"
    "MsgDataToBytesWriteBound K uuid now (ConstructMsgData cid t sendID recvID payload) = Ok out"
  shows "\<exists>req d. decodeAndDecompressWriteBound K out = Ok req \<and> rq_ReqIdentifier req = 1003 \<and>
    rq_SendID req = sendID \<and> pb_unmarshalMsg K (rq_Data req) = Some d \<and>
    sd_Content d = payload \<and> (shouldSecureOutbound d \<longleftrightarrow> sendID \<noteq> [] \<and> recvID \<noteq> []) \<and>
    (\<forall>resp. rs_OperationID resp = rq_OperationID req \<or> rs_MsgIncr resp = rq_MsgIncr req \<longrightarrow> isSecureInternalResp resp)"
proof -
  let ?m = "ConstructMsgData cid t sendID recvID payload"
  obtain d bytes where b: "md_inner ?m = Some d" "pb_marshalMsg K d = Some bytes"
      "encodeAndCompressWriteBound K (constructReq uuid now bytes (sd_SendID d)) = Ok out"
    using assms(2) by (auto simp: MsgDataToBytesWriteBound_def ConstructMsgData_def outcome_simps)
  have d: "sd_SendID d = sendID" "sd_Content d = payload" "shouldSecureOutbound d \<longleftrightarrow> sendID \<noteq> [] \<and> recvID \<noteq> []"
    using b(1) by (auto simp: ConstructMsgData_def shouldSecureOutbound_def)
  show ?thesis
    using d decode_encode_WriteBound [OF assms(1) b(3)] codec_okD(1) [OF assms(1) b(2)]
    by (auto simp: constructReq_def isSecureInternalResp_def)
qed

definition ctlMsg :: sdkMsg where
  "ctlMsg = the (md_inner (ConstructMsgData ''i'' 5 ''a'' ''b'' [22]))"

lemma control_request_marked_witness:
  "\<exists>req. decodeAndDecompressWriteBound (table_codec (ctlMsg, ctlMsg) ([], [])
       (constructReq ''u'' 0 [0] ''a'', exReq) (exResp, exResp)) [0] = Ok req \<and> rq_SendID req = ''a''"
proof -
  let ?K = "table_codec (ctlMsg, ctlMsg) ([], []) (constructReq ''u'' 0 [0] ''a'', exReq) (exResp, exResp)"
  have "MsgDataToBytesWriteBound ?K ''u'' 0 (ConstructMsgData ''i'' 5 ''a'' ''b'' [22]) = Ok [0]"
    by (simp add: MsgDataToBytesWriteBound_def ConstructMsgData_def ctlMsg_def table_codec_def enc2_def
        encodeAndCompressWriteBound_def)
  from control_request_marked [OF table_codec_ok this] show ?thesis by auto
qed

end
