(* ===== verification/Recovery.thy ===== *)
theory Recovery
  imports ImParser "HOL-Library.AList" "HOL-Library.Multiset"
begin

text \<open>
  \<open>e2ewebsocket/recovery.go\<close>: the cache of sent messages, the messages that came in before
  they could be decrypted, the messages held back behind such a gap, and the control frames by
  which one side asks for a message again and the other sends it.  A Go map is an association
  list; the order in which \<open>range\<close> visits it is the argument \<open>visit\<close>.  What a function
  sends on \<open>msgChan\<close> is the list it returns.
\<close>

section \<open>References and keys\<close>

type_synonym SessionID = string

record secureMessageRef =
  mr_SendID :: string
  mr_RecvID :: string
  mr_ClientMsgID :: string
  mr_ServerMsgID :: string
  mr_Seq :: int

definition messageRef :: "MsgData \<Rightarrow> secureMessageRef" where
  "messageRef m =
     \<lparr>mr_SendID = GetSendID m, mr_RecvID = GetRecvID m, mr_ClientMsgID = GetClientMsgID m,
      mr_ServerMsgID = GetServerMsgID m, mr_Seq = GetSeq m\<rparr>"

definition clientKey :: "string \<Rightarrow> string" where "clientKey s = ''client:'' @ s"
definition serverKey :: "string \<Rightarrow> string" where "serverKey s = ''server:'' @ s"
definition seqKey :: "int \<Rightarrow> string" where "seqKey n = ''seq:'' @ decimal n"

definition messageRefCandidateKeys :: "secureMessageRef \<Rightarrow> string list" where
  "messageRefCandidateKeys ref =
     (if mr_ClientMsgID ref \<noteq> [] then [clientKey (mr_ClientMsgID ref)] else []) @
     (if mr_ServerMsgID ref \<noteq> [] then [serverKey (mr_ServerMsgID ref)] else []) @
     (if mr_Seq ref \<noteq> 0 then [seqKey (mr_Seq ref)] else [])"

definition messageRefKey :: "secureMessageRef \<Rightarrow> string" where
  "messageRefKey ref = (case messageRefCandidateKeys ref of [] \<Rightarrow> [] | k # _ \<Rightarrow> k)"

definition noIdentity :: "secureMessageRef \<Rightarrow> bool" where
  "noIdentity ref \<longleftrightarrow> mr_ClientMsgID ref = [] \<and> mr_ServerMsgID ref = [] \<and> mr_Seq ref = 0"

definition mergeMessageRef :: "secureMessageRef \<Rightarrow> secureMessageRef \<Rightarrow> secureMessageRef" where
  "mergeMessageRef primary fallback =
     \<lparr>mr_SendID = (if mr_SendID primary = [] then mr_SendID fallback else mr_SendID primary),
      mr_RecvID = (if mr_RecvID primary = [] then mr_RecvID fallback else mr_RecvID primary),
      mr_ClientMsgID = (if mr_ClientMsgID primary = [] then mr_ClientMsgID fallback else mr_ClientMsgID primary),
      mr_ServerMsgID = (if mr_ServerMsgID primary = [] then mr_ServerMsgID fallback else mr_ServerMsgID primary),
      mr_Seq = (if mr_Seq primary = 0 then mr_Seq fallback else mr_Seq primary)\<rparr>"

lemma messageRefKey_Nil: "messageRefKey ref = [] \<longleftrightarrow> noIdentity ref"
  by (simp add: messageRefKey_def messageRefCandidateKeys_def noIdentity_def clientKey_def
      serverKey_def seqKey_def)

lemma messageRefKey_cong:
  "mr_ClientMsgID r = mr_ClientMsgID r' \<Longrightarrow> mr_ServerMsgID r = mr_ServerMsgID r' \<Longrightarrow> mr_Seq r = mr_Seq r' \<Longrightarrow>
   messageRefKey r = messageRefKey r'"
  by (simp add: messageRefKey_def messageRefCandidateKeys_def)

section \<open>State\<close>

record cachedOutboundMsg =
  co_ref :: secureMessageRef
  co_content :: bytes

record sendCache =
  sc_map :: "string \<rightharpoonup> cachedOutboundMsg"
  sc_order :: "string list"

record readMsgItem =
  ri_sessionId :: SessionID
  ri_remoteId :: string
  ri_msgType :: int
  ri_msg :: bytes
  ri_err :: "error option"

record lostInboundMsg =
  li_ref :: secureMessageRef
  li_peerID :: string
  li_msgType :: int
  li_msgData :: MsgData
  li_createdAt :: int

record pendingInboundMsg =
  pi_ref :: secureMessageRef
  pi_item :: readMsgItem

record reorderState =
  ro_lost :: "(string \<times> lostInboundMsg) list"
  ro_pending :: "(string \<times> pendingInboundMsg) list"

type_synonym reorderMap = "SessionID \<rightharpoonup> reorderState"

type_synonym visitOrder = "(string \<times> pendingInboundMsg) list \<Rightarrow> (string \<times> pendingInboundMsg) list"

definition newReorderState :: reorderState where
  "newReorderState = \<lparr>ro_lost = [], ro_pending = []\<rparr>"

definition reorderStateLocked :: "SessionID \<Rightarrow> reorderMap \<Rightarrow> reorderState" where
  "reorderStateLocked sid ro = (case ro sid of None \<Rightarrow> newReorderState | Some st \<Rightarrow> st)"

record secureControlMsgPayload =
  cp_Ref :: secureMessageRef
  cp_Content :: bytes

record secureControlFrame =
  cf_Type :: string
  cf_Messages :: "secureControlMsgPayload list"

definition secureControlLostRequest :: string where
  "secureControlLostRequest = ''lost_request''"

definition secureControlRetransmit :: string where
  "secureControlRetransmit = ''retransmit''"

section \<open>The cache of sent messages\<close>

definition maxSendCacheEntries :: nat where "maxSendCacheEntries = 256"

function evictOldest :: "sendCache \<Rightarrow> sendCache" where
  "evictOldest sc =
     (if maxSendCacheEntries < length (sc_order sc)
      then evictOldest \<lparr>sc_map = (sc_map sc)(hd (sc_order sc) := None), sc_order = tl (sc_order sc)\<rparr>
      else sc)"
  by pat_completeness auto
termination by (relation "measure (\<lambda>sc. length (sc_order sc))") (auto simp: maxSendCacheEntries_def)

declare evictOldest.simps [simp del]

definition cacheOutboundMessage :: "MsgData \<Rightarrow> sendCache \<Rightarrow> sendCache" where
  "cacheOutboundMessage m sc =
     (let ref = messageRef m; key = messageRefKey ref in
      if noIdentity ref then sc
      else if key = [] then sc
      else evictOldest
        \<lparr>sc_map = (sc_map sc)(key \<mapsto> \<lparr>co_ref = ref, co_content = GetContent m\<rparr>),
         sc_order = (if sc_map sc key = None then sc_order sc @ [key] else sc_order sc)\<rparr>)"

definition findCachedOutboundLocked :: "secureMessageRef \<Rightarrow> sendCache \<Rightarrow> cachedOutboundMsg option" where
  "findCachedOutboundLocked ref sc =
     (case find (\<lambda>key. sc_map sc key \<noteq> None) (messageRefCandidateKeys ref) of
        None \<Rightarrow> None | Some key \<Rightarrow> sc_map sc key)"

definition handleLostRequest :: "secureControlMsgPayload list \<Rightarrow> sendCache \<Rightarrow> secureControlFrame option" where
  "handleLostRequest messages sc =
     (let response = concat (map (\<lambda>msg.
            case findCachedOutboundLocked (cp_Ref msg) sc of None \<Rightarrow> []
            | Some entry \<Rightarrow> [\<lparr>cp_Ref = mergeMessageRef (cp_Ref msg) (co_ref entry),
                            cp_Content = co_content entry\<rparr>]) messages)
      in if response = [] then None
         else Some \<lparr>cf_Type = secureControlRetransmit, cf_Messages = response\<rparr>)"

section \<open>Lost and held-back messages\<close>

text \<open>\<open>now\<close> is the clock.  The result tells whether the two goroutines were started: the
  request for the message (of this reference) and the timer (of this key).\<close>

definition markLostInbound ::
  "int \<Rightarrow> SessionID \<Rightarrow> string \<Rightarrow> int \<Rightarrow> MsgData \<Rightarrow> reorderMap \<Rightarrow> (secureMessageRef \<times> string) option \<times> reorderMap" where
  "markLostInbound now sid peerID msgType msgData ro =
     (let ref = messageRef msgData; key = messageRefKey ref in
      if noIdentity ref then (None, ro)
      else if key = [] then (None, ro)
      else let st = reorderStateLocked sid ro;
               st' = (if map_of (ro_lost st) key = None
                      then st\<lparr>ro_lost := AList.update key
                             \<lparr>li_ref = ref, li_peerID = peerID, li_msgType = msgType,
                              li_msgData = msgData, li_createdAt = now\<rparr> (ro_lost st)\<rparr>
                      else st)
           in (Some (ref, key), ro(sid \<mapsto> st')))"

datatype handshakeWait = HandshakeDone | SessionClosed | WaitTimeout

definition requestLostAfterHandshake :: "bool \<Rightarrow> handshakeWait \<Rightarrow> secureMessageRef \<Rightarrow> secureControlFrame option" where
  "requestLostAfterHandshake isComplete wait ref =
     (if \<not> isComplete \<and> wait \<noteq> HandshakeDone then None
      else Some \<lparr>cf_Type = secureControlLostRequest, cf_Messages = [\<lparr>cp_Ref = ref, cp_Content = []\<rparr>]\<rparr>)"

definition hasBlockingGapLocked :: "reorderState \<Rightarrow> secureMessageRef \<Rightarrow> bool" where
  "hasBlockingGapLocked st ref =
     (if mr_Seq ref = 0 then False
      else list_ex (\<lambda>(_, lost). mr_Seq (li_ref lost) > 0 \<and> mr_Seq (li_ref lost) < mr_Seq ref) (ro_lost st))"

definition pendingLess :: "pendingInboundMsg \<Rightarrow> pendingInboundMsg \<Rightarrow> bool" where
  "pendingLess a b =
     (if mr_Seq (pi_ref a) = 0 \<or> mr_Seq (pi_ref b) = 0
      then messageRefKey (pi_ref a) < messageRefKey (pi_ref b)
      else mr_Seq (pi_ref a) < mr_Seq (pi_ref b))"

text \<open>\<open>sort.SliceStable\<close>: for a strict weak order the stable sort is unique, here by insertion.\<close>

fun stableInsert :: "('a \<Rightarrow> 'a \<Rightarrow> bool) \<Rightarrow> 'a \<Rightarrow> 'a list \<Rightarrow> 'a list" where
  "stableInsert lt x [] = [x]"
| "stableInsert lt x (y # ys) = (if lt y x then y # stableInsert lt x ys else x # y # ys)"

definition SliceStable :: "('a \<Rightarrow> 'a \<Rightarrow> bool) \<Rightarrow> 'a list \<Rightarrow> 'a list" where
  "SliceStable lt xs = foldr (stableInsert lt) xs []"

fun releaseReady :: "reorderState \<Rightarrow> pendingInboundMsg list \<Rightarrow> readMsgItem list \<times> reorderState" where
  "releaseReady st [] = ([], st)"
| "releaseReady st (m # ms) =
     (if hasBlockingGapLocked st (pi_ref m) then releaseReady st ms
      else let (ready, st') =
             releaseReady (st\<lparr>ro_pending := AList.delete (messageRefKey (pi_ref m)) (ro_pending st)\<rparr>) ms
           in (pi_item m # ready, st'))"

definition flushReadyPendingLocked :: "visitOrder \<Rightarrow> reorderState \<Rightarrow> readMsgItem list \<times> reorderState" where
  "flushReadyPendingLocked visit st =
     (if ro_pending st = [] then ([], st)
      else releaseReady st (SliceStable pendingLess (map snd (visit (ro_pending st)))))"

definition flushReadyPending :: "visitOrder \<Rightarrow> SessionID \<Rightarrow> reorderMap \<Rightarrow> readMsgItem list \<times> reorderMap" where
  "flushReadyPending visit sid ro =
     (case ro sid of None \<Rightarrow> ([], ro)
      | Some st \<Rightarrow> let (ready, st') = flushReadyPendingLocked visit st in (ready, ro(sid \<mapsto> st')))"

definition expireLostInbound :: "visitOrder \<Rightarrow> SessionID \<Rightarrow> string \<Rightarrow> reorderMap \<Rightarrow> readMsgItem list \<times> reorderMap" where
  "expireLostInbound visit sid key ro =
     (case ro sid of None \<Rightarrow> ([], ro)
      | Some st \<Rightarrow>
          if map_of (ro_lost st) key = None then ([], ro)
          else let (ready, st') = flushReadyPendingLocked visit (st\<lparr>ro_lost := AList.delete key (ro_lost st)\<rparr>)
               in (ready, ro(sid \<mapsto> st')))"

definition deliverApplication ::
  "visitOrder \<Rightarrow> int \<Rightarrow> SessionID \<Rightarrow> secureMessageRef \<Rightarrow> readMsgItem \<Rightarrow> reorderMap \<Rightarrow> readMsgItem list \<times> reorderMap" where
  "deliverApplication visit now sid ref item ro =
     (let st = reorderStateLocked sid ro in
      if hasBlockingGapLocked st ref then
        (let key = messageRefKey ref;
             key' = (if key = [] then ''pending:'' @ decimal (mr_Seq ref) @ '':'' @ decimal now else key)
         in ([], ro(sid \<mapsto> st\<lparr>ro_pending := AList.update key' \<lparr>pi_ref = ref, pi_item = item\<rparr> (ro_pending st)\<rparr>)))
      else let (ready, ro') = flushReadyPending visit sid (ro(sid \<mapsto> st)) in (item # ready, ro'))"

text \<open>The entry a retransmitted message belongs to, with the key it was found under.\<close>

definition findLost :: "secureMessageRef \<Rightarrow> reorderState \<Rightarrow> (string \<times> lostInboundMsg) option" where
  "findLost ref st =
     (let keys = [messageRefKey ref]
          @ (if mr_ClientMsgID ref \<noteq> [] then [clientKey (mr_ClientMsgID ref)] else [])
          @ (if mr_ServerMsgID ref \<noteq> [] then [serverKey (mr_ServerMsgID ref)] else [])
          @ (if mr_Seq ref \<noteq> 0 then [seqKey (mr_Seq ref)] else [])
      in case find (\<lambda>k. map_of (ro_lost st) k \<noteq> None) keys of None \<Rightarrow> None
         | Some k \<Rightarrow> map_option (Pair k) (map_of (ro_lost st) k))"

text \<open>One message of a retransmission.  The message object lives in the entry, so a failing
  rebuild leaves the new content in it.\<close>

definition restoreOne ::
  "codec \<Rightarrow> string \<Rightarrow> int \<Rightarrow> SessionID \<Rightarrow> string \<Rightarrow> secureControlMsgPayload \<Rightarrow> reorderState \<times> realtimeMap \<Rightarrow>
   readMsgItem list \<times> reorderState \<times> realtimeMap" where
  "restoreOne K uuid now sid peerID msg s =
     (let (st, rt) = s in
      case findLost (cp_Ref msg) st of None \<Rightarrow> ([], st, rt)
      | Some (k, lost) \<Rightarrow>
          let md = SetContent (cp_Content msg) (li_msgData lost) in
          case MsgDataToBytesReadBound K uuid now md rt of
            (Ok b, rt') \<Rightarrow>
              let key = messageRefKey (li_ref lost);
                  st1 = st\<lparr>ro_lost := AList.delete key (ro_lost st)\<rparr>;
                  item = \<lparr>ri_sessionId = sid, ri_remoteId = peerID, ri_msgType = li_msgType lost,
                          ri_msg = b, ri_err = None\<rparr>
              in if hasBlockingGapLocked st1 (li_ref lost)
                 then ([], st1\<lparr>ro_pending := AList.update key \<lparr>pi_ref = li_ref lost, pi_item = item\<rparr> (ro_pending st1)\<rparr>, rt')
                 else ([item], st1, rt')
          | (_, rt') \<Rightarrow> ([], st\<lparr>ro_lost := AList.update k (lost\<lparr>li_msgData := md\<rparr>) (ro_lost st)\<rparr>, rt'))"

fun restoreAll ::
  "codec \<Rightarrow> string \<Rightarrow> int \<Rightarrow> SessionID \<Rightarrow> string \<Rightarrow> secureControlMsgPayload list \<Rightarrow> reorderState \<times> realtimeMap \<Rightarrow>
   readMsgItem list \<times> reorderState \<times> realtimeMap" where
  "restoreAll K uuid now sid peerID [] s = ([], s)"
| "restoreAll K uuid now sid peerID (m # ms) s =
     (let (r1, s1) = restoreOne K uuid now sid peerID m s;
          (r2, s2) = restoreAll K uuid now sid peerID ms s1
      in (r1 @ r2, s2))"

definition handleRetransmit ::
  "codec \<Rightarrow> string \<Rightarrow> int \<Rightarrow> visitOrder \<Rightarrow> SessionID \<Rightarrow> string \<Rightarrow> secureControlMsgPayload list \<Rightarrow>
   reorderMap \<times> realtimeMap \<Rightarrow> readMsgItem list \<times> reorderMap \<times> realtimeMap" where
  "handleRetransmit K uuid now visit sid peerID messages s =
     (let (ro, rt) = s in
      case ro sid of None \<Rightarrow> ([], ro, rt)
      | Some st \<Rightarrow>
          let (r1, st1, rt1) = restoreAll K uuid now sid peerID messages (st, rt);
              (r2, st2) = flushReadyPendingLocked visit st1
          in (r1 @ r2, ro(sid \<mapsto> st2), rt1))"

text \<open>A control frame: what the reader emits, and the frame that goes back to the peer.
  \<open>json\<close> decodes the payload.\<close>

definition handleSecureControl ::
  "codec \<Rightarrow> string \<Rightarrow> int \<Rightarrow> visitOrder \<Rightarrow> (bytes \<Rightarrow> secureControlFrame option) \<Rightarrow> SessionID \<Rightarrow> string \<Rightarrow> bytes \<Rightarrow>
   sendCache \<Rightarrow> reorderMap \<times> realtimeMap \<Rightarrow>
   readMsgItem list \<times> secureControlFrame option \<times> reorderMap \<times> realtimeMap" where
  "handleSecureControl K uuid now visit json sid peerID payload sc s =
     (case json payload of None \<Rightarrow> ([], None, s)
      | Some frame \<Rightarrow>
          if cf_Type frame = secureControlLostRequest then ([], handleLostRequest (cf_Messages frame) sc, s)
          else if cf_Type frame = secureControlRetransmit then
            (let (out, s') = handleRetransmit K uuid now visit sid peerID (cf_Messages frame) s in (out, None, s'))
          else ([], None, s))"

section \<open>Lemmas on the cache\<close>

definition cache_ok :: "sendCache \<Rightarrow> bool" where
  "cache_ok sc \<longleftrightarrow>
     distinct (sc_order sc) \<and> set (sc_order sc) = dom (sc_map sc) \<and>
     length (sc_order sc) \<le> maxSendCacheEntries \<and>
     (\<forall>k e. sc_map sc k = Some e \<longrightarrow> messageRefKey (co_ref e) = k)"

lemma evictOldest_small: "length (sc_order sc) \<le> maxSendCacheEntries \<Longrightarrow> evictOldest sc = sc"
  by (subst evictOldest.simps) simp

lemma evictOldest_one:
  assumes "length (sc_order sc) = Suc maxSendCacheEntries"
  shows "evictOldest sc = \<lparr>sc_map = (sc_map sc)(hd (sc_order sc) := None), sc_order = tl (sc_order sc)\<rparr>"
  using assms by (subst evictOldest.simps) (simp add: evictOldest_small)

lemma cacheOutboundMessage_cases:
  assumes "cache_ok sc" "\<not> noIdentity (messageRef m)"
  defines "key \<equiv> messageRefKey (messageRef m)"
    and "entry \<equiv> \<lparr>co_ref = messageRef m, co_content = GetContent m\<rparr>"
  shows "cacheOutboundMessage m sc =
    (if sc_map sc key \<noteq> None then sc\<lparr>sc_map := (sc_map sc)(key \<mapsto> entry)\<rparr>
     else if length (sc_order sc) < maxSendCacheEntries
       then \<lparr>sc_map = (sc_map sc)(key \<mapsto> entry), sc_order = sc_order sc @ [key]\<rparr>
     else \<lparr>sc_map = (sc_map sc)(key \<mapsto> entry, hd (sc_order sc) := None), sc_order = tl (sc_order sc) @ [key]\<rparr>)"
proof -
  have ne: "messageRefKey (messageRef m) \<noteq> []" using assms(2) by (simp add: messageRefKey_Nil)
  have len: "length (sc_order sc) \<le> maxSendCacheEntries" using assms(1) by (simp add: cache_ok_def)
  show ?thesis
  proof (cases "sc_map sc key = None \<and> \<not> length (sc_order sc) < maxSendCacheEntries")
    case True
    then have "sc_order sc \<noteq> []" by (auto simp: maxSendCacheEntries_def)
    then show ?thesis
      using True len ne assms(2)
      by (simp add: cacheOutboundMessage_def Let_def key_def entry_def evictOldest_one)
  next
    case False
    then show ?thesis
      using len ne assms(2)
      by (auto simp: cacheOutboundMessage_def Let_def key_def entry_def evictOldest_small)
  qed
qed

lemma cacheOutboundMessage_ok_step:
  assumes "cache_ok sc"
  shows "cache_ok (cacheOutboundMessage m sc) \<and>
    (\<not> noIdentity (messageRef m) \<longrightarrow>
       sc_map (cacheOutboundMessage m sc) (messageRefKey (messageRef m)) =
         Some \<lparr>co_ref = messageRef m, co_content = GetContent m\<rparr>)"
proof (cases "noIdentity (messageRef m)")
  case True
  then show ?thesis using assms by (simp add: cacheOutboundMessage_def)
next
  case False
  let ?key = "messageRefKey (messageRef m)"
  have C: "distinct (sc_order sc)" "set (sc_order sc) = dom (sc_map sc)"
    "length (sc_order sc) \<le> maxSendCacheEntries"
    using assms by (auto simp: cache_ok_def)
  note eq = cacheOutboundMessage_cases [OF assms False]
  consider "sc_map sc ?key \<noteq> None" | "sc_map sc ?key = None" "length (sc_order sc) < maxSendCacheEntries"
    | "sc_map sc ?key = None" "length (sc_order sc) = maxSendCacheEntries"
    using C(3) by linarith
  then show ?thesis
  proof cases
    case 1
    then show ?thesis using assms False by (auto simp: eq cache_ok_def)
  next
    case 2
    then show ?thesis using assms False by (auto simp: eq cache_ok_def)
  next
    case 3
    then obtain h t where o: "sc_order sc = h # t" by (cases "sc_order sc") (auto simp: maxSendCacheEntries_def)
    then have "h \<noteq> ?key" "?key \<notin> set t" "h \<notin> set t" using C 3(1) by auto
    then show ?thesis using assms False 3 o by (auto simp: eq cache_ok_def)
  qed
qed

section \<open>Lemmas on the reordering state\<close>

definition blocked :: "reorderState \<Rightarrow> pendingInboundMsg \<Rightarrow> bool" where
  "blocked st p \<longleftrightarrow> hasBlockingGapLocked st (pi_ref p)"

definition keyed :: "reorderState \<Rightarrow> bool" where
  "keyed st \<longleftrightarrow>
     distinct (map fst (ro_lost st)) \<and> distinct (map fst (ro_pending st)) \<and>
     (\<forall>(k, l)\<in>set (ro_lost st). k = messageRefKey (li_ref l) \<and> k \<noteq> []) \<and>
     (\<forall>(k, p)\<in>set (ro_pending st). k = messageRefKey (pi_ref p) \<and> mr_Seq (pi_ref p) > 0)"

text \<open>The state between two operations: every message held back is behind a gap.\<close>

definition reorder_ok :: "reorderState \<Rightarrow> bool" where
  "reorder_ok st \<longleftrightarrow> keyed st \<and> (\<forall>(k, p)\<in>set (ro_pending st). blocked st p)"

definition reorderMap_ok :: "reorderMap \<Rightarrow> bool" where
  "reorderMap_ok ro \<longleftrightarrow> (\<forall>sid st. ro sid = Some st \<longrightarrow> reorder_ok st)"

lemma hasBlockingGap_iff:
  "hasBlockingGapLocked st ref \<longleftrightarrow> (\<exists>(k, l)\<in>set (ro_lost st). 0 < mr_Seq (li_ref l) \<and> mr_Seq (li_ref l) < mr_Seq ref)"
  by (auto simp: hasBlockingGapLocked_def list_ex_iff)

lemma hasBlockingGap_pos: "hasBlockingGapLocked st ref \<Longrightarrow> mr_Seq ref > 0"
  by (auto simp: hasBlockingGap_iff)

lemma hasBlockingGap_lost: "hasBlockingGapLocked (st\<lparr>ro_pending := x\<rparr>) = hasBlockingGapLocked st"
  by (simp add: fun_eq_iff hasBlockingGap_iff)

lemma blocked_lost [simp]: "blocked (st\<lparr>ro_pending := x\<rparr>) = blocked st"
  by (simp add: fun_eq_iff blocked_def hasBlockingGap_lost)

lemma pos_key: "mr_Seq ref > 0 \<Longrightarrow> messageRefKey ref \<noteq> []"
  by (simp add: messageRefKey_Nil noIdentity_def)

lemma stableInsert_insort:
  assumes "mr_Seq (pi_ref x) > 0" "\<forall>y\<in>set ys. mr_Seq (pi_ref y) > 0"
  shows "stableInsert pendingLess x ys = insort_key (\<lambda>p. mr_Seq (pi_ref p)) x ys"
  using assms by (induction ys) (auto simp: pendingLess_def)

lemma SliceStable_sort:
  assumes "\<forall>y\<in>set xs. mr_Seq (pi_ref y) > 0"
  shows "SliceStable pendingLess xs = sort_key (\<lambda>p. mr_Seq (pi_ref p)) xs"
  using assms
proof (induction xs)
  case (Cons x xs)
  then have "SliceStable pendingLess xs = sort_key (\<lambda>p. mr_Seq (pi_ref p)) xs" by simp
  then show ?case
    using Cons.prems by (simp add: SliceStable_def stableInsert_insort)
qed (simp add: SliceStable_def)

lemma releaseReady_eq:
  "releaseReady st ms =
     (map pi_item (filter (\<lambda>m. \<not> blocked st m) ms),
      st\<lparr>ro_pending := filter (\<lambda>(k, _). k \<notin> (\<lambda>m. messageRefKey (pi_ref m)) ` {m \<in> set ms. \<not> blocked st m}) (ro_pending st)\<rparr>)"
proof (induction ms arbitrary: st)
  case Nil
  then show ?case by simp
next
  case (Cons m ms)
  show ?case
  proof (cases "blocked st m")
    case True
    then have "{x \<in> set (m # ms). \<not> blocked st x} = {x \<in> set ms. \<not> blocked st x}" by auto
    then show ?thesis using Cons True by (simp add: blocked_def)
  next
    case False
    then have "{x \<in> set (m # ms). \<not> blocked st x} = insert m {x \<in> set ms. \<not> blocked st x}" by auto
    then show ?thesis
      using Cons [of "st\<lparr>ro_pending := AList.delete (messageRefKey (pi_ref m)) (ro_pending st)\<rparr>"] False
      by (simp add: blocked_def [of st m] AList.delete_eq split_def conj_commute eq_commute [of "messageRefKey (pi_ref m)"])
  qed
qed

lemma keyed_pendingD:
  assumes "keyed st" "(k, p) \<in> set (ro_pending st)"
  shows "k = messageRefKey (pi_ref p)" "mr_Seq (pi_ref p) > 0"
  using assms by (auto simp: keyed_def)

lemma keyed_lostD:
  assumes "keyed st" "(k, l) \<in> set (ro_lost st)"
  shows "k = messageRefKey (li_ref l)" "k \<noteq> []"
  using assms by (auto simp: keyed_def)

lemma keyed_distinct:
  assumes "keyed st"
  shows "distinct (map fst (ro_lost st))" "distinct (map fst (ro_pending st))"
  using assms by (simp_all add: keyed_def)

lemma keyed_inj:
  assumes "keyed st" "(k, p) \<in> set (ro_pending st)" "(k', p') \<in> set (ro_pending st)"
    "messageRefKey (pi_ref p) = messageRefKey (pi_ref p')"
  shows "p = p'"
proof -
  have "k = k'" using keyed_pendingD(1) [OF assms(1)] assms(2-4) by metis
  then show ?thesis
    using assms(2,3) eq_key_imp_eq_value [OF keyed_distinct(2) [OF assms(1)]] by metis
qed

lemma flushReadyPendingLocked_eq:
  assumes "keyed st" "mset (visit (ro_pending st)) = mset (ro_pending st)"
  shows "flushReadyPendingLocked visit st =
    (map pi_item (sort_key (\<lambda>p. mr_Seq (pi_ref p))
       (filter (\<lambda>p. \<not> blocked st p) (map snd (visit (ro_pending st))))),
     st\<lparr>ro_pending := filter (\<lambda>(k, p). blocked st p) (ro_pending st)\<rparr>)"
proof -
  have sv: "set (visit (ro_pending st)) = set (ro_pending st)" using assms(2) by (rule mset_eq_setD)
  have pos: "\<forall>y\<in>set (map snd (visit (ro_pending st))). mr_Seq (pi_ref y) > 0"
    using keyed_pendingD(2) [OF assms(1)] sv by force
  have key: "k \<notin> (\<lambda>m. messageRefKey (pi_ref m)) ` {m \<in> snd ` set (ro_pending st). \<not> blocked st m} \<longleftrightarrow> blocked st p"
    if "(k, p) \<in> set (ro_pending st)" for k p
  proof -
    have k: "k = messageRefKey (pi_ref p)" using keyed_pendingD(1) [OF assms(1) that] .
    show ?thesis
    proof
      assume *: "k \<notin> (\<lambda>m. messageRefKey (pi_ref m)) ` {m \<in> snd ` set (ro_pending st). \<not> blocked st m}"
      have "p \<in> snd ` set (ro_pending st)" using that by force
      then show "blocked st p" using * k by blast
    next
      assume "blocked st p"
      then show "k \<notin> (\<lambda>m. messageRefKey (pi_ref m)) ` {m \<in> snd ` set (ro_pending st). \<not> blocked st m}"
        using k keyed_inj [OF assms(1) that] by auto
    qed
  qed
  have "filter (\<lambda>(k, _). k \<notin> (\<lambda>m. messageRefKey (pi_ref m)) ` {m \<in> snd ` set (ro_pending st). \<not> blocked st m}) (ro_pending st)
      = filter (\<lambda>(k, p). blocked st p) (ro_pending st)"
    using key by (auto intro!: filter_cong)
  then have rel: "releaseReady st (sort_key (\<lambda>p. mr_Seq (pi_ref p)) (map snd (visit (ro_pending st)))) =
    (map pi_item (sort_key (\<lambda>p. mr_Seq (pi_ref p)) (filter (\<lambda>p. \<not> blocked st p) (map snd (visit (ro_pending st))))),
     st\<lparr>ro_pending := filter (\<lambda>(k, p). blocked st p) (ro_pending st)\<rparr>)"
    by (simp add: releaseReady_eq filter_sort sv)
  show ?thesis
  proof (cases "ro_pending st = []")
    case True
    then have "visit (ro_pending st) = []" using assms(2) by simp
    then show ?thesis using True by (simp add: flushReadyPendingLocked_def)
  next
    case False
    then show ?thesis by (simp only: flushReadyPendingLocked_def SliceStable_sort [OF pos] rel if_False)
  qed
qed

lemma mset_map_snd_filter:
  "image_mset snd (filter_mset (\<lambda>(k, p). P p) M) = filter_mset P (image_mset snd M)"
  by (induction M) auto

lemma flush_split:
  assumes "keyed st" "mset (visit (ro_pending st)) = mset (ro_pending st)"
    "flushReadyPendingLocked visit st = (ready, st')"
  shows "\<exists>ps. ready = map pi_item ps \<and> sorted (map (\<lambda>p. mr_Seq (pi_ref p)) ps) \<and>
    mset ps + mset (map snd (ro_pending st')) = mset (map snd (ro_pending st)) \<and>
    (\<forall>p\<in>set ps. \<not> blocked st p) \<and> ro_lost st' = ro_lost st \<and> reorder_ok st'"
proof -
  let ?ps = "sort_key (\<lambda>p. mr_Seq (pi_ref p)) (filter (\<lambda>p. \<not> blocked st p) (map snd (visit (ro_pending st))))"
  have e: "ready = map pi_item ?ps" "st' = st\<lparr>ro_pending := filter (\<lambda>(k, p). blocked st p) (ro_pending st)\<rparr>"
    using assms(3) flushReadyPendingLocked_eq [where st = st and visit = visit, OF assms(1,2)] by auto
  have m: "mset (map snd (visit (ro_pending st))) = mset (map snd (ro_pending st))"
    using assms(2) by simp
  have "mset (map snd (ro_pending st')) = filter_mset (blocked st) (mset (map snd (ro_pending st)))"
    unfolding e(2) by (simp add: mset_map_snd_filter)
  moreover have "mset ?ps = filter_mset (\<lambda>p. \<not> blocked st p) (mset (map snd (ro_pending st)))"
    by (simp only: mset_sort mset_filter m)
  ultimately have c: "mset ?ps + mset (map snd (ro_pending st')) = mset (map snd (ro_pending st))"
    by (metis add.commute multiset_partition)
  have d: "distinct (map fst (ro_pending st'))"
    unfolding e(2) using keyed_distinct(2) [OF assms(1)] by (simp add: distinct_map_filter)
  have k: "keyed st'"
    using d assms(1) unfolding e(2) by (auto simp: keyed_def)
  have "reorder_ok st'" using k unfolding reorder_ok_def e(2) by auto
  then show ?thesis using e c by (intro exI [of _ ?ps]) auto
qed

lemma flush_ok_nothing:
  assumes "reorder_ok st" "mset (visit (ro_pending st)) = mset (ro_pending st)"
  shows "flushReadyPendingLocked visit st = ([], st)"
proof -
  have s: "set (visit (ro_pending st)) = set (ro_pending st)" using assms(2) by (rule mset_eq_setD)
  have b: "\<forall>x\<in>set (ro_pending st). blocked st (snd x)" using assms(1) by (auto simp: reorder_ok_def)
  have k: "keyed st" using assms(1) by (simp add: reorder_ok_def)
  have "filter (\<lambda>(k, p). blocked st p) (ro_pending st) = ro_pending st"
    using b by (auto intro!: filter_True)
  moreover have "filter (\<lambda>p. \<not> blocked st p) (map snd (visit (ro_pending st))) = []"
    using b s by (auto simp: filter_empty_conv)
  ultimately show ?thesis
    using flushReadyPendingLocked_eq [where st = st and visit = visit, OF k assms(2)] by simp
qed

lemma reorder_ok_new [simp]: "reorder_ok newReorderState"
  by (simp add: reorder_ok_def keyed_def newReorderState_def)

lemma reorderMap_okD: "reorderMap_ok ro \<Longrightarrow> reorder_ok (reorderStateLocked sid ro)"
  by (auto simp: reorderMap_ok_def reorderStateLocked_def split: option.splits)

lemma reorderMap_ok_upd: "reorderMap_ok ro \<Longrightarrow> reorder_ok st \<Longrightarrow> reorderMap_ok (ro(sid \<mapsto> st))"
  by (auto simp: reorderMap_ok_def)

lemma set_update_new:
  "map_of al k = None \<Longrightarrow> set (AList.update k v al) = insert (k, v) (set al)"
  by (induction al) (auto split: if_splits)

lemma update_append_new:
  "k \<notin> fst ` set al \<Longrightarrow> AList.update k v al = al @ [(k, v)]"
  by (induction al) auto

lemma set_update_sub: "set (AList.update k v al) \<subseteq> insert (k, v) (set al)"
  by (induction al) auto

lemma set_update_mem: "x \<in> set (AList.update k v al) \<Longrightarrow> x = (k, v) \<or> x \<in> set al"
  using set_update_sub by fastforce

lemma set_update_other: "(k', v') \<in> set al \<Longrightarrow> k' \<noteq> k \<Longrightarrow> (k', v') \<in> set (AList.update k v al)"
  by (induction al) auto

lemma set_update_in: "(k, v) \<in> set (AList.update k v al)"
  by (induction al) auto

lemma keyed_update_lost:
  assumes "keyed st" "k = messageRefKey (li_ref l)" "k \<noteq> []"
  shows "keyed (st\<lparr>ro_lost := AList.update k l (ro_lost st)\<rparr>)"
  using assms by (auto simp: keyed_def distinct_update dest!: set_update_mem)

lemma keyed_delete_lost:
  assumes "keyed st"
  shows "keyed (st\<lparr>ro_lost := AList.delete k (ro_lost st)\<rparr>)"
  using assms by (auto simp: keyed_def distinct_delete AList.delete_eq distinct_map_filter)

lemma keyed_update_pending:
  assumes "keyed st" "k = messageRefKey (pi_ref p)" "mr_Seq (pi_ref p) > 0"
  shows "keyed (st\<lparr>ro_pending := AList.update k p (ro_pending st)\<rparr>)"
  using assms by (auto simp: keyed_def distinct_update dest!: set_update_mem)

lemma markLost_ok:
  assumes "reorderMap_ok ro"
  shows "reorderMap_ok (snd (markLostInbound now sid peer ty md ro))"
proof (cases "noIdentity (messageRef md)")
  case True
  then show ?thesis using assms by (simp add: markLostInbound_def)
next
  case False
  let ?k = "messageRefKey (messageRef md)"
  let ?st = "reorderStateLocked sid ro"
  let ?l = "\<lparr>li_ref = messageRef md, li_peerID = peer, li_msgType = ty, li_msgData = md, li_createdAt = now\<rparr>"
  have ne: "?k \<noteq> []" using False by (simp add: messageRefKey_Nil)
  have ok: "reorder_ok ?st" using assms by (rule reorderMap_okD)
  have "reorder_ok (?st\<lparr>ro_lost := AList.update ?k ?l (ro_lost ?st)\<rparr>)" if new: "map_of (ro_lost ?st) ?k = None"
  proof -
    have "keyed (?st\<lparr>ro_lost := AList.update ?k ?l (ro_lost ?st)\<rparr>)"
      using ok ne by (intro keyed_update_lost) (auto simp: reorder_ok_def)
    moreover have "blocked (?st\<lparr>ro_lost := AList.update ?k ?l (ro_lost ?st)\<rparr>) p" if "blocked ?st p" for p
      using that by (auto simp: blocked_def hasBlockingGap_iff set_update_new [OF new])
    ultimately show ?thesis using ok by (auto simp: reorder_ok_def)
  qed
  then show ?thesis
    using False ne ok assms by (auto simp: markLostInbound_def Let_def intro!: reorderMap_ok_upd)
qed

lemma deliver_eq:
  assumes "reorderMap_ok ro" "\<And>xs. mset (visit xs) = mset xs"
  shows "deliverApplication visit now sid ref item ro =
    (let st = reorderStateLocked sid ro in
     if hasBlockingGapLocked st ref
     then ([], ro(sid \<mapsto> st\<lparr>ro_pending := AList.update (messageRefKey ref) \<lparr>pi_ref = ref, pi_item = item\<rparr> (ro_pending st)\<rparr>))
     else ([item], ro(sid \<mapsto> st)))"
proof -
  have ok: "reorder_ok (reorderStateLocked sid ro)" using assms(1) by (rule reorderMap_okD)
  show ?thesis
    using pos_key [OF hasBlockingGap_pos] flush_ok_nothing [where visit = visit, OF ok assms(2)]
    by (auto simp: deliverApplication_def Let_def flushReadyPending_def)
qed

lemma deliver_ok:
  assumes "reorderMap_ok ro" "\<And>xs. mset (visit xs) = mset xs"
  shows "reorderMap_ok (snd (deliverApplication visit now sid ref item ro))"
proof -
  let ?st = "reorderStateLocked sid ro"
  have ok: "reorder_ok ?st" using assms(1) by (rule reorderMap_okD)
  have "reorder_ok (?st\<lparr>ro_pending := AList.update (messageRefKey ref) \<lparr>pi_ref = ref, pi_item = item\<rparr> (ro_pending ?st)\<rparr>)"
    if b: "hasBlockingGapLocked ?st ref"
  proof -
    have k: "keyed (?st\<lparr>ro_pending := AList.update (messageRefKey ref) \<lparr>pi_ref = ref, pi_item = item\<rparr> (ro_pending ?st)\<rparr>)"
      using ok hasBlockingGap_pos [OF b] by (intro keyed_update_pending) (auto simp: reorder_ok_def)
    have "blocked ?st \<lparr>pi_ref = ref, pi_item = item\<rparr>" using b by (simp add: blocked_def)
    then show ?thesis using ok k by (auto simp: reorder_ok_def dest!: set_update_mem)
  qed
  then show ?thesis
    using assms(1) ok by (auto simp: deliver_eq [where visit = visit, OF assms] Let_def intro!: reorderMap_ok_upd)
qed

lemma expire_ok:
  assumes "reorderMap_ok ro" "\<And>xs. mset (visit xs) = mset xs"
  shows "reorderMap_ok (snd (expireLostInbound visit sid key ro))"
proof (cases "ro sid")
  case (Some st)
  let ?st = "st\<lparr>ro_lost := AList.delete key (ro_lost st)\<rparr>"
  have k: "keyed ?st" using assms(1) Some by (auto simp: reorderMap_ok_def reorder_ok_def intro: keyed_delete_lost)
  obtain ready st' where f: "flushReadyPendingLocked visit ?st = (ready, st')" by fastforce
  have "reorder_ok st'" using flush_split [where visit = visit, OF k assms(2) f] by blast
  then show ?thesis using assms(1) Some f by (auto simp: expireLostInbound_def intro!: reorderMap_ok_upd)
qed (use assms in \<open>simp add: expireLostInbound_def\<close>)

lemma findLost_Some:
  assumes "findLost ref st = Some (k, l)"
  shows "(k, l) \<in> set (ro_lost st)"
  using assms by (auto simp: findLost_def Let_def split: option.splits dest: map_of_SomeD)

text \<open>Restoring keeps the keys; it leaves messages that a later flush has to look at.\<close>

lemma restoreOne_keyed:
  assumes "keyed (fst s)"
  shows "keyed (fst (snd (restoreOne K uuid now sid peer m s)))"
proof -
  obtain st rt where s: "s = (st, rt)" by fastforce
  have k: "keyed st" using assms s by simp
  show ?thesis
  proof (cases "findLost (cp_Ref m) st")
    case None
    then show ?thesis using k s by (simp add: restoreOne_def)
  next
    case (Some kl)
    obtain key l where kl: "kl = (key, l)" by fastforce
    have key: "key = messageRefKey (li_ref l)" "key \<noteq> []"
      using keyed_lostD [OF k] findLost_Some Some kl by metis+
    obtain r rt' where w: "MsgDataToBytesReadBound K uuid now (SetContent (cp_Content m) (li_msgData l)) rt = (r, rt')"
      by fastforce
    let ?st1 = "st\<lparr>ro_lost := AList.delete key (ro_lost st)\<rparr>"
    have k1: "keyed ?st1" using k by (rule keyed_delete_lost)
    have k2: "keyed (st\<lparr>ro_lost := AList.update key (l\<lparr>li_msgData := SetContent (cp_Content m) (li_msgData l)\<rparr>) (ro_lost st)\<rparr>)"
      using key by (intro keyed_update_lost [OF k]) auto
    have k3: "keyed (?st1\<lparr>ro_pending := AList.update key \<lparr>pi_ref = li_ref l, pi_item = it\<rparr> (ro_pending ?st1)\<rparr>)"
      if "hasBlockingGapLocked ?st1 (li_ref l)" for it
      using key hasBlockingGap_pos [OF that] by (intro keyed_update_pending [OF k1]) auto
    show ?thesis
      using k1 k2 k3 key(1) by (cases r) (simp_all add: restoreOne_def s Some kl w Let_def)
  qed
qed

lemma restoreAll_keyed:
  assumes "keyed (fst s)"
  shows "keyed (fst (snd (restoreAll K uuid now sid peer ms s)))"
  using assms
proof (induction ms arbitrary: s)
  case (Cons m ms)
  obtain r1 s1 where r: "restoreOne K uuid now sid peer m s = (r1, s1)" by (metis prod.collapse)
  then have "keyed (fst s1)" using restoreOne_keyed [OF Cons.prems, of K uuid now sid peer m] by simp
  then show ?case using Cons.IH [of s1] r by (simp add: split_def Let_def)
qed simp

lemma retransmit_ok:
  assumes "reorderMap_ok ro" "\<And>xs. mset (visit xs) = mset xs"
  shows "reorderMap_ok (fst (snd (handleRetransmit K uuid now visit sid peer ms (ro, rt))))"
proof (cases "ro sid")
  case (Some st)
  then have k: "keyed st" using assms(1) by (auto simp: reorderMap_ok_def reorder_ok_def)
  obtain r1 st1 rt1 where r: "restoreAll K uuid now sid peer ms (st, rt) = (r1, st1, rt1)" by (metis prod_cases3)
  have k1: "keyed st1" using restoreAll_keyed [of "(st, rt)" K uuid now sid peer ms] k r by simp
  obtain r2 st2 where f: "flushReadyPendingLocked visit st1 = (r2, st2)" by fastforce
  have "reorder_ok st2" using flush_split [where visit = visit, OF k1 assms(2) f] by blast
  then show ?thesis using assms(1) Some r f by (auto simp: handleRetransmit_def intro!: reorderMap_ok_upd)
qed (use assms in \<open>simp add: handleRetransmit_def\<close>)

section \<open>The operations as a step relation\<close>

text \<open>
  What the goroutines do to the state of one connection, one locked section after the other;
  the second argument is everything sent on \<open>msgChan\<close> so far.
\<close>

inductive recoveryRun :: "codec \<Rightarrow> visitOrder \<Rightarrow> reorderMap \<times> realtimeMap \<Rightarrow> readMsgItem list \<Rightarrow> bool"
  for K :: codec and visit :: visitOrder where
  start: "recoveryRun K visit (Map.empty, rt) []"
| deliver: "recoveryRun K visit (ro, rt) out \<Longrightarrow>
    deliverApplication visit now sid ref item ro = (items, ro') \<Longrightarrow>
    recoveryRun K visit (ro', rt') (out @ items)"
| lost: "recoveryRun K visit (ro, rt) out \<Longrightarrow>
    markLostInbound now sid peer ty md ro = (spawned, ro') \<Longrightarrow>
    recoveryRun K visit (ro', rt) out"
| expire: "recoveryRun K visit (ro, rt) out \<Longrightarrow>
    expireLostInbound visit sid key ro = (items, ro') \<Longrightarrow>
    recoveryRun K visit (ro', rt) (out @ items)"
| retransmit: "recoveryRun K visit (ro, rt) out \<Longrightarrow>
    handleRetransmit K uuid now visit sid peer msgs (ro, rt) = (items, ro', rt') \<Longrightarrow>
    recoveryRun K visit (ro', rt') (out @ items)"

inductive_cases recoveryRun_emptyE: "recoveryRun K visit s []"

section \<open>Properties\<close>

definition emptyCache :: sendCache where
  "emptyCache = \<lparr>sc_map = Map.empty, sc_order = []\<rparr>"

lemma cache_ok_fold: "cache_ok sc \<Longrightarrow> cache_ok (fold cacheOutboundMessage ms sc)"
  by (induction ms arbitrary: sc) (auto simp: cacheOutboundMessage_ok_step)

lemma findCached_key:
  assumes "sc_map sc (messageRefKey ref) = Some e" "messageRefKey ref \<noteq> []"
  shows "findCachedOutboundLocked ref sc = Some e"
  using assms
  by (auto simp: findCachedOutboundLocked_def messageRefKey_def split: list.splits)

text \<open>After any sequence of sent messages the cache holds at most 256 entries, its order list
  names each entry exactly once, every entry is filed under its own key, and the message sent last
  (if it has an identity) is found by its reference with the content it was sent with.\<close>

theorem send_cache_invariant:
  "let sc = fold cacheOutboundMessage (ms @ [m]) emptyCache in
     card (dom (sc_map sc)) \<le> 256 \<and> distinct (sc_order sc) \<and> set (sc_order sc) = dom (sc_map sc) \<and>
     (\<forall>k e. sc_map sc k = Some e \<longrightarrow> messageRefKey (co_ref e) = k) \<and>
     (\<not> noIdentity (messageRef m) \<longrightarrow>
        findCachedOutboundLocked (messageRef m) sc = Some \<lparr>co_ref = messageRef m, co_content = GetContent m\<rparr>)"
proof -
  let ?prev = "fold cacheOutboundMessage ms emptyCache"
  let ?sc = "fold cacheOutboundMessage (ms @ [m]) emptyCache"
  have "cache_ok emptyCache" by (simp add: cache_ok_def emptyCache_def)
  then have ok: "cache_ok ?prev" "cache_ok ?sc" using cache_ok_fold by blast+
  have "card (dom (sc_map ?sc)) \<le> length (sc_order ?sc)"
    using ok(2) card_length [of "sc_order ?sc"] by (simp add: cache_ok_def)
  moreover have "length (sc_order ?sc) \<le> 256" using ok(2) by (simp add: cache_ok_def maxSendCacheEntries_def)
  ultimately have "card (dom (sc_map ?sc)) \<le> 256" by linarith
  moreover have "findCachedOutboundLocked (messageRef m) ?sc = Some \<lparr>co_ref = messageRef m, co_content = GetContent m\<rparr>"
    if "\<not> noIdentity (messageRef m)"
  proof (rule findCached_key)
    show "sc_map ?sc (messageRefKey (messageRef m)) = Some \<lparr>co_ref = messageRef m, co_content = GetContent m\<rparr>"
      using cacheOutboundMessage_ok_step [of ?prev m] ok(1) that by (simp only: fold_append comp_apply fold_simps) simp
  qed (use that in \<open>simp add: messageRefKey_Nil\<close>)
  ultimately show ?thesis using ok(2) by (auto simp: Let_def cache_ok_def)
qed

definition exData :: "int \<Rightarrow> bytes \<Rightarrow> MsgData" where
  "exData n c =
     \<lparr>md_inner = Some (exMsg\<lparr>sd_Seq := n, sd_Content := c, sd_ClientMsgID := [], sd_ServerMsgID := []\<rparr>),
      md_Req = None, md_Resp = None, md_Push = None, md_SecureRead = False\<rparr>"

lemma send_cache_invariant_witness:
  "co_content (the (findCachedOutboundLocked (messageRef (exData 7 [1]))
     (fold cacheOutboundMessage [exData 7 [1]] emptyCache))) = [1]"
proof -
  have "\<not> noIdentity (messageRef (exData 7 [1]))"
    by (simp add: noIdentity_def messageRef_def exData_def GetSeq_def)
  then show ?thesis
    using send_cache_invariant [of "[]" "exData 7 [1]"] by (simp add: Let_def exData_def GetContent_def)
qed

text \<open>C31: whatever the order in which messages arrive, are marked lost, time out or are
  retransmitted, between two operations every message held back by a session is held back for a
  reason: a message with a smaller positive sequence number is still missing in that session; and
  both maps are keyed by the messages' own keys.\<close>

theorem reorder_invariant:
  assumes "recoveryRun K visit (ro, rt) out" "\<And>xs. mset (visit xs) = mset xs"
    "ro sid = Some st" "(k, p) \<in> set (ro_pending st)"
  shows "(\<exists>(k', l)\<in>set (ro_lost st). k' = messageRefKey (li_ref l) \<and> 0 < mr_Seq (li_ref l) \<and>
            mr_Seq (li_ref l) < mr_Seq (pi_ref p)) \<and> k = messageRefKey (pi_ref p)"
proof -
  have "reorderMap_ok (fst s)" if "recoveryRun K visit s out" for s out
    using that
  proof induction
    case start
    then show ?case by (simp add: reorderMap_ok_def)
  next
    case (deliver ro rt out now sid ref item items ro' rt')
    then show ?case using deliver_ok [where visit = visit, OF _ assms(2)] by (metis fst_conv snd_conv)
  next
    case (lost ro rt out now sid peer ty md spawned ro')
    then show ?case using markLost_ok by (metis fst_conv snd_conv)
  next
    case (expire ro rt out sid key items ro')
    then show ?case using expire_ok [where visit = visit, OF _ assms(2)] by (metis fst_conv snd_conv)
  next
    case (retransmit ro rt out uuid now sid peer msgs items ro' rt')
    then show ?case using retransmit_ok [where visit = visit, OF _ assms(2)] by (metis fst_conv snd_conv)
  qed
  from this [OF assms(1)] have ok: "reorder_ok st" using assms(3) by (simp add: reorderMap_ok_def)
  then have b: "blocked st p" "keyed st" using assms(4) by (auto simp: reorder_ok_def)
  then obtain k' l where l: "(k', l) \<in> set (ro_lost st)" "0 < mr_Seq (li_ref l)" "mr_Seq (li_ref l) < mr_Seq (pi_ref p)"
    by (auto simp: blocked_def hasBlockingGap_iff)
  then have "k' = messageRefKey (li_ref l)" using keyed_lostD(1) [OF b(2)] by blast
  then show ?thesis using l keyed_pendingD(1) [OF b(2) assms(4)] by blast
qed

definition exRef :: "int \<Rightarrow> secureMessageRef" where "exRef n = messageRef (exData n [])"

definition exItem :: "byte \<Rightarrow> readMsgItem" where
  "exItem b = \<lparr>ri_sessionId = ''a_b'', ri_remoteId = ''a'', ri_msgType = 2, ri_msg = [b], ri_err = None\<rparr>"

lemma exRef_simps [simp]:
  "mr_Seq (exRef n) = n" "noIdentity (exRef n) \<longleftrightarrow> n = 0" "mr_ClientMsgID (exRef n) = []"
  "mr_ServerMsgID (exRef n) = []" "n \<noteq> 0 \<Longrightarrow> messageRefKey (exRef n) = seqKey n"
  "messageRef (exData n c) = exRef n"
  by (simp_all add: exRef_def exData_def messageRef_def GetSeq_def GetClientMsgID_def GetServerMsgID_def
      noIdentity_def messageRefKey_def messageRefCandidateKeys_def GetSendID_def GetRecvID_def)

text \<open>Message 3 is missing and message 4 has come.\<close>

definition exGap :: reorderState where
  "exGap = \<lparr>ro_lost = [(seqKey 3, \<lparr>li_ref = exRef 3, li_peerID = ''a'', li_msgType = 2, li_msgData = exData 3 [0], li_createdAt = 0\<rparr>)],
            ro_pending = [(seqKey 4, \<lparr>pi_ref = exRef 4, pi_item = exItem 4\<rparr>)]\<rparr>"

lemma exGap_ok: "reorder_ok exGap"
  by (simp add: reorder_ok_def keyed_def exGap_def blocked_def hasBlockingGapLocked_def seqKey_def)

lemma exGap_run: "recoveryRun K id ([''a_b'' \<mapsto> exGap], Map.empty) []"
proof -
  let ?l = "exGap\<lparr>ro_pending := []\<rparr>"
  have "markLostInbound 0 ''a_b'' ''a'' 2 (exData 3 [0]) Map.empty = (Some (exRef 3, seqKey 3), [''a_b'' \<mapsto> ?l])"
    by (simp add: markLostInbound_def Let_def reorderStateLocked_def newReorderState_def exGap_def seqKey_def)
  then have a: "recoveryRun K id ([''a_b'' \<mapsto> ?l], Map.empty) []"
    using recoveryRun.lost [OF recoveryRun.start] by blast
  have "deliverApplication id 0 ''a_b'' (exRef 4) (exItem 4) [''a_b'' \<mapsto> ?l] = ([], [''a_b'' \<mapsto> exGap])"
    by (simp add: deliverApplication_def Let_def reorderStateLocked_def exGap_def hasBlockingGapLocked_def seqKey_def)
  then show ?thesis using recoveryRun.deliver [OF a] by fastforce
qed

lemma reorder_invariant_witness:
  "\<exists>(k', l)\<in>set (ro_lost exGap). mr_Seq (li_ref l) < mr_Seq (exRef 4)"
  using reorder_invariant [OF exGap_run, of "''a_b''" exGap "seqKey 4" "\<lparr>pi_ref = exRef 4, pi_item = exItem 4\<rparr>"]
  by (auto simp: exGap_def)

text \<open>An application message is sent on at once exactly when no message with a smaller
  positive sequence number is missing in its session, and then nothing else is sent with it;
  otherwise it is held back under its own key.\<close>

theorem deliver_or_hold:
  assumes "reorderMap_ok ro" "\<And>xs. mset (visit xs) = mset xs"
  shows "deliverApplication visit now sid ref item ro =
    (let st = reorderStateLocked sid ro in
     if \<exists>(k, l)\<in>set (ro_lost st). 0 < mr_Seq (li_ref l) \<and> mr_Seq (li_ref l) < mr_Seq ref
     then ([], ro(sid \<mapsto> st\<lparr>ro_pending := AList.update (messageRefKey ref) \<lparr>pi_ref = ref, pi_item = item\<rparr> (ro_pending st)\<rparr>))
     else ([item], ro(sid \<mapsto> st)))"
  using deliver_eq [where visit = visit, OF assms] by (simp only: hasBlockingGap_iff)

lemma exGap_map_ok: "reorderMap_ok [''a_b'' \<mapsto> exGap]"
  by (simp add: reorderMap_ok_def exGap_ok)

lemma deliver_or_hold_witness:
  "fst (deliverApplication rev 0 ''a_b'' (exRef 2) (exItem 2) [''a_b'' \<mapsto> exGap]) = [exItem 2] \<and>
   fst (deliverApplication rev 0 ''a_b'' (exRef 5) (exItem 5) [''a_b'' \<mapsto> exGap]) = []"
  using deliver_or_hold [OF exGap_map_ok, of rev]
  by (simp add: Let_def reorderStateLocked_def exGap_def)

text \<open>When the wait for a missing message ends, the messages released and those still held
  back are together exactly those held back before; the released ones come out in the order of
  their sequence numbers, and no message still missing has a smaller positive one.\<close>

theorem expire_releases:
  assumes "reorderMap_ok ro" "\<And>xs. mset (visit xs) = mset xs"
    "ro sid = Some st" "map_of (ro_lost st) key \<noteq> None"
    "expireLostInbound visit sid key ro = (items, ro')"
  shows "\<exists>ps st'. items = map pi_item ps \<and> ro' = ro(sid \<mapsto> st') \<and>
    sorted (map (\<lambda>p. mr_Seq (pi_ref p)) ps) \<and>
    mset ps + mset (map snd (ro_pending st')) = mset (map snd (ro_pending st)) \<and>
    ro_lost st' = AList.delete key (ro_lost st) \<and>
    (\<forall>p\<in>set ps. \<forall>(k, l)\<in>set (ro_lost st'). mr_Seq (li_ref l) > 0 \<longrightarrow> mr_Seq (pi_ref p) \<le> mr_Seq (li_ref l)) \<and>
    reorder_ok st'"
proof -
  let ?st = "st\<lparr>ro_lost := AList.delete key (ro_lost st)\<rparr>"
  have k: "keyed ?st" using assms(1,3) by (auto simp: reorderMap_ok_def reorder_ok_def intro: keyed_delete_lost)
  obtain ready st' where f: "flushReadyPendingLocked visit ?st = (ready, st')" by fastforce
  have r: "items = ready" "ro' = ro(sid \<mapsto> st')"
    using assms(3-5) f by (auto simp: expireLostInbound_def)
  obtain ps where ps: "ready = map pi_item ps" "sorted (map (\<lambda>p. mr_Seq (pi_ref p)) ps)"
      "mset ps + mset (map snd (ro_pending st')) = mset (map snd (ro_pending st))"
      "\<forall>p\<in>set ps. \<not> blocked ?st p" "ro_lost st' = AList.delete key (ro_lost st)" "reorder_ok st'"
    using flush_split [where visit = visit, OF k assms(2) f] by auto
  have "mr_Seq (pi_ref p) \<le> mr_Seq (li_ref l)"
    if "p \<in> set ps" "(k, l) \<in> set (ro_lost st')" "mr_Seq (li_ref l) > 0" for p k l
    using ps(4,5) that by (fastforce simp: blocked_def hasBlockingGap_iff)
  then show ?thesis using r ps by blast
qed

lemma expire_releases_witness:
  "\<exists>ps :: pendingInboundMsg list. fst (expireLostInbound rev ''a_b'' (seqKey 3) [''a_b'' \<mapsto> exGap]) = map pi_item ps \<and>
     sorted (map (\<lambda>p. mr_Seq (pi_ref p)) ps)"
proof -
  obtain items ro' where e: "expireLostInbound rev ''a_b'' (seqKey 3) [''a_b'' \<mapsto> exGap] = (items, ro')" by fastforce
  have l: "map_of (ro_lost exGap) (seqKey 3) \<noteq> None" and s: "[''a_b'' \<mapsto> exGap] ''a_b'' = Some exGap"
    by (simp_all add: exGap_def)
  show ?thesis
    unfolding e fst_conv using expire_releases [OF exGap_map_ok mset_rev s l e]
    by blast
qed

lemma restoreOne_found:
  fixes sid :: SessionID and peer :: string
  assumes "findLost (cp_Ref m) st = Some (k, l)" "keyed st"
    "MsgDataToBytesReadBound K uuid now (SetContent (cp_Content m) (li_msgData l)) rt = (Ok b, rt')"
  defines "st1 \<equiv> st\<lparr>ro_lost := AList.delete k (ro_lost st)\<rparr>"
    and "item \<equiv> \<lparr>ri_sessionId = sid, ri_remoteId = peer, ri_msgType = li_msgType l, ri_msg = b, ri_err = None\<rparr>"
  shows "restoreOne K uuid now sid peer m (st, rt) =
    (if hasBlockingGapLocked st1 (li_ref l)
     then ([], st1\<lparr>ro_pending := AList.update k \<lparr>pi_ref = li_ref l, pi_item = item\<rparr> (ro_pending st1)\<rparr>, rt')
     else ([item], st1, rt'))"
proof -
  have "k = messageRefKey (li_ref l)" using keyed_lostD(1) [OF assms(2) findLost_Some [OF assms(1)]] .
  then show ?thesis using assms(1,3) by (simp add: restoreOne_def Let_def st1_def item_def)
qed

lemma released_after_restored:
  assumes "reorder_ok st" "(k, l) \<in> set (ro_lost st)" "p \<in> snd ` set (ro_pending st)"
    "\<not> hasBlockingGapLocked (st\<lparr>ro_lost := AList.delete k (ro_lost st)\<rparr>) (pi_ref p)"
  shows "0 < mr_Seq (li_ref l) \<and> mr_Seq (li_ref l) < mr_Seq (pi_ref p)"
proof -
  obtain k' l' where l': "(k', l') \<in> set (ro_lost st)" "0 < mr_Seq (li_ref l')" "mr_Seq (li_ref l') < mr_Seq (pi_ref p)"
    using assms(1,3) by (auto simp: reorder_ok_def blocked_def hasBlockingGap_iff)
  then have "k' = k" using assms(4) by (auto simp: hasBlockingGap_iff AList.delete_eq)
  moreover have "keyed st" using assms(1) by (simp add: reorder_ok_def)
  ultimately have "l' = l" using eq_key_imp_eq_value [OF keyed_distinct(1)] l'(1) assms(2) by metis
  then show ?thesis using l' by simp
qed

text \<open>A restored message that waits for nothing goes out before those it releases; one that waits is held
  back with the others.\<close>

lemma restored_released:
  assumes "reorder_ok st" "\<And>xs. mset (visit xs) = mset xs" "(k, l) \<in> set (ro_lost st)"
    "\<not> hasBlockingGapLocked (st\<lparr>ro_lost := AList.delete k (ro_lost st)\<rparr>) (li_ref l)" "pi_ref new = li_ref l"
    "flushReadyPendingLocked visit (st\<lparr>ro_lost := AList.delete k (ro_lost st)\<rparr>) = (r, st')"
  shows "\<exists>qs. pi_item new # r = map pi_item qs \<and> sorted (map (\<lambda>p. mr_Seq (pi_ref p)) qs) \<and>
    mset qs + mset (map snd (ro_pending st')) = mset (map snd (ro_pending st)) + {#new#} \<and>
    ro_lost st' = AList.delete k (ro_lost st) \<and> reorder_ok st'"
proof -
  define st1 where "st1 = st\<lparr>ro_lost := AList.delete k (ro_lost st)\<rparr>"
  have k1: "keyed st1" unfolding st1_def using assms(1) by (intro keyed_delete_lost) (simp add: reorder_ok_def)
  obtain ps where ps: "r = map pi_item ps" "sorted (map (\<lambda>p. mr_Seq (pi_ref p)) ps)"
      "mset ps + mset (map snd (ro_pending st')) = mset (map snd (ro_pending st))"
      "\<forall>p\<in>set ps. \<not> blocked st1 p" "ro_lost st' = ro_lost st1" "reorder_ok st'"
    using flush_split [where visit = visit, OF k1 assms(2) assms(6) [folded st1_def]] by (auto simp: st1_def)
  have later: "mr_Seq (li_ref l) \<le> mr_Seq (pi_ref p)" if "p \<in> set ps" for p
  proof -
    have "p \<in># mset ps + mset (map snd (ro_pending st'))" using that by simp
    then have "p \<in> snd ` set (ro_pending st)" unfolding ps(3) by simp
    then show ?thesis
      using released_after_restored [OF assms(1,3)] ps(4) that by (force simp: blocked_def st1_def)
  qed
  have "sorted (map (\<lambda>p. mr_Seq (pi_ref p)) (new # ps))" using ps(2) later assms(5) by auto
  then show ?thesis using ps by (intro exI [of _ "new # ps"]) (simp add: st1_def)
qed

lemma restored_held:
  assumes "reorder_ok st" "\<And>xs. mset (visit xs) = mset xs" "(k, l) \<in> set (ro_lost st)" "map_of (ro_pending st) k = None"
    "hasBlockingGapLocked (st\<lparr>ro_lost := AList.delete k (ro_lost st)\<rparr>) (li_ref l)" "pi_ref new = li_ref l"
    "flushReadyPendingLocked visit (st\<lparr>ro_lost := AList.delete k (ro_lost st), ro_pending := AList.update k new (ro_pending st)\<rparr>) = (r, st')"
  shows "\<exists>qs. r = map pi_item qs \<and> sorted (map (\<lambda>p. mr_Seq (pi_ref p)) qs) \<and>
    mset qs + mset (map snd (ro_pending st')) = mset (map snd (ro_pending st)) + {#new#} \<and>
    ro_lost st' = AList.delete k (ro_lost st) \<and> reorder_ok st'"
proof -
  let ?st1 = "st\<lparr>ro_lost := AList.delete k (ro_lost st)\<rparr>"
  have key: "keyed st" using assms(1) by (simp add: reorder_ok_def)
  have "keyed (?st1\<lparr>ro_pending := AList.update k new (ro_pending ?st1)\<rparr>)"
    using keyed_lostD(1) [OF key assms(3)] hasBlockingGap_pos [OF assms(5)] assms(6)
    by (intro keyed_update_pending keyed_delete_lost key) simp_all
  then have k2: "keyed (st\<lparr>ro_lost := AList.delete k (ro_lost st), ro_pending := AList.update k new (ro_pending st)\<rparr>)" by simp
  have n: "k \<notin> fst ` set (ro_pending st)" using assms(4) by (simp add: map_of_eq_None_iff)
  from flush_split [where visit = visit, OF k2 assms(2,7)] n show ?thesis by (auto simp: update_append_new)
qed

text \<open>When the peer retransmits one missing message, that message and the messages it releases
  are sent on in the order of their sequence numbers; together with those still held back they are
  exactly the messages held back before and the restored one, so that nothing is lost or doubled.\<close>

theorem retransmit_in_order:
  assumes "reorderMap_ok ro" "\<And>xs. mset (visit xs) = mset xs" "ro sid = Some st"
    "findLost (cp_Ref m) st = Some (k, l)" "map_of (ro_pending st) k = None"
    "MsgDataToBytesReadBound K uuid now (SetContent (cp_Content m) (li_msgData l)) rt = (Ok b, rt')"
    "handleRetransmit K uuid now visit sid peer [m] (ro, rt) = (items, ro', rt'')"
  shows "\<exists>qs st'. items = map pi_item qs \<and> sorted (map (\<lambda>p. mr_Seq (pi_ref p)) qs) \<and>
    mset qs + mset (map snd (ro_pending st')) = mset (map snd (ro_pending st)) +
      {#\<lparr>pi_ref = li_ref l, pi_item = \<lparr>ri_sessionId = sid, ri_remoteId = peer, ri_msgType = li_msgType l, ri_msg = b, ri_err = None\<rparr>\<rparr>#} \<and>
    ro' = ro(sid \<mapsto> st') \<and> map_of (ro_lost st') k = None \<and> reorder_ok st' \<and> rt'' = rt'"
proof -
  have ok: "reorder_ok st" using assms(1,3) by (auto simp: reorderMap_ok_def)
  then have key: "keyed st" by (simp add: reorder_ok_def)
  let ?st1 = "st\<lparr>ro_lost := AList.delete k (ro_lost st)\<rparr>"
  define new where "new = \<lparr>pi_ref = li_ref l, pi_item = \<lparr>ri_sessionId = sid, ri_remoteId = peer,
      ri_msgType = li_msgType l, ri_msg = b, ri_err = None\<rparr>\<rparr>"
  have new: "pi_ref new = li_ref l" by (simp add: new_def)
  note r = restoreOne_found [where sid = sid and peer = peer, OF assms(4) key assms(6)]
  have kl: "(k, l) \<in> set (ro_lost st)" using findLost_Some [OF assms(4)] .
  have gone: "map_of (AList.delete k (ro_lost st)) k = None" by (simp add: AList.delete_conv')
  show ?thesis
  proof (cases "hasBlockingGapLocked ?st1 (li_ref l)")
    case False
    obtain r2 st2 where f: "flushReadyPendingLocked visit ?st1 = (r2, st2)" by fastforce
    have "items = pi_item new # r2" "ro' = ro(sid \<mapsto> st2)" "rt'' = rt'"
      using assms(3,7) r False f by (auto simp: handleRetransmit_def new_def)
    moreover obtain qs where "pi_item new # r2 = map pi_item qs" "sorted (map (\<lambda>p. mr_Seq (pi_ref p)) qs)"
        "mset qs + mset (map snd (ro_pending st2)) = mset (map snd (ro_pending st)) + {#new#}"
        "ro_lost st2 = AList.delete k (ro_lost st)" "reorder_ok st2"
      using restored_released [where visit = visit, OF ok assms(2) kl False new f] by (elim exE conjE) (rule that)
    ultimately show ?thesis using gone unfolding new_def [symmetric] by (intro exI [of _ qs] exI [of _ st2]) simp
  next
    case True
    obtain r2 st2 where f: "flushReadyPendingLocked visit
        (st\<lparr>ro_lost := AList.delete k (ro_lost st), ro_pending := AList.update k new (ro_pending st)\<rparr>) = (r2, st2)" by fastforce
    have "items = r2" "ro' = ro(sid \<mapsto> st2)" "rt'' = rt'"
      using assms(3,7) r True f by (auto simp: handleRetransmit_def new_def)
    moreover obtain qs where "r2 = map pi_item qs" "sorted (map (\<lambda>p. mr_Seq (pi_ref p)) qs)"
        "mset qs + mset (map snd (ro_pending st2)) = mset (map snd (ro_pending st)) + {#new#}"
        "ro_lost st2 = AList.delete k (ro_lost st)" "reorder_ok st2"
      using restored_held [where visit = visit, OF ok assms(2) kl assms(5) True new f] by (elim exE conjE) (rule that)
    ultimately show ?thesis using gone unfolding new_def [symmetric] by (intro exI [of _ qs] exI [of _ st2]) simp
  qed
qed

text \<open>A missing message comes back with its text: if the sender still has it in its cache and
  the receiver waits for it under the same client identifier, then the receiver's request is
  answered by one message, with the content that was sent, and the receiver finds its entry.\<close>

theorem recovery_roundtrip:
  assumes "cache_ok sc" "GetClientMsgID m \<noteq> []"
    "map_of (ro_lost st) (messageRefKey ref) = Some l" "mr_ClientMsgID ref = GetClientMsgID m"
  shows "\<exists>request answer msg.
    requestLostAfterHandshake True wait ref = Some request \<and> cf_Type request = secureControlLostRequest \<and>
    handleLostRequest (cf_Messages request) (cacheOutboundMessage m sc) = Some answer \<and>
    cf_Type answer = secureControlRetransmit \<and> cf_Messages answer = [msg] \<and>
    cp_Content msg = GetContent m \<and> cp_Ref msg = mergeMessageRef ref (messageRef m) \<and>
    findLost (cp_Ref msg) st = Some (messageRefKey ref, l)"
proof -
  have n: "\<not> noIdentity (messageRef m)" using assms(2) by (simp add: noIdentity_def messageRef_def)
  have k: "messageRefKey r = clientKey (GetClientMsgID m)" if "mr_ClientMsgID r = GetClientMsgID m" for r
    using that assms(2) by (simp add: messageRefKey_def messageRefCandidateKeys_def)
  have "findCachedOutboundLocked ref (cacheOutboundMessage m sc) = Some \<lparr>co_ref = messageRef m, co_content = GetContent m\<rparr>"
    using conjunct2 [OF cacheOutboundMessage_ok_step [OF assms(1), of m]] n k [OF assms(4)] k [of "messageRef m"]
    by (intro findCached_key) (auto simp: messageRef_def clientKey_def)
  moreover have "mr_ClientMsgID (mergeMessageRef ref r) = GetClientMsgID m" for r
    using assms(2,4) by (simp add: mergeMessageRef_def)
  ultimately show ?thesis
    using assms(3,4) k
    by (simp add: requestLostAfterHandshake_def handleLostRequest_def findLost_def)
qed

text \<open>The answer to a request for a missing message does not depend on who asks: whatever
  message the sender has in its cache, sent to whomever, is returned in the clear text it was sent
  with to every peer that names it.\<close>

theorem lost_request_any_peer:
  assumes "json payload = Some \<lparr>cf_Type = secureControlLostRequest, cf_Messages = [\<lparr>cp_Ref = ref, cp_Content = c\<rparr>]\<rparr>"
    "sc_map sc (messageRefKey ref) = Some e" "messageRefKey ref \<noteq> []"
  shows "\<forall>sid peer. \<exists>answer. handleSecureControl K uuid now visit json sid peer payload sc s = ([], Some answer, s) \<and>
    map cp_Content (cf_Messages answer) = [co_content e]"
  using findCached_key [OF assms(2,3)]
  by (simp add: handleSecureControl_def assms(1) handleLostRequest_def)

definition exSecret :: MsgData where
  "exSecret = (exData 0 [])\<lparr>md_inner := Some (exMsg\<lparr>sd_RecvID := ''carol'', sd_Content := [42]\<rparr>)\<rparr>"

lemma recovery_roundtrip_witness:
  "\<exists>answer. handleLostRequest [\<lparr>cp_Ref = messageRef exSecret, cp_Content = []\<rparr>] (cacheOutboundMessage exSecret emptyCache) = Some answer \<and>
     map cp_Content (cf_Messages answer) = [[42]]"
proof -
  have a: "cache_ok emptyCache" by (simp add: cache_ok_def emptyCache_def)
  have b: "GetClientMsgID exSecret \<noteq> []" "mr_ClientMsgID (messageRef exSecret) = GetClientMsgID exSecret"
    by (simp_all add: exSecret_def GetClientMsgID_def SetContent_def exMsg_def messageRef_def)
  let ?l = "\<lparr>li_ref = messageRef exSecret, li_peerID = ''a'', li_msgType = 2, li_msgData = exSecret, li_createdAt = 0\<rparr>"
  let ?st = "\<lparr>ro_lost = [(messageRefKey (messageRef exSecret), ?l)], ro_pending = []\<rparr>"
  have c: "map_of (ro_lost ?st) (messageRefKey (messageRef exSecret)) = Some ?l" by simp
  have "GetContent exSecret = [42]" by (simp add: exSecret_def GetContent_def SetContent_def)
  then show ?thesis
    using recovery_roundtrip [OF a b(1) c b(2)] by (auto simp: requestLostAfterHandshake_def)
qed

lemma lost_request_any_peer_witness:
  "\<exists>answer. handleSecureControl exCodec ''u'' 0 id
       (\<lambda>_. Some \<lparr>cf_Type = secureControlLostRequest, cf_Messages = [\<lparr>cp_Ref = messageRef exSecret, cp_Content = []\<rparr>]\<rparr>)
       ''a_mallory'' ''mallory'' [] (cacheOutboundMessage exSecret emptyCache) (Map.empty, Map.empty)
     = ([], Some answer, (Map.empty, Map.empty)) \<and> map cp_Content (cf_Messages answer) = [[42]] \<and>
     GetRecvID exSecret = ''carol''"
proof -
  have b: "GetClientMsgID exSecret = ''c1''" "GetContent exSecret = [42]" "GetRecvID exSecret = ''carol''"
    by (simp_all add: exSecret_def GetClientMsgID_def SetContent_def exMsg_def GetContent_def GetRecvID_def)
  then have n: "\<not> noIdentity (messageRef exSecret)" by (simp add: noIdentity_def messageRef_def)
  have "cache_ok emptyCache" by (simp add: cache_ok_def emptyCache_def)
  then have "sc_map (cacheOutboundMessage exSecret emptyCache) (messageRefKey (messageRef exSecret)) =
      Some \<lparr>co_ref = messageRef exSecret, co_content = GetContent exSecret\<rparr>"
    using cacheOutboundMessage_ok_step n by blast
  then have s: "sc_map (cacheOutboundMessage exSecret emptyCache) (messageRefKey (messageRef exSecret)) =
      Some \<lparr>co_ref = messageRef exSecret, co_content = [42]\<rparr>" by (simp add: b)
  have ne: "messageRefKey (messageRef exSecret) \<noteq> []" using n by (simp add: messageRefKey_Nil)
  show ?thesis
    using lost_request_any_peer [where json = "\<lambda>_. Some \<lparr>cf_Type = secureControlLostRequest,
        cf_Messages = [\<lparr>cp_Ref = messageRef exSecret, cp_Content = []\<rparr>]\<rparr>" and c = "[]" and K = exCodec and uuid = "''u''" and now = 0 and visit = id
        and payload = "[]" and s = "(Map.empty, Map.empty)", OF refl s ne] b(3)
    by simp
qed

section \<open>Concrete runs\<close>

text \<open>A codec under which the frame delivered for a message is the message's content.\<close>

definition echoCodec :: codec where
  "echoCodec = exCodec\<lparr>
     pb_marshalPush := (\<lambda>p. case p of [(_, Some pl)] \<Rightarrow>
        (case pm_Msgs pl of [Some d] \<Rightarrow> Some (sd_Content d) | _ \<Rightarrow> None) | _ \<Rightarrow> None),
     enc_Resp := (\<lambda>r. Some (rs_Data r))\<rparr>"

lemma echo_ReadBound:
  "MsgDataToBytesReadBound echoCodec uuid now (SetContent c (exData n c')) rt = (Ok c, rt)"
  by (simp add: MsgDataToBytesReadBound_def exData_def SetContent_def readPush_def Let_def echoCodec_def
      exCodec_def table_codec_def encodeAndCompressReadBound_def constructResp_def)

lemma retransmit_in_order_witness:
  "\<exists>qs. fst (handleRetransmit echoCodec ''u'' 0 rev ''a_b'' ''a'' [\<lparr>cp_Ref = exRef 3, cp_Content = [3]\<rparr>]
       ([''a_b'' \<mapsto> exGap], Map.empty)) = map pi_item qs \<and> sorted (map (\<lambda>p :: pendingInboundMsg. mr_Seq (pi_ref p)) qs)"
proof -
  let ?m = "\<lparr>cp_Ref = exRef 3, cp_Content = [3 :: byte]\<rparr>"
  let ?l = "\<lparr>li_ref = exRef 3, li_peerID = ''a'', li_msgType = 2, li_msgData = exData 3 [0], li_createdAt = 0\<rparr>"
  have s: "[''a_b'' \<mapsto> exGap] ''a_b'' = Some exGap" by simp
  have f: "findLost (cp_Ref ?m) exGap = Some (seqKey 3, ?l)"
    by (simp add: findLost_def exGap_def)
  have dec: "decimal 3 \<noteq> decimal 4" by (simp add: decimal_def decimal_nat.simps)
  then have p: "map_of (ro_pending exGap) (seqKey 3) = None" by (simp add: exGap_def seqKey_def)
  have w: "MsgDataToBytesReadBound echoCodec ''u'' 0 (SetContent (cp_Content ?m) (li_msgData ?l)) Map.empty = (Ok [3], Map.empty)"
    by (simp add: echo_ReadBound)
  obtain items ro' rt' where h: "handleRetransmit echoCodec ''u'' 0 rev ''a_b'' ''a'' [?m] ([''a_b'' \<mapsto> exGap], Map.empty) = (items, ro', rt')"
    by (metis prod_cases3)
  show ?thesis
    unfolding h fst_conv using retransmit_in_order [OF exGap_map_ok mset_rev s f p w h] by blast
qed

text \<open>A retransmission of several messages at once.  The code's own answers carry one message
  for each request it gets, but nothing restricts the peer to that.\<close>

definition exDataC :: "string \<Rightarrow> int \<Rightarrow> bytes \<Rightarrow> MsgData" where
  "exDataC cid n c =
     \<lparr>md_inner = Some (exMsg\<lparr>sd_Seq := n, sd_Content := c, sd_ClientMsgID := cid, sd_ServerMsgID := []\<rparr>),
      md_Req = None, md_Resp = None, md_Push = None, md_SecureRead = False\<rparr>"

definition exRefC :: "string \<Rightarrow> int \<Rightarrow> secureMessageRef" where
  "exRefC cid n = messageRef (exDataC cid n [])"

lemma exRefC_simps [simp]:
  "mr_Seq (exRefC cid n) = n" "mr_ClientMsgID (exRefC cid n) = cid" "mr_ServerMsgID (exRefC cid n) = []"
  "cid \<noteq> [] \<Longrightarrow> messageRefKey (exRefC cid n) = clientKey cid" "messageRef (exDataC cid n c) = exRefC cid n"
  by (simp_all add: exRefC_def exDataC_def messageRef_def GetSeq_def GetClientMsgID_def GetServerMsgID_def
      messageRefKey_def messageRefCandidateKeys_def GetSendID_def GetRecvID_def)

lemma echo_ReadBoundC:
  "MsgDataToBytesReadBound echoCodec uuid now (SetContent c (exDataC cid n c')) rt = (Ok c, rt)"
  by (simp add: MsgDataToBytesReadBound_def exDataC_def SetContent_def readPush_def Let_def echoCodec_def
      exCodec_def table_codec_def encodeAndCompressReadBound_def constructResp_def)

definition exLost :: "string \<Rightarrow> int \<Rightarrow> lostInboundMsg" where
  "exLost cid n = \<lparr>li_ref = exRefC cid n, li_peerID = ''a'', li_msgType = 2, li_msgData = exDataC cid n [0], li_createdAt = 0\<rparr>"

definition exTwoGaps :: reorderState where
  "exTwoGaps =
     \<lparr>ro_lost = [(clientKey ''A'', exLost ''A'' 10), (clientKey ''C'', exLost ''C'' 12)],
      ro_pending = [(clientKey ''B'', \<lparr>pi_ref = exRefC ''B'' 11, pi_item = exItem 11\<rparr>),
                    (clientKey ''D'', \<lparr>pi_ref = exRefC ''D'' 13, pi_item = exItem 13\<rparr>)]\<rparr>"

text \<open>A retransmission that carries two missing messages, 10 and 12, while 11 and 13 are held
  back, is sent on as 10, 12, 11, 13: the restored messages overtake the one between them.\<close>

theorem retransmit_batch_reorders:
  "reorder_ok exTwoGaps \<and>
   map ri_msg (fst (handleRetransmit echoCodec uuid now id ''a_b'' ''a''
       [\<lparr>cp_Ref = exRefC ''A'' 10, cp_Content = [10]\<rparr>, \<lparr>cp_Ref = exRefC ''C'' 12, cp_Content = [12]\<rparr>]
       ([''a_b'' \<mapsto> exTwoGaps], rt))) = [[10], [12], [11], [13]]"
proof -
  have "reorder_ok exTwoGaps"
    by (simp add: exTwoGaps_def reorder_ok_def keyed_def blocked_def hasBlockingGapLocked_def exLost_def clientKey_def)
  moreover have "flushReadyPendingLocked id \<lparr>ro_lost = [], ro_pending = ro_pending exTwoGaps\<rparr> =
      ([exItem 11, exItem 13], \<lparr>ro_lost = [], ro_pending = []\<rparr>)"
    by (simp add: flushReadyPendingLocked_def exTwoGaps_def SliceStable_def pendingLess_def
        hasBlockingGapLocked_def clientKey_def)
  ultimately show ?thesis
    by (simp add: handleRetransmit_def restoreOne_def findLost_def exTwoGaps_def exLost_def clientKey_def
        echo_ReadBoundC hasBlockingGapLocked_def exItem_def Let_def)
qed

section \<open>Sending after the lock is released\<close>

text \<open>
  What a locked section releases is sent on \<open>msgChan\<close> after the lock is given back, by the
  goroutine that ran it: the reader (one message at a time) or one of the timers.  The state is the
  reorder map, what the reader and each timer still have to send, and the channel.
\<close>

inductive goStep ::
  "visitOrder \<Rightarrow> reorderMap \<times> readMsgItem list \<times> readMsgItem list list \<times> readMsgItem list \<Rightarrow>
   reorderMap \<times> readMsgItem list \<times> readMsgItem list list \<times> readMsgItem list \<Rightarrow> bool"
  for visit :: visitOrder where
  read: "deliverApplication visit now sid ref item ro = (items, ro') \<Longrightarrow>
    goStep visit (ro, [], ts, ch) (ro', items, ts, ch)"
| timer: "expireLostInbound visit sid key ro = (items, ro') \<Longrightarrow>
    goStep visit (ro, rd, ts, ch) (ro', rd, ts @ [items], ch)"
| sendReader: "goStep visit (ro, x # rd, ts, ch) (ro, rd, ts, ch @ [x])"
| sendTimer: "i < length ts \<Longrightarrow> ts ! i = x # xs \<Longrightarrow>
    goStep visit (ro, rd, ts, ch) (ro, rd, ts[i := xs], ch @ [x])"

inductive_simps goStep_reader_busy: "goStep visit (ro, x # rd, ts, ch) (ro', [], ts', ch')"

text \<open>Two messages can reach the application in the wrong order: message 4 is released by the
  timer of the missing message 3, and before the timer has sent it on the reader delivers message 5.\<close>

theorem timer_race_reorders:
  "\<exists>ro. (goStep id)\<^sup>*\<^sup>* ([''a_b'' \<mapsto> exGap], [], [], []) (ro, [], [[]], [exItem 5, exItem 4])"
proof -
  let ?g = "\<lparr>ro_lost = [], ro_pending = []\<rparr> :: reorderState"
  have e: "expireLostInbound id ''a_b'' (seqKey 3) [''a_b'' \<mapsto> exGap] = ([exItem 4], [''a_b'' \<mapsto> ?g])"
    by (simp add: expireLostInbound_def exGap_def flushReadyPendingLocked_def SliceStable_def hasBlockingGapLocked_def)
  have d: "deliverApplication id 0 ''a_b'' (exRef 5) (exItem 5) [''a_b'' \<mapsto> ?g] = ([exItem 5], [''a_b'' \<mapsto> ?g])"
    by (simp add: deliverApplication_def reorderStateLocked_def hasBlockingGapLocked_def flushReadyPending_def
        flushReadyPendingLocked_def Let_def)
  have "goStep id ([''a_b'' \<mapsto> exGap], [], [], []) ([''a_b'' \<mapsto> ?g], [], [[exItem 4]], [])"
    using goStep.timer [OF e, of "[]" "[]" "[]"] by simp
  moreover have "goStep id ([''a_b'' \<mapsto> ?g], [], [[exItem 4]], []) ([''a_b'' \<mapsto> ?g], [exItem 5], [[exItem 4]], [])"
    using goStep.read [OF d] .
  moreover have "goStep id ([''a_b'' \<mapsto> ?g], [exItem 5], [[exItem 4]], []) ([''a_b'' \<mapsto> ?g], [], [[exItem 4]], [exItem 5])"
    using goStep.sendReader [of id "[''a_b'' \<mapsto> ?g]" "exItem 5" "[]" "[[exItem 4]]" "[]"] by simp
  moreover have "goStep id ([''a_b'' \<mapsto> ?g], [], [[exItem 4]], [exItem 5]) ([''a_b'' \<mapsto> ?g], [], [[]], [exItem 5, exItem 4])"
    using goStep.sendTimer [of 0 "[[exItem 4]]" "exItem 4" "[]" id "[''a_b'' \<mapsto> ?g]" "[]" "[exItem 5]"] by simp
  ultimately show ?thesis by (blast intro: converse_rtranclp_into_rtranclp rtranclp.rtrancl_refl)
qed

end
