(* ===== verification/Hmac.thy ===== *)
theory Hmac
  imports Common
begin

unbundle bit_operations_syntax

text \<open>
  \<open>crypto/hmac/hmac.go\<close> (the code of Go's own \<open>crypto/hmac\<close>, which \<open>prf.go\<close> imports) on the
  interface \<open>hash.Hash\<close>, and the wrapper \<open>crypto/sm3tongsuo\<close> that implements the interface with
  the EVP digest functions.  The digest itself is a parameter.
\<close>

section \<open>The interface \<open>hash.Hash\<close>\<close>

text \<open>
  A hash object: its state after construction, its methods, and \<open>MarshalBinary\<close> and
  \<open>UnmarshalBinary\<close> where it has them (\<open>ho_marshalable\<close>).
\<close>

record 's hashOps =
  ho_new :: 's
  ho_reset :: "'s \<Rightarrow> 's"
  ho_write :: "bytes \<Rightarrow> 's \<Rightarrow> 's"
  ho_sum :: "'s \<Rightarrow> bytes"
  ho_block :: nat
  ho_marshalable :: bool
  ho_marshal :: "'s \<Rightarrow> bytes option"
  ho_unmarshal :: "bytes \<Rightarrow> 's option"

text \<open>The contract: a hash object is what has been written to it since it was reset.\<close>

locale hash_object =
  fixes ops :: "'s hashOps"
    and written :: "'s \<Rightarrow> bytes"
    and digest :: "bytes \<Rightarrow> bytes"
  assumes written_new: "written (ho_new ops) = []"
    and written_reset: "written (ho_reset ops s) = []"
    and written_write: "written (ho_write ops p s) = written s @ p"
    and sum_digest: "ho_sum ops s = digest (written s)"
    and marshal_unmarshal: "ho_marshalable ops \<Longrightarrow> ho_marshal ops s = Some b \<Longrightarrow>
      \<exists>s'. ho_unmarshal ops b = Some s' \<and> written s' = written s"

section \<open>HMAC\<close>

record 's HMAC =
  hm_opad :: bytes
  hm_ipad :: bytes
  hm_outer :: 's
  hm_inner :: 's
  hm_marshaled :: bool

definition pad_with :: "byte \<Rightarrow> bytes \<Rightarrow> bytes" where
  "pad_with c pad = map (\<lambda>b. b XOR c) pad"

text \<open>\<open>sameObject\<close>: the two calls of the constructor returned one object.\<close>

definition hmac_New :: "'s hashOps \<Rightarrow> bool \<Rightarrow> bytes \<Rightarrow> 's HMAC res" where
  "hmac_New ops sameObject key =
     (if sameObject then Panic ''crypto/hmac: hash generation function does not produce unique values''
      else
        let big = ho_block ops < length key;
            outer = (if big then ho_write ops key (ho_new ops) else ho_new ops);
            key' = (if big then ho_sum ops outer else key);
            ipad = pad_with 0x36 (go_copy (replicate (ho_block ops) 0) key');
            opad = pad_with 0x5c (go_copy (replicate (ho_block ops) 0) key')
        in Ok \<lparr>hm_opad = opad, hm_ipad = ipad, hm_outer = outer,
               hm_inner = ho_write ops ipad (ho_new ops), hm_marshaled = False\<rparr>)"

definition hmac_Write :: "'s hashOps \<Rightarrow> bytes \<Rightarrow> 's HMAC \<Rightarrow> 's HMAC" where
  "hmac_Write ops p h = h\<lparr>hm_inner := ho_write ops p (hm_inner h)\<rparr>"

definition hmac_Sum :: "'s hashOps \<Rightarrow> bytes \<Rightarrow> 's HMAC \<Rightarrow> (bytes \<times> 's HMAC) res" where
  "hmac_Sum ops inb h =
     (let i = inb @ ho_sum ops (hm_inner h);
          finish = (\<lambda>outer0. let outer = ho_write ops (drop (length inb) i) outer0
                    in Ok (take (length inb) i @ ho_sum ops outer, h\<lparr>hm_outer := outer\<rparr>))
      in if hm_marshaled h
         then (case ho_unmarshal ops (hm_opad h) of None \<Rightarrow> Panic ''UnmarshalBinary''
               | Some outer0 \<Rightarrow> finish outer0)
         else finish (ho_write ops (hm_opad h) (ho_reset ops (hm_outer h))))"

definition hmac_Reset :: "'s hashOps \<Rightarrow> 's HMAC \<Rightarrow> 's HMAC res" where
  "hmac_Reset ops h =
     (if hm_marshaled h
      then (case ho_unmarshal ops (hm_ipad h) of None \<Rightarrow> Panic ''UnmarshalBinary''
            | Some inner \<Rightarrow> Ok (h\<lparr>hm_inner := inner\<rparr>))
      else
        let h1 = h\<lparr>hm_inner := ho_write ops (hm_ipad h) (ho_reset ops (hm_inner h))\<rparr> in
        if \<not> ho_marshalable ops then Ok h1
        else (case ho_marshal ops (hm_inner h1) of None \<Rightarrow> Ok h1
              | Some imarshal \<Rightarrow>
                  let h2 = h1\<lparr>hm_outer := ho_write ops (hm_opad h1) (ho_reset ops (hm_outer h1))\<rparr> in
                  (case ho_marshal ops (hm_outer h2) of None \<Rightarrow> Ok h2
                   | Some omarshal \<Rightarrow>
                       Ok (h2\<lparr>hm_ipad := imarshal, hm_opad := omarshal, hm_marshaled := True\<rparr>))))"

text \<open>The definition of RFC 2104.\<close>

definition hmac_key :: "(bytes \<Rightarrow> bytes) \<Rightarrow> nat \<Rightarrow> bytes \<Rightarrow> bytes" where
  "hmac_key digest block key =
     (let k = (if block < length key then digest key else key)
      in take block (k @ replicate block 0))"

definition rfc2104 :: "(bytes \<Rightarrow> bytes) \<Rightarrow> nat \<Rightarrow> bytes \<Rightarrow> bytes \<Rightarrow> bytes" where
  "rfc2104 digest block key msg =
     (let k = hmac_key digest block key
      in digest (map (\<lambda>b. b XOR 0x5c) k @ digest (map (\<lambda>b. b XOR 0x36) k @ msg)))"

text \<open>Calls on one object, in order; \<open>Sum\<close> yields its result.\<close>

datatype hmacCall = Write bytes | Sum bytes | Reset

fun hmac_calls :: "'s hashOps \<Rightarrow> hmacCall list \<Rightarrow> 's HMAC \<Rightarrow> (bytes list \<times> 's HMAC) res" where
  "hmac_calls ops [] h = Ok ([], h)"
| "hmac_calls ops (Write p # cs) h = hmac_calls ops cs (hmac_Write ops p h)"
| "hmac_calls ops (Reset # cs) h = bind_res (hmac_Reset ops h) (hmac_calls ops cs)"
| "hmac_calls ops (Sum inb # cs) h =
     bind_res (hmac_Sum ops inb h) (\<lambda>(d, h1).
     bind_res (hmac_calls ops cs h1) (\<lambda>(ds, h2). Ok (d # ds, h2)))"

fun rfc2104_calls :: "(bytes \<Rightarrow> bytes) \<Rightarrow> hmacCall list \<Rightarrow> bytes \<Rightarrow> bytes list" where
  "rfc2104_calls mac [] m = []"
| "rfc2104_calls mac (Write p # cs) m = rfc2104_calls mac cs (m @ p)"
| "rfc2104_calls mac (Reset # cs) m = rfc2104_calls mac cs []"
| "rfc2104_calls mac (Sum inb # cs) m = (inb @ mac m) # rfc2104_calls mac cs m"

lemma go_copy_pad: "go_copy (replicate n 0) k = take n (k @ replicate n 0)"
  by (auto simp: go_copy_def min_def)

context hash_object
begin

text \<open>The two saved pads, and the object, stand for the padded keys and the message so far.\<close>

definition pads :: "bytes \<Rightarrow> bytes \<Rightarrow> bool \<Rightarrow> bytes \<Rightarrow> bytes \<Rightarrow> bool" where
  "pads ik ok saved ipad opad \<longleftrightarrow>
     (if saved
      then (\<exists>si so. ho_unmarshal ops ipad = Some si \<and> written si = ik \<and>
                    ho_unmarshal ops opad = Some so \<and> written so = ok)
      else ipad = ik \<and> opad = ok)"

definition represents :: "bytes \<Rightarrow> bytes \<Rightarrow> bytes \<Rightarrow> 's HMAC \<Rightarrow> bool" where
  "represents ik ok m h \<longleftrightarrow>
     written (hm_inner h) = ik @ m \<and> pads ik ok (hm_marshaled h) (hm_ipad h) (hm_opad h)"

lemma represents_Write: "represents ik ok m h \<Longrightarrow> represents ik ok (m @ p) (hmac_Write ops p h)"
  by (simp add: represents_def hmac_Write_def written_write)

lemma represents_outer [simp]: "represents ik ok m (h\<lparr>hm_outer := x\<rparr>) = represents ik ok m h"
  by (simp add: represents_def)

lemma represents_Sum:
  assumes "represents ik ok m h"
  shows "\<exists>h'. hmac_Sum ops inb h = Ok (inb @ digest (ok @ digest (ik @ m)), h') \<and> represents ik ok m h'"
proof -
  have "written (hm_inner h) = ik @ m" using assms by (simp add: represents_def)
  moreover have "\<exists>so. ho_unmarshal ops (hm_opad h) = Some so \<and> written so = ok" if "hm_marshaled h"
    using assms that by (auto simp: represents_def pads_def)
  moreover have "hm_opad h = ok" if "\<not> hm_marshaled h"
    using assms that by (simp add: represents_def pads_def)
  ultimately show ?thesis
    using assms
    by (cases "hm_marshaled h") (auto simp: hmac_Sum_def Let_def sum_digest written_write written_reset)
qed

lemma represents_Reset:
  assumes "represents ik ok m h"
  shows "\<exists>h'. hmac_Reset ops h = Ok h' \<and> represents ik ok [] h'"
proof (cases "hm_marshaled h")
  case True
  then show ?thesis using assms by (auto simp: represents_def pads_def hmac_Reset_def)
next
  case False
  let ?i = "ho_write ops (hm_ipad h) (ho_reset ops (hm_inner h))"
  let ?o = "ho_write ops (hm_opad h) (ho_reset ops (hm_outer h))"
  have p: "hm_ipad h = ik" "hm_opad h = ok" using assms False by (auto simp: represents_def pads_def)
  then have w: "written ?i = ik" "written ?o = ok" by (simp_all add: written_write written_reset)
  show ?thesis
    using False p w marshal_unmarshal [of ?i] marshal_unmarshal [of ?o]
    by (auto simp: represents_def pads_def hmac_Reset_def Let_def split: option.splits)
qed

lemma represents_New:
  "\<exists>h. hmac_New ops False key = Ok h \<and>
     represents (pad_with 0x36 (hmac_key digest (ho_block ops) key))
       (pad_with 0x5c (hmac_key digest (ho_block ops) key)) [] h"
  by (simp add: hmac_New_def represents_def pads_def Let_def hmac_key_def go_copy_pad sum_digest written_write
      written_new)

lemma hmac_calls_correct:
  assumes "represents ik ok m h"
  shows "\<exists>h'. hmac_calls ops cs h = Ok (rfc2104_calls (\<lambda>m. digest (ok @ digest (ik @ m))) cs m, h')"
  using assms
proof (induction cs arbitrary: m h)
  case (Cons c cs)
  show ?case
  proof (cases c)
    case (Write p)
    then show ?thesis using Cons.IH [OF represents_Write [OF Cons.prems]] by simp
  next
    case (Sum inb)
    then show ?thesis
      using represents_Sum [OF Cons.prems, of inb] Cons.IH by fastforce
  next
    case Reset
    then show ?thesis
      using represents_Reset [OF Cons.prems] Cons.IH by fastforce
  qed
qed simp

theorem hmac_rfc2104:
  "\<exists>h h'. hmac_New ops False key = Ok h \<and>
     hmac_calls ops cs h = Ok (rfc2104_calls (rfc2104 digest (ho_block ops) key) cs [], h')"
proof -
  let ?k = "hmac_key digest (ho_block ops) key"
  obtain h where h: "hmac_New ops False key = Ok h" "represents (pad_with 0x36 ?k) (pad_with 0x5c ?k) [] h"
    using represents_New by blast
  have "rfc2104 digest (ho_block ops) key = (\<lambda>m. digest (pad_with 0x5c ?k @ digest (pad_with 0x36 ?k @ m)))"
    by (simp add: fun_eq_iff rfc2104_def Let_def pad_with_def)
  then show ?thesis using h(1) hmac_calls_correct [OF h(2), of cs] by auto
qed

end

section \<open>SM3 and the library's hashes\<close>

text \<open>
  \<open>sm3tongsuo.SM3\<close>: the EVP context holds the bytes it was updated with, \<open>sm3\<close> is the digest
  \<open>EVP_DigestFinal_ex\<close> writes.  \<open>Write\<close> skips empty input, \<open>Sum\<close> works on a copy of the
  context, and there is no \<open>MarshalBinary\<close>.
\<close>

definition SM3_Write :: "bytes \<Rightarrow> bytes \<Rightarrow> bytes" where
  "SM3_Write data ctx = (if data = [] then ctx else ctx @ data)"

definition SM3_checkSum :: "(bytes \<Rightarrow> bytes) \<Rightarrow> bytes \<Rightarrow> bytes" where
  "SM3_checkSum sm3 ctx = go_copy (replicate 32 0) (sm3 ctx)"

definition SM3_Sum :: "(bytes \<Rightarrow> bytes) \<Rightarrow> bytes \<Rightarrow> bytes \<Rightarrow> bytes" where
  "SM3_Sum sm3 inb ctx = inb @ SM3_checkSum sm3 ctx"

definition sm3Ops :: "(bytes \<Rightarrow> bytes) \<Rightarrow> bytes hashOps" where
  "sm3Ops sm3 =
     \<lparr>ho_new = [], ho_reset = (\<lambda>_. []), ho_write = SM3_Write, ho_sum = SM3_Sum sm3 [], ho_block = 64,
      ho_marshalable = False, ho_marshal = (\<lambda>_. None), ho_unmarshal = (\<lambda>_. None)\<rparr>"

text \<open>\<open>crypto/sha256\<close> and \<open>crypto/sha512\<close>: the same, and their state can be saved and loaded.\<close>

definition shaOps :: "(bytes \<Rightarrow> bytes) \<Rightarrow> nat \<Rightarrow> bytes hashOps" where
  "shaOps sha block =
     \<lparr>ho_new = [], ho_reset = (\<lambda>_. []), ho_write = (\<lambda>p s. s @ p), ho_sum = sha, ho_block = block,
      ho_marshalable = True, ho_marshal = Some, ho_unmarshal = Some\<rparr>"

lemma length_SM3_checkSum [simp]: "length (SM3_checkSum sm3 ctx) = 32"
  by (simp add: SM3_checkSum_def)

interpretation sm3: hash_object "sm3Ops sm3" "\<lambda>s. s" "SM3_checkSum sm3" for sm3
  by unfold_locales (simp_all add: sm3Ops_def SM3_Write_def SM3_Sum_def)

interpretation sha: hash_object "shaOps sha block" "\<lambda>s. s" sha for sha block
  by unfold_locales (simp_all add: shaOps_def)

section \<open>Properties\<close>

text \<open>C25: an HMAC object over SM3 computes RFC 2104: whatever the sequence of \<open>Write\<close>,
  \<open>Sum\<close> and \<open>Reset\<close> calls, no call panics and every \<open>Sum\<close> appends the HMAC of what was written
  since the last reset.\<close>

theorem hmac_sm3_reference:
  "\<exists>h h'. hmac_New (sm3Ops sm3) False key = Ok h \<and>
     hmac_calls (sm3Ops sm3) cs h = Ok (rfc2104_calls (rfc2104 (SM3_checkSum sm3) 64 key) cs [], h')"
  using sm3.hmac_rfc2104 [of sm3 key cs] by (simp add: sm3Ops_def)

text \<open>The same holds for the library's hashes, where \<open>Reset\<close> saves the state after the
  padded key and later calls load it instead of writing the padded key again.\<close>

theorem hmac_sha_reference:
  "\<exists>h h'. hmac_New (shaOps sha block) False key = Ok h \<and>
     hmac_calls (shaOps sha block) cs h = Ok (rfc2104_calls (rfc2104 sha block key) cs [], h')"
  using sha.hmac_rfc2104 [of sha block key cs] by (simp add: shaOps_def)

end
