(* ===== verification/Prf.thy ===== *)
theory Prf
  imports Hmac
begin

text \<open>
  \<open>e2ewebsocket/prf.go\<close> and \<open>finished_hash.go\<close>: the TLS pseudo-random function over the hash
  a cipher suite selects, master secret and key expansion, and the running hash of the handshake with
  its two verify values.
\<close>

section \<open>The PRF\<close>

text \<open>The digests of the libraries.\<close>

record digests =
  dg_sha256 :: "bytes \<Rightarrow> bytes"
  dg_sha384 :: "bytes \<Rightarrow> bytes"
  dg_sm3 :: "bytes \<Rightarrow> bytes"

definition digests_ok :: "digests \<Rightarrow> bool" where
  "digests_ok D \<longleftrightarrow> (\<forall>x. length (dg_sha256 D x) = 32) \<and> (\<forall>x. length (dg_sha384 D x) = 48)"

datatype hashAlg = SHA256 | SHA384 | SM3HASH

fun hashOf :: "digests \<Rightarrow> hashAlg \<Rightarrow> bytes hashOps" where
  "hashOf D SHA256 = shaOps (dg_sha256 D) 64"
| "hashOf D SHA384 = shaOps (dg_sha384 D) 128"
| "hashOf D SM3HASH = sm3Ops (dg_sm3 D)"

text \<open>The digest and the block size these objects stand for.\<close>

fun digestOf :: "digests \<Rightarrow> hashAlg \<Rightarrow> bytes \<Rightarrow> bytes" where
  "digestOf D SHA256 = dg_sha256 D"
| "digestOf D SHA384 = dg_sha384 D"
| "digestOf D SM3HASH = SM3_checkSum (dg_sm3 D)"

definition prfAndHash :: "cipherSuite \<Rightarrow> hashAlg" where
  "prfAndHash suite =
     (if cs_flags suite AND suiteSHA384 \<noteq> 0 then SHA384
      else if cs_flags suite AND suiteSM3 \<noteq> 0 then SM3HASH
      else SHA256)"

text \<open>One round of the loop of \<open>pHash\<close>: the block, the next \<open>a\<close> and the object after it.\<close>

definition pHashRound :: "'s hashOps \<Rightarrow> bytes \<Rightarrow> 's HMAC \<Rightarrow> bytes \<Rightarrow> (bytes \<times> bytes \<times> 's HMAC) res" where
  "pHashRound ops seed h a =
     bind_res (hmac_Reset ops h) (\<lambda>h1.
     bind_res (hmac_Sum ops [] (hmac_Write ops seed (hmac_Write ops a h1))) (\<lambda>(b, h2).
     bind_res (hmac_Reset ops h2) (\<lambda>h3.
     bind_res (hmac_Sum ops [] (hmac_Write ops a h3)) (\<lambda>(a', h4). Ok (b, a', h4)))))"

text \<open>The loop fills the result; with a hash of length 0 it would not end.\<close>

partial_function (option) pHashLoop ::
  "'s hashOps \<Rightarrow> bytes \<Rightarrow> 's HMAC \<Rightarrow> bytes \<Rightarrow> nat \<Rightarrow> bytes res option" where
  "pHashLoop ops seed h a n =
     (if n = 0 then Some (Ok [])
      else (case pHashRound ops seed h a of
              Fail e \<Rightarrow> Some (Fail e)
            | Panic p \<Rightarrow> Some (Panic p)
            | Ok s \<Rightarrow>
                Option.bind (pHashLoop ops seed (snd (snd s)) (fst (snd s)) (n - min n (length (fst s))))
                  (\<lambda>r. Some (bind_res r (\<lambda>rest. Ok (take (min n (length (fst s))) (fst s) @ rest))))))"

definition pHash :: "'s hashOps \<Rightarrow> nat \<Rightarrow> bytes \<Rightarrow> bytes \<Rightarrow> bytes res option" where
  "pHash ops n secret seed =
     (case bind_res (hmac_New ops False secret) (\<lambda>h. hmac_Sum ops [] (hmac_Write ops seed h)) of
        Fail e \<Rightarrow> Some (Fail e)
      | Panic p \<Rightarrow> Some (Panic p)
      | Ok (a, h) \<Rightarrow> pHashLoop ops seed h a n)"

definition PRF :: "'s hashOps \<Rightarrow> bytes \<Rightarrow> string \<Rightarrow> bytes \<Rightarrow> nat \<Rightarrow> bytes res option" where
  "PRF ops secret label seed keyLen = pHash ops keyLen secret (bytes_of_string label @ seed)"

definition prfOf :: "digests \<Rightarrow> cipherSuite \<Rightarrow> bytes \<Rightarrow> string \<Rightarrow> bytes \<Rightarrow> nat \<Rightarrow> bytes res option" where
  "prfOf D suite = PRF (hashOf D (prfAndHash suite))"

section \<open>Master secret and keys\<close>

definition masterSecretLength :: nat where "masterSecretLength = 48"
definition finishedVerifyLength :: nat where "finishedVerifyLength = 12"
definition masterSecretLabel :: string where "masterSecretLabel = ''master secret''"
definition keyExpansionLabel :: string where "keyExpansionLabel = ''key expansion''"

definition masterFromPreMasterSecret ::
  "digests \<Rightarrow> cipherSuite \<Rightarrow> bytes \<Rightarrow> bytes \<Rightarrow> bytes \<Rightarrow> bytes res option" where
  "masterFromPreMasterSecret D suite preMasterSecret initiatorRandom responderRandom =
     prfOf D suite preMasterSecret masterSecretLabel (initiatorRandom @ responderRandom) masterSecretLength"

record keyBlock =
  kb_clientMAC :: bytes
  kb_serverMAC :: bytes
  kb_clientKey :: bytes
  kb_serverKey :: bytes
  kb_clientIV :: bytes
  kb_serverIV :: bytes

definition cutKeys :: "bytes \<Rightarrow> nat \<Rightarrow> nat \<Rightarrow> nat \<Rightarrow> keyBlock" where
  "cutKeys k0 macLen keyLen ivLen =
     (let k1 = drop macLen k0; k2 = drop macLen k1; k3 = drop keyLen k2; k4 = drop keyLen k3; k5 = drop ivLen k4
      in \<lparr>kb_clientMAC = take macLen k0, kb_serverMAC = take macLen k1, kb_clientKey = take keyLen k2,
          kb_serverKey = take keyLen k3, kb_clientIV = take ivLen k4, kb_serverIV = take ivLen k5\<rparr>)"

definition keysFromMasterSecret ::
  "digests \<Rightarrow> cipherSuite \<Rightarrow> bytes \<Rightarrow> bytes \<Rightarrow> bytes \<Rightarrow> nat \<Rightarrow> nat \<Rightarrow> nat \<Rightarrow> keyBlock res option" where
  "keysFromMasterSecret D suite masterSecret initiatorRandom responderRandom macLen keyLen ivLen =
     map_option (\<lambda>r. bind_res r (\<lambda>k. Ok (cutKeys k macLen keyLen ivLen)))
       (prfOf D suite masterSecret keyExpansionLabel (responderRandom @ initiatorRandom)
          (2 * macLen + 2 * keyLen + 2 * ivLen))"

section \<open>The running hash of the handshake\<close>

record finishedHash =
  fh_localLabel :: string
  fh_remoteLabel :: string
  fh_alg :: hashAlg
  fh_core :: bytes
  fh_suite :: cipherSuite

definition newFinishedHash :: "digests \<Rightarrow> cipherSuite \<Rightarrow> string \<Rightarrow> string \<Rightarrow> finishedHash" where
  "newFinishedHash D suite localLabel remoteLabel =
     \<lparr>fh_localLabel = localLabel, fh_remoteLabel = remoteLabel, fh_alg = prfAndHash suite,
      fh_core = ho_new (hashOf D (prfAndHash suite)), fh_suite = suite\<rparr>"

definition fh_Write :: "digests \<Rightarrow> bytes \<Rightarrow> finishedHash \<Rightarrow> finishedHash" where
  "fh_Write D msg h = h\<lparr>fh_core := ho_write (hashOf D (fh_alg h)) msg (fh_core h)\<rparr>"

definition fh_Sum :: "digests \<Rightarrow> finishedHash \<Rightarrow> bytes" where
  "fh_Sum D h = ho_sum (hashOf D (fh_alg h)) (fh_core h)"

definition localSum :: "digests \<Rightarrow> bytes \<Rightarrow> finishedHash \<Rightarrow> bytes res option" where
  "localSum D masterSecret h = prfOf D (fh_suite h) masterSecret (fh_localLabel h) (fh_Sum D h) finishedVerifyLength"

definition remoteSum :: "digests \<Rightarrow> bytes \<Rightarrow> finishedHash \<Rightarrow> bytes res option" where
  "remoteSum D masterSecret h = prfOf D (fh_suite h) masterSecret (fh_remoteLabel h) (fh_Sum D h) finishedVerifyLength"

section \<open>The PRF of RFC 5246\<close>

fun A_chain :: "(bytes \<Rightarrow> bytes) \<Rightarrow> bytes \<Rightarrow> nat \<Rightarrow> bytes" where
  "A_chain mac seed 0 = seed"
| "A_chain mac seed (Suc n) = mac (A_chain mac seed n)"

text \<open>The first \<open>n\<close> bytes of \<open>P_hash\<close>; \<open>n\<close> blocks are enough for that.\<close>

definition P_blocks :: "(bytes \<Rightarrow> bytes) \<Rightarrow> bytes \<Rightarrow> nat \<Rightarrow> nat \<Rightarrow> bytes" where
  "P_blocks mac seed i m = concat (map (\<lambda>j. mac (A_chain mac seed j @ seed)) [i..<i + m])"

definition rfc5246_PRF :: "(bytes \<Rightarrow> bytes \<Rightarrow> bytes) \<Rightarrow> bytes \<Rightarrow> string \<Rightarrow> bytes \<Rightarrow> nat \<Rightarrow> bytes" where
  "rfc5246_PRF hmac secret label seed n =
     take n (P_blocks (hmac secret) (bytes_of_string label @ seed) 1 n)"

context hash_object
begin

lemma pHashRound_ok:
  assumes "represents ik ok m h"
  defines "mac \<equiv> \<lambda>x. digest (ok @ digest (ik @ x))"
  shows "\<exists>h' m'. pHashRound ops seed h a = Ok (mac (a @ seed), mac a, h') \<and> represents ik ok m' h'"
proof -
  obtain h1 where h1: "hmac_Reset ops h = Ok h1" "represents ik ok [] h1"
    using represents_Reset [OF assms(1)] by blast
  obtain h2 where h2: "hmac_Sum ops [] (hmac_Write ops seed (hmac_Write ops a h1)) = Ok (mac (a @ seed), h2)"
      "represents ik ok (a @ seed) h2"
    using represents_Sum [OF represents_Write [OF represents_Write [OF h1(2)]], of "[]" seed a]
    by (auto simp: mac_def)
  obtain h3 where h3: "hmac_Reset ops h2 = Ok h3" "represents ik ok [] h3"
    using represents_Reset [OF h2(2)] by blast
  obtain h4 where h4: "hmac_Sum ops [] (hmac_Write ops a h3) = Ok (mac a, h4)" "represents ik ok a h4"
    using represents_Sum [OF represents_Write [OF h3(2)], of "[]" a] by (auto simp: mac_def)
  show ?thesis using h1(1) h2(1) h3(1) h4 by (auto simp: pHashRound_def)
qed

lemma pHashLoop_ok:
  assumes "represents ik ok m h" "\<And>x. length (digest x) = L" "0 < L" "n \<le> k * L"
  defines "mac \<equiv> \<lambda>x. digest (ok @ digest (ik @ x))"
  shows "pHashLoop ops seed h (A_chain mac seed i) n = Some (Ok (take n (P_blocks mac seed i k)))"
  using assms(1,4)
proof (induction k arbitrary: i m h n)
  case 0
  then show ?case by (simp add: pHashLoop.simps)
next
  case (Suc k)
  let ?b = "mac (A_chain mac seed i @ seed)"
  have len: "length ?b = L" by (simp add: mac_def assms(2))
  have blocks: "P_blocks mac seed i (Suc k) = ?b @ P_blocks mac seed (Suc i) k"
    by (simp add: P_blocks_def upt_conv_Cons del: upt_Suc)
  show ?case
  proof (cases "n = 0")
    case True
    then show ?thesis by (simp add: pHashLoop.simps)
  next
    case False
    obtain h' m' where r: "pHashRound ops seed h (A_chain mac seed i) = Ok (?b, A_chain mac seed (Suc i), h')"
        "represents ik ok m' h'"
      using pHashRound_ok [OF Suc.prems(1), of seed "A_chain mac seed i"] by (auto simp: mac_def)
    have "n - min n L \<le> k * L" using Suc.prems(2) by auto
    from Suc.IH [OF r(2) this]
    have "pHashLoop ops seed h' (A_chain mac seed (Suc i)) (n - min n L) =
        Some (Ok (take (n - min n L) (P_blocks mac seed (Suc i) k)))" .
    then show ?thesis
      using False r(1) len by (subst pHashLoop.simps) (auto simp: blocks min_def)
  qed
qed

theorem PRF_rfc5246:
  assumes "\<And>x. length (digest x) = L" "0 < L"
  shows "PRF ops secret label seed n =
    Some (Ok (rfc5246_PRF (rfc2104 digest (ho_block ops)) secret label seed n)) \<and>
    length (rfc5246_PRF (rfc2104 digest (ho_block ops)) secret label seed n) = n"
proof -
  let ?k = "hmac_key digest (ho_block ops) secret"
  let ?ls = "bytes_of_string label @ seed"
  define mac where "mac = (\<lambda>x. digest (pad_with 0x5c ?k @ digest (pad_with 0x36 ?k @ x)))"
  have m: "rfc2104 digest (ho_block ops) secret = mac"
    by (simp add: fun_eq_iff rfc2104_def Let_def pad_with_def mac_def)
  obtain h where h: "hmac_New ops False secret = Ok h" "represents (pad_with 0x36 ?k) (pad_with 0x5c ?k) [] h"
    using represents_New by blast
  obtain h1 where h1: "hmac_Sum ops [] (hmac_Write ops ?ls h) = Ok (mac ?ls, h1)"
      "represents (pad_with 0x36 ?k) (pad_with 0x5c ?k) ?ls h1"
    using represents_Sum [OF represents_Write [OF h(2)], of "[]" ?ls] by (auto simp: mac_def)
  have "n \<le> n * L" using assms(2) by (cases L) auto
  from pHashLoop_ok [OF h1(2) assms this, of ?ls 1]
  have "pHashLoop ops ?ls h1 (mac ?ls) n = Some (Ok (take n (P_blocks mac ?ls 1 n)))"
    by (simp add: mac_def)
  then have e: "PRF ops secret label seed n = Some (Ok (take n (P_blocks mac ?ls 1 n)))"
    using h(1) h1(1) by (simp add: PRF_def pHash_def)
  have "length (P_blocks mac ?ls i j) = j * L" for i j
    by (induction j arbitrary: i) (simp_all add: P_blocks_def mac_def assms(1) length_concat comp_def)
  then show ?thesis using e \<open>n \<le> n * L\<close> by (simp add: rfc5246_PRF_def m)
qed

end

section \<open>The PRF of a cipher suite\<close>

definition macOf :: "digests \<Rightarrow> hashAlg \<Rightarrow> bytes \<Rightarrow> bytes \<Rightarrow> bytes" where
  "macOf D alg = rfc2104 (digestOf D alg) (if alg = SHA384 then 128 else 64)"

text \<open>What the PRF of a suite computes, as a total function.\<close>

definition suitePRF :: "digests \<Rightarrow> cipherSuite \<Rightarrow> bytes \<Rightarrow> string \<Rightarrow> bytes \<Rightarrow> nat \<Rightarrow> bytes" where
  "suitePRF D suite = rfc5246_PRF (macOf D (prfAndHash suite))"

lemma prfOf_suitePRF:
  assumes "digests_ok D"
  shows "prfOf D suite secret label seed n = Some (Ok (suitePRF D suite secret label seed n))"
    "length (suitePRF D suite secret label seed n) = n"
proof -
  have "prfOf D suite secret label seed n = Some (Ok (suitePRF D suite secret label seed n)) \<and>
      length (suitePRF D suite secret label seed n) = n"
  proof (cases "prfAndHash suite")
    case SHA256
    have "dg_sha256 D x = dg_sha256 D x \<and> length (dg_sha256 D x) = 32" for x using assms by (simp add: digests_ok_def)
    then show ?thesis
      using sha.PRF_rfc5246 [of "dg_sha256 D" 32 64 secret label seed n]
      by (simp add: prfOf_def suitePRF_def macOf_def SHA256 shaOps_def)
  next
    case SHA384
    have "length (dg_sha384 D x) = 48" for x using assms by (simp add: digests_ok_def)
    then show ?thesis
      using sha.PRF_rfc5246 [of "dg_sha384 D" 48 128 secret label seed n]
      by (simp add: prfOf_def suitePRF_def macOf_def SHA384 shaOps_def)
  next
    case SM3HASH
    then show ?thesis
      using sm3.PRF_rfc5246 [of "dg_sm3 D" 32 secret label seed n]
      by (simp add: prfOf_def suitePRF_def macOf_def sm3Ops_def)
  qed
  then show "prfOf D suite secret label seed n = Some (Ok (suitePRF D suite secret label seed n))"
    "length (suitePRF D suite secret label seed n) = n" by simp_all
qed

definition suiteMaster :: "digests \<Rightarrow> cipherSuite \<Rightarrow> bytes \<Rightarrow> bytes \<Rightarrow> bytes \<Rightarrow> bytes" where
  "suiteMaster D suite pms ir rr = suitePRF D suite pms masterSecretLabel (ir @ rr) masterSecretLength"

definition suiteKeys :: "digests \<Rightarrow> cipherSuite \<Rightarrow> bytes \<Rightarrow> bytes \<Rightarrow> bytes \<Rightarrow> keyBlock" where
  "suiteKeys D suite ms ir rr =
     cutKeys (suitePRF D suite ms keyExpansionLabel (rr @ ir)
         (2 * cs_macLen suite + 2 * cs_keyLen suite + 2 * cs_ivLen suite))
       (cs_macLen suite) (cs_keyLen suite) (cs_ivLen suite)"

lemma master_suiteMaster:
  "digests_ok D \<Longrightarrow> masterFromPreMasterSecret D suite pms ir rr = Some (Ok (suiteMaster D suite pms ir rr))"
  by (simp add: masterFromPreMasterSecret_def suiteMaster_def prfOf_suitePRF)

lemma keys_suiteKeys:
  "digests_ok D \<Longrightarrow>
   keysFromMasterSecret D suite ms ir rr (cs_macLen suite) (cs_keyLen suite) (cs_ivLen suite) =
     Some (Ok (suiteKeys D suite ms ir rr))"
  by (simp add: keysFromMasterSecret_def suiteKeys_def prfOf_suitePRF)

lemma fh_Write_core:
  "fh_Write D msg h = h\<lparr>fh_core := fh_core h @ msg\<rparr>"
  by (cases "fh_alg h") (simp_all add: fh_Write_def sm3Ops_def shaOps_def SM3_Write_def)

lemma fh_Sum_core: "fh_Sum D h = digestOf D (fh_alg h) (fh_core h)"
  by (cases "fh_alg h") (simp_all add: fh_Sum_def sm3Ops_def shaOps_def SM3_Sum_def)

lemma newFinishedHash_simps [simp]:
  "fh_core (newFinishedHash D suite l r) = []" "fh_localLabel (newFinishedHash D suite l r) = l"
  "fh_remoteLabel (newFinishedHash D suite l r) = r" "fh_alg (newFinishedHash D suite l r) = prfAndHash suite"
  "fh_suite (newFinishedHash D suite l r) = suite"
  by (cases "prfAndHash suite"; simp add: newFinishedHash_def sm3Ops_def shaOps_def)+

lemma cutKeys_partition:
  assumes "length k = 2 * m + 2 * l + 2 * i"
  shows "length (kb_clientMAC (cutKeys k m l i)) = m \<and> length (kb_serverMAC (cutKeys k m l i)) = m \<and>
    length (kb_clientKey (cutKeys k m l i)) = l \<and> length (kb_serverKey (cutKeys k m l i)) = l \<and>
    length (kb_clientIV (cutKeys k m l i)) = i \<and> length (kb_serverIV (cutKeys k m l i)) = i \<and>
    kb_clientMAC (cutKeys k m l i) @ kb_serverMAC (cutKeys k m l i) @ kb_clientKey (cutKeys k m l i) @
      kb_serverKey (cutKeys k m l i) @ kb_clientIV (cutKeys k m l i) @ kb_serverIV (cutKeys k m l i) = k"
proof -
  have "take i (drop i (drop l (drop l (drop m (drop m k))))) = drop i (drop l (drop l (drop m (drop m k))))"
    using assms by (intro take_all) simp
  then have "take m k @ take m (drop m k) @ take l (drop m (drop m k)) @ take l (drop l (drop m (drop m k))) @
      take i (drop l (drop l (drop m (drop m k)))) @ take i (drop i (drop l (drop l (drop m (drop m k))))) = k"
    by (simp only: append_take_drop_id)
  moreover have "length (take m k) = m" "length (take m (drop m k)) = m" "length (take l (drop m (drop m k))) = l"
    "length (take l (drop l (drop m (drop m k)))) = l" "length (take i (drop l (drop l (drop m (drop m k))))) = i"
    "length (take i (drop i (drop l (drop l (drop m (drop m k)))))) = i"
    using assms by simp_all
  ultimately show ?thesis
    unfolding cutKeys_def Let_def keyBlock.simps by (intro conjI)
qed

section \<open>Properties\<close>

text \<open>C24: the PRF of every cipher suite returns, with exactly the number of bytes asked for, and
  they are those of the PRF of RFC 5246 over the HMAC of the suite's hash.\<close>

theorem prf_rfc5246:
  assumes "digests_ok D"
  shows "prfOf D suite secret label seed n =
      Some (Ok (rfc5246_PRF (macOf D (prfAndHash suite)) secret label seed n)) \<and>
    length (rfc5246_PRF (macOf D (prfAndHash suite)) secret label seed n) = n"
  using prfOf_suitePRF [OF assms] by (simp add: suitePRF_def)

definition exDigests :: digests where
  "exDigests = \<lparr>dg_sha256 = (\<lambda>x. replicate 32 (of_nat (length x))), dg_sha384 = (\<lambda>x. replicate 48 0), dg_sm3 = id\<rparr>"

lemma exDigests_ok: "digests_ok exDigests"
  by (simp add: digests_ok_def exDigests_def)

lemma prf_rfc5246_witness:
  "\<exists>out. prfOf exDigests suiteSM2 [1] ''key expansion'' [2] 40 = Some (Ok out) \<and> length out = 40"
  using prf_rfc5246 [OF exDigests_ok, of suiteSM2 "[1]" "''key expansion''" "[2]" 40] by blast

text \<open>Key expansion cuts the key block into six disjoint pieces: each has its length, and in
  their order they are the whole block.\<close>

theorem key_block_partition:
  assumes "digests_ok D"
  shows "\<exists>kb. keysFromMasterSecret D suite ms ir rr macLen keyLen ivLen = Some (Ok kb) \<and>
    length (kb_clientMAC kb) = macLen \<and> length (kb_serverMAC kb) = macLen \<and>
    length (kb_clientKey kb) = keyLen \<and> length (kb_serverKey kb) = keyLen \<and>
    length (kb_clientIV kb) = ivLen \<and> length (kb_serverIV kb) = ivLen \<and>
    kb_clientMAC kb @ kb_serverMAC kb @ kb_clientKey kb @ kb_serverKey kb @ kb_clientIV kb @ kb_serverIV kb =
      rfc5246_PRF (macOf D (prfAndHash suite)) ms keyExpansionLabel (rr @ ir) (2 * macLen + 2 * keyLen + 2 * ivLen)"
proof -
  let ?k = "suitePRF D suite ms keyExpansionLabel (rr @ ir) (2 * macLen + 2 * keyLen + 2 * ivLen)"
  have l: "length ?k = 2 * macLen + 2 * keyLen + 2 * ivLen" using prfOf_suitePRF(2) [OF assms] .
  have e: "keysFromMasterSecret D suite ms ir rr macLen keyLen ivLen = Some (Ok (cutKeys ?k macLen keyLen ivLen))"
    by (simp add: keysFromMasterSecret_def prfOf_suitePRF(1) [OF assms])
  show ?thesis unfolding e using cutKeys_partition [OF l] by (simp add: suitePRF_def)
qed

lemma key_block_partition_witness:
  "\<exists>kb. keysFromMasterSecret exDigests suiteSM2 [1] [2] [3] 0 16 4 = Some (Ok kb) \<and> length (kb_serverIV kb) = 4"
  using key_block_partition [OF exDigests_ok, of suiteSM2 "[1]" "[2]" "[3]" 0 16 4] by blast

text \<open>Two parties that agree on suite, master secret and the bytes hashed so far, and use
  their identifiers crosswise as labels, verify each other: what one sends as its verify value is
  what the other expects, and both are 12 bytes.\<close>

theorem finished_values_agree:
  assumes "digests_ok D" "fh_core h = fh_core h'" "fh_suite h = fh_suite h'" "fh_alg h = fh_alg h'"
    "fh_localLabel h = fh_remoteLabel h'"
  shows "\<exists>v. localSum D ms h = Some (Ok v) \<and> remoteSum D ms h' = Some (Ok v) \<and> length v = 12"
  using assms(2-)
  by (simp add: localSum_def remoteSum_def prfOf_suitePRF [OF assms(1)] fh_Sum_core finishedVerifyLength_def)

lemma finished_values_agree_witness:
  "\<exists>v. localSum exDigests [7] (fh_Write exDigests [1, 2] (newFinishedHash exDigests suiteSM2 ''a'' ''b'')) = Some (Ok v) \<and>
     remoteSum exDigests [7] (fh_Write exDigests [1, 2] (newFinishedHash exDigests suiteSM2 ''b'' ''a'')) = Some (Ok v)"
  using finished_values_agree [OF exDigests_ok,
      of "fh_Write exDigests [1, 2] (newFinishedHash exDigests suiteSM2 ''a'' ''b'')"
         "fh_Write exDigests [1, 2] (newFinishedHash exDigests suiteSM2 ''b'' ''a'')" "[7]"]
  by (auto simp: fh_Write_core)

text \<open>The suite named \<open>\<dots>_SM3\<close> of the default build does not use SM3: its flags select SHA-256
  for the PRF, the HMAC and the handshake hash; only the hybrid suite's flags select SM3.\<close>

theorem default_suite_hash:
  "prfAndHash suiteSM2 = SHA256 \<and> prfAndHash suiteSM2MLKEM = SM3HASH \<and>
   prfOf D suiteSM2 = PRF (shaOps (dg_sha256 D) 64)"
  by (simp add: prfOf_def prfAndHash_def suiteSM2_def suiteSM2MLKEM_def suiteTLS12_def suiteSHA384_def suiteSM3_def)

end
