(* ===== verification/HalfConn.thy ===== *)
theory HalfConn
  imports Common
begin

unbundle bit_operations_syntax

text \<open>
  One direction of a session's record layer: \<open>halfConn\<close> in \<open>e2ewebsocket/session.go\<close>,
  with record decryption and encryption, the sequence number, and the switch to a new cipher.
\<close>

section \<open>State\<close>

text \<open>\<open>hc_ready\<close>: the one-place channel \<open>nextCipherReady\<close> holds a token.\<close>

record halfConn =
  hc_version :: u16
  hc_cipher :: "cipherObj option"
  hc_mac :: "bytes option"
  hc_seq :: bytes
  hc_nextCipher :: "cipherObj option"
  hc_nextMac :: "bytes option"
  hc_ready :: bool

definition newHalfConn :: halfConn where
  "newHalfConn = \<lparr>hc_version = 0, hc_cipher = None, hc_mac = None, hc_seq = replicate 8 0,
     hc_nextCipher = None, hc_nextMac = None, hc_ready = False\<rparr>"

text \<open>\<open>incSeq\<close>: from the last byte on, stop at the first that does not become 0; the flag tells
  that all did, which panics.\<close>

fun incBytes :: "bytes \<Rightarrow> bytes \<times> bool" where
  "incBytes [] = ([], True)"
| "incBytes (b # bs) =
     (if b + 1 \<noteq> 0 then ((b + 1) # bs, False)
      else let (bs', wrapped) = incBytes bs in ((b + 1) # bs', wrapped))"

definition incSeq :: "halfConn \<Rightarrow> unit res \<times> halfConn" where
  "incSeq hc =
     (let (s, wrapped) = incBytes (rev (hc_seq hc)) in
      (if wrapped then Panic ''sequence number wraparound'' else Ok (), hc\<lparr>hc_seq := rev s\<rparr>))"

definition explicitNonceLen :: "halfConn \<Rightarrow> nat res" where
  "explicitNonceLen hc =
     (case hc_cipher hc of None \<Rightarrow> Ok 0
      | Some StreamObj \<Rightarrow> Ok 0
      | Some (AEADObj c) \<Rightarrow> Ok (ExplicitNonceLen c)
      | Some OtherObj \<Rightarrow> Panic ''unknown cipher type'')"

definition hasCipher :: "halfConn \<Rightarrow> bool" where
  "hasCipher hc \<longleftrightarrow> hc_cipher hc \<noteq> None"

definition incSeqAndReturn :: "bytes \<Rightarrow> halfConn \<Rightarrow> bytes res \<times> halfConn" where
  "incSeqAndReturn out hc = (case incSeq hc of (r, hc') \<Rightarrow> (bind_res r (\<lambda>_. Ok out), hc'))"

text \<open>The stream case overwrites the payload and returns the nil plaintext.\<close>

definition decrypt :: "evp \<Rightarrow> bytes \<Rightarrow> halfConn \<Rightarrow> bytes res \<times> halfConn" where
  "decrypt L payload hc =
     (case explicitNonceLen hc of
        Panic p \<Rightarrow> (Panic p, hc)
      | Fail e \<Rightarrow> (Fail e, hc)
      | Ok nonceLen \<Rightarrow>
          (case hc_cipher hc of
             None \<Rightarrow> incSeqAndReturn payload hc
           | Some StreamObj \<Rightarrow> incSeqAndReturn [] hc
           | Some OtherObj \<Rightarrow> (Panic ''unknown cipher type'', hc)
           | Some (AEADObj c) \<Rightarrow>
               if length payload < nonceLen then (Fail AlertBadRecordMAC, hc)
               else if take nonceLen payload = [] then (Fail AlertNonceZero, hc)
               else
                 let nonce = take nonceLen payload; body = drop nonceLen payload in
                 if length body < Overhead c then (Fail AlertBadRecordMAC, hc)
                 else
                   (case Open L c nonce body (hc_seq hc @ len16 (length body - Overhead c)) of
                      (Ok plaintext, c') \<Rightarrow> incSeqAndReturn plaintext (hc\<lparr>hc_cipher := Some (AEADObj c')\<rparr>)
                    | (Fail _, c') \<Rightarrow> (Fail AlertBadRecordMAC, hc\<lparr>hc_cipher := Some (AEADObj c')\<rparr>)
                    | (Panic p, c') \<Rightarrow> (Panic p, hc\<lparr>hc_cipher := Some (AEADObj c')\<rparr>))))"

text \<open>\<open>rand n\<close> reads \<open>n\<close> random bytes; the spare capacity of \<open>rec\<close> is \<open>spare\<close>.\<close>

definition encrypt ::
  "evp \<Rightarrow> (nat \<Rightarrow> bytes option) \<Rightarrow> bytes \<Rightarrow> bytes \<Rightarrow> bytes \<Rightarrow> halfConn \<Rightarrow> bytes res \<times> halfConn" where
  "encrypt L rand rec spare payload hc =
     (case hc_cipher hc of
        None \<Rightarrow> (Ok (rec @ payload), hc)
      | Some cip \<Rightarrow>
          (case explicitNonceLen hc of
             Panic p \<Rightarrow> (Panic p, hc)
           | Fail e \<Rightarrow> (Fail e, hc)
           | Ok nonceLen \<Rightarrow>
               let start = (if 0 < nonceLen
                            then let tail = snd (sliceForAppend rec spare nonceLen) in
                                 if nonceLen < 16 then Ok (go_copy tail (hc_seq hc))
                                 else of_option ErrShortRand (rand nonceLen)
                            else Ok [])
               in (case start of
                     Panic p \<Rightarrow> (Panic p, hc)
                   | Fail e \<Rightarrow> (Fail e, hc)
                   | Ok explicitNonce \<Rightarrow>
                       (case cip of
                          AEADObj c \<Rightarrow>
                            let nonce = (if explicitNonce = [] then hc_seq hc else explicitNonce) in
                            (case Seal L c (rec @ explicitNonce) nonce payload (hc_seq hc @ len16 (length payload)) of
                               Ok (out, c') \<Rightarrow> incSeqAndReturn out (hc\<lparr>hc_cipher := Some (AEADObj c')\<rparr>)
                             | Fail e \<Rightarrow> (Fail e, hc)
                             | Panic p \<Rightarrow> (Panic p, hc))
                        | _ \<Rightarrow> (Panic ''unknown cipher type'', hc)))))"

definition prepareCipherSpec :: "u16 \<Rightarrow> cipherObj option \<Rightarrow> bytes option \<Rightarrow> halfConn \<Rightarrow> halfConn" where
  "prepareCipherSpec version cip mac hc =
     hc\<lparr>hc_version := version, hc_nextCipher := cip, hc_nextMac := mac, hc_ready := True\<rparr>"

text \<open>The part of \<open>changeCipherSpec\<close> after the wait.\<close>

definition switchCipher :: "halfConn \<Rightarrow> unit res \<times> halfConn" where
  "switchCipher hc =
     (case hc_nextCipher hc of
        None \<Rightarrow> (Fail AlertInternalError, hc)
      | Some c \<Rightarrow> (Ok (), hc\<lparr>hc_cipher := Some c, hc_mac := hc_nextMac hc, hc_nextCipher := None,
                            hc_nextMac := None, hc_seq := replicate 8 0\<rparr>))"

text \<open>
  The wait: \<open>None\<close> as long as neither the session is closed (\<open>done\<close>) nor a token is there;
  when both are, \<open>pick\<close> is the choice \<open>select\<close> makes.
\<close>

definition awaitToken :: "bool \<Rightarrow> bool \<Rightarrow> halfConn \<Rightarrow> (unit res \<times> halfConn) option" where
  "awaitToken done pick hc =
     (if done \<and> (pick \<or> \<not> hc_ready hc) then Some (Fail ErrSessionClosed, hc)
      else if hc_ready hc then Some (switchCipher (hc\<lparr>hc_ready := False\<rparr>))
      else None)"

definition changeCipherSpec :: "bool \<Rightarrow> bool \<Rightarrow> halfConn \<Rightarrow> (unit res \<times> halfConn) option" where
  "changeCipherSpec done pick hc =
     (if hc_nextCipher hc = None then awaitToken done pick hc else Some (switchCipher hc))"

section \<open>Sequence numbers\<close>

fun le_nat :: "bytes \<Rightarrow> nat" where
  "le_nat [] = 0"
| "le_nat (b # bs) = unat b + 256 * le_nat bs"

definition be_nat :: "bytes \<Rightarrow> nat" where "be_nat s = le_nat (rev s)"

lemma unat_byte_add1: "unat (b + 1 :: byte) = (unat b + 1) mod 256"
  by (simp add: unat_word_ariths)

lemma unat_byte_plus1:
  assumes "b + 1 \<noteq> (0 :: byte)"
  shows "unat (b + 1) = unat b + 1"
proof -
  have "unat (b + 1) \<noteq> 0" using assms by (simp add: unat_eq_zero)
  moreover have "unat b + 1 < 256 \<or> unat b = 255" using unat_byte_less [of b] by linarith
  ultimately show ?thesis unfolding unat_byte_add1 by auto
qed

lemma byte_plus1_zero:
  assumes "b + 1 = (0 :: byte)"
  shows "unat b = 255"
proof -
  have z: "(unat b + 1) mod 256 = 0" using unat_byte_add1 [of b] assms by (metis unsigned_0)
  have "\<not> unat b + 1 < 256"
  proof
    assume "unat b + 1 < 256"
    then have "(unat b + 1) mod 256 = unat b + 1" by (rule mod_less)
    then show False using z by linarith
  qed
  then show ?thesis using unat_byte_less [of b] by linarith
qed

lemma incBytes_spec:
  assumes "incBytes bs = (bs', w)"
  shows "length bs' = length bs \<and>
    (if w then le_nat bs + 1 = 256 ^ length bs \<and> le_nat bs' = 0 else le_nat bs' = le_nat bs + 1)"
  using assms
proof (induction bs arbitrary: bs' w)
  case (Cons b bs)
  show ?case
  proof (cases "b + 1 \<noteq> 0")
    case True
    then show ?thesis using Cons.prems unat_byte_plus1 [OF True] by auto
  next
    case False
    then obtain r where r: "incBytes bs = (r, w)" "bs' = (b + 1) # r"
      using Cons.prems by (auto split: prod.splits)
    have z: "b + 1 = 0" using False by simp
    show ?thesis using Cons.IH [OF r(1)] r(2) byte_plus1_zero [OF z] z by (auto split: if_splits)
  qed
qed simp

lemma le_nat_less: "le_nat bs < 256 ^ length bs"
proof (induction bs)
  case (Cons b bs)
  have step: "u + 256 * x < 256 * y" if "x < y" "u < 256" for u x y :: nat using that by linarith
  show ?case using step [OF Cons.IH unat_byte_less [of b]] by simp
qed simp

lemma incSeq_spec:
  assumes "length (hc_seq hc) = 8"
  shows "length (hc_seq (snd (incSeq hc))) = 8 \<and>
    (if be_nat (hc_seq hc) = 2 ^ 64 - 1
     then fst (incSeq hc) = Panic ''sequence number wraparound'' \<and> be_nat (hc_seq (snd (incSeq hc))) = 0
     else fst (incSeq hc) = Ok () \<and> be_nat (hc_seq (snd (incSeq hc))) = be_nat (hc_seq hc) + 1)"
proof -
  obtain s w where s: "incBytes (rev (hc_seq hc)) = (s, w)" by fastforce
  have e: "incSeq hc = (if w then Panic ''sequence number wraparound'' else Ok (), hc\<lparr>hc_seq := rev s\<rparr>)"
    by (simp add: incSeq_def s)
  have p: "(256 :: nat) ^ 8 = 2 ^ 64" by simp
  show ?thesis
    using incBytes_spec [OF s] le_nat_less [of s] assms p
    by (cases w) (auto simp: e be_nat_def)
qed

lemma incSeq_other [simp]:
  "hc_cipher (snd (incSeq hc)) = hc_cipher hc" "hc_nextCipher (snd (incSeq hc)) = hc_nextCipher hc"
  "hc_ready (snd (incSeq hc)) = hc_ready hc"
  by (simp_all add: incSeq_def split_def Let_def)

text \<open>The eight bytes of a number.\<close>

fun le_bytes :: "nat \<Rightarrow> nat \<Rightarrow> bytes" where
  "le_bytes 0 n = []"
| "le_bytes (Suc k) n = of_nat n # le_bytes k (n div 256)"

definition seq_bytes :: "nat \<Rightarrow> bytes" where "seq_bytes n = rev (le_bytes 8 n)"

lemma length_le_bytes [simp]: "length (le_bytes k n) = k"
  by (induction k arbitrary: n) simp_all

lemma length_seq_bytes [simp]: "length (seq_bytes n) = 8"
  by (simp add: seq_bytes_def)

lemma le_bytes_le_nat: "le_bytes (length bs) (le_nat bs) = bs"
proof (induction bs)
  case (Cons b bs)
  have "(of_nat (unat b + 256 * le_nat bs) :: byte) = b"
  proof (rule word_unat_eq_iff [THEN iffD2])
    show "unat (of_nat (unat b + 256 * le_nat bs) :: byte) = unat b"
      using unat_byte_less [of b] by (simp only: unat_of_nat_byte mod_mult_self2 mod_less)
  qed
  moreover have "(unat b + 256 * le_nat bs) div 256 = le_nat bs"
    using unat_byte_less [of b] by (simp only: div_mult_self2 div_less)
  ultimately show ?case using Cons by simp
qed simp

lemma seq_bytes_be_nat: "length s = 8 \<Longrightarrow> seq_bytes (be_nat s) = s"
  using le_bytes_le_nat [of "rev s"] by (simp add: seq_bytes_def be_nat_def)

lemma le_nat_le_bytes: "n < 256 ^ k \<Longrightarrow> le_nat (le_bytes k n) = n"
proof (induction k arbitrary: n)
  case (Suc k)
  have "n div 256 < 256 ^ k" using Suc.prems by (simp add: less_mult_imp_div_less mult.commute)
  then show ?case using Suc.IH by (simp add: unat_of_nat_byte)
qed simp

lemma be_nat_seq_bytes: "n < 2 ^ 64 \<Longrightarrow> be_nat (seq_bytes n) = n"
proof -
  assume "n < 2 ^ 64"
  then have "n < 256 ^ 8" by simp
  then show ?thesis by (simp add: be_nat_def seq_bytes_def le_nat_le_bytes)
qed

lemma le_bytes_0: "le_bytes k 0 = replicate k 0"
  by (induction k) simp_all

lemma seq_bytes_0: "seq_bytes 0 = replicate 8 0"
  by (simp only: seq_bytes_def le_bytes_0 rev_replicate)

lemma incSeq_seq_bytes:
  assumes "hc_seq hc = seq_bytes n" "n < 2 ^ 64 - 1"
  shows "incSeq hc = (Ok (), hc\<lparr>hc_seq := seq_bytes (Suc n)\<rparr>)"
proof -
  have b: "be_nat (hc_seq hc) = n" using assms be_nat_seq_bytes [of n] by simp
  have l: "length (hc_seq hc) = 8" using assms by simp
  have "be_nat (hc_seq hc) \<noteq> 2 ^ 64 - 1" using b assms(2) by simp
  then have s: "length (hc_seq (snd (incSeq hc))) = 8" "fst (incSeq hc) = Ok ()" "be_nat (hc_seq (snd (incSeq hc))) = Suc n"
    using incSeq_spec [OF l] b by auto
  have "snd (incSeq hc) = hc\<lparr>hc_seq := hc_seq (snd (incSeq hc))\<rparr>" by (simp add: incSeq_def split_def Let_def)
  then show ?thesis using s seq_bytes_be_nat [OF s(1)] by (metis prod.collapse)
qed

section \<open>Records\<close>

text \<open>The half connection works with an SM4-GCM object of this key and is at record number \<open>n\<close>.\<close>

definition at_record :: "bytes \<Rightarrow> bytes \<Rightarrow> nat \<Rightarrow> halfConn \<Rightarrow> bool" where
  "at_record k iv n hc \<longleftrightarrow>
     (\<exists>c. hc_cipher hc = Some (AEADObj c) \<and> aead_of c k iv) \<and> hc_seq hc = seq_bytes n"

definition record_aad :: "nat \<Rightarrow> nat \<Rightarrow> bytes" where
  "record_aad n l = seq_bytes n @ len16 l"

lemma record_aad_ne [simp]: "record_aad n l \<noteq> []"
  by (simp add: record_aad_def len16_def)

lemma encrypt_record:
  assumes "gcm_lib L" "length k = 16" "iv \<noteq> []" "at_record k iv n hc" "n < 2 ^ 64 - 1"
  shows "\<exists>hc'. encrypt L rand [] [] p hc =
      (Ok (seq_bytes n @ replicate 4 0 @ gcm_box L k iv (record_aad n (length p)) p), hc') \<and>
    at_record k iv (Suc n) hc'"
proof -
  obtain c where c: "hc_cipher hc = Some (AEADObj c)" "aead_of c k iv" "hc_seq hc = seq_bytes n"
    using assms(4) by (auto simp: at_record_def)
  have nonce: "go_copy (snd (sliceForAppend [] [] 12)) (seq_bytes n) = seq_bytes n @ replicate 4 0"
    by (simp add: sliceForAppend_def go_copy_def Let_def)
  obtain c' where s: "Seal L c (seq_bytes n @ replicate 4 0) (seq_bytes n @ replicate 4 0) p (record_aad n (length p)) =
      Ok ((seq_bytes n @ replicate 4 0) @ gcm_box L k iv (record_aad n (length p)) p, c')" "aead_of c' k iv"
    using Seal_box [OF assms(1) c(2) assms(2,3) record_aad_ne] by blast
  let ?hc = "hc\<lparr>hc_cipher := Some (AEADObj c')\<rparr>"
  have i: "incSeq ?hc = (Ok (), ?hc\<lparr>hc_seq := seq_bytes (Suc n)\<rparr>)"
    using c(3) assms(5) by (intro incSeq_seq_bytes) auto
  have ne: "seq_bytes n @ replicate 4 0 \<noteq> []" by simp
  show ?thesis
    using c s i ne nonce
    by (simp add: encrypt_def explicitNonceLen_def ExplicitNonceLen_def NonceSize_def Let_def
        incSeqAndReturn_def at_record_def record_aad_def)
qed

lemma decrypt_record:
  assumes "gcm_lib L" "length k = 16" "iv \<noteq> []" "at_record k iv n hc" "n < 2 ^ 64 - 1" "28 \<le> length x"
  shows "\<exists>hc'. decrypt L x hc =
    (case gcm_unbox L k iv (record_aad n (length x - 28)) (drop 12 x) of
       None \<Rightarrow> (Fail AlertBadRecordMAC, hc') | Some p \<Rightarrow> (Ok p, hc')) \<and>
    at_record k iv (if gcm_unbox L k iv (record_aad n (length x - 28)) (drop 12 x) = None then n else Suc n) hc'"
proof -
  obtain c where c: "hc_cipher hc = Some (AEADObj c)" "aead_of c k iv" "hc_seq hc = seq_bytes n"
    using assms(4) by (auto simp: at_record_def)
  let ?u = "gcm_unbox L k iv (record_aad n (length x - 28)) (drop 12 x)"
  have l: "16 \<le> length (drop 12 x)" using assms(6) by simp
  obtain c' where o: "Open L c (take 12 x) (drop 12 x) (record_aad n (length x - 28)) = (of_option LibError ?u, c')"
      "aead_of c' k iv"
    using Open_unbox [OF assms(1) c(2) assms(2,3) record_aad_ne l] by blast
  let ?hc = "hc\<lparr>hc_cipher := Some (AEADObj c')\<rparr>"
  have i: "incSeq ?hc = (Ok (), ?hc\<lparr>hc_seq := seq_bytes (Suc n)\<rparr>)"
    using c(3) assms(5) by (intro incSeq_seq_bytes) auto
  have t: "take 12 x \<noteq> []" "\<not> length x < 12" "\<not> length (drop 12 x) < 16" "length (drop 12 x) - 16 = length x - 28"
    using assms(6) by (auto simp: take_eq_Nil)
  show ?thesis
    using c o i t
    by (cases ?u)
      (simp_all add: decrypt_def explicitNonceLen_def ExplicitNonceLen_def NonceSize_def Overhead_def Let_def
        incSeqAndReturn_def at_record_def record_aad_def)
qed

lemma decrypt_short:
  assumes "at_record k iv n hc" "length x < 28"
  shows "decrypt L x hc = (Fail AlertBadRecordMAC, hc)"
  using assms
  by (auto simp: at_record_def decrypt_def explicitNonceLen_def ExplicitNonceLen_def NonceSize_def
      Overhead_def Let_def)

text \<open>A run of records, until one fails.\<close>

fun encryptAll :: "evp \<Rightarrow> (nat \<Rightarrow> bytes option) \<Rightarrow> bytes list \<Rightarrow> halfConn \<Rightarrow> bytes list res \<times> halfConn" where
  "encryptAll L rand [] hc = (Ok [], hc)"
| "encryptAll L rand (p # ps) hc =
     (case encrypt L rand [] [] p hc of
        (Ok r, hc') \<Rightarrow> (case encryptAll L rand ps hc' of (rs, hc'') \<Rightarrow> (bind_res rs (\<lambda>rs. Ok (r # rs)), hc''))
      | (Fail e, hc') \<Rightarrow> (Fail e, hc')
      | (Panic s, hc') \<Rightarrow> (Panic s, hc'))"

fun decryptAll :: "evp \<Rightarrow> bytes list \<Rightarrow> halfConn \<Rightarrow> bytes list res \<times> halfConn" where
  "decryptAll L [] hc = (Ok [], hc)"
| "decryptAll L (x # xs) hc =
     (case decrypt L x hc of
        (Ok p, hc') \<Rightarrow> (case decryptAll L xs hc' of (ps, hc'') \<Rightarrow> (bind_res ps (\<lambda>ps. Ok (p # ps)), hc''))
      | (Fail e, hc') \<Rightarrow> (Fail e, hc')
      | (Panic s, hc') \<Rightarrow> (Panic s, hc'))"

text \<open>The explicit nonces of a run.\<close>

definition record_nonces :: "nat \<Rightarrow> nat \<Rightarrow> bytes list" where
  "record_nonces n m = map (\<lambda>i. seq_bytes i @ replicate 4 0) [n..<n + m]"

lemma encryptAll_records:
  assumes "gcm_lib L" "length k = 16" "iv \<noteq> []" "at_record k iv n hc" "n + length ps < 2 ^ 64"
  shows "\<exists>hc'. encryptAll L rand ps hc =
      (Ok (map2 (@) (record_nonces n (length ps)) (gcm.send_all (L, k, iv) record_aad n ps)), hc') \<and>
    at_record k iv (n + length ps) hc'"
  using assms(4,5)
proof (induction ps arbitrary: n hc)
  case (Cons p ps)
  obtain hc1 where e: "encrypt L rand [] [] p hc =
      (Ok (seq_bytes n @ replicate 4 0 @ gcm_box L k iv (record_aad n (length p)) p), hc1)" "at_record k iv (Suc n) hc1"
    using encrypt_record [OF assms(1-3) Cons.prems(1)] Cons.prems(2) by force
  then show ?case
    using Cons.IH [OF e(2)] Cons.prems(2)
    by (auto simp: record_nonces_def upt_conv_Cons simp del: upt_Suc)
qed (simp add: record_nonces_def)

lemma decryptAll_records:
  assumes "gcm_lib L" "length k = 16" "iv \<noteq> []" "at_record k iv n hc" "n + length xs < 2 ^ 64"
    "\<forall>x\<in>set xs. 28 \<le> length x" "gcm.recv_all (L, k, iv) record_aad n (map (drop 12) xs) = Some ps"
  shows "\<exists>hc'. decryptAll L xs hc = (Ok ps, hc') \<and> at_record k iv (n + length xs) hc'"
  using assms(4-7)
proof (induction xs arbitrary: n hc ps)
  case Nil
  then show ?case by auto
next
  case (Cons x xs)
  obtain p qs where p: "gcm_unbox L k iv (record_aad n (length x - 28)) (drop 12 x) = Some p"
      "gcm.recv_all (L, k, iv) record_aad (Suc n) (map (drop 12) xs) = Some qs" "ps = p # qs"
    using Cons.prems(4) by (auto split: option.splits)
  have x: "n < 2 ^ 64 - 1" "28 \<le> length x" "Suc n + length xs < 2 ^ 64" "\<forall>x\<in>set xs. 28 \<le> length x"
    using Cons.prems(2,3) by auto
  obtain hc1 where d: "decrypt L x hc = (Ok p, hc1)" "at_record k iv (Suc n) hc1"
    using decrypt_record [OF assms(1-3) Cons.prems(1) x(1,2)] p(1) by auto
  obtain hc2 where "decryptAll L xs hc1 = (Ok qs, hc2)" "at_record k iv (Suc n + length xs) hc2"
    using Cons.IH [OF d(2) x(3,4) p(2)] by blast
  then show ?case using p(3) d(1) by simp
qed

lemma decryptAll_recv:
  assumes "gcm_lib L" "length k = 16" "iv \<noteq> []" "at_record k iv n hc" "n + length xs < 2 ^ 64"
    "decryptAll L xs hc = (Ok ps, hc')"
  shows "gcm.recv_all (L, k, iv) record_aad n (map (drop 12) xs) = Some ps"
  using assms(4-6)
proof (induction xs arbitrary: n hc ps)
  case (Cons x xs)
  have x: "n < 2 ^ 64 - 1" "Suc n + length xs < 2 ^ 64" using Cons.prems(2) by auto
  have len: "28 \<le> length x" using Cons.prems(3) decrypt_short [OF Cons.prems(1), of x L] by (cases "28 \<le> length x") auto
  obtain p where p: "gcm_unbox L k iv (record_aad n (length x - 28)) (drop 12 x) = Some p"
    using decrypt_record [OF assms(1-3) Cons.prems(1) x(1) len] Cons.prems(3)
    by (cases "gcm_unbox L k iv (record_aad n (length x - 28)) (drop 12 x)") auto
  obtain hc1 where d: "decrypt L x hc = (Ok p, hc1)" "at_record k iv (Suc n) hc1"
    using decrypt_record [OF assms(1-3) Cons.prems(1) x(1) len] p by auto
  obtain r hc2 where r: "decryptAll L xs hc1 = (r, hc2)" by fastforce
  obtain qs where q: "decryptAll L xs hc1 = (Ok qs, hc')" "ps = p # qs"
    using Cons.prems(3) d(1) r by (cases r) auto
  have "gcm.recv_all (L, k, iv) record_aad (Suc n) (map (drop 12) xs) = Some qs" using Cons.IH [OF d(2) x(2) q(1)] .
  then show ?case using p q(2) by simp
qed simp

lemma length_send_all [simp]: "length (gcm.send_all key aad n ps) = length ps"
  by (induction ps arbitrary: n) simp_all

lemma length_record_nonces [simp]: "length (record_nonces n m) = m" "x \<in> set (record_nonces n m) \<Longrightarrow> length x = 12"
  by (auto simp: record_nonces_def)

lemma drop_nonces:
  "length ns = length bs \<Longrightarrow> \<forall>x\<in>set ns. length x = 12 \<Longrightarrow> map (drop 12) (map2 (@) ns bs) = bs"
  by (induction ns bs rule: list_induct2) simp_all

lemma send_all_length:
  assumes "gcm_valid key"
  shows "\<forall>b\<in>set (gcm.send_all key aad n ps). 16 \<le> length b"
  using gcm.length_box [OF assms] by (induction ps arbitrary: n) auto

section \<open>Properties\<close>


definition exHalf :: halfConn where
  "exHalf = newHalfConn\<lparr>hc_cipher := Some (AEADObj exAead)\<rparr>"

lemma exHalf_at: "at_record exKey [1, 2, 3, 4] 0 exHalf"
  using exAead_of by (simp add: at_record_def exHalf_def newHalfConn_def seq_bytes_0)

lemma exKey_length [simp]: "length exKey = 16"
  by (simp add: exKey_def)




text \<open>The sequence number is a 64-bit counter: a step adds one to it, and the step from the
  largest value panics instead of starting again at 0.\<close>

theorem sequence_number_step:
  assumes "length (hc_seq hc) = 8" "incSeq hc = (r, hc')"
  shows "if be_nat (hc_seq hc) = 2 ^ 64 - 1 then r = Panic ''sequence number wraparound''
    else r = Ok () \<and> be_nat (hc_seq hc') = be_nat (hc_seq hc) + 1 \<and> length (hc_seq hc') = 8"
  using incSeq_spec [OF assms(1)] assms(2) by (auto split: if_splits)

lemma sequence_number_step_witness:
  "\<exists>hc'. incSeq (newHalfConn\<lparr>hc_seq := [0, 0, 0, 0, 0, 0, 0, 255]\<rparr>) = (Ok (), hc') \<and> be_nat (hc_seq hc') = 256"
proof -
  let ?h = "newHalfConn\<lparr>hc_seq := [0, 0, 0, 0, 0, 0, 0, 255]\<rparr>"
  obtain r hc' where i: "incSeq ?h = (r, hc')" by fastforce
  have "be_nat (hc_seq ?h) = 255" by (simp add: be_nat_def)
  then show ?thesis using sequence_number_step [of ?h, OF _ i] i by simp
qed

text \<open>What GCM documents on top of \<open>gcm_lib\<close>: the ciphertext is the text under a keystream made
  of key and IV.\<close>

definition gcm_keystream :: "evp \<Rightarrow> (bytes \<Rightarrow> bytes \<Rightarrow> nat \<Rightarrow> bytes) \<Rightarrow> bool" where
  "gcm_keystream L ks \<longleftrightarrow>
     (\<forall>k iv n. length (ks k iv n) = n) \<and>
     (\<forall>k iv a p c t. evp_encrypt L gcm_name k iv a p = Some (c, t) \<longrightarrow> c = map2 (XOR) p (ks k iv (length p)))"

lemma map2_XOR_cancel:
  "length p = length q \<Longrightarrow> length q = length s \<Longrightarrow>
   map2 (XOR) (map2 (XOR) p s) (map2 (XOR) q s) = map2 (XOR) (p :: bytes) q"
proof (induction p q s rule: list_induct3)
  case (Cons a p b q c s)
  have "(a XOR c) XOR (b XOR c) = a XOR b" by (simp add: bit_eq_iff bit_xor_iff) blast
  then show ?case using Cons by simp
qed simp



text \<open>A change of cipher waits until the keys are there.  Once they are prepared it switches
  without waiting, to the prepared cipher and sequence number 0; but it leaves the token of the
  preparation behind, so a second change that finds no keys does not wait for them: it fails, and
  only the third one waits again.\<close>

theorem change_cipher_spec_cases:
  "changeCipherSpec False pick newHalfConn = None \<and>
   (\<exists>hc2. changeCipherSpec closed pick (prepareCipherSpec v (Some c) mac hc) = Some (Ok (), hc2) \<and>
     hc_cipher hc2 = Some c \<and> hc_seq hc2 = seq_bytes 0 \<and>
     changeCipherSpec False pick hc2 = Some (Fail AlertInternalError, hc2\<lparr>hc_ready := False\<rparr>) \<and>
     changeCipherSpec False pick (hc2\<lparr>hc_ready := False\<rparr>) = None)"
  by (simp add: changeCipherSpec_def awaitToken_def switchCipher_def prepareCipherSpec_def newHalfConn_def seq_bytes_0)

end
