(* ===== verification/KeyAgreement.thy ===== *)
theory KeyAgreement
  imports HandshakeMessage
begin

unbundle bit_operations_syntax

text \<open>
  \<open>e2ewebsocket/auth.go\<close>, \<open>key_agreement.go\<close>, \<open>key_agreement_sm2mlkem.go\<close> and the two
  factories: signature schemes and verification, and the SM2 and SM2 + ML-KEM key agreements that
  build and check key exchange messages.  The SM2 library (key agreement and signatures behind
  \<open>crypto/sm2keyexch\<close> and \<open>crypto/sm2tongsuo\<close>), ML-KEM and the key files are the parameter
  \<open>kaLib\<close>.
\<close>

section \<open>Signature schemes\<close>

datatype sigType = SigPKCS1v15 | SigRSAPSS | SigECDSA | SigEd25519 | SigSM2

datatype sigHash = HashSHA1 | HashSHA256 | HashSHA384 | HashSHA512 | HashDirect | HashSM3

definition schemeType :: "u16 \<Rightarrow> sigType option" where
  "schemeType s =
     (if s \<in> {0x0201, 0x0401, 0x0501, 0x0601} then Some SigPKCS1v15
      else if s \<in> {0x0804, 0x0805, 0x0806} then Some SigRSAPSS
      else if s \<in> {0x0203, 0x0403, 0x0503, 0x0603} then Some SigECDSA
      else if s = 0x0807 then Some SigEd25519
      else if s = SM2WithSM3 then Some SigSM2
      else None)"

definition schemeHash :: "u16 \<Rightarrow> sigHash option" where
  "schemeHash s =
     (if s \<in> {0x0201, 0x0203} then Some HashSHA1
      else if s \<in> {0x0401, 0x0804, 0x0403} then Some HashSHA256
      else if s \<in> {0x0501, 0x0805, 0x0503} then Some HashSHA384
      else if s \<in> {0x0601, 0x0806, 0x0603} then Some HashSHA512
      else if s = 0x0807 then Some HashDirect
      else if s = SM2WithSM3 then Some HashSM3
      else None)"

definition typeAndHashFromSignatureScheme :: "u16 \<Rightarrow> (sigType \<times> sigHash) res" where
  "typeAndHashFromSignatureScheme s =
     (case schemeType s of None \<Rightarrow> Fail ErrUnsupportedSigAlg
      | Some t \<Rightarrow> (case schemeHash s of None \<Rightarrow> Fail ErrUnsupportedSigAlg | Some h \<Rightarrow> Ok (t, h)))"

lemma SM2WithSM3_scheme [simp]:
  "typeAndHashFromSignatureScheme SM2WithSM3 = Ok (SigSM2, HashSM3)"
  by (simp add: typeAndHashFromSignatureScheme_def schemeType_def schemeHash_def SM2WithSM3_def)

section \<open>The libraries\<close>

text \<open>
  Keys and contexts are opaque byte strings.  A key file is named by the parts of its path;
  operations that draw randomness take it as an argument.
\<close>

record kaLib =
  kl_privateKeyFile :: "string list \<Rightarrow> bytes option"
  kl_publicKeyFile :: "string list \<Rightarrow> bytes option"
  kl_isSM2 :: "bytes \<Rightarrow> bool"
  kl_toECKey :: "bytes \<Rightarrow> bytes option"
  kl_kapInit :: "bytes \<Rightarrow> string \<Rightarrow> bytes \<Rightarrow> string \<Rightarrow> bool \<Rightarrow> bytes option"
  kl_kapPrepare :: "bytes \<Rightarrow> bytes \<Rightarrow> (bytes \<times> bytes) option"
  kl_kapCompute :: "bytes \<Rightarrow> bytes \<Rightarrow> nat \<Rightarrow> bytes option"
  kl_sign :: "bytes \<Rightarrow> bytes \<Rightarrow> bytes \<Rightarrow> bytes option"
  kl_verify :: "bytes \<Rightarrow> bytes \<Rightarrow> bytes \<Rightarrow> bool"
  kl_digest :: "sigHash \<Rightarrow> bytes \<Rightarrow> bytes"
  kl_kemPrivateFile :: "string list \<Rightarrow> bytes option"
  kl_kemPublicFile :: "string list \<Rightarrow> bytes option"
  kl_encapsulate :: "bytes \<Rightarrow> bytes \<Rightarrow> bytes \<times> bytes"
  kl_decapsulate :: "bytes \<Rightarrow> bytes \<Rightarrow> bytes option"

definition SM2_Verify :: "kaLib \<Rightarrow> bytes \<Rightarrow> bytes \<Rightarrow> bytes \<Rightarrow> unit res" where
  "SM2_Verify L pub data sig =
     (if \<not> kl_isSM2 L pub then Fail ErrWrongKeyType
      else if sig = [] then Panic ''index out of range [0] with length 0''
      else if kl_verify L pub data sig then Ok () else Fail LibError)"

definition SM2_Sign :: "kaLib \<Rightarrow> bytes \<Rightarrow> bytes \<Rightarrow> bytes \<Rightarrow> bytes res" where
  "SM2_Sign L priv rnd data =
     (if \<not> kl_isSM2 L priv then Fail ErrWrongKeyType else of_option LibError (kl_sign L priv rnd data))"

text \<open>The public key is an SM2 library key, which is none of the other types.\<close>

fun verifyHandshakeSignature :: "kaLib \<Rightarrow> sigType \<Rightarrow> bytes \<Rightarrow> bytes \<Rightarrow> bytes \<Rightarrow> unit res" where
  "verifyHandshakeSignature L SigSM2 pub msg sig = SM2_Verify L pub msg sig"
| "verifyHandshakeSignature L _ pub msg sig = Fail ErrWrongKeyType"

definition hashForKeyExchange :: "kaLib \<Rightarrow> sigType \<Rightarrow> sigHash \<Rightarrow> bytes list \<Rightarrow> bytes" where
  "hashForKeyExchange L t h slices =
     (if t = SigEd25519 then concat slices
      else if t = SigECDSA then kl_digest L HashSHA1 (concat slices)
      else if h = HashSM3 then concat slices
      else kl_digest L h (concat slices))"

text \<open>The signed text: the randoms with the initiator's (larger identifier) first.\<close>

definition signedText :: "kaLib \<Rightarrow> sigType \<Rightarrow> sigHash \<Rightarrow> string \<Rightarrow> string \<Rightarrow> bytes \<Rightarrow> bytes \<Rightarrow> bytes \<Rightarrow> bytes" where
  "signedText L t h localId remoteId localRandom remoteRandom params =
     (if remoteId < localId then hashForKeyExchange L t h [localRandom, remoteRandom, params]
      else hashForKeyExchange L t h [remoteRandom, localRandom, params])"

text \<open>\<open>KAPCtx.ComputeKey\<close> takes the address of the first byte of the point.\<close>

definition KAP_ComputeKey :: "kaLib \<Rightarrow> bytes \<Rightarrow> bytes \<Rightarrow> nat \<Rightarrow> bytes res" where
  "KAP_ComputeKey L ctx point keyLen =
     (if point = [] then Panic ''index out of range [0] with length 0''
      else of_option LibError (kl_kapCompute L ctx point keyLen))"

text \<open>\<open>sm2PrivateKey.ComputeSecret\<close>: the curve of the peer key is the private key's own.\<close>

definition ComputeSecret :: "kaLib \<Rightarrow> bytes \<Rightarrow> bytes \<Rightarrow> bytes res" where
  "ComputeSecret L ctx rb = KAP_ComputeKey L ctx rb 32"

text \<open>Errors of a call that the caller replaces by its own.\<close>

fun replace_error :: "error \<Rightarrow> 'a res \<Rightarrow> 'a res" where
  "replace_error e (Fail _) = Fail e"
| "replace_error e r = r"

section \<open>The SM2 key agreement\<close>

record sm2KeyAgreement =
  ka_localPriv :: bytes
  ka_remotePub :: bytes
  ka_localId :: string
  ka_remoteId :: string
  ka_ctxLocal :: bytes
  ka_preMaster :: bytes

definition NewSM2KeyAgreement :: "kaLib \<Rightarrow> bytes \<Rightarrow> string \<Rightarrow> bytes \<Rightarrow> string \<Rightarrow> sm2KeyAgreement option" where
  "NewSM2KeyAgreement L priv localId pub remoteId =
     (case kl_toECKey L priv of None \<Rightarrow> None
      | Some localEC \<Rightarrow>
          (case kl_toECKey L pub of None \<Rightarrow> None
           | Some remoteEC \<Rightarrow>
               (case kl_kapInit L localEC localId remoteEC remoteId (remoteId < localId) of None \<Rightarrow> None
                | Some ctx \<Rightarrow> Some \<lparr>ka_localPriv = priv, ka_remotePub = pub, ka_localId = localId,
                                   ka_remoteId = remoteId, ka_ctxLocal = ctx, ka_preMaster = []\<rparr>)))"

definition curveParams :: "bytes \<Rightarrow> bytes" where
  "curveParams ra = [3, ucast (drop_bit 8 SM2CurveP256V1), ucast (SM2CurveP256V1 AND 0xff), of_nat (length ra)] @ ra"

definition signatureBlock :: "u16 \<Rightarrow> bytes \<Rightarrow> bytes" where
  "signatureBlock scheme sig = be16 scheme @ len16 (length sig) @ sig"

definition sm2_generateLocalKeyExchange ::
  "kaLib \<Rightarrow> bytes \<times> bytes \<Rightarrow> u16 \<Rightarrow> bytes \<Rightarrow> bytes \<Rightarrow> sm2KeyAgreement \<Rightarrow> (bytes \<times> sm2KeyAgreement) res" where
  "sm2_generateLocalKeyExchange L rnd scheme localRandom remoteRandom ka =
     bind_res (of_option LibError (kl_kapPrepare L (ka_ctxLocal ka) (fst rnd))) (\<lambda>(ra, ctx).
     let params = curveParams ra in
     bind_res (typeAndHashFromSignatureScheme scheme) (\<lambda>(t, h).
     bind_res (SM2_Sign L (ka_localPriv ka) (snd rnd)
                (signedText L t h (ka_localId ka) (ka_remoteId ka) localRandom remoteRandom params)) (\<lambda>sig.
     Ok (params @ signatureBlock scheme sig, ka\<lparr>ka_ctxLocal := ctx\<rparr>))))"

text \<open>The result and the agreement, which keeps the secret it computed even when a later check fails.\<close>

definition sm2_checkSignature ::
  "kaLib \<Rightarrow> u16 \<Rightarrow> bytes \<Rightarrow> bytes \<Rightarrow> bytes \<Rightarrow> bytes \<Rightarrow> sm2KeyAgreement \<Rightarrow> bytes res" where
  "sm2_checkSignature L scheme localRandom remoteRandom params sig ka =
     (let alg = join16 (sig ! 0) (sig ! 1); sig1 = drop 2 sig in
      if length sig1 < 2 then Fail ErrKeyExchange
      else if alg \<noteq> scheme then Fail ErrInvalidSigAlg
      else bind_res (typeAndHashFromSignatureScheme scheme) (\<lambda>(t, h).
        if t \<noteq> SigSM2 then Fail ErrKeyExchange
        else if nat16 (sig1 ! 0) (sig1 ! 1) + 2 \<noteq> length sig1 then Fail ErrKeyExchange
        else bind_res (replace_error ErrSignature
               (verifyHandshakeSignature L t (ka_remotePub ka)
                 (signedText L t h (ka_localId ka) (ka_remoteId ka) localRandom remoteRandom params) (drop 2 sig1)))
             (\<lambda>_. Ok (ka_preMaster ka))))"

definition sm2_processRemoteKeyExchange ::
  "kaLib \<Rightarrow> u16 \<Rightarrow> bytes \<Rightarrow> bytes \<Rightarrow> bytes \<Rightarrow> sm2KeyAgreement \<Rightarrow> bytes res \<times> sm2KeyAgreement" where
  "sm2_processRemoteKeyExchange L scheme localRandom remoteRandom kxm ka =
     (if length kxm < 4 then (Fail ErrKeyExchange, ka)
      else if kxm ! 0 \<noteq> 3 then (Fail ErrUnsupportedCurve, ka)
      else if join16 (kxm ! 1) (kxm ! 2) \<noteq> SM2CurveP256V1 then (Fail ErrUnsupportedCurve, ka)
      else let publicLen = unat (kxm ! 3) in
        if length kxm < publicLen + 4 then (Fail ErrKeyExchange, ka)
        else let params = take (4 + publicLen) kxm; sig = drop (4 + publicLen) kxm in
          if length sig < 2 then (Fail ErrKeyExchange, ka)
          else (case replace_error ErrKeyExchange (ComputeSecret L (ka_ctxLocal ka) (drop 4 params)) of
                  Fail e \<Rightarrow> (Fail e, ka\<lparr>ka_preMaster := []\<rparr>)
                | Panic p \<Rightarrow> (Panic p, ka)
                | Ok secret \<Rightarrow>
                    let ka' = ka\<lparr>ka_preMaster := secret\<rparr>
                    in (sm2_checkSignature L scheme localRandom remoteRandom params sig ka', ka')))"

section \<open>The hybrid SM2 + ML-KEM key agreement\<close>

definition kemGroupID :: u16 where "kemGroupID = 0x11EE"
definition kemCiphertextSize :: nat where "kemCiphertextSize = 1088"
definition kemSharedSecretSize :: nat where "kemSharedSecretSize = 32"

record sm2MLKEMKeyAgreement =
  mk_localPriv :: bytes
  mk_remotePub :: bytes
  mk_localId :: string
  mk_remoteId :: string
  mk_ctxLocal :: bytes
  mk_localKEM :: bytes
  mk_remoteKEM :: bytes
  mk_localSecret :: bytes

definition NewSM2MLKEMKeyAgreement ::
  "kaLib \<Rightarrow> bytes \<Rightarrow> string \<Rightarrow> bytes \<Rightarrow> string \<Rightarrow> bytes \<Rightarrow> bytes \<Rightarrow> sm2MLKEMKeyAgreement option" where
  "NewSM2MLKEMKeyAgreement L priv localId pub remoteId kemPriv kemPub =
     (case kl_toECKey L priv of None \<Rightarrow> None
      | Some localEC \<Rightarrow>
          (case kl_toECKey L pub of None \<Rightarrow> None
           | Some remoteEC \<Rightarrow>
               (case kl_kapInit L localEC localId remoteEC remoteId (remoteId < localId) of None \<Rightarrow> None
                | Some ctx \<Rightarrow> Some \<lparr>mk_localPriv = priv, mk_remotePub = pub, mk_localId = localId,
                                   mk_remoteId = remoteId, mk_ctxLocal = ctx, mk_localKEM = kemPriv,
                                   mk_remoteKEM = kemPub, mk_localSecret = []\<rparr>)))"

definition kemParams :: "bytes \<Rightarrow> bytes" where
  "kemParams ct = be16 kemGroupID @ len16 (length ct) @ ct"

definition mlkem_generateLocalKeyExchange ::
  "kaLib \<Rightarrow> bytes \<times> bytes \<times> bytes \<Rightarrow> u16 \<Rightarrow> bytes \<Rightarrow> bytes \<Rightarrow> sm2MLKEMKeyAgreement \<Rightarrow>
   (bytes \<times> sm2MLKEMKeyAgreement) res" where
  "mlkem_generateLocalKeyExchange L rnd scheme localRandom remoteRandom ka =
     (let (rnd1, rnd2, rnd3) = rnd in
      bind_res (of_option LibError (kl_kapPrepare L (mk_ctxLocal ka) rnd1)) (\<lambda>(ra, ctx).
      if 255 < length ra then Fail ErrKeyExchange
      else
        let (ct, secret) = kl_encapsulate L (mk_remoteKEM ka) rnd2;
            params = curveParams ra @ kemParams ct
        in bind_res (typeAndHashFromSignatureScheme scheme) (\<lambda>(t, h).
           bind_res (SM2_Sign L (mk_localPriv ka) rnd3
                      (signedText L t h (mk_localId ka) (mk_remoteId ka) localRandom remoteRandom params)) (\<lambda>sig.
           Ok (params @ signatureBlock scheme sig, ka\<lparr>mk_ctxLocal := ctx, mk_localSecret := secret\<rparr>)))))"

text \<open>The secrets, after the signature has been verified.\<close>

definition mlkem_secret :: "kaLib \<Rightarrow> bytes \<Rightarrow> bytes \<Rightarrow> sm2MLKEMKeyAgreement \<Rightarrow> bytes res" where
  "mlkem_secret L point ct ka =
     bind_res (replace_error ErrKeyExchange (ComputeSecret L (mk_ctxLocal ka) point)) (\<lambda>sm2Secret.
     if length ct \<noteq> kemCiphertextSize then Fail LibError
     else bind_res (of_option LibError (kl_decapsulate L (mk_localKEM ka) ct)) (\<lambda>remoteSecret.
       if length (mk_localSecret ka) \<noteq> kemSharedSecretSize \<or> length remoteSecret \<noteq> kemSharedSecretSize
       then Fail ErrKeyExchange
       else Ok (sm2Secret @ (if mk_remoteId ka < mk_localId ka then mk_localSecret ka @ remoteSecret
                             else remoteSecret @ mk_localSecret ka))))"

definition mlkem_processRemoteKeyExchange ::
  "kaLib \<Rightarrow> u16 \<Rightarrow> bytes \<Rightarrow> bytes \<Rightarrow> bytes \<Rightarrow> sm2MLKEMKeyAgreement \<Rightarrow> bytes res" where
  "mlkem_processRemoteKeyExchange L scheme localRandom remoteRandom kxm ka =
     (if length kxm < 8 then Fail ErrKeyExchange
      else if kxm ! 0 \<noteq> 3 then Fail ErrUnsupportedCurve
      else if join16 (kxm ! 1) (kxm ! 2) \<noteq> SM2CurveP256V1 then Fail ErrUnsupportedCurve
      else let publicLen = unat (kxm ! 3) in
        if length kxm < publicLen + 8 then Fail ErrKeyExchange
        else let off = 4 + publicLen in
          if join16 (kxm ! off) (kxm ! (off + 1)) \<noteq> kemGroupID then Fail ErrUnsupportedKemGroup
          else let ctLen = nat16 (kxm ! (off + 2)) (kxm ! (off + 3)) in
            if ctLen \<noteq> kemCiphertextSize \<or> length kxm < off + 4 + ctLen then Fail ErrKeyExchange
            else let params = take (off + 4 + ctLen) kxm;
                     ct = take ctLen (drop (off + 4) kxm);
                     sig = drop (off + 4 + ctLen) kxm
              in if length sig < 4 then Fail ErrKeyExchange
                 else if join16 (sig ! 0) (sig ! 1) \<noteq> scheme then Fail ErrInvalidSigAlg
                 else let sig1 = drop 2 sig in
                   if nat16 (sig1 ! 0) (sig1 ! 1) + 2 \<noteq> length sig1 then Fail ErrKeyExchange
                   else bind_res (typeAndHashFromSignatureScheme scheme) (\<lambda>(t, h).
                     if t \<noteq> SigSM2 then Fail ErrKeyExchange
                     else bind_res (replace_error ErrSignature
                            (verifyHandshakeSignature L t (mk_remotePub ka)
                              (signedText L t h (mk_localId ka) (mk_remoteId ka) localRandom remoteRandom params)
                              (drop 2 sig1)))
                          (\<lambda>_. mlkem_secret L (take publicLen (drop 4 kxm)) ct ka)))"

section \<open>The interface and the factories\<close>

datatype keyAgreement = KaSM2 sm2KeyAgreement | KaHybrid sm2MLKEMKeyAgreement

fun generateLocalKeyExchange ::
  "kaLib \<Rightarrow> bytes \<times> bytes \<times> bytes \<Rightarrow> u16 \<Rightarrow> bytes \<Rightarrow> bytes \<Rightarrow> keyAgreement \<Rightarrow> (bytes \<times> keyAgreement) res" where
  "generateLocalKeyExchange L rnd scheme lr rr (KaSM2 ka) =
     bind_res (sm2_generateLocalKeyExchange L (fst rnd, snd (snd rnd)) scheme lr rr ka) (\<lambda>(k, ka'). Ok (k, KaSM2 ka'))"
| "generateLocalKeyExchange L rnd scheme lr rr (KaHybrid ka) =
     bind_res (mlkem_generateLocalKeyExchange L rnd scheme lr rr ka) (\<lambda>(k, ka'). Ok (k, KaHybrid ka'))"

fun processRemoteKeyExchange :: "kaLib \<Rightarrow> u16 \<Rightarrow> bytes \<Rightarrow> bytes \<Rightarrow> bytes \<Rightarrow> keyAgreement \<Rightarrow> bytes res" where
  "processRemoteKeyExchange L scheme lr rr kxm (KaSM2 ka) = fst (sm2_processRemoteKeyExchange L scheme lr rr kxm ka)"
| "processRemoteKeyExchange L scheme lr rr kxm (KaHybrid ka) = mlkem_processRemoteKeyExchange L scheme lr rr kxm ka"

definition newSM2KeyAgreement :: "kaLib \<Rightarrow> string \<Rightarrow> string \<Rightarrow> string \<Rightarrow> keyAgreement res" where
  "newSM2KeyAgreement L store localId remoteId =
     bind_res (of_option LibError (kl_privateKeyFile L [store, localId, ''private_key.pem''])) (\<lambda>priv.
     bind_res (of_option LibError (kl_publicKeyFile L [store, remoteId, ''public_key.pem''])) (\<lambda>pub.
     (case NewSM2KeyAgreement L priv localId pub remoteId of
        None \<Rightarrow> Fail ErrKeyAgreementInit | Some ka \<Rightarrow> Ok (KaSM2 ka))))"

text \<open>
  The hybrid factory returns the pointer as it is: when the constructor fails, the caller gets a
  non-nil interface around a nil pointer (\<open>NilHybrid\<close>), which its next call dereferences.
  (\<open>sm2mlkem.Init\<close>, called first, returns nil in any case, and a loaded key has its public half,
  so \<open>Encapsulate\<close> does not fail.)
\<close>

datatype madeAgreement = Made keyAgreement | NilHybrid

definition newSM2MLKEMKeyAgreement :: "kaLib \<Rightarrow> string \<Rightarrow> string \<Rightarrow> string \<Rightarrow> madeAgreement res" where
  "newSM2MLKEMKeyAgreement L store localId remoteId =
     bind_res (of_option LibError (kl_privateKeyFile L [store, localId, ''private_key.pem''])) (\<lambda>priv.
     bind_res (of_option LibError (kl_publicKeyFile L [store, remoteId, ''public_key.pem''])) (\<lambda>pub.
     bind_res (of_option LibError (kl_kemPrivateFile L [store, localId, ''sm2mlkem_private.bin''])) (\<lambda>kemPriv.
     bind_res (of_option LibError (kl_kemPublicFile L [store, remoteId, ''sm2mlkem_public.bin''])) (\<lambda>kemPub.
     (case NewSM2MLKEMKeyAgreement L priv localId pub remoteId kemPriv kemPub of
        None \<Rightarrow> Ok NilHybrid | Some ka \<Rightarrow> Ok (Made (KaHybrid ka)))))))"

definition newKeyAgreement :: "build \<Rightarrow> kaLib \<Rightarrow> kaKind \<Rightarrow> string \<Rightarrow> string \<Rightarrow> string \<Rightarrow> madeAgreement res" where
  "newKeyAgreement b L kind store localId remoteId =
     (case kind of
        SM2KA \<Rightarrow> bind_res (newSM2KeyAgreement L store localId remoteId) (\<lambda>ka. Ok (Made ka))
      | SM2MLKEMKA \<Rightarrow>
          (case b of DefaultBuild \<Rightarrow> Fail ErrKeyAgreementType
           | SM2MLKEMBuild \<Rightarrow> newSM2MLKEMKeyAgreement L store localId remoteId)
      | OtherKA \<Rightarrow> Fail ErrKeyAgreementType)"

definition generateOn ::
  "kaLib \<Rightarrow> bytes \<times> bytes \<times> bytes \<Rightarrow> u16 \<Rightarrow> bytes \<Rightarrow> bytes \<Rightarrow> madeAgreement \<Rightarrow> (bytes \<times> keyAgreement) res" where
  "generateOn L rnd scheme lr rr m =
     (case m of NilHybrid \<Rightarrow> Panic ''nil pointer dereference''
      | Made ka \<Rightarrow> generateLocalKeyExchange L rnd scheme lr rr ka)"

section \<open>What the libraries document\<close>

text \<open>
  Signatures verify under the public key of the signer (\<open>pub\<close>); the two ends of an SM2 key
  agreement that were set up with each other's keys and exchange their points compute one key;
  decapsulation with a private key that a file holds recovers what encapsulation to its public key
  (\<open>kpub\<close>) made.
\<close>

definition sign_ok :: "kaLib \<Rightarrow> (bytes \<Rightarrow> bytes) \<Rightarrow> bool" where
  "sign_ok L pub \<longleftrightarrow>
     (\<forall>sk r m sig. kl_sign L sk r m = Some sig \<longrightarrow>
        kl_verify L (pub sk) m sig \<and> sig \<noteq> [] \<and> length sig < 65536 \<and> kl_isSM2 L (pub sk))"

definition point_ok :: "kaLib \<Rightarrow> bool" where
  "point_ok L \<longleftrightarrow> (\<forall>c r ra c'. kl_kapPrepare L c r = Some (ra, c') \<longrightarrow> ra \<noteq> [] \<and> length ra \<le> 100)"

definition kap_ok :: "kaLib \<Rightarrow> (bytes \<Rightarrow> bytes) \<Rightarrow> bool" where
  "kap_ok L pub \<longleftrightarrow>
     (\<forall>ska skb ea eb ea' eb' ida idb ini ca cb ra rb pa pb ca' cb'.
        kl_toECKey L ska = Some ea \<longrightarrow> kl_toECKey L skb = Some eb \<longrightarrow>
        kl_toECKey L (pub ska) = Some ea' \<longrightarrow> kl_toECKey L (pub skb) = Some eb' \<longrightarrow>
        kl_kapInit L ea ida eb' idb ini = Some ca \<longrightarrow> kl_kapInit L eb idb ea' ida (\<not> ini) = Some cb \<longrightarrow>
        kl_kapPrepare L ca ra = Some (pa, ca') \<longrightarrow> kl_kapPrepare L cb rb = Some (pb, cb') \<longrightarrow>
        (\<exists>key. kl_kapCompute L ca' pb 32 = Some key \<and> kl_kapCompute L cb' pa 32 = Some key))"

definition kem_ok :: "kaLib \<Rightarrow> (bytes \<Rightarrow> bytes) \<Rightarrow> bool" where
  "kem_ok L kpub \<longleftrightarrow>
     (\<forall>path sk r ct ss. kl_kemPrivateFile L path = Some sk \<longrightarrow> kl_encapsulate L (kpub sk) r = (ct, ss) \<longrightarrow>
        length ct = kemCiphertextSize \<and> length ss = kemSharedSecretSize \<and> kl_decapsulate L sk ct = Some ss)"

definition kaLib_ok :: "kaLib \<Rightarrow> (bytes \<Rightarrow> bytes) \<Rightarrow> (bytes \<Rightarrow> bytes) \<Rightarrow> bool" where
  "kaLib_ok L pub kpub \<longleftrightarrow> sign_ok L pub \<and> point_ok L \<and> kap_ok L pub \<and> kem_ok L kpub"

lemma kaLib_sign:
  assumes "kaLib_ok L pub kpub" "kl_sign L sk r m = Some sig"
  shows "kl_verify L (pub sk) m sig" "sig \<noteq> []" "length sig < 65536" "kl_isSM2 L (pub sk)"
  using assms unfolding kaLib_ok_def sign_ok_def by auto

lemma kaLib_prepare:
  assumes "kaLib_ok L pub kpub" "kl_kapPrepare L c r = Some (ra, c')"
  shows "ra \<noteq> []" "length ra \<le> 100"
  using assms unfolding kaLib_ok_def point_ok_def by auto

lemma kaLib_kem:
  assumes "kaLib_ok L pub kpub" "kl_kemPrivateFile L path = Some sk" "kl_encapsulate L (kpub sk) r = (ct, ss)"
  shows "length ct = kemCiphertextSize" "length ss = kemSharedSecretSize" "kl_decapsulate L sk ct = Some ss"
  using assms unfolding kaLib_ok_def kem_ok_def by auto

lemma curveParams_bytes:
  "curveParams ra = 3 # 0x10 # 0x38 # of_nat (length ra) # ra"
  by (simp add: curveParams_def SM2CurveP256V1_def)

lemma length_curveParams [simp]: "length (curveParams ra) = 4 + length ra"
  by (simp add: curveParams_def)

lemma kap_agree:
  assumes "kap_ok L pub" "kl_toECKey L ska = Some ea" "kl_toECKey L skb = Some eb"
    "kl_toECKey L (pub ska) = Some ea'" "kl_toECKey L (pub skb) = Some eb'"
    "kl_kapInit L ea ida eb' idb ini = Some ca" "kl_kapInit L eb idb ea' ida (\<not> ini) = Some cb"
    "kl_kapPrepare L ca ra = Some (pa, ca')" "kl_kapPrepare L cb rb = Some (pb, cb')"
  shows "\<exists>key. kl_kapCompute L ca' pb 32 = Some key \<and> kl_kapCompute L cb' pa 32 = Some key"
  using assms(1) [unfolded kap_ok_def, rule_format, OF assms(2-9)] .

lemma join16_curve [simp]: "join16 0x10 0x38 = SM2CurveP256V1"
  by (simp add: join16_def SM2CurveP256V1_def)

lemma signatureBlock_bytes:
  "\<exists>a b. signatureBlock scheme sig = a # b # of_nat (length sig div 256) # of_nat (length sig) # sig \<and>
     join16 a b = scheme"
  using join16_be16 by (auto simp: signatureBlock_def be16_def len16_def)

lemma signedText_sym:
  assumes "a \<noteq> b"
  shows "signedText L t h a b ra rb p = signedText L t h b a rb ra p"
  using assms by (auto simp: signedText_def)

section \<open>The contract of a key agreement\<close>

text \<open>
  Two matched ends that exchange their messages get one secret; and a message is accepted only if
  the peer's key verifies the signature in it over its parameters and both randoms.
\<close>

locale key_agreement =
  fixes generate :: "'l \<Rightarrow> 'r \<Rightarrow> u16 \<Rightarrow> bytes \<Rightarrow> bytes \<Rightarrow> 'ka \<Rightarrow> (bytes \<times> 'ka) res"
    and "process" :: "'l \<Rightarrow> u16 \<Rightarrow> bytes \<Rightarrow> bytes \<Rightarrow> bytes \<Rightarrow> 'ka \<Rightarrow> bytes res"
    and matched :: "'l \<Rightarrow> 'ka \<Rightarrow> 'ka \<Rightarrow> bool"
    and verified :: "'l \<Rightarrow> u16 \<Rightarrow> bytes \<Rightarrow> bytes \<Rightarrow> bytes \<Rightarrow> bytes \<Rightarrow> 'ka \<Rightarrow> bool"
  assumes matched_sym: "matched L a b \<Longrightarrow> matched L b a"
    and agree: "matched L a b \<Longrightarrow> generate L r SM2WithSM3 x y a = Ok (ka, a') \<Longrightarrow>
      generate L r' SM2WithSM3 y x b = Ok (kb, b') \<Longrightarrow>
      \<exists>s. process L SM2WithSM3 x y kb a' = Ok s \<and> process L SM2WithSM3 y x ka b' = Ok s"
    and authentic: "process L scheme x y k a = Ok s \<Longrightarrow>
      \<exists>n. n + 4 \<le> length k \<and> verified L scheme x y (take n k) (drop (n + 4) k) a"
begin

text \<open>What both ends derive from the secret and public values is the same.\<close>

lemma derive_same:
  assumes "matched L a b" "generate L r SM2WithSM3 x y a = Ok (ka, a')" "generate L r' SM2WithSM3 y x b = Ok (kb, b')"
  shows "bind_res (process L SM2WithSM3 x y kb a') derive = bind_res (process L SM2WithSM3 y x ka b') derive"
  using agree [OF assms] by auto

text \<open>No message at all is accepted of a peer whose key verifies nothing.\<close>

lemma no_forgery:
  assumes "\<And>p sig. \<not> verified L scheme x y p sig a"
  shows "process L scheme x y k a \<noteq> Ok s"
  using authentic assms by blast

end

definition sm2_verified :: "kaLib \<Rightarrow> u16 \<Rightarrow> bytes \<Rightarrow> bytes \<Rightarrow> bytes \<Rightarrow> bytes \<Rightarrow> bytes \<Rightarrow> string \<Rightarrow> string \<Rightarrow> bool" where
  "sm2_verified L scheme x y params sig pub localId remoteId \<longleftrightarrow>
     typeAndHashFromSignatureScheme scheme = Ok (SigSM2, HashSM3) \<and> kl_isSM2 L pub \<and>
     kl_verify L pub (signedText L SigSM2 HashSM3 localId remoteId x y params) sig"

lemma scheme_SigSM2: "typeAndHashFromSignatureScheme scheme = Ok (SigSM2, h) \<Longrightarrow> scheme = SM2WithSM3 \<and> h = HashSM3"
  by (auto simp: typeAndHashFromSignatureScheme_def schemeType_def schemeHash_def SM2WithSM3_def
      split: if_splits option.splits)

lemma verify_Ok:
  "replace_error e (verifyHandshakeSignature L SigSM2 pub m sig) = Ok u \<Longrightarrow> kl_isSM2 L pub \<and> kl_verify L pub m sig"
  by (cases "verifyHandshakeSignature L SigSM2 pub m sig") (auto simp: SM2_Verify_def split: if_splits)

subsection \<open>SM2\<close>

definition sm2_matched :: "kaLib \<Rightarrow> sm2KeyAgreement \<Rightarrow> sm2KeyAgreement \<Rightarrow> bool" where
  "sm2_matched L a b \<longleftrightarrow>
     (\<exists>pub kpub ska skb ida idb. kaLib_ok L pub kpub \<and> ida \<noteq> idb \<and>
        NewSM2KeyAgreement L ska ida (pub skb) idb = Some a \<and> NewSM2KeyAgreement L skb idb (pub ska) ida = Some b)"

definition sm2_process :: "kaLib \<Rightarrow> u16 \<Rightarrow> bytes \<Rightarrow> bytes \<Rightarrow> bytes \<Rightarrow> sm2KeyAgreement \<Rightarrow> bytes res" where
  "sm2_process L scheme x y k a = fst (sm2_processRemoteKeyExchange L scheme x y k a)"

lemma sm2_process_wellformed:
  assumes "length ra \<le> 255" "ra \<noteq> []" "sig \<noteq> []" "length sig < 65536"
    "kl_kapCompute L (ka_ctxLocal ka) ra 32 = Some secret" "kl_isSM2 L (ka_remotePub ka)"
    "kl_verify L (ka_remotePub ka) (signedText L SigSM2 HashSM3 (ka_localId ka) (ka_remoteId ka) x y (curveParams ra)) sig"
  shows "sm2_process L SM2WithSM3 x y (curveParams ra @ signatureBlock SM2WithSM3 sig) ka = Ok secret"
proof -
  let ?k = "curveParams ra @ signatureBlock SM2WithSM3 sig"
  obtain a b where sb: "signatureBlock SM2WithSM3 sig = a # b # of_nat (length sig div 256) # of_nat (length sig) # sig"
      "join16 a b = SM2WithSM3" using signatureBlock_bytes by blast
  have n: "unat (of_nat (length ra) :: byte) = length ra" using assms(1) by (simp add: unat_of_nat_byte)
  have t: "take (4 + length ra) ?k = curveParams ra" "drop (4 + length ra) ?k = signatureBlock SM2WithSM3 sig"
    by simp_all
  have l: "nat16 (of_nat (length sig div 256)) (of_nat (length sig)) = length sig"
    using nat16_len16_small assms(4) by simp
  have c: "ComputeSecret L (ka_ctxLocal ka) (drop 4 (curveParams ra)) = Ok secret"
    using assms(2,5) by (simp add: ComputeSecret_def KAP_ComputeKey_def curveParams_bytes)
  have "sm2_checkSignature L SM2WithSM3 x y (curveParams ra) (signatureBlock SM2WithSM3 sig) (ka\<lparr>ka_preMaster := secret\<rparr>) = Ok secret"
    using assms(3,6,7) l by (simp add: sm2_checkSignature_def sb Let_def SM2_Verify_def)
  moreover have "?k ! 0 = 3" "?k ! 1 = 0x10" "?k ! 2 = 0x38" "?k ! 3 = of_nat (length ra)" "4 + length ra \<le> length ?k"
      "\<not> length (signatureBlock SM2WithSM3 sig) < 2"
    by (simp_all add: curveParams_bytes sb)
  ultimately show ?thesis
    using n t c by (simp add: sm2_process_def sm2_processRemoteKeyExchange_def Let_def)
qed

lemma sm2_agree:
  assumes "sm2_matched L a b" "sm2_generateLocalKeyExchange L r SM2WithSM3 x y a = Ok (ka, a')"
    "sm2_generateLocalKeyExchange L r' SM2WithSM3 y x b = Ok (kb, b')"
  shows "\<exists>s. sm2_process L SM2WithSM3 x y kb a' = Ok s \<and> sm2_process L SM2WithSM3 y x ka b' = Ok s"
proof -
  obtain pub kpub ska skb ida idb where m: "kaLib_ok L pub kpub" "ida \<noteq> idb"
      "NewSM2KeyAgreement L ska ida (pub skb) idb = Some a" "NewSM2KeyAgreement L skb idb (pub ska) ida = Some b"
    using assms(1) by (auto simp: sm2_matched_def)
  obtain ea eb' where a: "kl_toECKey L ska = Some ea" "kl_toECKey L (pub skb) = Some eb'"
      "kl_kapInit L ea ida eb' idb (idb < ida) = Some (ka_ctxLocal a)"
      "ka_localPriv a = ska" "ka_remotePub a = pub skb" "ka_localId a = ida" "ka_remoteId a = idb"
    using m(3) by (auto simp: NewSM2KeyAgreement_def split: option.splits)
  obtain eb ea' where b: "kl_toECKey L skb = Some eb" "kl_toECKey L (pub ska) = Some ea'"
      "kl_kapInit L eb idb ea' ida (ida < idb) = Some (ka_ctxLocal b)"
      "ka_localPriv b = skb" "ka_remotePub b = pub ska" "ka_localId b = idb" "ka_remoteId b = ida"
    using m(4) by (auto simp: NewSM2KeyAgreement_def split: option.splits)
  obtain ra ctxa siga where ga: "kl_kapPrepare L (ka_ctxLocal a) (fst r) = Some (ra, ctxa)"
      "kl_sign L ska (snd r) (signedText L SigSM2 HashSM3 ida idb x y (curveParams ra)) = Some siga"
      "ka = curveParams ra @ signatureBlock SM2WithSM3 siga" "a' = a\<lparr>ka_ctxLocal := ctxa\<rparr>"
    using assms(2) a by (auto simp: sm2_generateLocalKeyExchange_def SM2_Sign_def Let_def outcome_simps split: if_splits)
  obtain rb ctxb sigb where gb: "kl_kapPrepare L (ka_ctxLocal b) (fst r') = Some (rb, ctxb)"
      "kl_sign L skb (snd r') (signedText L SigSM2 HashSM3 idb ida y x (curveParams rb)) = Some sigb"
      "kb = curveParams rb @ signatureBlock SM2WithSM3 sigb" "b' = b\<lparr>ka_ctxLocal := ctxb\<rparr>"
    using assms(3) b by (auto simp: sm2_generateLocalKeyExchange_def SM2_Sign_def Let_def outcome_simps split: if_splits)
  have ini: "(ida < idb) = (\<not> idb < ida)" using m(2) by auto
  have "kap_ok L pub" using m(1) by (simp add: kaLib_ok_def)
  from kap_agree [OF this a(1) b(1) b(2) a(2) a(3) b(3) [unfolded ini] ga(1) gb(1)]
  obtain s where s: "kl_kapCompute L ctxa rb 32 = Some s" "kl_kapCompute L ctxb ra 32 = Some s" by blast
  have pa: "sm2_process L SM2WithSM3 x y kb a' = Ok s"
    unfolding gb(3) using kaLib_prepare [OF m(1) gb(1)] kaLib_sign [OF m(1) gb(2)] s(1) a ga(4) m(2)
    by (intro sm2_process_wellformed) (auto simp: signedText_sym [of ida idb])
  have pb: "sm2_process L SM2WithSM3 y x ka b' = Ok s"
    unfolding ga(3) using kaLib_prepare [OF m(1) ga(1)] kaLib_sign [OF m(1) ga(2)] s(2) b gb(4) m(2)
    by (intro sm2_process_wellformed) (auto simp: signedText_sym [of idb ida])
  show ?thesis using pa pb by blast
qed

lemma sm2_authentic:
  assumes "sm2_process L scheme x y k a = Ok s"
  shows "\<exists>n. n + 4 \<le> length k \<and>
    sm2_verified L scheme x y (take n k) (drop (n + 4) k) (ka_remotePub a) (ka_localId a) (ka_remoteId a)"
proof -
  let ?n = "4 + unat (k ! 3)"
  obtain secret where c: "sm2_checkSignature L scheme x y (take ?n k) (drop ?n k) (a\<lparr>ka_preMaster := secret\<rparr>) = Ok s"
      "\<not> length (drop ?n k) < 2"
    using assms
    by (auto simp: sm2_process_def sm2_processRemoteKeyExchange_def Let_def split: if_splits res.splits)
  obtain h where h: "typeAndHashFromSignatureScheme scheme = Ok (SigSM2, h)" "2 \<le> length (drop 2 (drop ?n k))"
      "replace_error ErrSignature (verifyHandshakeSignature L SigSM2 (ka_remotePub a)
        (signedText L SigSM2 h (ka_localId a) (ka_remoteId a) x y (take ?n k)) (drop 2 (drop 2 (drop ?n k)))) = Ok ()"
    using c(1) by (auto simp: sm2_checkSignature_def Let_def outcome_simps split: if_splits)
  have "h = HashSM3" using scheme_SigSM2 h(1) by blast
  then have "sm2_verified L scheme x y (take ?n k) (drop (?n + 4) k) (ka_remotePub a) (ka_localId a) (ka_remoteId a)"
    using h(1) verify_Ok [OF h(3)] by (simp add: sm2_verified_def add.commute)
  moreover have "?n + 4 \<le> length k" using h(2) by simp
  ultimately show ?thesis by blast
qed

interpretation sm2: key_agreement sm2_generateLocalKeyExchange sm2_process sm2_matched
  "\<lambda>L scheme x y p sig a. sm2_verified L scheme x y p sig (ka_remotePub a) (ka_localId a) (ka_remoteId a)"
proof unfold_locales
  show "sm2_matched L b a" if "sm2_matched L a b" for L a b
    using that unfolding sm2_matched_def by metis
qed (use sm2_agree sm2_authentic in blast)+

subsection \<open>SM2 + ML-KEM\<close>

definition mlkem_matched :: "kaLib \<Rightarrow> sm2MLKEMKeyAgreement \<Rightarrow> sm2MLKEMKeyAgreement \<Rightarrow> bool" where
  "mlkem_matched L a b \<longleftrightarrow>
     (\<exists>pub kpub ska skb ida idb kska kskb pa pb. kaLib_ok L pub kpub \<and> ida \<noteq> idb \<and>
        kl_kemPrivateFile L pa = Some kska \<and> kl_kemPrivateFile L pb = Some kskb \<and>
        NewSM2MLKEMKeyAgreement L ska ida (pub skb) idb kska (kpub kskb) = Some a \<and>
        NewSM2MLKEMKeyAgreement L skb idb (pub ska) ida kskb (kpub kska) = Some b)"

lemma kemParams_bytes:
  assumes "length ct = kemCiphertextSize"
  shows "kemParams ct = 0x11 # 0xEE # 4 # 64 # ct"
  using assms by (simp add: kemParams_def be16_def len16_def kemGroupID_def kemCiphertextSize_def)

lemma nth_after: "length xs = n \<Longrightarrow> (xs @ ys) ! (n + i) = ys ! i"
  by (auto simp: nth_append)

lemma take_after: "length xs = n \<Longrightarrow> take (n + i) (xs @ ys) = xs @ take i ys"
  by auto

lemma drop_after: "length xs = n \<Longrightarrow> drop (n + i) (xs @ ys) = drop i ys"
  by auto

lemma mlkem_process_wellformed:
  assumes "length ra \<le> 255" "ra \<noteq> []" "sig \<noteq> []" "length sig < 65536" "length ct = kemCiphertextSize"
    "kl_kapCompute L (mk_ctxLocal ka) ra 32 = Some secret" "kl_decapsulate L (mk_localKEM ka) ct = Some ss"
    "length ss = kemSharedSecretSize" "length (mk_localSecret ka) = kemSharedSecretSize"
    "kl_isSM2 L (mk_remotePub ka)"
    "kl_verify L (mk_remotePub ka)
       (signedText L SigSM2 HashSM3 (mk_localId ka) (mk_remoteId ka) x y (curveParams ra @ kemParams ct)) sig"
  shows "mlkem_processRemoteKeyExchange L SM2WithSM3 x y
      ((curveParams ra @ kemParams ct) @ signatureBlock SM2WithSM3 sig) ka =
    Ok (secret @ (if mk_remoteId ka < mk_localId ka then mk_localSecret ka @ ss else ss @ mk_localSecret ka))"
proof -
  let ?k = "(curveParams ra @ kemParams ct) @ signatureBlock SM2WithSM3 sig"
  let ?off = "4 + length ra"
  obtain a b where sb: "signatureBlock SM2WithSM3 sig = a # b # of_nat (length sig div 256) # of_nat (length sig) # sig"
      "join16 a b = SM2WithSM3" using signatureBlock_bytes by blast
  have kp: "kemParams ct = 0x11 # 0xEE # 4 # 64 # ct" using kemParams_bytes [OF assms(5)] .
  have ctl: "length ct = 1088" using assms(5) by (simp add: kemCiphertextSize_def)
  have n: "unat (of_nat (length ra) :: byte) = length ra" using assms(1) by (simp add: unat_of_nat_byte)
  have k: "?k = curveParams ra @ (kemParams ct @ signatureBlock SM2WithSM3 sig)" by simp
  have lc: "length (curveParams ra) = ?off" by simp
  have at: "?k ! ?off = 0x11" "?k ! (?off + 1) = 0xEE" "?k ! (?off + 2) = 4" "?k ! (?off + 3) = 64"
    unfolding k using nth_after [OF lc, of _ 0] nth_after [OF lc, of _ 1] nth_after [OF lc, of _ 2] nth_after [OF lc, of _ 3]
    by (simp_all add: kp)
  have hd: "?k ! 0 = 3" "?k ! 1 = 0x10" "?k ! 2 = 0x38" "?k ! 3 = of_nat (length ra)"
    by (simp_all add: curveParams_bytes)
  have len: "length ?k = ?off + 4 + 1088 + 4 + length sig" by (simp add: kp sb(1) ctl)
  have params: "take (?off + 4 + 1088) ?k = curveParams ra @ kemParams ct"
    by (simp add: kp ctl)
  have cut: "take 1088 (drop (?off + 4) ?k) = ct" "drop (?off + 4 + 1088) ?k = signatureBlock SM2WithSM3 sig"
    by (simp_all add: kp ctl)
  have pt: "take (length ra) (drop 4 ?k) = ra" by (simp add: curveParams_bytes)
  have g: "join16 0x11 0xEE = kemGroupID" "nat16 4 64 = 1088"
    by (simp_all add: join16_def nat16_def kemGroupID_def)
  have l: "nat16 (of_nat (length sig div 256)) (of_nat (length sig)) = length sig"
    using nat16_len16_small assms(4) by simp
  have sec: "mlkem_secret L ra ct ka =
      Ok (secret @ (if mk_remoteId ka < mk_localId ka then mk_localSecret ka @ ss else ss @ mk_localSecret ka))"
    using assms by (simp add: mlkem_secret_def ComputeSecret_def KAP_ComputeKey_def)
  show ?thesis
    unfolding mlkem_processRemoteKeyExchange_def Let_def hd n at g join16_curve
    using len params cut pt sb l sec assms(3,10,11) ctl
    by (simp add: kemCiphertextSize_def SM2_Verify_def del: append_assoc)
qed

lemma mlkem_agree:
  assumes "mlkem_matched L a b" "mlkem_generateLocalKeyExchange L r SM2WithSM3 x y a = Ok (ka, a')"
    "mlkem_generateLocalKeyExchange L r' SM2WithSM3 y x b = Ok (kb, b')"
  shows "\<exists>s. mlkem_processRemoteKeyExchange L SM2WithSM3 x y kb a' = Ok s \<and>
    mlkem_processRemoteKeyExchange L SM2WithSM3 y x ka b' = Ok s"
proof -
  obtain pub kpub ska skb ida idb kska kskb fa fb where m: "kaLib_ok L pub kpub" "ida \<noteq> idb"
      and f: "kl_kemPrivateFile L fa = Some kska" "kl_kemPrivateFile L fb = Some kskb"
      and m': "NewSM2MLKEMKeyAgreement L ska ida (pub skb) idb kska (kpub kskb) = Some a"
      "NewSM2MLKEMKeyAgreement L skb idb (pub ska) ida kskb (kpub kska) = Some b"
    using assms(1) by (auto simp: mlkem_matched_def)
  obtain ea eb' where a: "kl_toECKey L ska = Some ea" "kl_toECKey L (pub skb) = Some eb'"
      "kl_kapInit L ea ida eb' idb (idb < ida) = Some (mk_ctxLocal a)" "mk_localPriv a = ska" "mk_remotePub a = pub skb"
      "mk_localId a = ida" "mk_remoteId a = idb" "mk_localKEM a = kska" "mk_remoteKEM a = kpub kskb"
    using m'(1) by (auto simp: NewSM2MLKEMKeyAgreement_def split: option.splits)
  obtain eb ea' where b: "kl_toECKey L skb = Some eb" "kl_toECKey L (pub ska) = Some ea'"
      "kl_kapInit L eb idb ea' ida (ida < idb) = Some (mk_ctxLocal b)" "mk_localPriv b = skb" "mk_remotePub b = pub ska"
      "mk_localId b = idb" "mk_remoteId b = ida" "mk_localKEM b = kskb" "mk_remoteKEM b = kpub kska"
    using m'(2) by (auto simp: NewSM2MLKEMKeyAgreement_def split: option.splits)
  obtain r1 r2 r3 where r: "r = (r1, r2, r3)" by (metis prod_cases3)
  obtain q1 q2 q3 where q: "r' = (q1, q2, q3)" by (metis prod_cases3)
  obtain cta ssa where ea: "kl_encapsulate L (kpub kskb) r2 = (cta, ssa)" by fastforce
  obtain ctb ssb where eb: "kl_encapsulate L (kpub kska) q2 = (ctb, ssb)" by fastforce
  obtain ra ctxa siga where ga: "kl_kapPrepare L (mk_ctxLocal a) r1 = Some (ra, ctxa)"
      "kl_sign L ska r3 (signedText L SigSM2 HashSM3 ida idb x y (curveParams ra @ kemParams cta)) = Some siga"
      "ka = (curveParams ra @ kemParams cta) @ signatureBlock SM2WithSM3 siga"
      "a' = a\<lparr>mk_ctxLocal := ctxa, mk_localSecret := ssa\<rparr>"
    using assms(2) a r ea by (auto simp: mlkem_generateLocalKeyExchange_def SM2_Sign_def Let_def outcome_simps split: if_splits)
  obtain rb ctxb sigb where gb: "kl_kapPrepare L (mk_ctxLocal b) q1 = Some (rb, ctxb)"
      "kl_sign L skb q3 (signedText L SigSM2 HashSM3 idb ida y x (curveParams rb @ kemParams ctb)) = Some sigb"
      "kb = (curveParams rb @ kemParams ctb) @ signatureBlock SM2WithSM3 sigb"
      "b' = b\<lparr>mk_ctxLocal := ctxb, mk_localSecret := ssb\<rparr>"
    using assms(3) b q eb by (auto simp: mlkem_generateLocalKeyExchange_def SM2_Sign_def Let_def outcome_simps split: if_splits)
  have ini: "(ida < idb) = (\<not> idb < ida)" using m(2) by auto
  have "kap_ok L pub" using m(1) by (simp add: kaLib_ok_def)
  from kap_agree [OF this a(1) b(1) b(2) a(2) a(3) b(3) [unfolded ini] ga(1) gb(1)]
  obtain s where s: "kl_kapCompute L ctxa rb 32 = Some s" "kl_kapCompute L ctxb ra 32 = Some s" by blast
  note ka' = kaLib_kem [OF m(1) f(2) ea] and kb' = kaLib_kem [OF m(1) f(1) eb]
  have pa: "mlkem_processRemoteKeyExchange L SM2WithSM3 x y kb a' = Ok (s @ (if idb < ida then ssa @ ssb else ssb @ ssa))"
    unfolding gb(3)
    using mlkem_process_wellformed [where ka = a' and ra = rb and sig = sigb and ct = ctb and L = L and x = x and y = y and secret = s and ss = ssb]
      kaLib_prepare [OF m(1) gb(1)] kaLib_sign [OF m(1) gb(2)] s(1) a ga(4) ka' kb' m(2)
    by (simp add: signedText_sym [of ida idb])
  have pb: "mlkem_processRemoteKeyExchange L SM2WithSM3 y x ka b' = Ok (s @ (if ida < idb then ssb @ ssa else ssa @ ssb))"
    unfolding ga(3)
    using mlkem_process_wellformed [where ka = b' and ra = ra and sig = siga and ct = cta and L = L and x = y and y = x and secret = s and ss = ssa]
      kaLib_prepare [OF m(1) ga(1)] kaLib_sign [OF m(1) ga(2)] s(2) b gb(4) ka' kb' m(2)
    by (simp add: signedText_sym [of idb ida])
  show ?thesis using pa pb m(2) by (cases "idb < ida") auto
qed

lemma mlkem_authentic:
  assumes "mlkem_processRemoteKeyExchange L scheme x y k a = Ok s"
  shows "\<exists>n. n + 4 \<le> length k \<and>
    sm2_verified L scheme x y (take n k) (drop (n + 4) k) (mk_remotePub a) (mk_localId a) (mk_remoteId a)"
proof -
  let ?off = "4 + unat (k ! 3)"
  let ?n = "?off + 4 + nat16 (k ! (?off + 2)) (k ! (?off + 3))"
  obtain h where h: "4 \<le> length (drop ?n k)" "typeAndHashFromSignatureScheme scheme = Ok (SigSM2, h)"
      "replace_error ErrSignature (verifyHandshakeSignature L SigSM2 (mk_remotePub a)
        (signedText L SigSM2 h (mk_localId a) (mk_remoteId a) x y (take ?n k)) (drop 2 (drop 2 (drop ?n k)))) = Ok ()"
    using assms
    by (auto simp: mlkem_processRemoteKeyExchange_def Let_def outcome_simps not_less split: if_splits)
  have "h = HashSM3" using scheme_SigSM2 h(2) by blast
  then have "sm2_verified L scheme x y (take ?n k) (drop (?n + 4) k) (mk_remotePub a) (mk_localId a) (mk_remoteId a)"
    using h(2) verify_Ok [OF h(3)] by (simp add: sm2_verified_def add.commute)
  moreover have "?n + 4 \<le> length k" using h(1) by simp
  ultimately show ?thesis by blast
qed

interpretation mlkem: key_agreement mlkem_generateLocalKeyExchange mlkem_processRemoteKeyExchange mlkem_matched
  "\<lambda>L scheme x y p sig a. sm2_verified L scheme x y p sig (mk_remotePub a) (mk_localId a) (mk_remoteId a)"
proof unfold_locales
  show "mlkem_matched L b a" if "mlkem_matched L a b" for L a b
    using that unfolding mlkem_matched_def by metis
qed (use mlkem_agree mlkem_authentic in blast)+

subsection \<open>Either of them\<close>

fun ka_matched :: "kaLib \<Rightarrow> keyAgreement \<Rightarrow> keyAgreement \<Rightarrow> bool" where
  "ka_matched L (KaSM2 a) (KaSM2 b) \<longleftrightarrow> sm2_matched L a b"
| "ka_matched L (KaHybrid a) (KaHybrid b) \<longleftrightarrow> mlkem_matched L a b"
| "ka_matched L _ _ \<longleftrightarrow> False"

fun ka_peer :: "keyAgreement \<Rightarrow> bytes \<times> string \<times> string" where
  "ka_peer (KaSM2 a) = (ka_remotePub a, ka_localId a, ka_remoteId a)"
| "ka_peer (KaHybrid a) = (mk_remotePub a, mk_localId a, mk_remoteId a)"

definition ka_verified :: "kaLib \<Rightarrow> u16 \<Rightarrow> bytes \<Rightarrow> bytes \<Rightarrow> bytes \<Rightarrow> bytes \<Rightarrow> keyAgreement \<Rightarrow> bool" where
  "ka_verified L scheme x y params sig a =
     (let (pub, localId, remoteId) = ka_peer a in sm2_verified L scheme x y params sig pub localId remoteId)"

interpretation ka: key_agreement generateLocalKeyExchange
  "\<lambda>L scheme x y k a. processRemoteKeyExchange L scheme x y k a" ka_matched ka_verified
proof unfold_locales
  fix L a b
  assume "ka_matched L a b"
  then show "ka_matched L b a"
    using sm2.matched_sym mlkem.matched_sym by (cases a; cases b) auto
next
  fix L a b r x y k a' r' k' b'
  assume *: "ka_matched L a b" "generateLocalKeyExchange L r SM2WithSM3 x y a = Ok (k, a')"
    "generateLocalKeyExchange L r' SM2WithSM3 y x b = Ok (k', b')"
  show "\<exists>s. processRemoteKeyExchange L SM2WithSM3 x y k' a' = Ok s \<and> processRemoteKeyExchange L SM2WithSM3 y x k b' = Ok s"
  proof (cases a)
    case (KaSM2 c)
    then obtain d where d: "b = KaSM2 d" "sm2_matched L c d" using *(1) by (cases b) auto
    obtain c' d' where "sm2_generateLocalKeyExchange L (fst r, snd (snd r)) SM2WithSM3 x y c = Ok (k, c')" "a' = KaSM2 c'"
        "sm2_generateLocalKeyExchange L (fst r', snd (snd r')) SM2WithSM3 y x d = Ok (k', d')" "b' = KaSM2 d'"
      using *(2,3) KaSM2 d(1) by (auto simp: outcome_simps)
    then show ?thesis using sm2.agree [OF d(2)] by (fastforce simp: sm2_process_def)
  next
    case (KaHybrid c)
    then obtain d where d: "b = KaHybrid d" "mlkem_matched L c d" using *(1) by (cases b) auto
    obtain c' d' where "mlkem_generateLocalKeyExchange L r SM2WithSM3 x y c = Ok (k, c')" "a' = KaHybrid c'"
        "mlkem_generateLocalKeyExchange L r' SM2WithSM3 y x d = Ok (k', d')" "b' = KaHybrid d'"
      using *(2,3) KaHybrid d(1) by (auto simp: outcome_simps)
    then show ?thesis using mlkem.agree [OF d(2)] by fastforce
  qed
next
  fix L scheme x y k a s
  assume *: "processRemoteKeyExchange L scheme x y k a = Ok s"
  then show "\<exists>n. n + 4 \<le> length k \<and> ka_verified L scheme x y (take n k) (drop (n + 4) k) a"
    using sm2.authentic [of L scheme x y k] mlkem.authentic [of L scheme x y k]
    by (cases a) (fastforce simp: ka_verified_def sm2_process_def)+
qed

text \<open>The key files of two parties that know each other's public keys.\<close>

definition key_files :: "kaLib \<Rightarrow> (bytes \<Rightarrow> bytes) \<Rightarrow> (bytes \<Rightarrow> bytes) \<Rightarrow> string \<Rightarrow> string \<Rightarrow> string \<Rightarrow>
    bytes \<Rightarrow> bytes \<Rightarrow> bytes \<Rightarrow> bytes \<Rightarrow> bool" where
  "key_files L pub kpub store localId remoteId sk peerSk kemSk peerKemSk \<longleftrightarrow>
     kl_privateKeyFile L [store, localId, ''private_key.pem''] = Some sk \<and>
     kl_publicKeyFile L [store, remoteId, ''public_key.pem''] = Some (pub peerSk) \<and>
     kl_kemPrivateFile L [store, localId, ''sm2mlkem_private.bin''] = Some kemSk \<and>
     kl_kemPublicFile L [store, remoteId, ''sm2mlkem_public.bin''] = Some (kpub peerKemSk)"

lemma newKeyAgreement_matched:
  assumes "kaLib_ok L pub kpub" "ida \<noteq> idb"
    "key_files L pub kpub storeA ida idb ska skb ka kb" "key_files L pub kpub storeB idb ida skb ska kb ka"
    "newKeyAgreement bld L kind storeA ida idb = Ok (Made a)" "newKeyAgreement bld L kind storeB idb ida = Ok (Made b)"
  shows "ka_matched L a b"
proof (cases kind)
  case SM2KA
  then obtain c d where "a = KaSM2 c" "NewSM2KeyAgreement L ska ida (pub skb) idb = Some c"
      "b = KaSM2 d" "NewSM2KeyAgreement L skb idb (pub ska) ida = Some d"
    using assms(3-6)
    by (auto simp: newKeyAgreement_def newSM2KeyAgreement_def key_files_def outcome_simps split: option.splits)
  moreover from this have "sm2_matched L c d" using assms(1,2) unfolding sm2_matched_def by blast
  ultimately show ?thesis by simp
next
  case SM2MLKEMKA
  then obtain c d where "a = KaHybrid c" "NewSM2MLKEMKeyAgreement L ska ida (pub skb) idb ka (kpub kb) = Some c"
      "kl_kemPrivateFile L [storeA, ida, ''sm2mlkem_private.bin''] = Some ka" "kl_kemPrivateFile L [storeB, idb, ''sm2mlkem_private.bin''] = Some kb"
      "b = KaHybrid d" "NewSM2MLKEMKeyAgreement L skb idb (pub ska) ida kb (kpub ka) = Some d"
    using assms(3-6)
    by (auto simp: newKeyAgreement_def newSM2MLKEMKeyAgreement_def key_files_def outcome_simps
        split: option.splits build.splits)
  moreover from this have "mlkem_matched L c d" using assms(1,2) unfolding mlkem_matched_def by blast
  ultimately show ?thesis by simp
qed (use assms(5) in \<open>simp add: newKeyAgreement_def\<close>)

section \<open>Properties\<close>

text \<open>C20: two parties that hold each other's public keys and run the same key agreement (SM2, or SM2
  with ML-KEM) accept each other's key exchange messages and compute the same secret.\<close>

theorem key_agreement_same_secret:
  assumes "kaLib_ok L pub kpub" "ida \<noteq> idb"
    "key_files L pub kpub storeA ida idb ska skb kska kskb" "key_files L pub kpub storeB idb ida skb ska kskb kska"
    "newKeyAgreement bld L kind storeA ida idb = Ok (Made a)" "newKeyAgreement bld L kind storeB idb ida = Ok (Made b)"
    "generateOn L r SM2WithSM3 x y (Made a) = Ok (ka, a')" "generateOn L r' SM2WithSM3 y x (Made b) = Ok (kb, b')"
  shows "\<exists>s. processRemoteKeyExchange L SM2WithSM3 x y kb a' = Ok s \<and>
    processRemoteKeyExchange L SM2WithSM3 y x ka b' = Ok s"
  using ka.agree [OF newKeyAgreement_matched [OF assms(1-6)]] assms(7,8) by (simp add: generateOn_def)

definition exKaLib :: kaLib where
  "exKaLib = \<lparr>kl_privateKeyFile = (\<lambda>_. Some [1]), kl_publicKeyFile = (\<lambda>_. Some [1]), kl_isSM2 = (\<lambda>_. True),
     kl_toECKey = Some, kl_kapInit = (\<lambda>_ _ _ _ _. Some []), kl_kapPrepare = (\<lambda>_ _. Some ([7], [])),
     kl_kapCompute = (\<lambda>_ _ n. Some (replicate n 5)), kl_sign = (\<lambda>_ _ _. Some [1]), kl_verify = (\<lambda>_ _ _. True),
     kl_digest = (\<lambda>_ x. x), kl_kemPrivateFile = (\<lambda>_. Some [1]), kl_kemPublicFile = (\<lambda>_. Some [1]),
     kl_encapsulate = (\<lambda>_ _. (replicate 1088 0, replicate 32 9)), kl_decapsulate = (\<lambda>_ _. Some (replicate 32 9))\<rparr>"

lemma exKaLib_ok: "kaLib_ok exKaLib id id"
  by (simp add: kaLib_ok_def sign_ok_def point_ok_def kap_ok_def kem_ok_def exKaLib_def kemCiphertextSize_def
      kemSharedSecretSize_def)

lemma exKaLib_files: "key_files exKaLib id id store a b [1] [1] [1] [1]"
  by (simp add: key_files_def exKaLib_def)

lemma exKaLib_new:
  "\<exists>a. newKeyAgreement SM2MLKEMBuild exKaLib SM2MLKEMKA store l r = Ok (Made a) \<and>
     (\<exists>k a'. generateOn exKaLib rnd SM2WithSM3 x y (Made a) = Ok (k, a'))"
  by (cases rnd) (simp add: newKeyAgreement_def newSM2MLKEMKeyAgreement_def NewSM2MLKEMKeyAgreement_def exKaLib_def
      generateOn_def mlkem_generateLocalKeyExchange_def SM2_Sign_def Let_def)

lemma key_agreement_same_secret_witness:
  "\<exists>a b s ka. processRemoteKeyExchange exKaLib SM2WithSM3 [1] [2] ka a = Ok s \<and>
     newKeyAgreement SM2MLKEMBuild exKaLib SM2MLKEMKA ''k'' ''a'' ''b'' = Ok (Made b)"
proof -
  obtain a ka a' where a: "newKeyAgreement SM2MLKEMBuild exKaLib SM2MLKEMKA ''k'' ''a'' ''b'' = Ok (Made a)"
      "generateOn exKaLib ([], [], []) SM2WithSM3 [1] [2] (Made a) = Ok (ka, a')"
    using exKaLib_new by blast
  obtain b kb b' where b: "newKeyAgreement SM2MLKEMBuild exKaLib SM2MLKEMKA ''m'' ''b'' ''a'' = Ok (Made b)"
      "generateOn exKaLib ([], [], []) SM2WithSM3 [2] [1] (Made b) = Ok (kb, b')"
    using exKaLib_new by blast
  have "''a'' \<noteq> ''b''" by simp
  from key_agreement_same_secret [OF exKaLib_ok this exKaLib_files exKaLib_files a(1) b(1) a(2) b(2)]
  show ?thesis using a(1) by blast
qed

text \<open>C22: a key exchange message is accepted, by either key agreement, only if it ends in a signature
  that the peer's public key verifies over the two hello randoms and everything before the signature
  block.\<close>

theorem accepted_key_exchange_signed:
  assumes "processRemoteKeyExchange L scheme x y k a = Ok s"
  shows "\<exists>n pub localId remoteId. ka_peer a = (pub, localId, remoteId) \<and> n + 4 \<le> length k \<and> scheme = SM2WithSM3 \<and>
    kl_verify L pub (if remoteId < localId then x @ y @ take n k else y @ x @ take n k) (drop (n + 4) k)"
proof -
  obtain n where n: "n + 4 \<le> length k" "ka_verified L scheme x y (take n k) (drop (n + 4) k) a"
    using ka.authentic [OF assms] by blast
  obtain pub localId remoteId where p: "ka_peer a = (pub, localId, remoteId)" by (metis prod_cases3)
  show ?thesis
    using n p scheme_SigSM2
    by (auto simp: ka_verified_def sm2_verified_def signedText_def hashForKeyExchange_def)
qed

lemma accepted_key_exchange_signed_witness:
  "\<exists>n k. n + 4 \<le> length k \<and> kl_verify exKaLib [1] ([9] @ [8] @ take n k) (drop (n + 4) k)"
proof -
  let ?a = "\<lparr>ka_localPriv = [1], ka_remotePub = [1], ka_localId = ''b'', ka_remoteId = ''a'', ka_ctxLocal = [], ka_preMaster = []\<rparr>"
  have "sm2_process exKaLib SM2WithSM3 [9] [8] (curveParams [7] @ signatureBlock SM2WithSM3 [1]) ?a = Ok (replicate 32 5)"
    by (intro sm2_process_wellformed) (simp_all add: exKaLib_def)
  then have "processRemoteKeyExchange exKaLib SM2WithSM3 [9] [8] (curveParams [7] @ signatureBlock SM2WithSM3 [1]) (KaSM2 ?a) = Ok (replicate 32 5)"
    by (simp add: sm2_process_def)
  moreover have "''a'' < ''b''" by (simp add: less_char_def)
  ultimately show ?thesis using accepted_key_exchange_signed by fastforce
qed

text \<open>C23: a peer that holds no key at all can crash the other side: the SM2 agreement takes the
  address of the first byte of an empty point before it looks at the signature, and both agreements
  take the address of the first byte of an empty signature.  The messages are constants.\<close>

theorem key_exchange_crash:
  assumes "case ka of KaSM2 _ \<Rightarrow> True | KaHybrid a \<Rightarrow> kl_isSM2 L (mk_remotePub a)"
  shows "processRemoteKeyExchange L SM2WithSM3 x y
    (case ka of KaSM2 _ \<Rightarrow> [3, 0x10, 0x38, 0, 0, 0]
     | KaHybrid _ \<Rightarrow> curveParams [7] @ kemParams (replicate 1088 0) @ signatureBlock SM2WithSM3 []) ka
    = Panic ''index out of range [0] with length 0''"
proof (cases ka)
  case (KaSM2 a)
  then show ?thesis
    by (simp add: sm2_processRemoteKeyExchange_def Let_def ComputeSecret_def KAP_ComputeKey_def)
next
  case (KaHybrid a)
  obtain c d where sb: "signatureBlock SM2WithSM3 [] = c # d # 0 # 0 # []" "join16 c d = SM2WithSM3"
    using signatureBlock_bytes [of SM2WithSM3 "[]"] by auto
  have kp: "kemParams (replicate 1088 0) = 0x11 # 0xEE # 4 # 64 # replicate 1088 0"
    by (rule kemParams_bytes) (simp add: kemCiphertextSize_def)
  have g: "join16 0x11 0xEE = kemGroupID" "nat16 4 64 = 1088" "nat16 0 0 = 0"
    by (simp_all add: join16_def nat16_def kemGroupID_def)
  show ?thesis
    using KaHybrid assms sb(2) g
    by (simp add: mlkem_processRemoteKeyExchange_def curveParams_bytes kp sb(1) Let_def kemCiphertextSize_def
        SM2_Verify_def)
qed

lemma key_exchange_crash_witness:
  "processRemoteKeyExchange exKaLib SM2WithSM3 [] [] [3, 0x10, 0x38, 0, 0, 0]
     (KaSM2 \<lparr>ka_localPriv = [1], ka_remotePub = [1], ka_localId = ''b'', ka_remoteId = ''a'', ka_ctxLocal = [], ka_preMaster = []\<rparr>)
     = Panic ''index out of range [0] with length 0''"
  using key_exchange_crash [where ka = "KaSM2 \<lparr>ka_localPriv = [1], ka_remotePub = [1], ka_localId = ''b'', ka_remoteId = ''a'', ka_ctxLocal = [], ka_preMaster = []\<rparr>" and L = exKaLib and x = "[]" and y = "[]"]
  by simp

text \<open>When the two keys cannot be set up for the key agreement, the SM2 factory reports an error,
  but the hybrid one hands out an agreement whose first use dereferences a nil pointer.\<close>

theorem hybrid_factory_nil:
  assumes "kl_privateKeyFile L [store, l, ''private_key.pem''] = Some priv"
    "kl_publicKeyFile L [store, r, ''public_key.pem''] = Some pub"
    "kl_kemPrivateFile L [store, l, ''sm2mlkem_private.bin''] = Some kp"
    "kl_kemPublicFile L [store, r, ''sm2mlkem_public.bin''] = Some kq"
    "kl_toECKey L priv = None \<or> kl_toECKey L pub = None"
  shows "newKeyAgreement b L SM2KA store l r = Fail ErrKeyAgreementInit \<and>
    (\<exists>m. newKeyAgreement SM2MLKEMBuild L SM2MLKEMKA store l r = Ok m \<and>
         generateOn L rnd scheme x y m = Panic ''nil pointer dereference'')"
  using assms
  by (auto simp: newKeyAgreement_def newSM2KeyAgreement_def newSM2MLKEMKeyAgreement_def NewSM2KeyAgreement_def
      NewSM2MLKEMKeyAgreement_def generateOn_def split: option.splits)

lemma hybrid_factory_nil_witness:
  "newKeyAgreement DefaultBuild (exKaLib\<lparr>kl_toECKey := \<lambda>_. None\<rparr>) SM2KA ''k'' ''a'' ''b'' = Fail ErrKeyAgreementInit"
  using hybrid_factory_nil [of "exKaLib\<lparr>kl_toECKey := \<lambda>_. None\<rparr>" "''k''" "''a''" "[1]" "''b''" "[1]" "[1]" "[1]"]
  by (simp add: exKaLib_def)

end
