(* ===== verification/Handshake.thy ===== *)
theory Handshake
  imports Prf HalfConn KeyAgreement
begin

text \<open>
  \<open>e2ewebsocket/handshake_state.go\<close> and the handshake part of \<open>session.go\<close>.  A handshake runs
  in its own goroutine and blocks three times, in \<open>readHandshake\<close>, for the peer's hello, key
  exchange and finished message; between two reads it is one function of the message and the session.
  The phases below are what it waits for, and \<open>stepPhase\<close> runs it up to the next read.

  What a handshake takes from outside is \<open>hsEnv\<close>: the libraries, the random bytes, and \<open>en_net\<close>,
  the outcome of the rest of \<open>writeRecordLocked\<close> (marking, encoding and writing a record whose
  encrypted content is given).
\<close>

section \<open>State\<close>

record hsEnv =
  en_build :: build
  en_crypto :: cryptobyte
  en_evp :: evp
  en_digests :: digests
  en_ka :: kaLib
  en_hostId :: string
  en_kaRandom :: "bytes \<times> bytes \<times> bytes"
  en_rand :: "nat \<Rightarrow> nat \<Rightarrow> bytes option"
  en_pick :: bool
  en_net :: "recordType \<Rightarrow> bytes \<Rightarrow> unit res"

text \<open>
  \<open>Session\<close>.  \<open>se_config\<close> is the configuration of the connection, which the handshake fills in;
  \<open>se_done\<close> tells whether the session is closed; \<open>se_draws\<close> counts the reads of random nonces and
  \<open>se_sent\<close> lists the records written, with their encrypted contents.
\<close>

record sess =
  se_config :: "config option"
  se_remoteId :: string
  se_vers :: u16
  se_cipherSuite :: u16
  se_secureRenegotiation :: bool
  se_curveID :: u16
  se_handshakes :: nat
  se_complete :: bool
  se_err :: "error option"
  se_in :: halfConn
  se_out :: halfConn
  se_localFinished :: bytes
  se_remoteFinished :: bytes
  se_done :: bool
  se_draws :: nat
  se_sent :: "(recordType \<times> bytes) list"

definition NewSession :: "config option \<Rightarrow> string \<Rightarrow> sess" where
  "NewSession c remoteId =
     \<lparr>se_config = c, se_remoteId = remoteId, se_vers = 0, se_cipherSuite = 0, se_secureRenegotiation = False,
      se_curveID = 0, se_handshakes = 0, se_complete = False, se_err = None, se_in = newHalfConn,
      se_out = newHalfConn, se_localFinished = replicate 12 0, se_remoteFinished = replicate 12 0,
      se_done = False, se_draws = 0, se_sent = []\<rparr>"

record handshakeState =
  hs_localId :: string
  hs_remoteId :: string
  hs_helloMsg :: helloMsg
  hs_remoteHelloMsg :: helloMsg
  hs_suite :: cipherSuite
  hs_signatureScheme :: u16
  hs_finishedHash :: finishedHash
  hs_masterSecret :: bytes

text \<open>A computation on a session: its outcome and the session after it, or it never returns.\<close>

type_synonym 'a comp = "('a res \<times> sess) option"

definition bindS :: "'a comp \<Rightarrow> ('a \<Rightarrow> sess \<Rightarrow> 'b comp) \<Rightarrow> 'b comp" where
  "bindS m f =
     (case m of None \<Rightarrow> None
      | Some (Ok x, s) \<Rightarrow> f x s
      | Some (Fail e, s) \<Rightarrow> Some (Fail e, s)
      | Some (Panic p, s) \<Rightarrow> Some (Panic p, s))"

lemma bindS_simps [simp, outcome_simps]:
  "bindS None f = None" "bindS (Some (Ok x, s)) f = f x s"
  "bindS (Some (Fail e, s)) f = Some (Fail e, s)" "bindS (Some (Panic p, s)) f = Some (Panic p, s)"
  by (simp_all add: bindS_def)

lemma bindS_Ok_iff [outcome_simps]:
  "bindS m f = Some (Ok y, s') \<longleftrightarrow> (\<exists>x s. m = Some (Ok x, s) \<and> f x s = Some (Ok y, s'))"
  by (auto simp: bindS_def split: option.splits res.splits)

section \<open>Records and messages\<close>

definition alertText :: bytes where "alertText = bytes_of_string ''Alert''"
definition ccsText :: bytes where "ccsText = bytes_of_string ''CCS''"

text \<open>
  \<open>writeRecordLocked\<close>.  When encryption fails, the session is terminated and the error is dropped;
  terminating writes an alert record, with this same function, before it closes the session.
  Without a configuration the source of randomness is a field of a nil pointer.
\<close>

partial_function (option) writeRecord :: "hsEnv \<Rightarrow> recordType \<Rightarrow> bytes \<Rightarrow> sess \<Rightarrow> (unit res \<times> sess) option" where
  "writeRecord E typ content s =
     (if se_config s = None then Some (Panic ''nil pointer dereference'', s)
      else case encrypt (en_evp E) (en_rand E (se_draws s)) [] [] (recordByte typ # content) (se_out s) of
        (Panic p, out) \<Rightarrow> Some (Panic p, s\<lparr>se_out := out\<rparr>)
      | (Fail e, out) \<Rightarrow>
          Option.bind (writeRecord E RecordAlert alertText (s\<lparr>se_out := out, se_draws := Suc (se_draws s)\<rparr>))
            (\<lambda>(r, s'). Some (case r of Panic p \<Rightarrow> (Panic p, s') | _ \<Rightarrow> (Ok (), s'\<lparr>se_done := True\<rparr>)))
      | (Ok c, out) \<Rightarrow>
          (let s' = s\<lparr>se_out := out, se_draws := Suc (se_draws s)\<rparr> in
           case en_net E typ c of
             Ok _ \<Rightarrow> Some (Ok (), s'\<lparr>se_sent := se_sent s' @ [(typ, c)]\<rparr>)
           | r \<Rightarrow> Some (r, s')))"

definition fh_transcript :: "hsEnv \<Rightarrow> handshakeMessage \<Rightarrow> finishedHash \<Rightarrow> finishedHash res" where
  "fh_transcript E msg h =
     bind_res (transcriptMsg (en_crypto E) msg []) (\<lambda>d. Ok (fh_Write (en_digests E) d h))"

text \<open>With a hash, the encoding is added to it first.\<close>

definition writeHandshakeRecord :: "hsEnv \<Rightarrow> handshakeMessage \<Rightarrow> finishedHash option \<Rightarrow> sess \<Rightarrow> finishedHash option comp" where
  "writeHandshakeRecord E msg transcript s =
     bindS (Some (marshal (en_crypto E) msg, s)) (\<lambda>data s.
     bindS (writeRecord E RecordHandshake data s) (\<lambda>_ s.
     Some (Ok (map_option (fh_Write (en_digests E) data) transcript), s)))"

definition writeChangeCipherRecord :: "hsEnv \<Rightarrow> sess \<Rightarrow> unit comp" where
  "writeChangeCipherRecord E s =
     bindS (writeRecord E RecordChangeCipherSpec ccsText s) (\<lambda>_ s.
     map_option (\<lambda>(r, out). (r, s\<lparr>se_out := out\<rparr>)) (changeCipherSpec (se_done s) (en_pick E) (se_out s)))"

text \<open>What the blocking read of \<open>readHandshake\<close> gets.\<close>

datatype hsEvent = Arrived bytes | SessionDone

definition readHandshake :: "hsEnv \<Rightarrow> hsEvent \<Rightarrow> handshakeMessage res" where
  "readHandshake E ev =
     (case ev of SessionDone \<Rightarrow> Fail ErrSessionClosed
      | Arrived data \<Rightarrow>
          if maxHandshake < length data then Fail ErrHandshakeTooLong
          else bind_res (unmarshalHandshakeMessage (en_crypto E) data None) (\<lambda>(m, _). Ok m))"

section \<open>Hello\<close>

text \<open>The configuration as \<open>makeHello\<close> leaves it: nil fields are set to their defaults.\<close>

definition fillConfig :: "config \<Rightarrow> config" where
  "fillConfig c =
     (let c1 = (if c_supportedVersions c = None then c\<lparr>c_supportedVersions := Some supportedVersions\<rparr> else c);
          c2 = (if c_CurvePreferences c1 = None then c1\<lparr>c_CurvePreferences := Some (curvePreferences c1)\<rparr> else c1)
      in if c_SignatureSchemePreference c2 = None
         then c2\<lparr>c_SignatureSchemePreference := Some defaultSupportedSignatureAlgorithms\<rparr> else c2)"

definition helloSuites :: "build \<Rightarrow> config \<Rightarrow> u16 list" where
  "helloSuites b c =
     filter (\<lambda>i. mutualCipherSuiteOld b (configCipherSuites b c) i \<noteq> None) (cipherSuitesPreferenceOrder b)"

definition makeHello :: "hsEnv \<Rightarrow> sess \<Rightarrow> helloMsg comp" where
  "makeHello E s =
     (let c = fillConfig (case se_config s of None \<Rightarrow> emptyConfig | Some c \<Rightarrow> c);
          s' = s\<lparr>se_config := Some c\<rparr>
      in if slice (c_supportedVersions c) = [] \<or> slice (c_CurvePreferences c) = [] \<or>
            slice (c_SignatureSchemePreference c) = []
         then Some (Fail ErrNoSupported, s')
         else (case en_rand E (se_draws s) 32 of
                 None \<Rightarrow> Some (Fail ErrShortRand, s'\<lparr>se_draws := Suc (se_draws s)\<rparr>)
               | Some random \<Rightarrow>
                   Some (Ok \<lparr>h_original = None, h_random = random,
                     h_cipherSuites = helloSuites (en_build E) c, h_supportedVersions = c_supportedVersions c,
                     h_supportedCurves = slice (c_CurvePreferences c),
                     h_supportedSignatureAlgorithms = slice (c_SignatureSchemePreference c),
                     h_secureRenegotiationSupported = True,
                     h_secureRenegotiation = (if 0 < se_handshakes s then se_localFinished s else []),
                     h_extensions = []\<rparr>, s'\<lparr>se_draws := Suc (se_draws s)\<rparr>)))"

definition pickE2EVersion :: "helloMsg \<Rightarrow> sess \<Rightarrow> unit comp" where
  "pickE2EVersion remoteHello s =
     (case mutualVersion (the (se_config s)) (h_supportedVersions remoteHello) of
        (vers, False) \<Rightarrow> Some (Fail ErrProtocolVersion, s)
      | (vers, True) \<Rightarrow> Some (Ok (), s\<lparr>se_vers := vers, se_in := (se_in s)\<lparr>hc_version := vers\<rparr>,
                                    se_out := (se_out s)\<lparr>hc_version := vers\<rparr>\<rparr>))"

definition pickCipherSuite :: "hsEnv \<Rightarrow> helloMsg \<Rightarrow> helloMsg \<Rightarrow> sess \<Rightarrow> cipherSuite comp" where
  "pickCipherSuite E hello remoteHello s =
     (case mutualCipherSuite (en_build E) (h_cipherSuites hello) (h_cipherSuites remoteHello) of
        None \<Rightarrow> Some (Fail ErrUnconfiguredSuite, s)
      | Some suite \<Rightarrow> Some (Ok suite, s\<lparr>se_cipherSuite := cs_id suite\<rparr>))"

definition pickSignatureScheme :: "helloMsg \<Rightarrow> helloMsg \<Rightarrow> u16 res" where
  "pickSignatureScheme hello remoteHello =
     (let scheme = mutualSignatureScheme (h_supportedSignatureAlgorithms hello)
                     (h_supportedSignatureAlgorithms remoteHello)
      in if scheme = 0 then Fail ErrUnconfiguredScheme else Ok scheme)"

definition checkRenegotiation :: "helloMsg \<Rightarrow> sess \<Rightarrow> unit comp" where
  "checkRenegotiation remoteHello s =
     (let first = (se_handshakes s = 0 \<and> h_secureRenegotiationSupported remoteHello);
          s' = (if first then s\<lparr>se_secureRenegotiation := True\<rparr> else s)
      in if first \<and> h_secureRenegotiation remoteHello \<noteq> [] then Some (Fail ErrInitialHandshake, s')
         else if 0 < se_handshakes s' \<and> se_secureRenegotiation s' \<and>
                 h_secureRenegotiation remoteHello \<noteq>
                   go_copy (replicate 12 0) (se_localFinished s') @ go_copy (replicate 12 0) (se_remoteFinished s')
         then Some (Fail ErrIncorrectRenegotiation, s')
         else Some (Ok (), s'))"

definition processHello :: "hsEnv \<Rightarrow> helloMsg \<Rightarrow> helloMsg \<Rightarrow> sess \<Rightarrow> (cipherSuite \<times> u16) comp" where
  "processHello E hello remoteHello s =
     bindS (pickCipherSuite E hello remoteHello s) (\<lambda>suite s.
     bindS (Some (pickSignatureScheme hello remoteHello, s)) (\<lambda>scheme s.
     bindS (checkRenegotiation remoteHello s) (\<lambda>_ s. Some (Ok (suite, scheme), s))))"

section \<open>Key exchange\<close>

text \<open>The first half of \<open>handshake\<close> and \<open>doFullHandshake\<close>, up to the read of the key exchange.\<close>

definition helloTranscript :: "hsEnv \<Rightarrow> string \<Rightarrow> string \<Rightarrow> helloMsg \<Rightarrow> helloMsg \<Rightarrow> finishedHash \<Rightarrow> finishedHash res" where
  "helloTranscript E localId remoteId hello remoteHello h =
     (if remoteId < localId
      then bind_res (fh_transcript E (Hello hello) h) (fh_transcript E (Hello remoteHello))
      else bind_res (fh_transcript E (Hello remoteHello) h) (fh_transcript E (Hello hello)))"

definition sendKeyExchange ::
  "hsEnv \<Rightarrow> handshakeState \<Rightarrow> sess \<Rightarrow> (handshakeState \<times> keyAgreement \<times> bytes) comp" where
  "sendKeyExchange E hs s =
     bindS (Some (newKeyAgreement (en_build E) (en_ka E) (cs_ka (hs_suite hs))
                    (keyStorePath (the (se_config s))) (hs_localId hs) (hs_remoteId hs), s)) (\<lambda>made s.
     bindS (Some (generateOn (en_ka E) (en_kaRandom E) (hs_signatureScheme hs)
                    (h_random (hs_helloMsg hs)) (h_random (hs_remoteHelloMsg hs)) made, s)) (\<lambda>(localKxm, ka) s.
     if hs_remoteId hs < hs_localId hs
     then bindS (writeHandshakeRecord E (KeyExchange localKxm) (Some (hs_finishedHash hs)) s) (\<lambda>h s.
          Some (Ok (hs\<lparr>hs_finishedHash := the h\<rparr>, ka, localKxm), s))
     else bindS (writeHandshakeRecord E (KeyExchange localKxm) None s) (\<lambda>_ s.
          Some (Ok (hs, ka, localKxm), s))))"

definition onHello :: "hsEnv \<Rightarrow> helloMsg \<Rightarrow> hsEvent \<Rightarrow> sess \<Rightarrow> (handshakeState \<times> keyAgreement \<times> bytes) comp" where
  "onHello E hello ev s =
     bindS (Some (readHandshake E ev, s)) (\<lambda>msg s.
     case msg of
       Hello remoteHello \<Rightarrow>
         bindS (pickE2EVersion remoteHello s) (\<lambda>_ s.
         bindS (processHello E hello remoteHello s) (\<lambda>(suite, scheme) s.
         bindS (Some (helloTranscript E (en_hostId E) (se_remoteId s) hello remoteHello
                        (newFinishedHash (en_digests E) suite (en_hostId E) (se_remoteId s)), s)) (\<lambda>h s.
         sendKeyExchange E
           \<lparr>hs_localId = en_hostId E, hs_remoteId = se_remoteId s, hs_helloMsg = hello,
            hs_remoteHelloMsg = remoteHello, hs_suite = suite, hs_signatureScheme = scheme,
            hs_finishedHash = h, hs_masterSecret = []\<rparr> s)))
     | _ \<Rightarrow> Some (Fail ErrUnexpectedMessage, s))"

text \<open>The randoms with the initiator's first.\<close>

definition initiatorRandom :: "handshakeState \<Rightarrow> bytes" where
  "initiatorRandom hs =
     (if hs_remoteId hs < hs_localId hs then h_random (hs_helloMsg hs) else h_random (hs_remoteHelloMsg hs))"

definition responderRandom :: "handshakeState \<Rightarrow> bytes" where
  "responderRandom hs =
     (if hs_remoteId hs < hs_localId hs then h_random (hs_remoteHelloMsg hs) else h_random (hs_helloMsg hs))"

definition kxmTranscript :: "hsEnv \<Rightarrow> handshakeState \<Rightarrow> bytes \<Rightarrow> bytes \<Rightarrow> finishedHash res" where
  "kxmTranscript E hs localKxm remoteKxm =
     (if hs_remoteId hs < hs_localId hs then fh_transcript E (KeyExchange remoteKxm) (hs_finishedHash hs)
      else bind_res (fh_transcript E (KeyExchange remoteKxm) (hs_finishedHash hs))
             (fh_transcript E (KeyExchange localKxm)))"

text \<open>
  The rest of \<open>doFullHandshake\<close>.  A message of another type is not an error: the pre-master secret
  stays nil and the transcript is left alone.
\<close>

definition readKeyExchange ::
  "hsEnv \<Rightarrow> handshakeState \<Rightarrow> keyAgreement \<Rightarrow> bytes \<Rightarrow> handshakeMessage \<Rightarrow> sess \<Rightarrow> (handshakeState \<times> bytes) comp" where
  "readKeyExchange E hs ka localKxm msg s =
     (case msg of
        KeyExchange remoteKxm \<Rightarrow>
          bindS (Some (kxmTranscript E hs localKxm remoteKxm, s)) (\<lambda>h s.
          bindS (Some (processRemoteKeyExchange (en_ka E) (hs_signatureScheme hs) (h_random (hs_helloMsg hs))
                         (h_random (hs_remoteHelloMsg hs)) remoteKxm ka, s)) (\<lambda>preMasterSecret s.
          if 3 \<le> length remoteKxm \<and> remoteKxm ! 0 = 3
          then bindS (Some (BEUint16 (drop 1 remoteKxm), s)) (\<lambda>curve s.
               Some (Ok (hs\<lparr>hs_finishedHash := h\<rparr>, preMasterSecret), s\<lparr>se_curveID := curve\<rparr>))
          else Some (Ok (hs\<lparr>hs_finishedHash := h\<rparr>, preMasterSecret), s)))
      | _ \<Rightarrow> Some (Ok (hs, []), s))"

definition deriveMaster :: "hsEnv \<Rightarrow> handshakeState \<Rightarrow> bytes \<Rightarrow> sess \<Rightarrow> handshakeState comp" where
  "deriveMaster E hs preMasterSecret s =
     bindS (map_option (\<lambda>r. (r, s)) (masterFromPreMasterSecret (en_digests E) (hs_suite hs) preMasterSecret
              (initiatorRandom hs) (responderRandom hs))) (\<lambda>ms s.
     Some (Ok (hs\<lparr>hs_masterSecret := ms\<rparr>), s))"

text \<open>A direction's cipher and MAC from its keys; \<open>reading\<close> is the flag of the responder's.\<close>

definition suiteCipher :: "hsEnv \<Rightarrow> cipherSuite \<Rightarrow> bytes \<Rightarrow> bytes \<Rightarrow> bytes \<Rightarrow> bool \<Rightarrow> (cipherObj option \<times> bytes option) res" where
  "suiteCipher E suite mac key iv reading =
     (case cs_cipher suite of
        Some f \<Rightarrow> (case cs_mac suite of None \<Rightarrow> Panic ''nil pointer dereference''
                  | Some m \<Rightarrow> Ok (Some (f key iv reading), Some (m mac)))
      | None \<Rightarrow> Ok (cs_aead suite (en_evp E) key iv, None))"

definition establishKeys :: "hsEnv \<Rightarrow> handshakeState \<Rightarrow> sess \<Rightarrow> unit comp" where
  "establishKeys E hs s =
     (let suite = hs_suite hs in
      bindS (map_option (\<lambda>r. (r, s)) (keysFromMasterSecret (en_digests E) suite (hs_masterSecret hs)
               (initiatorRandom hs) (responderRandom hs) (cs_macLen suite) (cs_keyLen suite) (cs_ivLen suite))) (\<lambda>kb s.
      bindS (Some (suiteCipher E suite (kb_clientMAC kb) (kb_clientKey kb) (kb_clientIV kb) False, s)) (\<lambda>(initC, initM) s.
      bindS (Some (suiteCipher E suite (kb_serverMAC kb) (kb_serverKey kb) (kb_serverIV kb) True, s)) (\<lambda>(respC, respM) s.
      Some (Ok (),
        if hs_remoteId hs < hs_localId hs
        then s\<lparr>se_in := prepareCipherSpec (se_vers s) respC respM (se_in s),
               se_out := prepareCipherSpec (se_vers s) initC initM (se_out s)\<rparr>
        else s\<lparr>se_in := prepareCipherSpec (se_vers s) initC initM (se_in s),
               se_out := prepareCipherSpec (se_vers s) respC respM (se_out s)\<rparr>)))))"

section \<open>Finished\<close>

definition sendFinished :: "hsEnv \<Rightarrow> handshakeState \<Rightarrow> sess \<Rightarrow> unit comp" where
  "sendFinished E hs s =
     bindS (writeChangeCipherRecord E s) (\<lambda>_ s.
     bindS (map_option (\<lambda>r. (r, s)) (localSum (en_digests E) (hs_masterSecret hs) (hs_finishedHash hs))) (\<lambda>verify s.
     bindS (writeHandshakeRecord E (Finished verify) None s) (\<lambda>_ s.
     Some (Ok (), s\<lparr>se_localFinished := go_copy (se_localFinished s) verify\<rparr>))))"

definition onKeyExchange ::
  "hsEnv \<Rightarrow> handshakeState \<Rightarrow> keyAgreement \<Rightarrow> bytes \<Rightarrow> hsEvent \<Rightarrow> sess \<Rightarrow> handshakeState comp" where
  "onKeyExchange E hs ka localKxm ev s =
     bindS (Some (readHandshake E ev, s)) (\<lambda>msg s.
     bindS (readKeyExchange E hs ka localKxm msg s) (\<lambda>(hs, preMasterSecret) s.
     bindS (deriveMaster E hs preMasterSecret s) (\<lambda>hs s.
     bindS (establishKeys E hs s) (\<lambda>_ s.
     bindS (sendFinished E hs s) (\<lambda>_ s. Some (Ok hs, s))))))"

text \<open>\<open>readFinished\<close>, and the end of \<open>handshake\<close>, which marks the handshake complete.\<close>

definition onFinished :: "hsEnv \<Rightarrow> handshakeState \<Rightarrow> hsEvent \<Rightarrow> sess \<Rightarrow> unit comp" where
  "onFinished E hs ev s =
     bindS (Some (readHandshake E ev, s)) (\<lambda>msg s.
     case msg of
       Finished verifyData \<Rightarrow>
         bindS (map_option (\<lambda>r. (r, s)) (remoteSum (en_digests E) (hs_masterSecret hs) (hs_finishedHash hs))) (\<lambda>verify s.
         if length verify \<noteq> length verifyData \<or> verify \<noteq> verifyData then Some (Fail AlertHandshakeFailure, s)
         else bindS (Some (fh_transcript E (Finished verifyData) (hs_finishedHash hs), s)) (\<lambda>_ s.
              Some (Ok (), s\<lparr>se_remoteFinished := go_copy (se_remoteFinished s) verify, se_complete := True\<rparr>)))
     | _ \<Rightarrow> Some (Fail AlertUnexpectedMessage, s))"

section \<open>The handshake\<close>

definition startHandshake :: "hsEnv \<Rightarrow> sess \<Rightarrow> helloMsg comp" where
  "startHandshake E s =
     bindS (makeHello E s) (\<lambda>hello s.
     bindS (writeHandshakeRecord E (Hello hello) None s) (\<lambda>_ s. Some (Ok hello, s)))"

datatype phase =
    AwaitHello helloMsg
  | AwaitKeyExchange handshakeState keyAgreement bytes
  | AwaitFinished handshakeState
  | Ended "unit res"

text \<open>The end of \<open>handshakeContext\<close>: the error is kept, success is counted.\<close>

definition endHandshake :: "unit res \<Rightarrow> sess \<Rightarrow> unit res \<times> sess" where
  "endHandshake r s =
     (case r of
        Ok _ \<Rightarrow>
          let s' = s\<lparr>se_err := None, se_handshakes := Suc (se_handshakes s)\<rparr> in
          if se_complete s' then (Ok (), s')
          else (Fail ErrHandshakeNoResult, s'\<lparr>se_err := Some ErrHandshakeNoResult\<rparr>)
      | Fail e \<Rightarrow>
          let s' = s\<lparr>se_err := Some e\<rparr> in
          if se_complete s' then (Fail ErrHandshakeMarked, s') else (Fail e, s')
      | Panic p \<Rightarrow> (Panic p, s))"

definition endOr :: "('a \<Rightarrow> phase) \<Rightarrow> 'a comp \<Rightarrow> (phase \<times> sess) option" where
  "endOr next c =
     map_option (\<lambda>(r, s). case r of
        Ok x \<Rightarrow> (next x, s)
      | Fail e \<Rightarrow> (let (r', s') = endHandshake (Fail e) s in (Ended r', s'))
      | Panic p \<Rightarrow> (Ended (Panic p), s)) c"

text \<open>\<open>handshakeContext\<close> up to the first read.\<close>

definition enterHandshake :: "hsEnv \<Rightarrow> sess \<Rightarrow> (phase \<times> sess) option" where
  "enterHandshake E s =
     (if se_complete s then Some (Ended (Ok ()), s)
      else case se_err s of
             Some e \<Rightarrow> Some (Ended (Fail e), s)
           | None \<Rightarrow> endOr AwaitHello (startHandshake E s))"

definition stepPhase :: "hsEnv \<Rightarrow> phase \<Rightarrow> hsEvent \<Rightarrow> sess \<Rightarrow> (phase \<times> sess) option" where
  "stepPhase E ph ev s =
     (case ph of
        AwaitHello hello \<Rightarrow> endOr (\<lambda>(hs, ka, kxm). AwaitKeyExchange hs ka kxm) (onHello E hello ev s)
      | AwaitKeyExchange hs ka kxm \<Rightarrow> endOr AwaitFinished (onKeyExchange E hs ka kxm ev s)
      | AwaitFinished hs \<Rightarrow>
          map_option (\<lambda>(r, s). let (r', s') = endHandshake r s in (Ended r', s')) (onFinished E hs ev s)
      | Ended r \<Rightarrow> Some (Ended r, s))"

fun runPhases :: "hsEnv \<Rightarrow> phase \<Rightarrow> hsEvent list \<Rightarrow> sess \<Rightarrow> (phase \<times> sess) option" where
  "runPhases E ph [] s = Some (ph, s)"
| "runPhases E ph (ev # evs) s =
     (case stepPhase E ph ev s of None \<Rightarrow> None | Some (ph', s') \<Rightarrow> runPhases E ph' evs s')"

section \<open>Single steps\<close>

definition net_ok :: "hsEnv \<Rightarrow> bool" where
  "net_ok E \<longleftrightarrow> (\<forall>t c. en_net E t c = Ok ())"

text \<open>What a handshake relies on.\<close>

definition env_ok :: "hsEnv \<Rightarrow> bool" where
  "env_ok E \<longleftrightarrow> cryptobyte_ok (en_crypto E) \<and> gcm_lib (en_evp E) \<and> digests_ok (en_digests E) \<and> net_ok E"

text \<open>A session whose handshake is under way, with no cipher yet.\<close>

definition clear :: "sess \<Rightarrow> bool" where
  "clear s \<longleftrightarrow> hc_cipher (se_in s) = None \<and> hc_cipher (se_out s) = None \<and> \<not> se_complete s \<and> se_err s = None \<and>
     se_handshakes s = 0 \<and> length (se_localFinished s) = 12 \<and> length (se_remoteFinished s) = 12 \<and>
     se_config s \<noteq> None"

lemma env_doc: "env_ok E \<Longrightarrow> en_crypto E = doc_cryptobyte"
  using cryptobyte_ok_eq by (simp add: env_ok_def)

lemma writeRecord_plain:
  assumes "net_ok E" "hc_cipher (se_out s) = None" "se_config s \<noteq> None"
  shows "writeRecord E typ content s =
    Some (Ok (), s\<lparr>se_draws := Suc (se_draws s), se_sent := se_sent s @ [(typ, recordByte typ # content)]\<rparr>)"
  using assms by (subst writeRecord.simps) (simp add: encrypt_def net_ok_def)

lemma writeRecord_sealed:
  assumes "env_ok E" "length k = 16" "iv \<noteq> []" "at_record k iv n (se_out s)" "n < 2 ^ 64 - 1" "se_config s \<noteq> None"
  shows "\<exists>out. writeRecord E typ content s =
      Some (Ok (), s\<lparr>se_out := out, se_draws := Suc (se_draws s),
        se_sent := se_sent s @ [(typ, seq_bytes n @ replicate 4 0 @
          gcm_box (en_evp E) k iv (record_aad n (Suc (length content))) (recordByte typ # content))]\<rparr>) \<and>
    at_record k iv (Suc n) out"
proof -
  have g: "gcm_lib (en_evp E)" and net: "net_ok E" using assms(1) by (simp_all add: env_ok_def)
  obtain out where o: "encrypt (en_evp E) (en_rand E (se_draws s)) [] [] (recordByte typ # content) (se_out s) =
      (Ok (seq_bytes n @ replicate 4 0 @
         gcm_box (en_evp E) k iv (record_aad n (length (recordByte typ # content))) (recordByte typ # content)), out)"
      "at_record k iv (Suc n) out"
    using encrypt_record [OF g assms(2-5)] by blast
  then show ?thesis
    using net assms(6) by (intro exI [of _ out], subst writeRecord.simps) (simp add: net_ok_def)
qed

text \<open>Encryption ends or panics; the error branch of \<open>writeRecordLocked\<close> is never taken, and its
  recursion never entered.\<close>

lemma encrypt_never_fails: "fst (encrypt L rand [] [] p hc) \<noteq> Fail e"
proof -
  have seal: "Seal L c d n x a \<noteq> Fail f" for c d n x a f
    by (auto simp: Seal_def Let_def split: res.splits)
  have inc: "fst (incSeqAndReturn x h) \<noteq> Fail e" for x h
    by (auto simp: incSeqAndReturn_def incSeq_def Let_def split: prod.splits)
  show ?thesis
    using seal inc
    by (auto simp: encrypt_def explicitNonceLen_def ExplicitNonceLen_def NonceSize_def Let_def
        split: option.splits cipherObj.splits res.splits)
qed


lemma fh_transcript_doc:
  assumes "env_ok E" "h_original m = None" "marshal doc_cryptobyte (Hello m) = Ok d"
  shows "fh_transcript E (Hello m) h = Ok (fh_Write (en_digests E) d h)"
    "fh_transcript E (Hello (hello_readback m)) h = Ok (fh_Write (en_digests E) d h)"
  using assms hello_bytes_Ok [of m d]
  by (simp_all add: fh_transcript_def env_doc transcriptMsg_def originalBytes_def hello_readback_def)

lemma fh_transcript_kxm:
  "env_ok E \<Longrightarrow> fh_transcript E (KeyExchange k) h = Ok (fh_Write (en_digests E) (keyExchangeMsg_marshal k) h)"
  by (simp add: fh_transcript_def transcriptMsg_def originalBytes_def)

lemma readHandshake_marshal:
  assumes "env_ok E" "marshal doc_cryptobyte msg = Ok d" "length d \<le> maxHandshake"
  shows "readHandshake E (Arrived d) = Ok (readback msg)"
proof -
  have "d \<noteq> []" "unmarshalAs doc_cryptobyte (hd d) d = Some (readback msg)"
    using unmarshalAs_marshal [OF assms(2)] by auto
  then show ?thesis
    using assms(3) env_doc [OF assms(1)]
    by (cases d) (simp_all add: readHandshake_def unmarshalHandshakeMessage_def)
qed

lemma suite_cases:
  "mutualCipherSuite b x y = Some su \<Longrightarrow> su = suiteSM2 \<or> su = suiteSM2MLKEM"
  by (auto simp: mutualCipherSuite_def cipherSuiteByID_def cipherSuites_def Let_def
      split: if_splits build.splits)

definition real_suite :: "cipherSuite \<Rightarrow> bool" where
  "real_suite su \<longleftrightarrow> su = suiteSM2 \<or> su = suiteSM2MLKEM"

lemma real_suite_simps:
  assumes "real_suite su"
  shows "cs_keyLen su = 16" "cs_macLen su = 0" "cs_ivLen su = 4" "cs_cipher su = None" "cs_aead su = aeadSM4"
  using assms by (auto simp: real_suite_def suiteSM2_def suiteSM2MLKEM_def)

text \<open>The traffic keys of a direction: the initiator's (\<open>True\<close>) or the responder's.\<close>

definition dirKey :: "keyBlock \<Rightarrow> bool \<Rightarrow> bytes" where
  "dirKey kb initiator = (if initiator then kb_clientKey kb else kb_serverKey kb)"

definition dirIV :: "keyBlock \<Rightarrow> bool \<Rightarrow> bytes" where
  "dirIV kb initiator = (if initiator then kb_clientIV kb else kb_serverIV kb)"

lemma suiteKeys_lengths:
  assumes "digests_ok D" "real_suite su"
  shows "length (dirKey (suiteKeys D su ms ir rr) i) = 16" "dirIV (suiteKeys D su ms ir rr) i \<noteq> []"
proof -
  have l: "length (suitePRF D su ms keyExpansionLabel (rr @ ir)
      (2 * cs_macLen su + 2 * cs_keyLen su + 2 * cs_ivLen su)) =
      2 * cs_macLen su + 2 * cs_keyLen su + 2 * cs_ivLen su"
    using prfOf_suitePRF(2) [OF assms(1)] .
  have "length (kb_clientIV (suiteKeys D su ms ir rr)) = 4" "length (kb_serverIV (suiteKeys D su ms ir rr)) = 4"
    "length (dirKey (suiteKeys D su ms ir rr) i) = 16"
    using cutKeys_partition [OF l] real_suite_simps [OF assms(2)] by (auto simp: suiteKeys_def dirKey_def)
  then show "length (dirKey (suiteKeys D su ms ir rr) i) = 16" "dirIV (suiteKeys D su ms ir rr) i \<noteq> []"
    by (auto simp: dirIV_def)
qed

section \<open>After the key exchange\<close>

definition hsInitiator :: "handshakeState \<Rightarrow> bool" where
  "hsInitiator hs \<longleftrightarrow> hs_remoteId hs < hs_localId hs"

definition hsMaster :: "digests \<Rightarrow> handshakeState \<Rightarrow> bytes \<Rightarrow> bytes" where
  "hsMaster D hs pms = suiteMaster D (hs_suite hs) pms (initiatorRandom hs) (responderRandom hs)"

definition hsKeys :: "digests \<Rightarrow> handshakeState \<Rightarrow> bytes \<Rightarrow> keyBlock" where
  "hsKeys D hs pms = suiteKeys D (hs_suite hs) (hsMaster D hs pms) (initiatorRandom hs) (responderRandom hs)"

lemma hs_master_frame [simp]:
  "hsInitiator (hs\<lparr>hs_masterSecret := m\<rparr>) = hsInitiator hs" "hsInitiator (hs\<lparr>hs_finishedHash := h\<rparr>) = hsInitiator hs"
  "initiatorRandom (hs\<lparr>hs_masterSecret := m\<rparr>) = initiatorRandom hs"
  "responderRandom (hs\<lparr>hs_masterSecret := m\<rparr>) = responderRandom hs"
  "initiatorRandom (hs\<lparr>hs_finishedHash := h\<rparr>) = initiatorRandom hs"
  "responderRandom (hs\<lparr>hs_finishedHash := h\<rparr>) = responderRandom hs"
  by (simp_all add: hsInitiator_def initiatorRandom_def responderRandom_def)

text \<open>Keys are established in both directions.\<close>

definition keyed :: "keyBlock \<Rightarrow> bool \<Rightarrow> sess \<Rightarrow> bool" where
  "keyed kb initiator s \<longleftrightarrow>
     (\<exists>c. hc_nextCipher (se_in s) = Some (AEADObj c) \<and> aead_of c (dirKey kb (\<not> initiator)) (dirIV kb (\<not> initiator))) \<and>
     (\<exists>c. hc_nextCipher (se_out s) = Some (AEADObj c) \<and> aead_of c (dirKey kb initiator) (dirIV kb initiator))"

lemma establishKeys_keyed:
  assumes "env_ok E" "real_suite (hs_suite hs)" "hs_masterSecret hs = hsMaster (en_digests E) hs pms" "clear s"
  shows "\<exists>inn out. establishKeys E hs s = Some (Ok (), s\<lparr>se_in := inn, se_out := out\<rparr>) \<and>
    keyed (hsKeys (en_digests E) hs pms) (hsInitiator hs) (s\<lparr>se_in := inn, se_out := out\<rparr>) \<and>
    hc_cipher inn = None \<and> hc_cipher out = None"
proof -
  let ?kb = "hsKeys (en_digests E) hs pms"
  have d: "digests_ok (en_digests E)" and g: "gcm_lib (en_evp E)" using assms(1) by (simp_all add: env_ok_def)
  have ne: "dirIV ?kb i \<noteq> []" for i using suiteKeys_lengths(2) [OF d assms(2)] by (simp add: hsKeys_def)
  obtain ci where ci: "NewSm4AEADCipher (en_evp E) (kb_clientKey ?kb) (kb_clientIV ?kb) = Some ci"
      "aead_of ci (kb_clientKey ?kb) (kb_clientIV ?kb)"
    using NewSm4AEADCipher_aead_of [OF g, of "kb_clientIV ?kb" "kb_clientKey ?kb"] ne [of True] by (auto simp: dirIV_def)
  obtain cr where cr: "NewSm4AEADCipher (en_evp E) (kb_serverKey ?kb) (kb_serverIV ?kb) = Some cr"
      "aead_of cr (kb_serverKey ?kb) (kb_serverIV ?kb)"
    using NewSm4AEADCipher_aead_of [OF g, of "kb_serverIV ?kb" "kb_serverKey ?kb"] ne [of False] by (auto simp: dirIV_def)
  have k: "keysFromMasterSecret (en_digests E) (hs_suite hs) (hs_masterSecret hs) (initiatorRandom hs) (responderRandom hs)
      (cs_macLen (hs_suite hs)) (cs_keyLen (hs_suite hs)) (cs_ivLen (hs_suite hs)) = Some (Ok ?kb)"
    using keys_suiteKeys [OF d] by (simp add: hsKeys_def assms(3))
  let ?inn = "prepareCipherSpec (se_vers s) (Some (AEADObj (if hsInitiator hs then cr else ci))) None (se_in s)"
  let ?out = "prepareCipherSpec (se_vers s) (Some (AEADObj (if hsInitiator hs then ci else cr))) None (se_out s)"
  have "establishKeys E hs s = Some (Ok (), s\<lparr>se_in := ?inn, se_out := ?out\<rparr>)"
    using ci(1) cr(1) real_suite_simps(4,5) [OF assms(2)]
    by (simp add: establishKeys_def k Let_def suiteCipher_def aeadSM4_def hsInitiator_def)
  moreover have "keyed ?kb (hsInitiator hs) (s\<lparr>se_in := ?inn, se_out := ?out\<rparr>)"
    using ci(2) cr(2) by (simp add: keyed_def dirKey_def dirIV_def prepareCipherSpec_def)
  moreover have "hc_cipher ?inn = None" "hc_cipher ?out = None"
    using assms(4) by (simp_all add: clear_def prepareCipherSpec_def)
  ultimately show ?thesis by blast
qed

text \<open>The record of a finished message: number 0 of its direction.\<close>

definition finishedBytes :: "bytes \<Rightarrow> bytes" where
  "finishedBytes v = typeFinished # len24 (length v) @ v"

definition finishedRecord :: "evp \<Rightarrow> keyBlock \<Rightarrow> bool \<Rightarrow> bytes \<Rightarrow> bytes" where
  "finishedRecord L kb initiator v =
     seq_bytes 0 @ replicate 4 0 @
     gcm_box L (dirKey kb initiator) (dirIV kb initiator) (record_aad 0 (Suc (length (finishedBytes v))))
       (recordByte RecordHandshake # finishedBytes v)"

definition verifyValue :: "digests \<Rightarrow> bytes \<Rightarrow> finishedHash \<Rightarrow> string \<Rightarrow> bytes" where
  "verifyValue D ms h label = suitePRF D (fh_suite h) ms label (fh_Sum D h) finishedVerifyLength"

lemma verifyValue_sums:
  assumes "digests_ok D"
  shows "localSum D ms h = Some (Ok (verifyValue D ms h (fh_localLabel h)))"
    "remoteSum D ms h = Some (Ok (verifyValue D ms h (fh_remoteLabel h)))"
    "length (verifyValue D ms h l) = 12"
  by (simp_all add: localSum_def remoteSum_def verifyValue_def prfOf_suitePRF [OF assms] finishedVerifyLength_def)

lemma switch_prepared:
  assumes "hc_nextCipher hc = Some (AEADObj c)" "aead_of c k iv"
  shows "\<exists>hc'. changeCipherSpec closed pick hc = Some (Ok (), hc') \<and> at_record k iv 0 hc'"
  using assms by (auto simp: changeCipherSpec_def switchCipher_def at_record_def seq_bytes_0)

lemma sendFinished_keyed:
  assumes "env_ok E" "digests_ok D" "real_suite (hs_suite hs)" "kb = hsKeys D hs pms" "keyed kb i s"
    "hc_cipher (se_out s) = None" "D = en_digests E" "se_config s \<noteq> None"
  defines "v \<equiv> verifyValue D (hs_masterSecret hs) (hs_finishedHash hs) (fh_localLabel (hs_finishedHash hs))"
  shows "\<exists>out. sendFinished E hs s = Some (Ok (),
      s\<lparr>se_out := out, se_draws := Suc (Suc (se_draws s)),
        se_sent := se_sent s @ [(RecordChangeCipherSpec, recordByte RecordChangeCipherSpec # ccsText),
                                (RecordHandshake, finishedRecord (en_evp E) kb i v)],
        se_localFinished := go_copy (se_localFinished s) v\<rparr>) \<and>
    at_record (dirKey kb i) (dirIV kb i) 1 out"
proof -
  have lens: "length (dirKey kb i) = 16" "dirIV kb i \<noteq> []"
    using suiteKeys_lengths [OF assms(2,3)] by (simp_all add: assms(4) hsKeys_def)
  let ?s1 = "s\<lparr>se_draws := Suc (se_draws s),
    se_sent := se_sent s @ [(RecordChangeCipherSpec, recordByte RecordChangeCipherSpec # ccsText)]\<rparr>"
  have w: "writeRecord E RecordChangeCipherSpec ccsText s = Some (Ok (), ?s1)"
    using writeRecord_plain assms(1,6,8) by (simp add: env_ok_def)
  obtain c where c: "hc_nextCipher (se_out s) = Some (AEADObj c)" "aead_of c (dirKey kb i) (dirIV kb i)"
    using assms(5) by (auto simp: keyed_def)
  obtain o1 where o1: "changeCipherSpec (se_done s) (en_pick E) (se_out s) = Some (Ok (), o1)"
      "at_record (dirKey kb i) (dirIV kb i) 0 o1"
    using switch_prepared [OF c] by blast
  have m: "marshal doc_cryptobyte (Finished v) = Ok (finishedBytes v)"
    using verifyValue_sums(3) [OF assms(2)] by (simp add: v_def finishedMsg_marshal_doc finishedBytes_def)
  let ?s2 = "?s1\<lparr>se_out := o1\<rparr>"
  have z: "0 < (2::nat) ^ 64 - 1" by simp
  have at: "at_record (dirKey kb i) (dirIV kb i) 0 (se_out ?s2)" using o1(2) by simp
  obtain o2 where o2: "writeRecord E RecordHandshake (finishedBytes v) ?s2 = Some (Ok (),
      ?s2\<lparr>se_out := o2, se_draws := Suc (se_draws ?s2),
        se_sent := se_sent ?s2 @ [(RecordHandshake, finishedRecord (en_evp E) kb i v)]\<rparr>)"
      "at_record (dirKey kb i) (dirIV kb i) 1 o2"
    using writeRecord_sealed [OF assms(1) lens at z, of RecordHandshake "finishedBytes v"] assms(8)
    by (auto simp: finishedRecord_def)
  show ?thesis
    using w o1 o2 m verifyValue_sums(1) [OF assms(2), of "hs_masterSecret hs" "hs_finishedHash hs"] env_doc [OF assms(1)]
    by (intro exI [of _ o2])
      (simp add: sendFinished_def writeChangeCipherRecord_def writeHandshakeRecord_def v_def [symmetric] assms(7) [symmetric])
qed

lemma onKeyExchange_keyed:
  assumes "env_ok E" "real_suite (hs_suite hs1)" "clear s1" "readHandshake E ev = Ok msg"
    "readKeyExchange E hs ka localKxm msg s = Some (Ok (hs1, pms), s1)"
  defines "D \<equiv> en_digests E"
  defines "kb \<equiv> hsKeys D hs1 pms"
  defines "hs2 \<equiv> hs1\<lparr>hs_masterSecret := hsMaster D hs1 pms\<rparr>"
  defines "v \<equiv> verifyValue D (hsMaster D hs1 pms) (hs_finishedHash hs1) (fh_localLabel (hs_finishedHash hs1))"
  shows "\<exists>inn out. onKeyExchange E hs ka localKxm ev s = Some (Ok hs2,
      s1\<lparr>se_in := inn, se_out := out, se_draws := Suc (Suc (se_draws s1)),
        se_sent := se_sent s1 @ [(RecordChangeCipherSpec, recordByte RecordChangeCipherSpec # ccsText),
                                 (RecordHandshake, finishedRecord (en_evp E) kb (hsInitiator hs1) v)],
        se_localFinished := v\<rparr>) \<and>
    at_record (dirKey kb (hsInitiator hs1)) (dirIV kb (hsInitiator hs1)) 1 out \<and> hc_cipher inn = None \<and>
    (\<exists>c. hc_nextCipher inn = Some (AEADObj c) \<and>
         aead_of c (dirKey kb (\<not> hsInitiator hs1)) (dirIV kb (\<not> hsInitiator hs1)))"
proof -
  have d: "digests_ok D" using assms(1) by (simp add: env_ok_def D_def)
  have Deq: "D = en_digests E" by (simp add: D_def)
  have m: "deriveMaster E hs1 pms s1 = Some (Ok hs2, s1)"
    using master_suiteMaster [OF d] by (simp add: deriveMaster_def D_def hs2_def hsMaster_def)
  have r2: "real_suite (hs_suite hs2)" using assms(2) by (simp add: hs2_def)
  have k2: "hsKeys (en_digests E) hs2 pms = kb" by (simp add: hsKeys_def kb_def hs2_def hsMaster_def D_def)
  have m2: "hs_masterSecret hs2 = hsMaster (en_digests E) hs2 pms" by (simp add: hs2_def hsMaster_def D_def)
  have i2: "hsInitiator hs2 = hsInitiator hs1" by (simp add: hs2_def)
  obtain inn o1 where e: "establishKeys E hs2 s1 = Some (Ok (), s1\<lparr>se_in := inn, se_out := o1\<rparr>)"
      "keyed kb (hsInitiator hs1) (s1\<lparr>se_in := inn, se_out := o1\<rparr>)" "hc_cipher inn = None" "hc_cipher o1 = None"
    using establishKeys_keyed [OF assms(1) r2 m2 assms(3)] unfolding k2 i2 by blast
  let ?s2 = "s1\<lparr>se_in := inn, se_out := o1\<rparr>"
  have c2: "hc_cipher (se_out ?s2) = None" using e(4) by simp
  have vv: "verifyValue D (hs_masterSecret hs2) (hs_finishedHash hs2) (fh_localLabel (hs_finishedHash hs2)) = v"
    by (simp add: v_def hs2_def)
  obtain out where o: "sendFinished E hs2 ?s2 = Some (Ok (),
      ?s2\<lparr>se_out := out, se_draws := Suc (Suc (se_draws ?s2)),
        se_sent := se_sent ?s2 @ [(RecordChangeCipherSpec, recordByte RecordChangeCipherSpec # ccsText),
                                (RecordHandshake, finishedRecord (en_evp E) kb (hsInitiator hs1) v)],
        se_localFinished := go_copy (se_localFinished ?s2) v\<rparr>)"
      "at_record (dirKey kb (hsInitiator hs1)) (dirIV kb (hsInitiator hs1)) 1 out"
    using sendFinished_keyed [OF assms(1) d r2 k2 [symmetric, folded Deq] e(2) c2 Deq] assms(3)
    unfolding vv by (auto simp: clear_def)
  have v12: "length v = 12" using verifyValue_sums(3) [OF d] by (simp add: v_def)
  have cp: "go_copy (se_localFinished s1) v = v"
    using assms(3) v12 by (simp add: clear_def go_copy_def)
  have "onKeyExchange E hs ka localKxm ev s = Some (Ok hs2,
      s1\<lparr>se_in := inn, se_out := out, se_draws := Suc (Suc (se_draws s1)),
        se_sent := se_sent s1 @ [(RecordChangeCipherSpec, recordByte RecordChangeCipherSpec # ccsText),
                                 (RecordHandshake, finishedRecord (en_evp E) kb (hsInitiator hs1) v)],
        se_localFinished := v\<rparr>)"
    using assms(4,5) m e(1) o(1) cp by (simp add: onKeyExchange_def)
  then show ?thesis
    using o(2) e(2,3) by (intro exI [of _ inn] exI [of _ out]) (simp add: keyed_def)
qed

section \<open>One party\<close>

lemma endOr_cases:
  assumes "endOr next c = Some (ph, s)" "\<And>r. ph \<noteq> Ended r"
  shows "\<exists>x. c = Some (Ok x, s) \<and> ph = next x"
proof -
  obtain r s0 where c: "c = Some (r, s0)" using assms(1) by (auto simp: endOr_def)
  show ?thesis using assms c by (cases r) (auto simp: endOr_def Let_def split_def)
qed

lemma endOr_Ok [simp]: "endOr next (Some (Ok x, s)) = Some (next x, s)"
  by (simp add: endOr_def)

text \<open>What is known of a session that has sent its hello.\<close>

definition helloSent :: "hsEnv \<Rightarrow> helloMsg \<Rightarrow> sess \<Rightarrow> bool" where
  "helloSent E h s \<longleftrightarrow> clear s \<and> h_original h = None \<and> marshal doc_cryptobyte (Hello h) = Ok (hello_bytes h) \<and>
     (\<exists>c. se_config s = Some c \<and> h_cipherSuites h = helloSuites (en_build E) c)"

lemma enterHandshake_fresh:
  assumes "env_ok E" "enterHandshake E (NewSession c r) = Some (AwaitHello h, s1)"
  shows "helloSent E h s1" "se_remoteId s1 = r" "se_sent s1 = [(RecordHandshake, recordByte RecordHandshake # hello_bytes h)]"
proof -
  have "endOr AwaitHello (startHandshake E (NewSession c r)) = Some (AwaitHello h, s1)"
    using assms(2) by (simp add: enterHandshake_def NewSession_def)
  then have st: "startHandshake E (NewSession c r) = Some (Ok h, s1)" using endOr_cases by fastforce
  then obtain s0 where s0: "makeHello E (NewSession c r) = Some (Ok h, s0)"
      "writeHandshakeRecord E (Hello h) None s0 = Some (Ok None, s1)"
    by (auto simp: startHandshake_def outcome_simps writeHandshakeRecord_def)
  have m: "clear s0" "h_original h = None" "se_remoteId s0 = r" "se_sent s0 = []"
      "\<exists>c. se_config s0 = Some c \<and> h_cipherSuites h = helloSuites (en_build E) c"
    using s0(1) by (auto simp: makeHello_def Let_def clear_def NewSession_def newHalfConn_def split: if_splits option.splits)
  obtain d where d: "marshal (en_crypto E) (Hello h) = Ok d" "writeRecord E RecordHandshake d s0 = Some (Ok (), s1)"
    using s0(2) by (auto simp: writeHandshakeRecord_def outcome_simps)
  have db: "d = hello_bytes h" using d(1) hello_bytes_Ok env_doc [OF assms(1)] by simp
  have s1: "s1 = s0\<lparr>se_draws := Suc (se_draws s0), se_sent := [(RecordHandshake, recordByte RecordHandshake # hello_bytes h)]\<rparr>"
    using d(2) writeRecord_plain [of E s0 RecordHandshake d] assms(1) m(1,4) db by (simp add: env_ok_def clear_def)
  show "helloSent E h s1" "se_remoteId s1 = r" "se_sent s1 = [(RecordHandshake, recordByte RecordHandshake # hello_bytes h)]"
    using m d(1) db env_doc [OF assms(1)] by (auto simp: helloSent_def s1 clear_def)
qed

text \<open>What is known of a handshake that has sent its key exchange, after the hellos \<open>h\<close> and \<open>h'\<close>.\<close>

definition kxmSent :: "hsEnv \<Rightarrow> helloMsg \<Rightarrow> helloMsg \<Rightarrow> config \<Rightarrow> string \<Rightarrow> handshakeState \<Rightarrow> keyAgreement \<Rightarrow> bytes \<Rightarrow> bool" where
  "kxmSent E h h' c r hs ka kx \<longleftrightarrow>
     hs_localId hs = en_hostId E \<and> hs_remoteId hs = r \<and> hs_helloMsg hs = h \<and> hs_remoteHelloMsg hs = hello_readback h' \<and>
     mutualCipherSuite (en_build E) (h_cipherSuites h) (h_cipherSuites h') = Some (hs_suite hs) \<and>
     fh_suite (hs_finishedHash hs) = hs_suite hs \<and> fh_alg (hs_finishedHash hs) = prfAndHash (hs_suite hs) \<and>
     fh_localLabel (hs_finishedHash hs) = en_hostId E \<and> fh_remoteLabel (hs_finishedHash hs) = r \<and>
     fh_core (hs_finishedHash hs) =
       (if hsInitiator hs then hello_bytes h @ hello_bytes h' @ keyExchangeMsg_marshal kx
        else hello_bytes h' @ hello_bytes h) \<and>
     (\<exists>a. newKeyAgreement (en_build E) (en_ka E) (cs_ka (hs_suite hs)) (keyStorePath c) (en_hostId E) r = Ok (Made a) \<and>
          generateOn (en_ka E) (en_kaRandom E) (hs_signatureScheme hs) (h_random h) (h_random h') (Made a) = Ok (kx, ka))"

lemma hello_readback_simps [simp]:
  "h_random (hello_readback m) = h_random m" "h_cipherSuites (hello_readback m) = h_cipherSuites m"
  "h_original (hello_readback m) = Some (hello_bytes m)" "h_secureRenegotiation (hello_readback m) = []"
  "h_supportedSignatureAlgorithms (hello_readback m) = h_supportedSignatureAlgorithms m"
  by (simp_all add: hello_readback_def)

lemma sendKeyExchange_Ok:
  assumes "env_ok E" "clear s" "sendKeyExchange E hs s = Some (Ok (hs', ka, kx), s')"
  shows "clear s' \<and> se_sent s' = se_sent s @ [(RecordHandshake, recordByte RecordHandshake # keyExchangeMsg_marshal kx)] \<and>
    se_remoteId s' = se_remoteId s \<and> se_config s' = se_config s \<and>
    hs' = hs\<lparr>hs_finishedHash := (if hsInitiator hs
      then fh_Write (en_digests E) (keyExchangeMsg_marshal kx) (hs_finishedHash hs) else hs_finishedHash hs)\<rparr> \<and>
    (\<exists>a. newKeyAgreement (en_build E) (en_ka E) (cs_ka (hs_suite hs)) (keyStorePath (the (se_config s)))
           (hs_localId hs) (hs_remoteId hs) = Ok (Made a) \<and>
         generateOn (en_ka E) (en_kaRandom E) (hs_signatureScheme hs) (h_random (hs_helloMsg hs))
           (h_random (hs_remoteHelloMsg hs)) (Made a) = Ok (kx, ka))"
proof -
  obtain made where made: "newKeyAgreement (en_build E) (en_ka E) (cs_ka (hs_suite hs)) (keyStorePath (the (se_config s)))
           (hs_localId hs) (hs_remoteId hs) = Ok made"
      "generateOn (en_ka E) (en_kaRandom E) (hs_signatureScheme hs) (h_random (hs_helloMsg hs))
           (h_random (hs_remoteHelloMsg hs)) made = Ok (kx, ka)"
    using assms(3) by (auto simp: sendKeyExchange_def outcome_simps split: if_splits)
  have "made \<noteq> NilHybrid" using made(2) by (auto simp: generateOn_def)
  then obtain a where a: "made = Made a" by (cases made) auto
  have w: "writeRecord E RecordHandshake (keyExchangeMsg_marshal kx) s = Some (Ok (),
      s\<lparr>se_draws := Suc (se_draws s),
        se_sent := se_sent s @ [(RecordHandshake, recordByte RecordHandshake # keyExchangeMsg_marshal kx)]\<rparr>)"
    using writeRecord_plain assms(1,2) by (simp add: env_ok_def clear_def)
  show ?thesis
    using assms(2,3) made a w
    by (auto simp: sendKeyExchange_def writeHandshakeRecord_def hsInitiator_def clear_def split: if_splits)
qed

lemma helloTranscript_core:
  assumes "env_ok E" "h_original h = None" "marshal doc_cryptobyte (Hello h) = Ok (hello_bytes h)"
    "marshal doc_cryptobyte (Hello h') = Ok (hello_bytes h')"
    "helloTranscript E l r h (hello_readback h') (newFinishedHash D suite l r) = Ok f"
  shows "f = (newFinishedHash D suite l r)\<lparr>fh_core := (if r < l then hello_bytes h @ hello_bytes h' else hello_bytes h' @ hello_bytes h)\<rparr>"
proof -
  have o: "fh_transcript E (Hello h) f = Ok (f\<lparr>fh_core := fh_core f @ hello_bytes h\<rparr>)" for f
    using fh_transcript_doc(1) [OF assms(1-3)] by (simp add: fh_Write_core)
  have "fh_transcript E (Hello (hello_readback h')) f = Ok (f\<lparr>fh_core := fh_core f @ hello_bytes h'\<rparr>)" for f
    by (simp add: fh_transcript_def transcriptMsg_def originalBytes_def fh_Write_core)
  then show ?thesis using assms(5) o by (simp add: helloTranscript_def split: if_splits)
qed

lemma stepPhase_hello:
  assumes "env_ok E" "helloSent E h s1" "marshal doc_cryptobyte (Hello h') = Ok (hello_bytes h')"
    "stepPhase E (AwaitHello h) (Arrived (hello_bytes h')) s1 = Some (AwaitKeyExchange hs ka kx, s2)"
  shows "clear s2 \<and> se_sent s2 = se_sent s1 @ [(RecordHandshake, recordByte RecordHandshake # keyExchangeMsg_marshal kx)] \<and>
    kxmSent E h h' (the (se_config s1)) (se_remoteId s1) hs ka kx"
proof -
  have "onHello E h (Arrived (hello_bytes h')) s1 = Some (Ok (hs, ka, kx), s2)"
    using endOr_cases [of _ "onHello E h (Arrived (hello_bytes h')) s1" "AwaitKeyExchange hs ka kx" s2] assms(4)
    by (fastforce simp: stepPhase_def)
  then obtain msg where msg: "readHandshake E (Arrived (hello_bytes h')) = Ok msg"
      "bindS (Some (Ok msg, s1)) (\<lambda>msg s. case msg of
       Hello remoteHello \<Rightarrow>
         bindS (pickE2EVersion remoteHello s) (\<lambda>_ s.
         bindS (processHello E h remoteHello s) (\<lambda>(suite, scheme) s.
         bindS (Some (helloTranscript E (en_hostId E) (se_remoteId s) h remoteHello
                        (newFinishedHash (en_digests E) suite (en_hostId E) (se_remoteId s)), s)) (\<lambda>f s.
         sendKeyExchange E
           \<lparr>hs_localId = en_hostId E, hs_remoteId = se_remoteId s, hs_helloMsg = h,
            hs_remoteHelloMsg = remoteHello, hs_suite = suite, hs_signatureScheme = scheme,
            hs_finishedHash = f, hs_masterSecret = []\<rparr> s)))
     | _ \<Rightarrow> Some (Fail ErrUnexpectedMessage, s)) = Some (Ok (hs, ka, kx), s2)"
    by (auto simp: onHello_def outcome_simps)
  have "length (hello_bytes h') \<le> maxHandshake" using msg(1) by (auto simp: readHandshake_def split: if_splits)
  then have mh: "msg = Hello (hello_readback h')"
    using readHandshake_marshal [OF assms(1,3)] msg(1) by simp
  let ?r = "hello_readback h'"
  obtain u1 where u1: "pickE2EVersion ?r s1 = Some (Ok (), u1)" and
    "bindS (processHello E h ?r u1) (\<lambda>(suite, scheme) s.
         bindS (Some (helloTranscript E (en_hostId E) (se_remoteId s) h ?r
                        (newFinishedHash (en_digests E) suite (en_hostId E) (se_remoteId s)), s)) (\<lambda>f s.
         sendKeyExchange E
           \<lparr>hs_localId = en_hostId E, hs_remoteId = se_remoteId s, hs_helloMsg = h,
            hs_remoteHelloMsg = ?r, hs_suite = suite, hs_signatureScheme = scheme,
            hs_finishedHash = f, hs_masterSecret = []\<rparr> s)) = Some (Ok (hs, ka, kx), s2)"
    using msg(2) by (auto simp: mh bindS_Ok_iff)
  then obtain suite scheme u2 f where u2: "processHello E h ?r u1 = Some (Ok (suite, scheme), u2)"
    and f: "helloTranscript E (en_hostId E) (se_remoteId u2) h ?r
              (newFinishedHash (en_digests E) suite (en_hostId E) (se_remoteId u2)) = Ok f"
    and k: "sendKeyExchange E
           \<lparr>hs_localId = en_hostId E, hs_remoteId = se_remoteId u2, hs_helloMsg = h,
            hs_remoteHelloMsg = ?r, hs_suite = suite, hs_signatureScheme = scheme,
            hs_finishedHash = f, hs_masterSecret = []\<rparr> u2 = Some (Ok (hs, ka, kx), s2)"
    by (auto simp: bindS_Ok_iff)
  have v: "clear u1 \<and> se_remoteId u1 = se_remoteId s1 \<and> se_sent u1 = se_sent s1 \<and> se_config u1 = se_config s1"
    using u1 assms(2) by (auto simp: pickE2EVersion_def clear_def helloSent_def split: prod.splits bool.splits)
  have w: "clear u2 \<and> se_remoteId u2 = se_remoteId s1 \<and> se_sent u2 = se_sent s1 \<and> se_config u2 = se_config s1 \<and>
      mutualCipherSuite (en_build E) (h_cipherSuites h) (h_cipherSuites h') = Some suite"
    using u2 v
    by (auto simp: processHello_def pickCipherSuite_def pickSignatureScheme_def checkRenegotiation_def bindS_Ok_iff
        clear_def Let_def split: option.splits if_splits intro: sym)
  have o: "h_original h = None" "marshal doc_cryptobyte (Hello h) = Ok (hello_bytes h)"
    using assms(2) by (auto simp: helloSent_def)
  have f': "f = (newFinishedHash (en_digests E) suite (en_hostId E) (se_remoteId s1))\<lparr>fh_core :=
      (if se_remoteId s1 < en_hostId E then hello_bytes h @ hello_bytes h' else hello_bytes h' @ hello_bytes h)\<rparr>"
    using helloTranscript_core [OF assms(1) o assms(3) f] w by simp
  have cu: "clear u2" using w by blast
  show ?thesis
    using sendKeyExchange_Ok [OF assms(1) cu k] w
    by (auto simp: kxmSent_def hsInitiator_def f' fh_Write_core)
qed

lemma readKeyExchange_honest:
  assumes "env_ok E" "processRemoteKeyExchange (en_ka E) (hs_signatureScheme hs) (h_random (hs_helloMsg hs))
      (h_random (hs_remoteHelloMsg hs)) kx' ka = Ok pms"
  shows "\<exists>curve. readKeyExchange E hs ka kx (KeyExchange kx') s =
    Some (Ok (hs\<lparr>hs_finishedHash := (hs_finishedHash hs)\<lparr>fh_core := fh_core (hs_finishedHash hs) @
      (if hsInitiator hs then keyExchangeMsg_marshal kx' else keyExchangeMsg_marshal kx' @ keyExchangeMsg_marshal kx)\<rparr>\<rparr>,
      pms), s\<lparr>se_curveID := curve\<rparr>)"
proof -
  have t: "kxmTranscript E hs kx kx' = Ok ((hs_finishedHash hs)\<lparr>fh_core := fh_core (hs_finishedHash hs) @
      (if hsInitiator hs then keyExchangeMsg_marshal kx' else keyExchangeMsg_marshal kx' @ keyExchangeMsg_marshal kx)\<rparr>)"
    using fh_transcript_kxm [OF assms(1)] by (simp add: kxmTranscript_def hsInitiator_def fh_Write_core)
  show ?thesis
  proof (cases "3 \<le> length kx' \<and> kx' ! 0 = 3")
    case True
    then have "BEUint16 (drop 1 kx') = Ok (join16 (kx' ! 1) (kx' ! 2))"
      by (auto simp: BEUint16_def numeral_2_eq_2)
    then show ?thesis using True t assms(2) by (auto simp: readKeyExchange_def)
  next
    case False
    have "\<exists>curve. s = s\<lparr>se_curveID := curve\<rparr>" by (rule exI [of _ "se_curveID s"]) simp
    then show ?thesis using False t assms(2) by (auto simp: readKeyExchange_def)
  qed
qed

text \<open>From the key exchange on: the state of the handshake, what it sends, and its ciphers.\<close>

lemma stepPhase_kxm:
  assumes "env_ok E" "real_suite (hs_suite hs1)" "clear s1" "readHandshake E ev = Ok msg"
    "readKeyExchange E hs ka kx msg s = Some (Ok (hs1, pms), s1)"
  defines "kb \<equiv> hsKeys (en_digests E) hs1 pms" and "ms \<equiv> hsMaster (en_digests E) hs1 pms"
  shows "\<exists>s2. stepPhase E (AwaitKeyExchange hs ka kx) ev s = Some (AwaitFinished (hs1\<lparr>hs_masterSecret := ms\<rparr>), s2) \<and>
    se_sent s2 = se_sent s1 @
      [(RecordChangeCipherSpec, recordByte RecordChangeCipherSpec # ccsText),
       (RecordHandshake, finishedRecord (en_evp E) kb (hsInitiator hs1)
          (verifyValue (en_digests E) ms (hs_finishedHash hs1) (fh_localLabel (hs_finishedHash hs1))))] \<and>
    at_record (dirKey kb (hsInitiator hs1)) (dirIV kb (hsInitiator hs1)) 1 (se_out s2) \<and>
    hc_cipher (se_in s2) = None \<and>
    (\<exists>c. hc_nextCipher (se_in s2) = Some (AEADObj c) \<and>
         aead_of c (dirKey kb (\<not> hsInitiator hs1)) (dirIV kb (\<not> hsInitiator hs1))) \<and>
    \<not> se_complete s2 \<and> se_err s2 = None \<and> length (se_remoteFinished s2) = 12"
  using onKeyExchange_keyed [OF assms(1-5)] assms(3)
  by (fastforce simp: stepPhase_def kb_def ms_def clear_def)

lemma finishedBytes_read:
  assumes "env_ok E" "length v = 12"
  shows "readHandshake E (Arrived (finishedBytes v)) = Ok (Finished v)"
proof -
  have "marshal doc_cryptobyte (Finished v) = Ok (finishedBytes v)"
    using assms(2) by (simp add: finishedMsg_marshal_doc finishedBytes_def)
  moreover have "length (finishedBytes v) \<le> maxHandshake"
    using assms(2) by (simp add: finishedBytes_def len24_def maxHandshake_def)
  ultimately show ?thesis using readHandshake_marshal [OF assms(1)] by fastforce
qed

lemma onFinished_Ok:
  assumes "env_ok E" "length (se_remoteFinished s) = 12"
    "v = verifyValue (en_digests E) (hs_masterSecret hs) (hs_finishedHash hs) (fh_remoteLabel (hs_finishedHash hs))"
  shows "onFinished E hs (Arrived (finishedBytes v)) s = Some (Ok (), s\<lparr>se_remoteFinished := v, se_complete := True\<rparr>)"
proof -
  have d: "digests_ok (en_digests E)" using assms(1) by (simp add: env_ok_def)
  have l: "length v = 12" using verifyValue_sums(3) [OF d] assms(3) by simp
  have m: "fh_transcript E (Finished v) (hs_finishedHash hs) \<noteq> Fail e"
    "fh_transcript E (Finished v) (hs_finishedHash hs) \<noteq> Panic p" for e p
    using l env_doc [OF assms(1)] by (simp_all add: fh_transcript_def transcriptMsg_def originalBytes_def finishedMsg_marshal_doc)
  then obtain f where f: "fh_transcript E (Finished v) (hs_finishedHash hs) = Ok f"
    by (cases "fh_transcript E (Finished v) (hs_finishedHash hs)") auto
  have r: "remoteSum (en_digests E) (hs_masterSecret hs) (hs_finishedHash hs) = Some (Ok v)"
    using verifyValue_sums(2) [OF d] assms(3) by simp
  have c: "go_copy (se_remoteFinished s) v = v" using assms(2) l by (simp add: go_copy_def)
  show ?thesis using finishedBytes_read [OF assms(1) l] r f c by (simp add: onFinished_def)
qed

lemma stepPhase_finished:
  assumes "env_ok E" "length (se_remoteFinished s) = 12" "\<not> se_complete s"
    "v = verifyValue (en_digests E) (hs_masterSecret hs) (hs_finishedHash hs) (fh_remoteLabel (hs_finishedHash hs))"
  shows "stepPhase E (AwaitFinished hs) (Arrived (finishedBytes v)) s =
    Some (Ended (Ok ()), s\<lparr>se_remoteFinished := v, se_complete := True, se_err := None,
                          se_handshakes := Suc (se_handshakes s)\<rparr>)"
  using onFinished_Ok [OF assms(1,2,4)] by (simp add: stepPhase_def endHandshake_def)

text \<open>The reader installs the prepared cipher and opens the peer's finished record with it.\<close>

lemma open_finished:
  assumes "gcm_lib L" "hc_nextCipher inn = Some (AEADObj c)" "aead_of c (dirKey kb i) (dirIV kb i)"
    "length (dirKey kb i) = 16" "dirIV kb i \<noteq> []"
  shows "\<exists>in1 in2. changeCipherSpec closed pick inn = Some (Ok (), in1) \<and>
    decrypt L (finishedRecord L kb i v) in1 = (Ok (recordByte RecordHandshake # finishedBytes v), in2) \<and>
    at_record (dirKey kb i) (dirIV kb i) 1 in2"
proof -
  let ?p = "recordByte RecordHandshake # finishedBytes v"
  let ?box = "gcm_box L (dirKey kb i) (dirIV kb i) (record_aad 0 (length ?p)) ?p"
  obtain in1 where in1: "changeCipherSpec closed pick inn = Some (Ok (), in1)" "at_record (dirKey kb i) (dirIV kb i) 0 in1"
    using switch_prepared [OF assms(2,3)] by blast
  have r: "finishedRecord L kb i v = seq_bytes 0 @ replicate 4 0 @ ?box" by (simp add: finishedRecord_def)
  have lb: "length ?box = length ?p + 16" using length_gcm_box [OF assms(1,4,5)] .
  have l: "length (finishedRecord L kb i v) - 28 = length ?p" "28 \<le> length (finishedRecord L kb i v)"
    "drop 12 (finishedRecord L kb i v) = ?box"
    unfolding r using lb by simp_all
  have u: "gcm_unbox L (dirKey kb i) (dirIV kb i) (record_aad 0 (length ?p)) ?box = Some ?p"
    using gcm_unbox_box [OF assms(1,4,5)] .
  have z: "0 < (2::nat) ^ 64 - 1" by simp
  show ?thesis
    using decrypt_record [OF assms(1,4,5) in1(2) z l(2)] in1(1) u unfolding l(1,3) by auto
qed

section \<open>Two parties\<close>

text \<open>Two ends that know each other's keys.\<close>

definition paired :: "hsEnv \<Rightarrow> hsEnv \<Rightarrow> bool" where
  "paired E F \<longleftrightarrow> env_ok E \<and> env_ok F \<and> en_build E = en_build F \<and> en_evp E = en_evp F \<and>
     en_digests E = en_digests F \<and> en_ka E = en_ka F \<and> en_hostId E \<noteq> en_hostId F"

lemma paired_sym: "paired E F \<Longrightarrow> paired F E"
  by (auto simp: paired_def)

lemma suites_agree:
  assumes "helloSent E h s" "helloSent F h' t" "en_build E = en_build F"
  shows "mutualCipherSuite (en_build E) (h_cipherSuites h) (h_cipherSuites h') =
    mutualCipherSuite (en_build F) (h_cipherSuites h') (h_cipherSuites h)"
  using assms
  by (auto simp: helloSent_def helloSuites_def mutualCipherSuite_def Intersection_filter_sym)

lemma kxmSent_initiator:
  assumes "paired E F" "kxmSent E h h' c (en_hostId F) hs ka kx" "kxmSent F h' h c' (en_hostId E) hs' ka' kx'"
  shows "hsInitiator hs' \<longleftrightarrow> \<not> hsInitiator hs" "initiatorRandom hs = initiatorRandom hs'"
    "responderRandom hs = responderRandom hs'"
  using assms by (auto simp: paired_def kxmSent_def hsInitiator_def initiatorRandom_def responderRandom_def)

text \<open>What an end does from the key exchange of the other on: it answers with its finished record (verify
  value \<open>v\<close>), opens the other's (verify value \<open>v'\<close>) and is complete; \<open>i\<close> tells whether it initiates.\<close>

definition concludes ::
  "hsEnv \<Rightarrow> handshakeState \<Rightarrow> keyAgreement \<Rightarrow> bytes \<Rightarrow> bytes \<Rightarrow> sess \<Rightarrow> bytes \<Rightarrow> keyBlock \<Rightarrow> bool \<Rightarrow> bytes \<Rightarrow> bytes \<Rightarrow> bool" where
  "concludes E hs ka kx kx' s ms kb i v v' \<longleftrightarrow>
    (\<exists>hs2 s2. stepPhase E (AwaitKeyExchange hs ka kx) (Arrived (keyExchangeMsg_marshal kx')) s = Some (AwaitFinished hs2, s2) \<and>
     hs_masterSecret hs2 = ms \<and> hs_suite hs2 = hs_suite hs \<and>
     snd (last (se_sent s2)) = finishedRecord (en_evp E) kb i v \<and> at_record (dirKey kb i) (dirIV kb i) 1 (se_out s2) \<and>
     (\<exists>in1 in2 s3. changeCipherSpec False False (se_in s2) = Some (Ok (), in1) \<and>
        decrypt (en_evp E) (finishedRecord (en_evp E) kb (\<not> i) v') in1 =
          (Ok (recordByte RecordHandshake # finishedBytes v'), in2) \<and>
        at_record (dirKey kb (\<not> i)) (dirIV kb (\<not> i)) 1 in2 \<and>
        stepPhase E (AwaitFinished hs2) (Arrived (finishedBytes v')) (s2\<lparr>se_in := in2\<rparr>) = Some (Ended (Ok ()), s3) \<and>
        se_complete s3 \<and> se_in s3 = in2 \<and> se_out s3 = se_out s2))"

lemma party_completes:
  assumes "paired E F" "kxmSent E h h' c (en_hostId F) hs ka kx" "kxmSent F h' h c' (en_hostId E) hs' ka' kx'" "clear s"
    "hs_suite hs = hs_suite hs'" "length (keyExchangeMsg_marshal kx') \<le> maxHandshake"
    "processRemoteKeyExchange (en_ka E) (hs_signatureScheme hs) (h_random h) (h_random h') kx' ka = Ok pms"
  defines "ms \<equiv> suiteMaster (en_digests E) (hs_suite hs) pms (initiatorRandom hs) (responderRandom hs)"
    and "kb \<equiv> hsKeys (en_digests E) hs pms"
    and "t \<equiv> (if hsInitiator hs
      then hello_bytes h @ hello_bytes h' @ keyExchangeMsg_marshal kx @ keyExchangeMsg_marshal kx'
      else hello_bytes h' @ hello_bytes h @ keyExchangeMsg_marshal kx' @ keyExchangeMsg_marshal kx)"
  defines "vf \<equiv> (\<lambda>l. suitePRF (en_digests E) (hs_suite hs) ms l
      (digestOf (en_digests E) (prfAndHash (hs_suite hs)) t) finishedVerifyLength)"
  shows "concludes E hs ka kx kx' s ms kb (hsInitiator hs) (vf (en_hostId E)) (vf (en_hostId F))"
proof -
  have E: "env_ok E" and d: "digests_ok (en_digests E)" and g: "gcm_lib (en_evp E)"
    using assms(1) by (simp_all add: paired_def env_ok_def)
  let ?f = "(hs_finishedHash hs)\<lparr>fh_core := fh_core (hs_finishedHash hs) @
      (if hsInitiator hs then keyExchangeMsg_marshal kx' else keyExchangeMsg_marshal kx' @ keyExchangeMsg_marshal kx)\<rparr>"
  let ?hs1 = "hs\<lparr>hs_finishedHash := ?f\<rparr>"
  have hm: "hs_helloMsg hs = h" "hs_remoteHelloMsg hs = hello_readback h'" using assms(2) by (simp_all add: kxmSent_def)
  have p: "processRemoteKeyExchange (en_ka E) (hs_signatureScheme hs) (h_random (hs_helloMsg hs))
      (h_random (hs_remoteHelloMsg hs)) kx' ka = Ok pms" using assms(7) by (simp add: hm)
  obtain curve where rk: "readKeyExchange E hs ka kx (KeyExchange kx') s = Some (Ok (?hs1, pms), s\<lparr>se_curveID := curve\<rparr>)"
    using readKeyExchange_honest [OF E p] by blast
  have rh: "readHandshake E (Arrived (keyExchangeMsg_marshal kx')) = Ok (KeyExchange kx')"
    using readHandshake_marshal [OF E, of "KeyExchange kx'"] assms(6) by simp
  have ms1: "hsMaster (en_digests E) ?hs1 pms = ms" by (simp add: hsMaster_def ms_def)
  have kb1: "hsKeys (en_digests E) ?hs1 pms = kb" by (simp add: hsKeys_def kb_def hsMaster_def)
  have rs: "real_suite (hs_suite ?hs1)"
    using assms(2) suite_cases by (auto simp: kxmSent_def real_suite_def)
  have vv: "verifyValue (en_digests E) ms ?f l = vf l" for l
    using assms(2) by (simp add: verifyValue_def vf_def kxmSent_def fh_Sum_core t_def)
  have lb: "fh_localLabel ?f = en_hostId E" "fh_remoteLabel ?f = en_hostId F" using assms(2) by (simp_all add: kxmSent_def)
  have cl: "clear (s\<lparr>se_curveID := curve\<rparr>)" using assms(4) by (simp add: clear_def)
  have ini: "hsInitiator ?hs1 = hsInitiator hs" "hs_finishedHash ?hs1 = ?f" by (simp_all add: hsInitiator_def)
  let ?hs2 = "?hs1\<lparr>hs_masterSecret := ms\<rparr>"
  obtain s2 c where s2: "stepPhase E (AwaitKeyExchange hs ka kx) (Arrived (keyExchangeMsg_marshal kx')) s = Some (AwaitFinished ?hs2, s2)"
      "snd (last (se_sent s2)) = finishedRecord (en_evp E) kb (hsInitiator hs) (vf (en_hostId E))"
      "at_record (dirKey kb (hsInitiator hs)) (dirIV kb (hsInitiator hs)) 1 (se_out s2)"
      "hc_nextCipher (se_in s2) = Some (AEADObj c)" "aead_of c (dirKey kb (\<not> hsInitiator hs)) (dirIV kb (\<not> hsInitiator hs))"
      "\<not> se_complete s2" "length (se_remoteFinished s2) = 12"
    using stepPhase_kxm [OF E rs cl rh rk] unfolding ms1 kb1 ini vv lb by fastforce
  have lens: "length (dirKey kb (\<not> hsInitiator hs)) = 16" "dirIV kb (\<not> hsInitiator hs) \<noteq> []"
    using suiteKeys_lengths [OF d, of "hs_suite hs"] rs by (simp_all add: kb_def hsKeys_def)
  obtain in1 in2 where i: "changeCipherSpec False False (se_in s2) = Some (Ok (), in1)"
      "decrypt (en_evp E) (finishedRecord (en_evp E) kb (\<not> hsInitiator hs) (vf (en_hostId F))) in1 =
        (Ok (recordByte RecordHandshake # finishedBytes (vf (en_hostId F))), in2)"
      "at_record (dirKey kb (\<not> hsInitiator hs)) (dirIV kb (\<not> hsInitiator hs)) 1 in2"
    using open_finished [OF g s2(4,5) lens] by blast
  have vd: "vf (en_hostId F) = verifyValue (en_digests E) (hs_masterSecret ?hs2) (hs_finishedHash ?hs2)
      (fh_remoteLabel (hs_finishedHash ?hs2))"
    using vv lb by simp
  have s2': "length (se_remoteFinished (s2\<lparr>se_in := in2\<rparr>)) = 12" "\<not> se_complete (s2\<lparr>se_in := in2\<rparr>)" using s2 by simp_all
  have "\<exists>s3. stepPhase E (AwaitFinished ?hs2) (Arrived (finishedBytes (vf (en_hostId F)))) (s2\<lparr>se_in := in2\<rparr>) =
      Some (Ended (Ok ()), s3) \<and> se_complete s3 \<and> se_in s3 = in2 \<and> se_out s3 = se_out s2"
    using stepPhase_finished [OF E s2' vd] by simp
  then show ?thesis unfolding concludes_def using s2(1-3) i by (intro exI [of _ ?hs2] exI [of _ s2]) auto
qed

text \<open>The end of a handshake: the reader handles the change of cipher and the record \<open>r\<close>, and
  the handshake reads what was in it.\<close>

definition finishes :: "hsEnv \<Rightarrow> handshakeState \<Rightarrow> sess \<Rightarrow> bytes \<Rightarrow> sess \<Rightarrow> bool" where
  "finishes E f s r s' \<longleftrightarrow>
     (\<exists>in1 in2 fin. changeCipherSpec False False (se_in s) = Some (Ok (), in1) \<and>
        decrypt (en_evp E) r in1 = (Ok (recordByte RecordHandshake # fin), in2) \<and>
        stepPhase E (AwaitFinished f) (Arrived fin) (s\<lparr>se_in := in2\<rparr>) = Some (Ended (Ok ()), s') \<and> se_complete s')"

text \<open>What one end seals the other opens: same key, IV and record number.\<close>

definition linked :: "sess \<Rightarrow> sess \<Rightarrow> bool" where
  "linked s t \<longleftrightarrow> (\<exists>k iv. length k = 16 \<and> iv \<noteq> [] \<and> at_record k iv 1 (se_out s) \<and> at_record k iv 1 (se_in t))"

text \<open>Two ends that conclude with the same keys and each other's verify values are linked.\<close>

lemma concluded_linked:
  assumes "concludes A hsa aa xa xb sa ms kb i va vb" "concludes B hsb ab xb xa sb ms kb (\<not> i) vb va"
    "en_evp B = en_evp A" "hs_suite hsb = hs_suite hsa" "\<And>j. length (dirKey kb j) = 16" "\<And>j. dirIV kb j \<noteq> []"
  shows "\<exists>fa sa3 sa4 fb sb3 sb4.
    stepPhase A (AwaitKeyExchange hsa aa xa) (Arrived (keyExchangeMsg_marshal xb)) sa = Some (AwaitFinished fa, sa3) \<and>
    stepPhase B (AwaitKeyExchange hsb ab xb) (Arrived (keyExchangeMsg_marshal xa)) sb = Some (AwaitFinished fb, sb3) \<and>
    hs_masterSecret fa = hs_masterSecret fb \<and> hs_suite fa = hs_suite fb \<and>
    finishes A fa sa3 (snd (last (se_sent sb3))) sa4 \<and> finishes B fb sb3 (snd (last (se_sent sa3))) sb4 \<and>
    linked sa4 sb4 \<and> linked sb4 sa4"
proof -
  obtain fa sa3 ina1 ina2 sa4 where FA:
      "stepPhase A (AwaitKeyExchange hsa aa xa) (Arrived (keyExchangeMsg_marshal xb)) sa = Some (AwaitFinished fa, sa3)"
      "hs_masterSecret fa = ms" "hs_suite fa = hs_suite hsa" "snd (last (se_sent sa3)) = finishedRecord (en_evp A) kb i va"
      "at_record (dirKey kb i) (dirIV kb i) 1 (se_out sa3)" "changeCipherSpec False False (se_in sa3) = Some (Ok (), ina1)"
      "decrypt (en_evp A) (finishedRecord (en_evp A) kb (\<not> i) vb) ina1 = (Ok (recordByte RecordHandshake # finishedBytes vb), ina2)"
      "at_record (dirKey kb (\<not> i)) (dirIV kb (\<not> i)) 1 ina2"
      "stepPhase A (AwaitFinished fa) (Arrived (finishedBytes vb)) (sa3\<lparr>se_in := ina2\<rparr>) = Some (Ended (Ok ()), sa4)"
      "se_complete sa4" "se_in sa4 = ina2" "se_out sa4 = se_out sa3"
    using assms(1) unfolding concludes_def by blast
  obtain fb sb3 inb1 inb2 sb4 where FB:
      "stepPhase B (AwaitKeyExchange hsb ab xb) (Arrived (keyExchangeMsg_marshal xa)) sb = Some (AwaitFinished fb, sb3)"
      "hs_masterSecret fb = ms" "hs_suite fb = hs_suite hsa" "snd (last (se_sent sb3)) = finishedRecord (en_evp A) kb (\<not> i) vb"
      "at_record (dirKey kb (\<not> i)) (dirIV kb (\<not> i)) 1 (se_out sb3)" "changeCipherSpec False False (se_in sb3) = Some (Ok (), inb1)"
      "decrypt (en_evp A) (finishedRecord (en_evp A) kb i va) inb1 = (Ok (recordByte RecordHandshake # finishedBytes va), inb2)"
      "at_record (dirKey kb i) (dirIV kb i) 1 inb2"
      "stepPhase B (AwaitFinished fb) (Arrived (finishedBytes va)) (sb3\<lparr>se_in := inb2\<rparr>) = Some (Ended (Ok ()), sb4)"
      "se_complete sb4" "se_in sb4 = inb2" "se_out sb4 = se_out sb3"
    using assms(2) unfolding concludes_def assms(3,4) not_not by blast
  have "finishes A fa sa3 (snd (last (se_sent sb3))) sa4" using FA FB(4) unfolding finishes_def by auto
  moreover have "finishes B fb sb3 (snd (last (se_sent sa3))) sb4" using FB FA(4) assms(3) unfolding finishes_def by auto
  moreover have "linked sa4 sb4" unfolding linked_def FA(12) FB(11) using FA(5) FB(8) assms(5,6) by blast
  moreover have "linked sb4 sa4" unfolding linked_def FA(11) FB(12) using FB(5) FA(8) assms(5,6) by blast
  ultimately show ?thesis
    using FA(1-3) FB(1-3) by (intro exI [of _ fa] exI [of _ sa3] exI [of _ sa4] exI [of _ fb] exI [of _ sb3] exI [of _ sb4]) simp
qed

text \<open>Two ends that have sent their key exchange messages get the same secret out of them.\<close>

lemma kxm_secret:
  assumes "paired A B" "kaLib_ok (en_ka A) pub kpub"
    "key_files (en_ka A) pub kpub (keyStorePath ca) (en_hostId A) (en_hostId B) ska skb kska kskb"
    "key_files (en_ka A) pub kpub (keyStorePath cb) (en_hostId B) (en_hostId A) skb ska kskb kska"
    "kxmSent A ha hb ca (en_hostId B) hsa aa xa" "kxmSent B hb ha cb (en_hostId A) hsb ab xb"
    "hs_suite hsb = hs_suite hsa" "hs_signatureScheme hsa = SM2WithSM3" "hs_signatureScheme hsb = SM2WithSM3"
  shows "\<exists>pms. processRemoteKeyExchange (en_ka A) SM2WithSM3 (h_random ha) (h_random hb) xb aa = Ok pms \<and>
    processRemoteKeyExchange (en_ka A) SM2WithSM3 (h_random hb) (h_random ha) xa ab = Ok pms"
proof -
  have e: "en_build B = en_build A" "en_ka B = en_ka A" "en_hostId A \<noteq> en_hostId B"
    using assms(1) by (simp_all add: paired_def)
  obtain pa where pa: "newKeyAgreement (en_build A) (en_ka A) (cs_ka (hs_suite hsa)) (keyStorePath ca)
        (en_hostId A) (en_hostId B) = Ok (Made pa)"
      "generateLocalKeyExchange (en_ka A) (en_kaRandom A) SM2WithSM3 (h_random ha) (h_random hb) pa = Ok (xa, aa)"
    using assms(5,8) by (auto simp: kxmSent_def generateOn_def)
  obtain pb where pb: "newKeyAgreement (en_build A) (en_ka A) (cs_ka (hs_suite hsa)) (keyStorePath cb)
        (en_hostId B) (en_hostId A) = Ok (Made pb)"
      "generateLocalKeyExchange (en_ka A) (en_kaRandom B) SM2WithSM3 (h_random hb) (h_random ha) pb = Ok (xb, ab)"
    using assms(6,9) by (auto simp: kxmSent_def generateOn_def assms(7) e)
  show ?thesis
    using ka.agree [OF newKeyAgreement_matched [OF assms(2) e(3) assms(3,4) pa(1) pb(1)] pa(2) pb(2)] by blast
qed

section \<open>Properties\<close>

text \<open>C2: two parties that have exchanged hellos and sent their key exchange messages complete the
  handshake if the relay delivers what they send: both derive the same master secret for the same
  suite, each accepts the other's finished message in the first record under the new keys, and in
  both directions the sender's cipher and record number are the receiver's.\<close>

theorem handshake_completes:
  assumes "paired A B" "kaLib_ok (en_ka A) pub kpub"
    "enterHandshake A (NewSession ca (en_hostId B)) = Some (AwaitHello ha, sa1)"
    "enterHandshake B (NewSession cb (en_hostId A)) = Some (AwaitHello hb, sb1)"
    "key_files (en_ka A) pub kpub (keyStorePath (the (se_config sa1))) (en_hostId A) (en_hostId B) ska skb kska kskb"
    "key_files (en_ka A) pub kpub (keyStorePath (the (se_config sb1))) (en_hostId B) (en_hostId A) skb ska kskb kska"
    "snd (last (se_sent sa1)) = recordByte RecordHandshake # da" "snd (last (se_sent sb1)) = recordByte RecordHandshake # db"
    "stepPhase A (AwaitHello ha) (Arrived db) sa1 = Some (AwaitKeyExchange hsa aa xa, sa2)"
    "stepPhase B (AwaitHello hb) (Arrived da) sb1 = Some (AwaitKeyExchange hsb ab xb, sb2)"
    "hs_signatureScheme hsa = SM2WithSM3" "hs_signatureScheme hsb = SM2WithSM3"
    "snd (last (se_sent sa2)) = recordByte RecordHandshake # ma" "snd (last (se_sent sb2)) = recordByte RecordHandshake # mb"
    "length ma \<le> maxHandshake" "length mb \<le> maxHandshake"
  shows "\<exists>fa sa3 sa4 fb sb3 sb4.
    stepPhase A (AwaitKeyExchange hsa aa xa) (Arrived mb) sa2 = Some (AwaitFinished fa, sa3) \<and>
    stepPhase B (AwaitKeyExchange hsb ab xb) (Arrived ma) sb2 = Some (AwaitFinished fb, sb3) \<and>
    hs_masterSecret fa = hs_masterSecret fb \<and> hs_suite fa = hs_suite fb \<and>
    finishes A fa sa3 (snd (last (se_sent sb3))) sa4 \<and> finishes B fb sb3 (snd (last (se_sent sa3))) sb4 \<and>
    linked sa4 sb4 \<and> linked sb4 sa4"
proof -
  have A: "env_ok A" and B: "env_ok B" and d: "digests_ok (en_digests A)"
    and e: "en_build B = en_build A" "en_evp B = en_evp A" "en_digests B = en_digests A" "en_ka B = en_ka A"
    using assms(1) by (simp_all add: paired_def env_ok_def)
  note a1 = enterHandshake_fresh [OF A assms(3)] and b1 = enterHandshake_fresh [OF B assms(4)]
  have db: "db = hello_bytes hb" "da = hello_bytes ha" using assms(7,8) a1(3) b1(3) by simp_all
  have m: "marshal doc_cryptobyte (Hello ha) = Ok (hello_bytes ha)" "marshal doc_cryptobyte (Hello hb) = Ok (hello_bytes hb)"
    using a1(1) b1(1) by (simp_all add: helloSent_def)
  have a2: "clear sa2" "snd (last (se_sent sa2)) = recordByte RecordHandshake # keyExchangeMsg_marshal xa"
      "kxmSent A ha hb (the (se_config sa1)) (en_hostId B) hsa aa xa"
    using stepPhase_hello [OF A a1(1) m(2) assms(9) [unfolded db]] by (simp_all add: a1(2))
  have b2: "clear sb2" "snd (last (se_sent sb2)) = recordByte RecordHandshake # keyExchangeMsg_marshal xb"
      "kxmSent B hb ha (the (se_config sb1)) (en_hostId A) hsb ab xb"
    using stepPhase_hello [OF B b1(1) m(1) assms(10) [unfolded db]] by (simp_all add: b1(2))
  have ma: "ma = keyExchangeMsg_marshal xa" "mb = keyExchangeMsg_marshal xb" using assms(13,14) a2(2) b2(2) by simp_all
  have suite: "hs_suite hsb = hs_suite hsa"
    using suites_agree [OF a1(1) b1(1)] a2(3) b2(3) e by (simp add: kxmSent_def)
  obtain pms where p: "processRemoteKeyExchange (en_ka A) SM2WithSM3 (h_random ha) (h_random hb) xb aa = Ok pms"
      "processRemoteKeyExchange (en_ka A) SM2WithSM3 (h_random hb) (h_random ha) xa ab = Ok pms"
    using kxm_secret [OF assms(1,2,5,6) a2(3) b2(3) suite assms(11,12)] by blast
  note ini = kxmSent_initiator [OF assms(1) a2(3) b2(3)]
  have kb: "hsKeys (en_digests A) hsb pms = hsKeys (en_digests A) hsa pms"
    by (simp add: hsKeys_def hsMaster_def suite ini)
  have "real_suite (hs_suite hsa)" using a2(3) suite_cases by (auto simp: kxmSent_def real_suite_def)
  then have lens: "length (dirKey (hsKeys (en_digests A) hsa pms) j) = 16" "dirIV (hsKeys (en_digests A) hsa pms) j \<noteq> []" for j
    using suiteKeys_lengths [OF d] by (simp_all add: hsKeys_def)
  note PA = party_completes [OF assms(1) a2(3) b2(3) a2(1) suite [symmetric], of pms, unfolded assms(11),
      OF assms(16) [unfolded ma] p(1)]
  have if_swap: "(if \<not> P then x else y) = (if P then y else x)" for P and x y :: bytes by simp
  note PB = party_completes [OF paired_sym [OF assms(1)] b2(3) a2(3) b2(1) suite, of pms, unfolded assms(12) e suite ini(1)
      ini(2,3) [symmetric] kb if_swap, OF assms(15) [unfolded ma] p(2)]
  show ?thesis unfolding ma by (rule concluded_linked [OF PA PB e(2) suite lens])
qed

definition exEnv :: "string \<Rightarrow> hsEnv" where
  "exEnv host = \<lparr>en_build = DefaultBuild, en_crypto = doc_cryptobyte, en_evp = exEvp, en_digests = exDigests,
     en_ka = exKaLib, en_hostId = host, en_kaRandom = ([], [], []), en_rand = (\<lambda>_ n. Some (replicate n 7)),
     en_pick = False, en_net = (\<lambda>_ _. Ok ())\<rparr>"

definition exHello :: helloMsg where
  "exHello = \<lparr>h_original = None, h_random = replicate 32 7,
     h_cipherSuites = [E2E_SM2KEYAGREEMENT_WITH_SM4_128_GCM_SM3],
     h_supportedVersions = Some supportedVersions, h_supportedCurves = defaultCurvePreferences,
     h_supportedSignatureAlgorithms = [SM2WithSM3], h_secureRenegotiationSupported = True,
     h_secureRenegotiation = [], h_extensions = []\<rparr>"

lemma exEnv_simps [simp]:
  "en_build (exEnv h) = DefaultBuild" "en_crypto (exEnv h) = doc_cryptobyte" "en_evp (exEnv h) = exEvp"
  "en_digests (exEnv h) = exDigests" "en_ka (exEnv h) = exKaLib" "en_hostId (exEnv h) = h"
  "en_kaRandom (exEnv h) = ([], [], [])" "en_rand (exEnv h) = (\<lambda>_ n. Some (replicate n 7))"
  "en_net (exEnv h) = (\<lambda>_ _. Ok ())"
  by (simp_all add: exEnv_def)

lemma exEnv_ok: "env_ok (exEnv h)"
  using exEvp_gcm_lib exDigests_ok by (simp add: env_ok_def net_ok_def)

lemma exHello_Ok: "helloMsg_marshal doc_cryptobyte exHello = Ok (hello_bytes exHello)"
  by (simp add: helloMsg_marshal_doc hello_fits_def exHello_def hello_exts_def versions_ext_def
      list_ext_def ext_block_def supportedVersions_def defaultCurvePreferences_def)

lemma exHello_short: "length (hello_bytes exHello) \<le> maxHandshake"
  by (simp add: hello_bytes_def hello_body_def len24_def hello_exts_def versions_ext_def list_ext_def ext_block_def
      exHello_def supportedVersions_def defaultCurvePreferences_def maxHandshake_def)

lemma exEnter: "\<exists>s1. enterHandshake (exEnv h) (NewSession None r) = Some (AwaitHello exHello, s1)"
proof -
  let ?s0 = "(NewSession None r)\<lparr>se_config := Some (fillConfig emptyConfig), se_draws := 1\<rparr>"
  have m: "makeHello (exEnv h) (NewSession None r) = Some (Ok exHello, ?s0)"
    by (simp add: makeHello_def NewSession_def Let_def fillConfig_def emptyConfig_def supportedVersions_def
        defaultSupportedSignatureAlgorithms_def curvePreferences_def defaultCurvePreferences_def exHello_def
        helloSuites_def configCipherSuites_def mutualCipherSuiteOld_eq cipherSuiteByID_def cipherSuites_def)
  have w: "writeRecord (exEnv h) RecordHandshake (hello_bytes exHello) ?s0 = Some (Ok (),
      ?s0\<lparr>se_draws := Suc (se_draws ?s0), se_sent := se_sent ?s0 @ [(RecordHandshake, recordByte RecordHandshake # hello_bytes exHello)]\<rparr>)"
    by (rule writeRecord_plain) (simp_all add: net_ok_def NewSession_def newHalfConn_def)
  have "startHandshake (exEnv h) (NewSession None r) = Some (Ok exHello,
      ?s0\<lparr>se_draws := Suc (se_draws ?s0), se_sent := se_sent ?s0 @ [(RecordHandshake, recordByte RecordHandshake # hello_bytes exHello)]\<rparr>)"
    using exHello_Ok w by (simp add: startHandshake_def m writeHandshakeRecord_def)
  then show ?thesis by (simp add: enterHandshake_def NewSession_def)
qed

lemma exAgreement:
  "\<exists>a ka kx. newKeyAgreement DefaultBuild exKaLib SM2KA store l r = Ok (Made a) \<and>
     generateOn exKaLib rnd SM2WithSM3 x y (Made a) = Ok (kx, ka) \<and> length (keyExchangeMsg_marshal kx) = 14"
  by (simp add: newKeyAgreement_def newSM2KeyAgreement_def NewSM2KeyAgreement_def exKaLib_def generateOn_def
      sm2_generateLocalKeyExchange_def SM2_Sign_def Let_def signatureBlock_def keyExchangeMsg_marshal_def len24_def)

lemma exStepHello:
  assumes "helloSent (exEnv h) exHello s1"
  shows "\<exists>hs a kx s2. stepPhase (exEnv h) (AwaitHello exHello) (Arrived (hello_bytes exHello)) s1 =
      Some (AwaitKeyExchange hs a kx, s2) \<and> hs_signatureScheme hs = SM2WithSM3 \<and>
    length (keyExchangeMsg_marshal kx) = 14"
proof -
  have m: "readHandshake (exEnv h) (Arrived (hello_bytes exHello)) = Ok (Hello (hello_readback exHello))"
    using readHandshake_marshal [OF exEnv_ok, of "Hello exHello"] exHello_Ok exHello_short by simp
  have c: "clear s1" "se_handshakes s1 = 0" "h_original exHello = None" "marshal doc_cryptobyte (Hello exHello) = Ok (hello_bytes exHello)"
    using assms exHello_Ok by (auto simp: helloSent_def clear_def)
  obtain v where v: "mutualVersion (the (se_config s1)) (h_supportedVersions (hello_readback exHello)) = (v, True)"
    by (simp add: mutualVersion_def hello_readback_def Let_def)
  let ?s2 = "s1\<lparr>se_vers := v, se_in := (se_in s1)\<lparr>hc_version := v\<rparr>, se_out := (se_out s1)\<lparr>hc_version := v\<rparr>\<rparr>"
  have ns: "\<not> h_secureRenegotiationSupported (hello_readback exHello)"
    by (simp add: hello_readback_def exHello_def scsvRenegotiation_def suite_ids)
  have p: "processHello (exEnv h) exHello (hello_readback exHello) ?s2 =
      Some (Ok (suiteSM2, SM2WithSM3), ?s2\<lparr>se_cipherSuite := cs_id suiteSM2\<rparr>)"
    using c(2) ns
    by (auto simp: processHello_def pickCipherSuite_def pickSignatureScheme_def checkRenegotiation_def exHello_def
        mutualCipherSuite_def Intersection_def suite_ids cipherSuiteByID_def cipherSuites_def mutualSignatureScheme_def
        SM2WithSM3_def Let_def)
  then obtain s3 where s3: "processHello (exEnv h) exHello (hello_readback exHello) ?s2 = Some (Ok (suiteSM2, SM2WithSM3), s3)"
      "hc_cipher (se_out s3) = None" "se_config s3 \<noteq> None"
    using c(1) by (auto simp: clear_def)
  have "fh_transcript (exEnv h) (Hello exHello) f = Ok (fh_Write exDigests (hello_bytes exHello) f)"
    "fh_transcript (exEnv h) (Hello (hello_readback exHello)) f = Ok (fh_Write exDigests (hello_bytes exHello) f)" for f
    using fh_transcript_doc [OF exEnv_ok c(3,4)] by simp_all
  then obtain f where f: "helloTranscript (exEnv h) h (se_remoteId s3) exHello (hello_readback exHello)
      (newFinishedHash exDigests suiteSM2 h (se_remoteId s3)) = Ok f"
    by (auto simp: helloTranscript_def)
  let ?hs = "\<lparr>hs_localId = h, hs_remoteId = se_remoteId s3, hs_helloMsg = exHello,
     hs_remoteHelloMsg = hello_readback exHello, hs_suite = suiteSM2, hs_signatureScheme = SM2WithSM3,
     hs_finishedHash = f, hs_masterSecret = []\<rparr>"
  obtain a b kx where k: "newKeyAgreement DefaultBuild exKaLib SM2KA (keyStorePath (the (se_config s3))) h (se_remoteId s3) = Ok (Made a)"
     "generateOn exKaLib ([], [], []) SM2WithSM3 (h_random exHello) (h_random exHello) (Made a) = Ok (kx, b)"
     "length (keyExchangeMsg_marshal kx) = 14"
    using exAgreement by blast
  have w: "writeRecord (exEnv h) RecordHandshake (keyExchangeMsg_marshal kx) s3 = Some (Ok (),
      s3\<lparr>se_draws := Suc (se_draws s3), se_sent := se_sent s3 @ [(RecordHandshake, recordByte RecordHandshake # keyExchangeMsg_marshal kx)]\<rparr>)"
    by (rule writeRecord_plain) (simp_all add: net_ok_def s3(2,3) del: not_None_eq)
  have ks: "cs_ka suiteSM2 = SM2KA" by (simp add: suiteSM2_def)
  have "\<exists>hs s4. sendKeyExchange (exEnv h) ?hs s3 = Some (Ok (hs, b, kx), s4) \<and> hs_signatureScheme hs = SM2WithSM3"
    using k w by (simp add: sendKeyExchange_def ks writeHandshakeRecord_def)
  then obtain hs s4 where "onHello (exEnv h) exHello (Arrived (hello_bytes exHello)) s1 = Some (Ok (hs, b, kx), s4)"
      "hs_signatureScheme hs = SM2WithSM3"
    using m v s3(1) f by (auto simp: onHello_def pickE2EVersion_def)
  then show ?thesis using k(3) by (intro exI [of _ hs] exI [of _ b] exI [of _ kx] exI [of _ s4]) (simp add: stepPhase_def)
qed

lemma ex_paired: "paired (exEnv ''b'') (exEnv ''a'')"
  by (simp add: paired_def exEnv_ok)

lemma handshake_completes_witness:
  "\<exists>sa4 sb4. se_complete sa4 \<and> se_complete sb4 \<and> linked sa4 sb4 \<and> linked sb4 sa4"
proof -
  obtain sa1 where a1: "enterHandshake (exEnv ''b'') (NewSession None (en_hostId (exEnv ''a''))) = Some (AwaitHello exHello, sa1)"
    using exEnter by blast
  obtain sb1 where b1: "enterHandshake (exEnv ''a'') (NewSession None (en_hostId (exEnv ''b''))) = Some (AwaitHello exHello, sb1)"
    using exEnter by blast
  note ha = enterHandshake_fresh [OF exEnv_ok a1] and hb = enterHandshake_fresh [OF exEnv_ok b1]
  obtain ka aa xa sa2 where a2: "stepPhase (exEnv ''b'') (AwaitHello exHello) (Arrived (hello_bytes exHello)) sa1 =
      Some (AwaitKeyExchange ka aa xa, sa2)" "hs_signatureScheme ka = SM2WithSM3" "length (keyExchangeMsg_marshal xa) = 14"
    using exStepHello [OF ha(1)] by blast
  obtain kb ab xb sb2 where b2: "stepPhase (exEnv ''a'') (AwaitHello exHello) (Arrived (hello_bytes exHello)) sb1 =
      Some (AwaitKeyExchange kb ab xb, sb2)" "hs_signatureScheme kb = SM2WithSM3" "length (keyExchangeMsg_marshal xb) = 14"
    using exStepHello [OF hb(1)] by blast
  have mo: "marshal doc_cryptobyte (Hello exHello) = Ok (hello_bytes exHello)" using exHello_Ok by simp
  have s2: "snd (last (se_sent sa2)) = recordByte RecordHandshake # keyExchangeMsg_marshal xa"
    "snd (last (se_sent sb2)) = recordByte RecordHandshake # keyExchangeMsg_marshal xb"
    using stepPhase_hello [OF exEnv_ok ha(1) mo a2(1)] stepPhase_hello [OF exEnv_ok hb(1) mo b2(1)] by simp_all
  have k: "kaLib_ok (en_ka (exEnv ''b'')) id id" "key_files (en_ka (exEnv ''b'')) id id store x y [1] [1] [1] [1]" for store x y
    using exKaLib_ok exKaLib_files by simp_all
  have l: "snd (last (se_sent sa1)) = recordByte RecordHandshake # hello_bytes exHello"
    "snd (last (se_sent sb1)) = recordByte RecordHandshake # hello_bytes exHello"
    "length (keyExchangeMsg_marshal xa) \<le> maxHandshake" "length (keyExchangeMsg_marshal xb) \<le> maxHandshake"
    using ha(3) hb(3) a2(3) b2(3) by (simp_all add: maxHandshake_def)
  show ?thesis
    using handshake_completes [OF ex_paired k(1) a1 b1 k(2) k(2) l(1,2) a2(1) b2(1) a2(2) b2(2) s2 l(3,4)]
    unfolding finishes_def by blast
qed

text \<open>What a relay computes from the messages it carried: the verify value of the peer \<open>peerId\<close> and the
  keys that follow from an empty pre-master secret, when its own hello was \<open>h'\<close>.\<close>

definition relayForges ::
  "digests \<Rightarrow> cipherSuite \<Rightarrow> string \<Rightarrow> string \<Rightarrow> helloMsg \<Rightarrow> helloMsg \<Rightarrow> bytes \<Rightarrow> bytes \<times> keyBlock" where
  "relayForges D suite hostId peerId h h' kx =
     (let (ir, rr) = (if peerId < hostId then (h_random h, h_random h') else (h_random h', h_random h));
          ms = suiteMaster D suite [] ir rr;
          t = (if peerId < hostId then hello_bytes h @ hello_bytes h' @ keyExchangeMsg_marshal kx
               else hello_bytes h' @ hello_bytes h)
      in (suitePRF D suite ms peerId (digestOf D (prfAndHash suite) t) finishedVerifyLength,
          suiteKeys D suite ms ir rr))"

text \<open>The two steps of a handshake whose peer sends its hello twice: the pre-master secret stays empty.\<close>

lemma echoed_hello_completes:
  assumes "env_ok E" "enterHandshake E (NewSession c r) = Some (AwaitHello h, s1)"
    "helloMsg_marshal doc_cryptobyte h' = Ok (hello_bytes h')"
    "stepPhase E (AwaitHello h) (Arrived (hello_bytes h')) s1 = Some (AwaitKeyExchange hs ka kx, s2)"
  defines "hs' \<equiv> hs\<lparr>hs_masterSecret := hsMaster (en_digests E) hs []\<rparr>" and "kb \<equiv> hsKeys (en_digests E) hs []"
  defines "v \<equiv> verifyValue (en_digests E) (hs_masterSecret hs') (hs_finishedHash hs') (fh_remoteLabel (hs_finishedHash hs'))"
  shows "\<exists>s3 s4. stepPhase E (AwaitKeyExchange hs ka kx) (Arrived (hello_bytes h')) s2 = Some (AwaitFinished hs', s3) \<and>
    stepPhase E (AwaitFinished hs') (Arrived (finishedBytes v)) s3 = Some (Ended (Ok ()), s4) \<and> se_complete s4 \<and>
    at_record (dirKey kb (hsInitiator hs)) (dirIV kb (hsInitiator hs)) 1 (se_out s4) \<and>
    (\<exists>c. hc_nextCipher (se_in s4) = Some (AEADObj c) \<and>
         aead_of c (dirKey kb (\<not> hsInitiator hs)) (dirIV kb (\<not> hsInitiator hs)))"
proof -
  have m: "marshal doc_cryptobyte (Hello h') = Ok (hello_bytes h')" using assms(3) by simp
  note e = enterHandshake_fresh [OF assms(1,2)]
  have cl: "clear s2" and k: "kxmSent E h h' (the (se_config s1)) r hs ka kx"
    using stepPhase_hello [OF assms(1) e(1) m assms(4)] e(2) by simp_all
  have l: "length (hello_bytes h') \<le> maxHandshake"
    using endOr_cases [of _ "onHello E h (Arrived (hello_bytes h')) s1" "AwaitKeyExchange hs ka kx" s2] assms(4)
    by (fastforce simp: stepPhase_def onHello_def readHandshake_def split: if_splits)
  have rh: "readHandshake E (Arrived (hello_bytes h')) = Ok (Hello (hello_readback h'))"
    using readHandshake_marshal [OF assms(1) m l] by simp
  have rk: "readKeyExchange E hs ka kx (Hello (hello_readback h')) s2 = Some (Ok (hs, []), s2)"
    by (simp add: readKeyExchange_def)
  have rs: "real_suite (hs_suite hs)" using k suite_cases by (auto simp: kxmSent_def real_suite_def)
  obtain s3 c' where s3: "stepPhase E (AwaitKeyExchange hs ka kx) (Arrived (hello_bytes h')) s2 = Some (AwaitFinished hs', s3)"
      "at_record (dirKey kb (hsInitiator hs)) (dirIV kb (hsInitiator hs)) 1 (se_out s3)"
      "hc_nextCipher (se_in s3) = Some (AEADObj c')" "aead_of c' (dirKey kb (\<not> hsInitiator hs)) (dirIV kb (\<not> hsInitiator hs))"
      "\<not> se_complete s3" "length (se_remoteFinished s3) = 12"
    using stepPhase_kxm [OF assms(1) rs cl rh rk] by (auto simp: hs'_def kb_def)
  then show ?thesis using stepPhase_finished [OF assms(1) s3(6,5), of v hs'] v_def by simp
qed

text \<open>C4: a relay that holds no key at all completes the handshake in the name of any peer.  Where the
  peer's key exchange is expected it sends its hello again: that is not an error, the pre-master
  secret stays empty, no signature is looked at, and everything derived from it (the verify value
  the relay sends next and the traffic keys) is a function of messages the relay has seen.\<close>

theorem unauthenticated_completion:
  assumes "env_ok E" "enterHandshake E (NewSession c r) = Some (AwaitHello h, s1)"
    "helloMsg_marshal doc_cryptobyte h' = Ok (hello_bytes h')"
    "stepPhase E (AwaitHello h) (Arrived (hello_bytes h')) s1 = Some (AwaitKeyExchange hs ka kx, s2)"
    "relayForges (en_digests E) (hs_suite hs) (en_hostId E) r h h' kx = (v, kb)"
  shows "\<exists>s4. runPhases E (AwaitKeyExchange hs ka kx) [Arrived (hello_bytes h'), Arrived (finishedBytes v)] s2 =
      Some (Ended (Ok ()), s4) \<and> se_complete s4 \<and>
    at_record (dirKey kb (r < en_hostId E)) (dirIV kb (r < en_hostId E)) 1 (se_out s4) \<and>
    (\<exists>c. hc_nextCipher (se_in s4) = Some (AEADObj c) \<and>
         aead_of c (dirKey kb (\<not> r < en_hostId E)) (dirIV kb (\<not> r < en_hostId E)))"
proof -
  note e = enterHandshake_fresh [OF assms(1,2)]
  have m: "marshal doc_cryptobyte (Hello h') = Ok (hello_bytes h')" using assms(3) by simp
  have k: "kxmSent E h h' (the (se_config s1)) r hs ka kx"
    using stepPhase_hello [OF assms(1) e(1) m assms(4)] e(2) by simp
  have i: "hsInitiator hs \<longleftrightarrow> r < en_hostId E" using k by (simp add: kxmSent_def hsInitiator_def)
  let ?hs = "hs\<lparr>hs_masterSecret := hsMaster (en_digests E) hs []\<rparr>"
  have ir: "(initiatorRandom hs, responderRandom hs) =
      (if r < en_hostId E then (h_random h, h_random h') else (h_random h', h_random h))"
    using k by (simp add: kxmSent_def initiatorRandom_def responderRandom_def)
  have "verifyValue (en_digests E) (hs_masterSecret ?hs) (hs_finishedHash ?hs) (fh_remoteLabel (hs_finishedHash ?hs)) = v"
    "hsKeys (en_digests E) hs [] = kb"
    using assms(5) k ir
    by (auto simp: relayForges_def Let_def verifyValue_def kxmSent_def fh_Sum_core hsMaster_def hsKeys_def hsInitiator_def
        split: if_splits)
  from echoed_hello_completes [OF assms(1-4), unfolded this i] show ?thesis by auto
qed

lemma unauthenticated_completion_witness:
  "\<exists>s4. se_complete s4 \<and>
     (\<exists>s1 hs ka kx s2 v. stepPhase (exEnv ''b'') (AwaitHello exHello) (Arrived (hello_bytes exHello)) s1 =
        Some (AwaitKeyExchange hs ka kx, s2) \<and>
      runPhases (exEnv ''b'') (AwaitKeyExchange hs ka kx)
        [Arrived (hello_bytes exHello), Arrived (finishedBytes v)] s2 = Some (Ended (Ok ()), s4))"
proof -
  obtain s1 where s1: "enterHandshake (exEnv ''b'') (NewSession None ''a'') = Some (AwaitHello exHello, s1)"
    using exEnter by blast
  obtain hs ka kx s2 where s2: "stepPhase (exEnv ''b'') (AwaitHello exHello) (Arrived (hello_bytes exHello)) s1 =
      Some (AwaitKeyExchange hs ka kx, s2)"
    using exStepHello [OF enterHandshake_fresh(1) [OF exEnv_ok s1]] by blast
  obtain v kb where "relayForges (en_digests (exEnv ''b'')) (hs_suite hs) (en_hostId (exEnv ''b'')) ''a'' exHello exHello kx = (v, kb)"
    by fastforce
  from unauthenticated_completion [OF exEnv_ok s1 exHello_Ok s2 this] s2 show ?thesis by blast
qed

text \<open>The version of the peer's hello is never refused: whatever it offers, the check that should
  fail with ``unsupported protocol version'' succeeds, and without a common version the session goes
  on with version 0.\<close>

theorem version_check_vacuous:
  assumes "cryptobyte_ok C" "helloMsg_unmarshal C d = Some m" "se_config s = Some cfg"
  shows "\<exists>s'. pickE2EVersion m s = Some (Ok (), s') \<and>
    (set (slice (c_supportedVersions cfg)) \<inter> set (slice (h_supportedVersions m)) = {} \<longrightarrow> se_vers s' = 0)"
proof -
  have "C = doc_cryptobyte" using cryptobyte_ok_eq [OF assms(1)] .
  then obtain vs where vs: "h_supportedVersions m = Some vs"
    using helloMsg_unmarshal_inv [of d m] assms(2) by auto
  have "Intersection xs vs = 0" if "set xs \<inter> set vs = {}" for xs :: "u16 list"
    using that find_None [of "\<lambda>v. v \<in> set xs" vs] by (auto simp: Intersection_def split: option.splits)
  then show ?thesis
    by (simp add: pickE2EVersion_def mutualVersion_def vs assms(3) Let_def slice_def split: option.splits)
qed

lemma version_check_vacuous_witness:
  "\<exists>s'. pickE2EVersion (hello_readback sample_hello)
      ((NewSession None ''a'')\<lparr>se_config := Some (emptyConfig\<lparr>c_supportedVersions := Some [0x0999]\<rparr>)\<rparr>) = Some (Ok (), s') \<and>
    se_vers s' = 0"
proof -
  let ?s = "(NewSession None ''a'')\<lparr>se_config := Some (emptyConfig\<lparr>c_supportedVersions := Some [0x0999]\<rparr>)\<rparr>"
  have c: "se_config ?s = Some (emptyConfig\<lparr>c_supportedVersions := Some [0x0999]\<rparr>)" by simp
  have "set (slice (c_supportedVersions (emptyConfig\<lparr>c_supportedVersions := Some [0x0999]\<rparr>))) \<inter>
      set (slice (h_supportedVersions (hello_readback sample_hello))) = {}"
    by (simp add: hello_readback_def sample_hello_def supportedVersions_def VersionE2E1_def VersionE2E2_def)
  then show ?thesis using version_check_vacuous [OF cryptobyte_ok_doc sample_hello_read c] by blast
qed

text \<open>What writing a record does to a session; its log holds the application data it has sent.\<close>

lemma writeRecord_cases:
  assumes "writeRecord E t d s = Some (r, s')"
  obtains "s' = s" "se_config s = None"
  | x out where "encrypt (en_evp E) (en_rand E (se_draws s)) [] [] (recordByte t # d) (se_out s) = (x, out)"
      "s' = s\<lparr>se_out := out\<rparr> \<or> s' = s\<lparr>se_out := out, se_draws := Suc (se_draws s)\<rparr> \<or>
       (\<exists>y. x = Ok y \<and> s' = s\<lparr>se_out := out, se_draws := Suc (se_draws s), se_sent := se_sent s @ [(t, y)]\<rparr>)"
proof -
  obtain x out where e: "encrypt (en_evp E) (en_rand E (se_draws s)) [] [] (recordByte t # d) (se_out s) = (x, out)" by fastforce
  have "x \<noteq> Fail y" for y
    using encrypt_never_fails [of "en_evp E" "en_rand E (se_draws s)" "recordByte t # d" "se_out s" y] e by simp
  then have "s' = s \<and> se_config s = None \<or> s' = s\<lparr>se_out := out\<rparr> \<or> s' = s\<lparr>se_out := out, se_draws := Suc (se_draws s)\<rparr> \<or>
      (\<exists>y. x = Ok y \<and> s' = s\<lparr>se_out := out, se_draws := Suc (se_draws s), se_sent := se_sent s @ [(t, y)]\<rparr>)"
    using assms e by (subst (asm) writeRecord.simps) (cases x; auto simp: Let_def split: res.splits if_splits)
  then show thesis using that(1) that(2) [OF e] by blast
qed

lemma writeRecord_complete: "writeRecord E t d s = Some (r, s') \<Longrightarrow> se_complete s' = se_complete s"
  by (erule writeRecord_cases) auto

lemma writeRecord_sent: "writeRecord E t d s = Some (r, s') \<Longrightarrow> x \<in> set (se_sent s') \<Longrightarrow> x \<in> set (se_sent s) \<or> fst x = t"
  by (erule writeRecord_cases) auto

lemma writeRecord_log: "writeRecord E t d s = Some (r, s') \<Longrightarrow> set (se_sent s) \<subseteq> set (se_sent s')"
  by (erule writeRecord_cases) auto

definition appData :: "sess \<Rightarrow> bytes set" where
  "appData s = {x. (RecordApplicationData, x) \<in> set (se_sent s)}"

text \<open>Until the last step nothing marks a handshake complete, and no step sends application data.\<close>

definition keeps :: "'a comp \<Rightarrow> sess \<Rightarrow> bool" where
  "keeps c s \<longleftrightarrow> (\<forall>r s'. c = Some (r, s') \<longrightarrow> se_complete s' = se_complete s \<and> appData s' = appData s)"

lemma keeps_bind:
  assumes "keeps m s" "\<And>x s1. keeps (f x s1) s1"
  shows "keeps (bindS m f) s"
proof (cases m)
  case (Some p)
  obtain r s1 where p: "p = (r, s1)" by fastforce
  have s1: "se_complete s1 = se_complete s" "appData s1 = appData s" using assms(1) Some p by (simp_all add: keeps_def)
  show ?thesis using assms(2) [of _ s1] s1 Some p by (cases r) (simp_all add: keeps_def)
qed (simp add: keeps_def)

lemma keeps_Some: "se_complete s' = se_complete s \<Longrightarrow> appData s' = appData s \<Longrightarrow> keeps (Some (r, s')) s"
  by (simp add: keeps_def)

lemma keeps_map: "keeps (map_option (\<lambda>r. (r, s)) m) s"
  by (auto simp: keeps_def)

lemma keeps_if: "(P \<Longrightarrow> keeps a s) \<Longrightarrow> (\<not> P \<Longrightarrow> keeps b s) \<Longrightarrow> keeps (if P then a else b) s"
  by simp

lemma keeps_prod: "(\<And>x y. p = (x, y) \<Longrightarrow> keeps (f x y t) s) \<Longrightarrow> keeps ((case p of (x, y) \<Rightarrow> f x y) t) s"
  by (cases p) simp

lemma appData_frame [simp]:
  "appData (s\<lparr>se_config := a\<rparr>) = appData s" "appData (s\<lparr>se_vers := b\<rparr>) = appData s" "appData (s\<lparr>se_cipherSuite := c\<rparr>) = appData s"
  "appData (s\<lparr>se_secureRenegotiation := d\<rparr>) = appData s" "appData (s\<lparr>se_curveID := e\<rparr>) = appData s"
  "appData (s\<lparr>se_handshakes := f\<rparr>) = appData s" "appData (s\<lparr>se_complete := g\<rparr>) = appData s" "appData (s\<lparr>se_err := h\<rparr>) = appData s"
  "appData (s\<lparr>se_in := i\<rparr>) = appData s" "appData (s\<lparr>se_out := j\<rparr>) = appData s" "appData (s\<lparr>se_localFinished := k\<rparr>) = appData s"
  "appData (s\<lparr>se_remoteFinished := l\<rparr>) = appData s" "appData (s\<lparr>se_done := m\<rparr>) = appData s" "appData (s\<lparr>se_draws := n\<rparr>) = appData s"
  by (simp_all add: appData_def)

lemma keeps_writeRecord: "t \<noteq> RecordApplicationData \<Longrightarrow> keeps (writeRecord E t c s) s"
  using writeRecord_complete writeRecord_sent writeRecord_log unfolding keeps_def appData_def by fastforce

lemmas keeps_rules = keeps_bind keeps_Some keeps_map keeps_if keeps_prod keeps_writeRecord

lemma keeps_writeHandshakeRecord: "keeps (writeHandshakeRecord E m t s) s"
  unfolding writeHandshakeRecord_def by (intro keeps_rules refl) simp

lemma keeps_writeChangeCipherRecord: "keeps (writeChangeCipherRecord E s) s"
  unfolding writeChangeCipherRecord_def by (intro keeps_bind keeps_writeRecord) (auto simp: keeps_def)

lemma keeps_onHello: "keeps (onHello E h ev s) s"
proof -
  have a: "keeps (pickE2EVersion r s) s" for r s
    by (auto simp: pickE2EVersion_def keeps_def split: prod.splits bool.splits)
  have p: "keeps (pickCipherSuite E h r s) s" for r s
    by (auto simp: pickCipherSuite_def keeps_def split: option.splits)
  have q: "keeps (checkRenegotiation r s) s" for r s
    unfolding checkRenegotiation_def Let_def by (intro keeps_if keeps_Some) auto
  have b: "keeps (processHello E h r s) s" for r s
    unfolding processHello_def by (intro keeps_rules p q refl)
  have c: "keeps (sendKeyExchange E hs s) s" for hs s
    unfolding sendKeyExchange_def by (intro keeps_rules keeps_writeHandshakeRecord refl)
  show ?thesis
    unfolding onHello_def
  proof (intro keeps_bind keeps_Some refl)
    fix msg s
    show "keeps (case msg of
       Hello remoteHello \<Rightarrow>
         bindS (pickE2EVersion remoteHello s) (\<lambda>_ s.
         bindS (processHello E h remoteHello s) (\<lambda>(suite, scheme) s.
         bindS (Some (helloTranscript E (en_hostId E) (se_remoteId s) h remoteHello
                        (newFinishedHash (en_digests E) suite (en_hostId E) (se_remoteId s)), s)) (\<lambda>f s.
         sendKeyExchange E
           \<lparr>hs_localId = en_hostId E, hs_remoteId = se_remoteId s, hs_helloMsg = h,
            hs_remoteHelloMsg = remoteHello, hs_suite = suite, hs_signatureScheme = scheme,
            hs_finishedHash = f, hs_masterSecret = []\<rparr> s)))
     | _ \<Rightarrow> Some (Fail ErrUnexpectedMessage, s)) s"
      by (cases msg; simp only: handshakeMessage.case) (intro keeps_rules a b c refl)+
  qed
qed

lemma keeps_onKeyExchange: "keeps (onKeyExchange E hs ka kx ev s) s"
proof -
  have a: "keeps (readKeyExchange E hs ka kx msg s) s" for hs msg s
    unfolding readKeyExchange_def
    by (cases msg; simp only: handshakeMessage.case) (intro keeps_rules, auto)+
  have b: "keeps (deriveMaster E hs p s) s" for hs p s
    unfolding deriveMaster_def by (intro keeps_rules refl)
  have c: "keeps (establishKeys E hs s) s" for hs s
    unfolding establishKeys_def Let_def by (intro keeps_rules) simp_all
  have d: "keeps (sendFinished E hs s) s" for hs s
    unfolding sendFinished_def
    by (intro keeps_rules keeps_writeChangeCipherRecord keeps_writeHandshakeRecord) simp_all
  show ?thesis unfolding onKeyExchange_def by (intro keeps_rules a b c d refl)
qed

lemma endOr_complete:
  assumes "keeps c s" "endOr next c = Some (ph, s')"
  shows "se_complete s' = se_complete s \<and> appData s' = appData s"
proof -
  obtain r s0 where c: "c = Some (r, s0)" using assms(2) by (auto simp: endOr_def)
  have e: "se_complete s0 = se_complete s" "appData s0 = appData s" using assms(1) c unfolding keeps_def by blast+
  have "s' = s0 \<or> s' = snd (endHandshake (Fail x) s0)" if "r = Fail x" for x
    using assms(2) c that by (simp add: endOr_def split_def Let_def)
  moreover have "s' = s0" if "r = Ok x \<or> r = Panic p" for x p using assms(2) c that by (auto simp: endOr_def)
  moreover have "se_complete (snd (endHandshake (Fail x) s0)) = se_complete s0 \<and> appData (snd (endHandshake (Fail x) s0)) = appData s0" for x
    by (simp add: endHandshake_def Let_def)
  ultimately show ?thesis using e by (cases r) auto
qed

text \<open>C6: a handshake becomes complete only in its last step, on a finished message that carries
  exactly the verify value of the peer: no other message in any phase, no error and no write
  completes it.\<close>

theorem completes_only_with_finished:
  assumes "\<not> se_complete s" "stepPhase E ph ev s = Some (ph', s')" "se_complete s'"
  shows "\<exists>hs v. ph = AwaitFinished hs \<and> readHandshake E ev = Ok (Finished v) \<and> ph' = Ended (Ok ()) \<and>
    remoteSum (en_digests E) (hs_masterSecret hs) (hs_finishedHash hs) = Some (Ok v)"
proof (cases ph)
  case (AwaitHello h)
  then have "se_complete s' = se_complete s" using assms(2) endOr_complete [OF keeps_onHello] by (auto simp: stepPhase_def)
  then show ?thesis using assms by simp
next
  case (AwaitKeyExchange hs ka kx)
  then have "se_complete s' = se_complete s" using assms(2) endOr_complete [OF keeps_onKeyExchange] by (auto simp: stepPhase_def)
  then show ?thesis using assms by simp
next
  case (AwaitFinished hs)
  then obtain r s0 where r: "onFinished E hs ev s = Some (r, s0)" "Ended (fst (endHandshake r s0)) = ph'" "snd (endHandshake r s0) = s'"
    using assms(2) by (auto simp: stepPhase_def Let_def split_def)
  have "se_complete s0" using r(3) assms(3) by (cases r) (auto simp: endHandshake_def Let_def split: if_splits)
  then show ?thesis
    using r(1,2) assms(1) AwaitFinished
    by (cases "readHandshake E ev")
      (auto simp: onFinished_def endHandshake_def bindS_def Let_def split: handshakeMessage.splits option.splits res.splits if_splits)
next
  case (Ended r)
  then show ?thesis using assms by (simp add: stepPhase_def)
qed

lemma completes_only_with_finished_witness:
  "\<exists>(hs :: handshakeState) v. readHandshake (exEnv ''b'') (Arrived (finishedBytes v)) = Ok (Finished v) \<and> length v = 12 \<and>
     remoteSum exDigests (hs_masterSecret hs) (hs_finishedHash hs) = Some (Ok v)"
proof -
  define hs where "hs = \<lparr>hs_localId = ''b'', hs_remoteId = ''a'', hs_helloMsg = exHello, hs_remoteHelloMsg = exHello,
     hs_suite = suiteSM2, hs_signatureScheme = SM2WithSM3,
     hs_finishedHash = newFinishedHash exDigests suiteSM2 ''b'' ''a'', hs_masterSecret = [1]\<rparr>"
  define v where "v = verifyValue (en_digests (exEnv ''b'')) (hs_masterSecret hs) (hs_finishedHash hs)
      (fh_remoteLabel (hs_finishedHash hs))"
  let ?s = "NewSession None ''a''"
  let ?s' = "?s\<lparr>se_remoteFinished := v, se_complete := True, se_err := None, se_handshakes := Suc (se_handshakes ?s)\<rparr>"
  have s: "length (se_remoteFinished ?s) = 12" "\<not> se_complete ?s" "se_complete ?s'" by (simp_all add: NewSession_def)
  have l: "length v = 12" using verifyValue_sums(3) [OF exDigests_ok] by (simp add: v_def)
  have rd: "readHandshake (exEnv ''b'') (Arrived (finishedBytes v)) = Ok (Finished v)"
    using finishedBytes_read [OF exEnv_ok l] .
  obtain w where "readHandshake (exEnv ''b'') (Arrived (finishedBytes v)) = Ok (Finished w)"
      "remoteSum (en_digests (exEnv ''b'')) (hs_masterSecret hs) (hs_finishedHash hs) = Some (Ok w)"
    using completes_only_with_finished [OF s(2) stepPhase_finished [OF exEnv_ok s(1,2) v_def] s(3)] by blast
  then have "remoteSum exDigests (hs_masterSecret hs) (hs_finishedHash hs) = Some (Ok v)" using rd by simp
  then show ?thesis using rd l by blast
qed

end
