(* ===== verification/ConnModel.thy ===== *)
theory ConnModel
  imports Handshake Recovery
begin

text \<open>
  \<open>e2ewebsocket/conn.go\<close>: the secure connection.  Sessions are shared by the reader, the writers,
  the handshake goroutines and the map \<open>sessions\<close>, so they live in a heap and are named by
  pointers; a function on the connection is a state transformer that may block forever
  (\<open>None\<close>).  A goroutine a function starts is recorded in the state; what other goroutines do
  while a function waits is an argument.
\<close>

section \<open>State\<close>

text \<open>A session object with its handshake channel (16 places) and what its handshake waits for:
  \<open>None\<close> before the goroutine has run.\<close>

record sessObj =
  so_id :: SessionID
  so_sess :: sess
  so_chan :: "bytes list"
  so_phase :: "phase option"

text \<open>\<open>cn_out\<close> is what was sent on \<open>msgChan\<close>; \<open>cn_tasks\<close> are the recovery requests and
  timers that were started, \<open>cn_handshakes\<close> the sessions whose handshake was.\<close>

record connState =
  cn_hostId :: string
  cn_open :: bool
  cn_closed :: bool
  cn_config :: "config option"
  cn_sessions :: "SessionID \<rightharpoonup> nat"
  cn_heap :: "sessObj list"
  cn_out :: "readMsgItem list"
  cn_tasks :: "(nat \<times> secureMessageRef \<times> string) list"
  cn_handshakes :: "nat list"
  cn_cache :: sendCache
  cn_reorder :: reorderMap
  cn_realtime :: realtimeMap

text \<open>
  What the connection takes from outside: the libraries, identifiers and clock readings, JSON, the
  order map iteration visits, the outcome of writing to the websocket, and, for a wait on a
  handshake, what ends it and what the other goroutines do meanwhile.
\<close>

record connEnv =
  ce_hs :: hsEnv
  ce_codec :: codec
  ce_uuid :: string
  ce_now :: int
  ce_ctlId :: string
  ce_json :: "bytes \<Rightarrow> secureControlFrame option"
  ce_toJson :: "secureControlFrame \<Rightarrow> bytes option"
  ce_visit :: visitOrder
  ce_ws :: "bytes \<Rightarrow> unit res"
  ce_wait :: handshakeWait
  ce_during :: "connState \<Rightarrow> connState"

type_synonym connComp = "(unit res \<times> connState) option"

definition sessOf :: "nat \<Rightarrow> connState \<Rightarrow> sess" where
  "sessOf p c = (so_sess (cn_heap c ! p))\<lparr>se_config := cn_config c\<rparr>"

definition emit :: "readMsgItem list \<Rightarrow> connState \<Rightarrow> connState" where
  "emit items c = c\<lparr>cn_out := cn_out c @ items\<rparr>"

section \<open>Sessions\<close>

definition getSessionID :: "string \<Rightarrow> string \<Rightarrow> SessionID" where
  "getSessionID A B = (if A < B then A @ ''_'' @ B else B @ ''_'' @ A)"

definition allocSession :: "SessionID \<Rightarrow> string \<Rightarrow> connState \<Rightarrow> nat \<times> connState" where
  "allocSession sid peerID c =
     (length (cn_heap c),
      c\<lparr>cn_heap := cn_heap c @ [\<lparr>so_id = sid, so_sess = NewSession (cn_config c) peerID, so_chan = [], so_phase = None\<rparr>],
        cn_sessions := (cn_sessions c)(sid \<mapsto> length (cn_heap c))\<rparr>)"

text \<open>\<open>LoadOrStore\<close>; the flag tells that the session was there.\<close>

definition loadOrStore :: "SessionID \<Rightarrow> string \<Rightarrow> connState \<Rightarrow> (nat \<times> bool) \<times> connState" where
  "loadOrStore sid peerID c =
     (case cn_sessions c sid of Some p \<Rightarrow> ((p, True), c)
      | None \<Rightarrow> let (p, c') = allocSession sid peerID c in ((p, False), c'))"

text \<open>\<open>Close\<close> of the session and \<open>Delete\<close> of its identifier, whichever session is stored there.\<close>

definition closeSessionLocally :: "nat \<Rightarrow> connState \<Rightarrow> connState" where
  "closeSessionLocally p c =
     (let obj = cn_heap c ! p in
      c\<lparr>cn_heap := (cn_heap c)[p := obj\<lparr>so_sess := (so_sess obj)\<lparr>se_done := True\<rparr>\<rparr>],
        cn_sessions := (cn_sessions c)(so_id obj := None)\<rparr>)"

text \<open>Storing a session back; a termination inside the step also deletes it from the map.\<close>

definition storeSess :: "nat \<Rightarrow> sess \<Rightarrow> connState \<Rightarrow> connState" where
  "storeSess p s c =
     (let obj = cn_heap c ! p;
          c1 = c\<lparr>cn_heap := (cn_heap c)[p := obj\<lparr>so_sess := s\<rparr>], cn_config := se_config s\<rparr>
      in if se_done s \<and> \<not> se_done (so_sess obj) then closeSessionLocally p c1 else c1)"

definition onSess :: "nat \<Rightarrow> (sess \<Rightarrow> ('a res \<times> sess) option) \<Rightarrow> connState \<Rightarrow> ('a res \<times> connState) option" where
  "onSess p f c = (case f (sessOf p c) of None \<Rightarrow> None | Some (r, s) \<Rightarrow> Some (r, storeSess p s c))"

section \<open>Writing\<close>

text \<open>The part of \<open>writeRecordLocked\<close> after the encryption: content, marker, encoding, websocket.\<close>

definition frameRecord :: "codec \<Rightarrow> string \<Rightarrow> int \<Rightarrow> MsgData \<Rightarrow> bytes \<Rightarrow> bytes res" where
  "frameRecord K uuid now m content =
     (let m1 = SetContent content m;
          m2 = (if HasPrefix (GetEx m1) SecureWSMarker then m1 else SetEx (SecureWSMarker @ GetEx m1) m1)
      in MsgDataToBytesWriteBound K uuid now m2)"

definition sendFrame :: "connEnv \<Rightarrow> connState \<Rightarrow> MsgData \<Rightarrow> bytes \<Rightarrow> unit res" where
  "sendFrame E c m content =
     bind_res (frameRecord (ce_codec E) (ce_uuid E) (ce_now E) m content) (\<lambda>b.
     if \<not> cn_open c then Fail ErrNotConnected else ce_ws E b)"

definition controlMsg :: "connEnv \<Rightarrow> connState \<Rightarrow> nat \<Rightarrow> bytes \<Rightarrow> MsgData" where
  "controlMsg E c p data = ConstructMsgData (ce_ctlId E) (ce_now E) (cn_hostId c) (se_remoteId (sessOf p c)) data"

text \<open>The environment of a session's own writes: an alert is a message of its own.\<close>

definition recEnv :: "connEnv \<Rightarrow> connState \<Rightarrow> nat \<Rightarrow> MsgData \<Rightarrow> hsEnv" where
  "recEnv E c p m =
     (ce_hs E)\<lparr>en_hostId := cn_hostId c,
               en_net := (\<lambda>t content. sendFrame E c (if t = RecordAlert then controlMsg E c p alertText else m) content)\<rparr>"

definition writeRecordLocked :: "connEnv \<Rightarrow> recordType \<Rightarrow> MsgData \<Rightarrow> nat \<Rightarrow> connState \<Rightarrow> connComp" where
  "writeRecordLocked E typ m p c = onSess p (writeRecord (recEnv E c p m) typ (GetContent m)) c"

definition terminateSession :: "connEnv \<Rightarrow> nat \<Rightarrow> connState \<Rightarrow> connComp" where
  "terminateSession E p c =
     (case writeRecordLocked E RecordAlert (controlMsg E c p alertText) p c of
        None \<Rightarrow> None
      | Some (Panic s, c') \<Rightarrow> Some (Panic s, c')
      | Some (_, c') \<Rightarrow> Some (Ok (), closeSessionLocally p c'))"

definition writeSecureControl :: "connEnv \<Rightarrow> nat \<Rightarrow> secureControlFrame \<Rightarrow> connState \<Rightarrow> connComp" where
  "writeSecureControl E p frame c =
     (case ce_toJson E frame of None \<Rightarrow> Some (Fail LibError, c)
      | Some payload \<Rightarrow> writeRecordLocked E RecordSecureControl (controlMsg E c p payload) p c)"

definition writeRawMessage :: "connEnv \<Rightarrow> bytes \<Rightarrow> connState \<Rightarrow> unit res" where
  "writeRawMessage E message c = (if \<not> cn_open c then Fail ErrNotConnected else ce_ws E message)"

text \<open>
  \<open>WriteMessage\<close>.  \<open>run\<close> is \<open>session.Handshake()\<close> on the session, with all that happens until
  it returns; \<open>closeErr\<close> is the error of closing the websocket.
\<close>

definition connClose :: "unit res \<Rightarrow> connState \<Rightarrow> unit res \<times> connState" where
  "connClose closeErr c = (if cn_open c then (closeErr, c\<lparr>cn_open := False\<rparr>) else (Ok (), c))"

definition WriteMessage ::
  "connEnv \<Rightarrow> (nat \<Rightarrow> connState \<Rightarrow> connComp) \<Rightarrow> unit res \<Rightarrow> bool \<Rightarrow> bytes \<Rightarrow> connState \<Rightarrow> connComp" where
  "WriteMessage E run closeErr binary message c =
     (if \<not> binary then Some (writeRawMessage E message c, c)
      else case BytesToMsgDataWriteBound (ce_codec E) message of
        Fail e \<Rightarrow> Some (if e = ErrBypassSecureWS then writeRawMessage E message c else Fail e, c)
      | Panic s \<Rightarrow> Some (Panic s, c)
      | Ok m \<Rightarrow>
          if GetRecvID m = [] then Some (writeRawMessage E message c, c)
          else
            (case loadOrStore (getSessionID (cn_hostId c) (GetRecvID m)) (GetRecvID m) c of ((p, _), c1) \<Rightarrow>
              (case run p c1 of
                 None \<Rightarrow> None
               | Some (Panic s, c2) \<Rightarrow> Some (Panic s, c2)
               | Some (Fail e, c2) \<Rightarrow>
                   (case terminateSession E p c2 of None \<Rightarrow> None
                    | Some (Panic s, c3) \<Rightarrow> Some (Panic s, c3)
                    | Some (_, c3) \<Rightarrow> Some (Fail e, c3))
               | Some (Ok _, c2) \<Rightarrow>
                   (case writeRecordLocked E RecordApplicationData m p
                           (c2\<lparr>cn_cache := cacheOutboundMessage m (cn_cache c2)\<rparr>) of
                      None \<Rightarrow> None
                    | Some (Panic s, c3) \<Rightarrow> Some (Panic s, c3)
                    | Some (Fail _, c3) \<Rightarrow> Some (connClose closeErr c3)
                    | Some (Ok _, c3) \<Rightarrow> Some (Ok (), c3)))))"

section \<open>Reading\<close>

definition inboundPeerID :: "string \<Rightarrow> MsgData \<Rightarrow> string" where
  "inboundPeerID hostId m =
     (if GetSendID m = [] then GetRecvID m
      else if GetSendID m = hostId \<and> GetRecvID m \<noteq> [] then GetRecvID m
      else GetSendID m)"

definition shouldDropSecureInbound :: "MsgData \<Rightarrow> bool" where
  "shouldDropSecureInbound m \<longleftrightarrow> ReadReqIdentifier m \<noteq> 0 \<and> ReadReqIdentifier m \<noteq> 2001"

definition shouldDropSecureSelfEcho :: "string \<Rightarrow> MsgData \<Rightarrow> bool" where
  "shouldDropSecureSelfEcho hostId m \<longleftrightarrow>
     GetSendID m \<noteq> [] \<and> GetSendID m = hostId \<and> GetRecvID m \<noteq> [] \<and> GetRecvID m \<noteq> hostId"

definition terminateUnlessSynced :: "connEnv \<Rightarrow> MsgData \<Rightarrow> nat \<Rightarrow> connState \<Rightarrow> connComp" where
  "terminateUnlessSynced E m p c =
     (if shouldDropSecureInbound m then Some (Ok (), c) else terminateSession E p c)"

definition markLost :: "connEnv \<Rightarrow> nat \<Rightarrow> string \<Rightarrow> int \<Rightarrow> MsgData \<Rightarrow> connState \<Rightarrow> connState" where
  "markLost E p peerID msgType m c =
     (let (started, ro) = markLostInbound (ce_now E) (so_id (cn_heap c ! p)) peerID msgType m (cn_reorder c)
      in c\<lparr>cn_reorder := ro,
           cn_tasks := cn_tasks c @ (case started of None \<Rightarrow> [] | Some (ref, key) \<Rightarrow> [(p, ref, key)])\<rparr>)"

text \<open>Waiting for the handshake: not at all when it is complete meanwhile.\<close>

definition waitHandshake :: "connEnv \<Rightarrow> nat \<Rightarrow> connState \<Rightarrow> handshakeWait \<times> connState" where
  "waitHandshake E p c =
     (if se_complete (sessOf p c) then (HandshakeDone, c) else (ce_wait E, ce_during E c))"

definition noCipherYet :: "bool \<Rightarrow> nat \<Rightarrow> connState \<Rightarrow> bool" where
  "noCipherYet complete p c \<longleftrightarrow> \<not> complete \<and> \<not> hasCipher (se_in (sessOf p c))"

definition handleApplicationData ::
  "connEnv \<Rightarrow> int \<Rightarrow> MsgData \<Rightarrow> string \<Rightarrow> SessionID \<Rightarrow> nat \<Rightarrow> bool \<Rightarrow> bool \<Rightarrow> connState \<Rightarrow> connComp" where
  "handleApplicationData E msgType m peerID sid p loaded complete c =
     (if noCipherYet complete p c then Some (Ok (), markLost E p peerID msgType m c)
      else
        let (w, c1) = (if \<not> complete \<and> loaded then waitHandshake E p c else (HandshakeDone, c)) in
        case w of
          WaitTimeout \<Rightarrow> terminateUnlessSynced E m p c1
        | SessionClosed \<Rightarrow> Some (Ok (), c1)
        | HandshakeDone \<Rightarrow>
            (case MsgDataToBytesReadBound (ce_codec E) (ce_uuid E) (ce_now E) m (cn_realtime c1) of
               (Panic s, rt) \<Rightarrow> Some (Panic s, c1\<lparr>cn_realtime := rt\<rparr>)
             | (Fail e, rt) \<Rightarrow> terminateUnlessSynced E m p (c1\<lparr>cn_realtime := rt\<rparr>)
             | (Ok b, rt) \<Rightarrow>
                 (let item = \<lparr>ri_sessionId = sid, ri_remoteId = peerID, ri_msgType = msgType, ri_msg = b, ri_err = None\<rparr>;
                      (items, ro) = deliverApplication (ce_visit E) (ce_now E) sid (messageRef m) item (cn_reorder c1)
                  in Some (Ok (), emit items (c1\<lparr>cn_realtime := rt, cn_reorder := ro\<rparr>)))))"

definition handleHandshake ::
  "connEnv \<Rightarrow> int \<Rightarrow> MsgData \<Rightarrow> string \<Rightarrow> bytes \<Rightarrow> nat \<Rightarrow> bool \<Rightarrow> connState \<Rightarrow> connComp" where
  "handleHandshake E msgType m peerID data p complete c =
     (if \<not> isPlaintextHandshakeMessage (en_crypto (ce_hs E)) data
      then (if noCipherYet complete p c then Some (Ok (), markLost E p peerID msgType m c)
            else terminateUnlessSynced E m p c)
      else if length (so_chan (cn_heap c ! p)) < 16
      then Some (Ok (), c\<lparr>cn_heap := (cn_heap c)[p := (cn_heap c ! p)\<lparr>so_chan := so_chan (cn_heap c ! p) @ [data]\<rparr>]\<rparr>)
      else terminateUnlessSynced E m p c)"

definition handleChangeCipherSpec :: "connEnv \<Rightarrow> MsgData \<Rightarrow> bytes \<Rightarrow> nat \<Rightarrow> connState \<Rightarrow> connComp" where
  "handleChangeCipherSpec E m data p c =
     (if data \<noteq> ccsText then terminateUnlessSynced E m p c
      else case onSess p (\<lambda>s. map_option (\<lambda>(r, inn). (r, s\<lparr>se_in := inn\<rparr>))
                               (changeCipherSpec (se_done s) (en_pick (ce_hs E)) (se_in s))) c of
             None \<Rightarrow> None
           | Some (Ok _, c') \<Rightarrow> Some (Ok (), c')
           | Some (Fail _, c') \<Rightarrow> terminateUnlessSynced E m p c'
           | Some (Panic s, c') \<Rightarrow> Some (Panic s, c'))"

definition handleControl ::
  "connEnv \<Rightarrow> string \<Rightarrow> bytes \<Rightarrow> nat \<Rightarrow> bool \<Rightarrow> bool \<Rightarrow> connState \<Rightarrow> connComp" where
  "handleControl E peerID data p loaded complete c =
     (let (w, c1) = (if \<not> complete \<and> loaded then waitHandshake E p c else (HandshakeDone, c)) in
      case w of
        WaitTimeout \<Rightarrow> Some (Ok (), c1)
      | SessionClosed \<Rightarrow> Some (Ok (), c1)
      | HandshakeDone \<Rightarrow>
          (let (items, answer, ro, rt) =
                 handleSecureControl (ce_codec E) (ce_uuid E) (ce_now E) (ce_visit E) (ce_json E)
                   (so_id (cn_heap c1 ! p)) peerID data (cn_cache c1) (cn_reorder c1, cn_realtime c1);
               c2 = emit items (c1\<lparr>cn_reorder := ro, cn_realtime := rt\<rparr>)
           in case answer of
                None \<Rightarrow> Some (Ok (), c2)
              | Some frame \<Rightarrow>
                  (case writeSecureControl E p frame c2 of
                     None \<Rightarrow> None
                   | Some (Panic s, c3) \<Rightarrow> Some (Panic s, c3)
                   | Some (_, c3) \<Rightarrow> Some (Ok (), c3))))"

text \<open>The record in a decrypted payload; \<open>complete\<close> was read before the decryption.\<close>

definition handleRecord ::
  "connEnv \<Rightarrow> int \<Rightarrow> MsgData \<Rightarrow> string \<Rightarrow> SessionID \<Rightarrow> nat \<Rightarrow> bool \<Rightarrow> bool \<Rightarrow> bytes \<Rightarrow> connState \<Rightarrow> connComp" where
  "handleRecord E msgType m0 peerID sid p loaded complete plaintext c =
     (if plaintext = [] then terminateUnlessSynced E m0 p c
      else let data = tl plaintext; m = SetContent data m0 in
        case recordType_of (hd plaintext) of
          UnknownRecord _ \<Rightarrow>
            if shouldDropSecureInbound m then Some (Ok (), c)
            else if noCipherYet complete p c then Some (Ok (), markLost E p peerID msgType m c)
            else terminateSession E p c
        | RecordAlert \<Rightarrow>
            if data \<noteq> alertText then terminateUnlessSynced E m p c else Some (Ok (), closeSessionLocally p c)
        | RecordApplicationData \<Rightarrow> handleApplicationData E msgType m peerID sid p loaded complete c
        | RecordHandshake \<Rightarrow> handleHandshake E msgType m peerID data p complete c
        | RecordChangeCipherSpec \<Rightarrow> handleChangeCipherSpec E m data p c
        | RecordSecureControl \<Rightarrow> handleControl E peerID data p loaded complete c)"

text \<open>A fresh session in place of one that cannot read a plaintext hello.\<close>

definition tryResetSessionFromPlaintextHello ::
  "connEnv \<Rightarrow> bytes \<Rightarrow> nat \<Rightarrow> string \<Rightarrow> SessionID \<Rightarrow> connState \<Rightarrow> bool \<times> connState" where
  "tryResetSessionFromPlaintextHello E content old peerID sid c =
     (if \<not> isPlaintextHelloRecord (en_crypto (ce_hs E)) content then (False, c)
      else
        let c1 = closeSessionLocally old c;
            (p, c2) = allocSession sid peerID c1;
            obj = cn_heap c2 ! p
        in (True, c2\<lparr>cn_heap := (cn_heap c2)[p := obj\<lparr>so_chan := [tl content]\<rparr>],
                     cn_handshakes := cn_handshakes c2 @ [p]\<rparr>))"

definition handleSecure :: "connEnv \<Rightarrow> int \<Rightarrow> MsgData \<Rightarrow> string \<Rightarrow> connState \<Rightarrow> connComp" where
  "handleSecure E msgType m peerID c =
     (let sid = getSessionID (cn_hostId c) peerID in
      case loadOrStore sid peerID c of ((p, loaded), c0) \<Rightarrow>
        let c1 = (if loaded then c0 else c0\<lparr>cn_handshakes := cn_handshakes c0 @ [p]\<rparr>);
            complete = se_complete (sessOf p c1)
        in case decrypt (en_evp (ce_hs E)) (GetContent m) (se_in (sessOf p c1)) of
             (Panic s, inn) \<Rightarrow> Some (Panic s, storeSess p ((sessOf p c1)\<lparr>se_in := inn\<rparr>) c1)
           | (Fail e, inn) \<Rightarrow>
               (let c2 = storeSess p ((sessOf p c1)\<lparr>se_in := inn\<rparr>) c1 in
                if shouldDropSecureInbound m then Some (Ok (), c2)
                else case tryResetSessionFromPlaintextHello E (GetContent m) p peerID sid c2 of
                       (True, c3) \<Rightarrow> Some (Ok (), c3)
                     | (False, c3) \<Rightarrow> terminateSession E p c3)
           | (Ok plaintext, inn) \<Rightarrow>
               handleRecord E msgType m peerID sid p loaded complete plaintext
                 (storeSess p ((sessOf p c1)\<lparr>se_in := inn\<rparr>) c1))"

definition handleReadBoundMsg :: "connEnv \<Rightarrow> int \<Rightarrow> MsgData \<Rightarrow> connState \<Rightarrow> connComp" where
  "handleReadBoundMsg E msgType m c =
     (if \<not> IsSecureReadBound m then
        (case MsgDataToBytesReadBound (ce_codec E) (ce_uuid E) (ce_now E) m (cn_realtime c) of
           (Panic s, rt) \<Rightarrow> Some (Panic s, c\<lparr>cn_realtime := rt\<rparr>)
         | (Fail _, rt) \<Rightarrow> Some (Ok (), c\<lparr>cn_realtime := rt\<rparr>)
         | (Ok b, rt) \<Rightarrow>
             Some (Ok (), emit [\<lparr>ri_sessionId = [], ri_remoteId = inboundPeerID (cn_hostId c) m,
               ri_msgType = msgType, ri_msg = b, ri_err = None\<rparr>] (c\<lparr>cn_realtime := rt\<rparr>)))
      else if shouldDropSecureInbound m then Some (Ok (), c)
      else if shouldDropSecureSelfEcho (cn_hostId c) m then Some (Ok (), c)
      else if inboundPeerID (cn_hostId c) m = [] then Some (Ok (), c)
      else handleSecure E msgType m (inboundPeerID (cn_hostId c) m) c)"

fun handleAll :: "connEnv \<Rightarrow> int \<Rightarrow> MsgData list \<Rightarrow> connState \<Rightarrow> connComp" where
  "handleAll E msgType [] c = Some (Ok (), c)"
| "handleAll E msgType (m # ms) c =
     (case handleReadBoundMsg E msgType m c of
        None \<Rightarrow> None
      | Some (Ok _, c') \<Rightarrow> handleAll E msgType ms c'
      | Some (r, c') \<Rightarrow> Some (r, c'))"

text \<open>One frame of the websocket; \<open>frame\<close> is what reading it gave.\<close>

definition readRecord :: "connEnv \<Rightarrow> (int \<times> bytes) res \<Rightarrow> connState \<Rightarrow> connComp" where
  "readRecord E frame c =
     (case frame of
        Fail e \<Rightarrow> Some (Fail e, c)
      | Panic s \<Rightarrow> Some (Panic s, c)
      | Ok (msgType, msg) \<Rightarrow>
          let raw = \<lparr>ri_sessionId = [], ri_remoteId = [], ri_msgType = msgType, ri_msg = msg, ri_err = None\<rparr> in
          if msgType \<noteq> 2 then Some (Ok (), emit [raw] c)
          else
            (case BytesToMsgDataReadBoundBatch (ce_codec E) msg (cn_realtime c) of
               (Ok items, rt) \<Rightarrow> handleAll E msgType items (c\<lparr>cn_realtime := rt\<rparr>)
             | (Fail e, rt) \<Rightarrow>
                 Some (Ok (), if e = ErrBypassSecureWS then emit [raw] (c\<lparr>cn_realtime := rt\<rparr>) else c\<lparr>cn_realtime := rt\<rparr>)
             | (Panic s, rt) \<Rightarrow> Some (Panic s, c\<lparr>cn_realtime := rt\<rparr>)))"

text \<open>\<open>ReadMessage\<close> takes the next item; \<open>None\<close> waits.\<close>

definition ReadMessage :: "connState \<Rightarrow> ((int \<times> bytes \<times> error option) \<times> connState) option" where
  "ReadMessage c =
     (case cn_out c of [] \<Rightarrow> None
      | item # items \<Rightarrow> Some ((ri_msgType item, ri_msg item, ri_err item), c\<lparr>cn_out := items\<rparr>))"

section \<open>Opening and closing\<close>

definition NewSecureConn :: "config option \<Rightarrow> connState" where
  "NewSecureConn cfg =
     \<lparr>cn_hostId = [], cn_open = False, cn_closed = False, cn_config = cfg, cn_sessions = Map.empty, cn_heap = [],
      cn_out = [], cn_tasks = [], cn_handshakes = [], cn_cache = \<lparr>sc_map = Map.empty, sc_order = []\<rparr>,
      cn_reorder = Map.empty, cn_realtime = Map.empty\<rparr>"

definition DialAndSetUserId :: "unit res \<Rightarrow> string \<Rightarrow> connState \<Rightarrow> unit res \<times> connState" where
  "DialAndSetUserId dialed hostId c =
     (let c1 = c\<lparr>cn_hostId := hostId\<rparr> in
      case dialed of Ok _ \<Rightarrow> (Ok (), c1\<lparr>cn_open := True\<rparr>) | r \<Rightarrow> (r, c1))"

text \<open>\<open>ShutDown\<close> closes the sessions in the map; every one is stored under its own identifier.\<close>

definition ShutDown :: "unit res \<Rightarrow> connState \<Rightarrow> unit res \<times> connState" where
  "ShutDown closeErr c =
     (if cn_open c then closeErr else Ok (),
      c\<lparr>cn_closed := True, cn_open := False,
        cn_heap := map (\<lambda>(i, obj). if cn_sessions c (so_id obj) = Some i
                                     then obj\<lparr>so_sess := (so_sess obj)\<lparr>se_done := True\<rparr>\<rparr> else obj)
                     (enumerate 0 (cn_heap c))\<rparr>)"

text \<open>The handshake goroutine of a session: it starts, or it takes a message from the channel.\<close>

definition runHandshake :: "connEnv \<Rightarrow> nat \<Rightarrow> connState \<Rightarrow> connState option" where
  "runHandshake E p c =
     (let obj = cn_heap c ! p; H = recEnv E c p (controlMsg E c p []) in
      case so_phase obj of
        None \<Rightarrow>
          (case enterHandshake H (sessOf p c) of None \<Rightarrow> None
           | Some (ph, s) \<Rightarrow> Some (storeSess p s (c\<lparr>cn_heap := (cn_heap c)[p := obj\<lparr>so_phase := Some ph\<rparr>]\<rparr>)))
      | Some ph \<Rightarrow>
          (case so_chan obj of [] \<Rightarrow> None
           | data # rest \<Rightarrow>
               (case stepPhase H ph (Arrived data) (sessOf p c) of None \<Rightarrow> None
                | Some (ph', s) \<Rightarrow>
                    Some (storeSess p s (c\<lparr>cn_heap := (cn_heap c)[p := obj\<lparr>so_phase := Some ph', so_chan := rest\<rparr>]\<rparr>)))))"

section \<open>The session map\<close>

text \<open>Every session in the map exists, is stored under its own identifier and is open until the
  connection is shut down.\<close>

definition conn_ok :: "connState \<Rightarrow> bool" where
  "conn_ok c \<longleftrightarrow>
     (\<forall>sid p. cn_sessions c sid = Some p \<longrightarrow>
        p < length (cn_heap c) \<and> so_id (cn_heap c ! p) = sid \<and>
        (cn_closed c \<or> \<not> se_done (so_sess (cn_heap c ! p))))"

definition stays :: "connState \<Rightarrow> connState \<Rightarrow> bool" where
  "stays c c' \<longleftrightarrow> conn_ok c' \<and> length (cn_heap c) \<le> length (cn_heap c')"

definition stays_comp :: "connState \<Rightarrow> ('a \<times> connState) option \<Rightarrow> bool" where
  "stays_comp c m \<longleftrightarrow> (\<forall>r c'. m = Some (r, c') \<longrightarrow> stays c c')"

lemma stays_trans: "stays a b \<Longrightarrow> stays b c \<Longrightarrow> stays a c"
  by (simp add: stays_def)

lemma stays_comp_trans: "stays a b \<Longrightarrow> stays_comp b m \<Longrightarrow> stays_comp a m"
  using stays_trans by (auto simp: stays_comp_def)

lemma stays_Some [simp]: "stays_comp c (Some (r, c')) \<longleftrightarrow> stays c c'"
  by (simp add: stays_comp_def)

lemma stays_None [simp]: "stays_comp c None"
  by (simp add: stays_comp_def)

lemma stays_refl [simp]: "stays c c \<longleftrightarrow> conn_ok c"
  by (simp add: stays_def)

text \<open>Changes outside the map and the heap.\<close>

lemma conn_ok_frame [simp]:
  "conn_ok (c\<lparr>cn_out := a\<rparr>) = conn_ok c" "conn_ok (c\<lparr>cn_tasks := b\<rparr>) = conn_ok c"
  "conn_ok (c\<lparr>cn_handshakes := d\<rparr>) = conn_ok c" "conn_ok (c\<lparr>cn_cache := e\<rparr>) = conn_ok c"
  "conn_ok (c\<lparr>cn_reorder := f\<rparr>) = conn_ok c" "conn_ok (c\<lparr>cn_realtime := g\<rparr>) = conn_ok c"
  "conn_ok (c\<lparr>cn_open := h\<rparr>) = conn_ok c" "conn_ok (c\<lparr>cn_config := i\<rparr>) = conn_ok c"
  "conn_ok (c\<lparr>cn_hostId := j\<rparr>) = conn_ok c" "conn_ok (emit k c) = conn_ok c"
  by (simp_all add: conn_ok_def emit_def)

lemma stays_frame [simp]:
  "stays c (c'\<lparr>cn_out := a\<rparr>) = stays c c'" "stays c (c'\<lparr>cn_tasks := b\<rparr>) = stays c c'"
  "stays c (c'\<lparr>cn_handshakes := d\<rparr>) = stays c c'" "stays c (c'\<lparr>cn_cache := e\<rparr>) = stays c c'"
  "stays c (c'\<lparr>cn_reorder := f\<rparr>) = stays c c'" "stays c (c'\<lparr>cn_realtime := g\<rparr>) = stays c c'"
  "stays c (c'\<lparr>cn_open := h\<rparr>) = stays c c'" "stays c (emit k c') = stays c c'"
  by (simp_all add: stays_def, simp add: emit_def)

lemma stays_closeSessionLocally:
  assumes "conn_ok c" "p < length (cn_heap c)"
  shows "stays c (closeSessionLocally p c)"
  using assms by (fastforce simp: stays_def conn_ok_def closeSessionLocally_def Let_def nth_list_update)

lemma stays_heap:
  assumes "conn_ok c" "p < length (cn_heap c)" "so_id obj = so_id (cn_heap c ! p)"
    "se_done (so_sess obj) \<longrightarrow> se_done (so_sess (cn_heap c ! p))"
  shows "stays c (c\<lparr>cn_heap := (cn_heap c)[p := obj]\<rparr>)"
  using assms by (fastforce simp: stays_def conn_ok_def nth_list_update)

lemma stays_storeSess:
  assumes "conn_ok c" "p < length (cn_heap c)"
  shows "stays c (storeSess p s c)"
proof (cases "se_done s \<and> \<not> se_done (so_sess (cn_heap c ! p))")
  case True
  then show ?thesis
    using assms
    by (fastforce simp: storeSess_def Let_def stays_def conn_ok_def closeSessionLocally_def nth_list_update)
next
  case False
  let ?c1 = "c\<lparr>cn_heap := (cn_heap c)[p := (cn_heap c ! p)\<lparr>so_sess := s\<rparr>]\<rparr>"
  have "stays c ?c1" using assms False by (intro stays_heap) auto
  moreover have "storeSess p s c = ?c1\<lparr>cn_config := se_config s\<rparr>" using False by (auto simp: storeSess_def Let_def)
  ultimately show ?thesis by (simp add: stays_def)
qed

lemma stays_onSess:
  assumes "conn_ok c" "p < length (cn_heap c)"
  shows "stays_comp c (onSess p f c)"
  using stays_storeSess [OF assms] by (auto simp: onSess_def split: option.splits)

lemma stays_writeRecordLocked:
  "conn_ok c \<Longrightarrow> p < length (cn_heap c) \<Longrightarrow> stays_comp c (writeRecordLocked E t m p c)"
  by (simp add: writeRecordLocked_def stays_onSess)

lemma stays_terminateSession:
  assumes "conn_ok c" "p < length (cn_heap c)"
  shows "stays_comp c (terminateSession E p c)"
proof (cases "writeRecordLocked E RecordAlert (controlMsg E c p alertText) p c")
  case (Some rc)
  obtain r c' where rc: "rc = (r, c')" by fastforce
  have c': "stays c c'"
    using stays_writeRecordLocked [OF assms, of E RecordAlert "controlMsg E c p alertText"] Some rc by simp
  then have "stays c' (closeSessionLocally p c')" using assms(2) by (intro stays_closeSessionLocally) (auto simp: stays_def)
  then show ?thesis using c' stays_trans Some rc by (cases r) (auto simp: terminateSession_def)
qed (simp add: terminateSession_def)

lemma stays_terminateUnlessSynced:
  "conn_ok c \<Longrightarrow> p < length (cn_heap c) \<Longrightarrow> stays_comp c (terminateUnlessSynced E m p c)"
  by (simp add: terminateUnlessSynced_def stays_terminateSession)

lemma stays_loadOrStore:
  assumes "conn_ok c" "loadOrStore sid peer c = ((p, l), c')"
  shows "stays c c' \<and> p < length (cn_heap c')"
proof (cases "cn_sessions c sid")
  case None
  then have "c' = snd (allocSession sid peer c)" "p = length (cn_heap c)"
    using assms(2) by (auto simp: loadOrStore_def Let_def allocSession_def)
  then show ?thesis
    using assms(1) None
    by (fastforce simp: allocSession_def stays_def conn_ok_def nth_append NewSession_def)
next
  case (Some q)
  then show ?thesis using assms by (auto simp: loadOrStore_def conn_ok_def)
qed

lemma stays_markLost: "conn_ok c \<Longrightarrow> stays c (markLost E p peer t m c)"
  by (auto simp: markLost_def Let_def split_def)

text \<open>The other goroutines keep the map as well.\<close>

definition during_ok :: "connEnv \<Rightarrow> bool" where
  "during_ok E \<longleftrightarrow> (\<forall>c. conn_ok c \<longrightarrow> stays c (ce_during E c))"

lemma stays_waitHandshake:
  assumes "during_ok E" "conn_ok c" "waitHandshake E p c = (w, c')"
  shows "stays c c'"
  using assms by (auto simp: waitHandshake_def during_ok_def split: if_splits)

definition reaches :: "connState \<Rightarrow> nat \<Rightarrow> bool" where
  "reaches c p \<longleftrightarrow> conn_ok c \<and> p < length (cn_heap c)"

lemma reaches_stays: "reaches c p \<Longrightarrow> stays c c' \<Longrightarrow> reaches c' p"
  by (auto simp: reaches_def stays_def)


lemma session_stays:
  assumes "reaches c p"
  shows "stays_comp c (writeRecordLocked E t m p c)" "stays_comp c (terminateSession E p c)"
    "stays_comp c (terminateUnlessSynced E m p c)" "stays c (closeSessionLocally p c)" "stays c (storeSess p s c)"
    "stays_comp c (onSess p f c)" "stays c (markLost E p peer t' m c)"
  using assms stays_writeRecordLocked stays_terminateSession stays_terminateUnlessSynced stays_closeSessionLocally
    stays_storeSess stays_onSess stays_markLost
  by (auto simp: reaches_def)

lemma reaches_frame [simp]:
  "reaches (c\<lparr>cn_reorder := f\<rparr>) p = reaches c p" "reaches (c\<lparr>cn_realtime := g\<rparr>) p = reaches c p"
  "reaches (emit k c) p = reaches c p" "reaches (c\<lparr>cn_cache := e\<rparr>) p = reaches c p"
  by (simp_all add: reaches_def, simp add: emit_def)

lemma stays_comp_frame:
  "stays_comp (c\<lparr>cn_realtime := g\<rparr>) m = stays_comp c m" "stays_comp (c\<lparr>cn_cache := e\<rparr>) m = stays_comp c m"
  "stays_comp (emit k (c\<lparr>cn_reorder := f, cn_realtime := g\<rparr>)) m = stays_comp c m"
  by (simp_all add: stays_comp_def stays_def emit_def)

lemma stays_handleApplicationData:
  assumes "during_ok E" "reaches c p"
  shows "stays_comp c (handleApplicationData E t m peer sid p loaded complete c)"
proof (cases "noCipherYet complete p c")
  case True
  then show ?thesis using session_stays(7) [OF assms(2)] by (simp add: handleApplicationData_def)
next
  case False
  obtain w c1 where w: "(if \<not> complete \<and> loaded then waitHandshake E p c else (HandshakeDone, c)) = (w, c1)"
    by fastforce
  have s1: "stays c c1"
    using stays_waitHandshake [OF assms(1), of c p w c1] w assms(2) by (auto simp: reaches_def split: if_splits)
  note r1 = reaches_stays [OF assms(2) s1]
  obtain res rt where b: "MsgDataToBytesReadBound (ce_codec E) (ce_uuid E) (ce_now E) m (cn_realtime c1) = (res, rt)"
    by fastforce
  have t1: "stays_comp c (terminateUnlessSynced E m p c1)"
    using session_stays(3) [OF r1] stays_comp_trans [OF s1] by blast
  have "reaches (c1\<lparr>cn_realtime := rt\<rparr>) p" using r1 by simp
  then have t2: "stays_comp c (terminateUnlessSynced E m p (c1\<lparr>cn_realtime := rt\<rparr>))"
    using session_stays(3) stays_comp_trans [of c c1] s1 stays_comp_frame(1) by blast
  show ?thesis
    using False w b s1 t1 t2
    by (cases w; cases res) (simp_all add: handleApplicationData_def Let_def split_def)
qed

lemma stays_handleHandshake:
  assumes "reaches c p"
  shows "stays_comp c (handleHandshake E t m peer data p complete c)"
proof -
  have "stays c (c\<lparr>cn_heap := (cn_heap c)[p := (cn_heap c ! p)\<lparr>so_chan := so_chan (cn_heap c ! p) @ [data]\<rparr>]\<rparr>)"
    using assms by (intro stays_heap) (auto simp: reaches_def)
  then show ?thesis using session_stays [OF assms] by (simp add: handleHandshake_def)
qed

lemma stays_handleChangeCipherSpec:
  assumes "reaches c p"
  shows "stays_comp c (handleChangeCipherSpec E m data p c)"
proof (cases "onSess p (\<lambda>s. map_option (\<lambda>(r, inn). (r, s\<lparr>se_in := inn\<rparr>))
    (changeCipherSpec (se_done s) (en_pick (ce_hs E)) (se_in s))) c")
  case None
  then show ?thesis using session_stays(3) [OF assms] by (simp add: handleChangeCipherSpec_def)
next
  case (Some rc)
  obtain r c' where rc: "rc = (r, c')" by fastforce
  have "stays_comp c (Some (r, c'))" unfolding rc [symmetric] Some [symmetric] by (rule session_stays(6) [OF assms])
  then have s: "stays c c'" by simp
  then have "stays_comp c (terminateUnlessSynced E m p c')"
    using session_stays(3) [OF reaches_stays [OF assms s]] stays_comp_trans by blast
  then show ?thesis
    using Some rc s session_stays(3) [OF assms] by (cases r) (simp_all add: handleChangeCipherSpec_def)
qed

lemma stays_writeSecureControl:
  "reaches c p \<Longrightarrow> stays_comp c (writeSecureControl E p frame c)"
  using session_stays(1) by (auto simp: writeSecureControl_def reaches_def split: option.splits)

lemma stays_handleControl:
  assumes "during_ok E" "reaches c p"
  shows "stays_comp c (handleControl E peer data p loaded complete c)"
proof -
  obtain w c1 where w: "(if \<not> complete \<and> loaded then waitHandshake E p c else (HandshakeDone, c)) = (w, c1)"
    by fastforce
  have s1: "stays c c1"
    using stays_waitHandshake [OF assms(1), of c p w c1] w assms(2) by (auto simp: reaches_def split: if_splits)
  obtain items answer ro rt where h: "handleSecureControl (ce_codec E) (ce_uuid E) (ce_now E) (ce_visit E) (ce_json E)
      (so_id (cn_heap c1 ! p)) peer data (cn_cache c1) (cn_reorder c1, cn_realtime c1) = (items, answer, ro, rt)"
    by (metis prod_cases4)
  let ?c2 = "emit items (c1\<lparr>cn_reorder := ro, cn_realtime := rt\<rparr>)"
  have s2: "stays c ?c2" using s1 by simp
  have t: "stays_comp c (writeSecureControl E p frame ?c2)" for frame
    using stays_writeSecureControl [OF reaches_stays [OF assms(2) s2]] stays_comp_trans [OF s2] by blast
  show ?thesis
  proof (cases answer)
    case None
    then show ?thesis using w s1 s2 h by (cases w) (simp_all add: handleControl_def Let_def)
  next
    case (Some frame)
    show ?thesis
    proof (cases "writeSecureControl E p frame ?c2")
      case None
      then show ?thesis using w s1 h Some by (cases w) (simp_all add: handleControl_def Let_def)
    next
      case s3: (Some rc)
      obtain r c3 where rc: "rc = (r, c3)" by fastforce
      have "stays c c3" using t [of frame] s3 rc by simp
      then show ?thesis using w s1 h Some s3 rc by (cases w; cases r) (simp_all add: handleControl_def Let_def)
    qed
  qed
qed

lemma stays_handleRecord:
  assumes "during_ok E" "reaches c p"
  shows "stays_comp c (handleRecord E t m peer sid p loaded complete plaintext c)"
proof -
  note * = session_stays [OF assms(2)] stays_handleApplicationData [OF assms] stays_handleHandshake [OF assms(2)]
    stays_handleChangeCipherSpec [OF assms(2)] stays_handleControl [OF assms]
  have ok: "conn_ok c" using assms(2) by (simp add: reaches_def)
  show ?thesis
    using * ok by (simp add: handleRecord_def Let_def split: recordType.splits)
qed

lemma stays_reset:
  assumes "reaches c p" "tryResetSessionFromPlaintextHello E content p peer sid c = (b, c')"
  shows "stays c c'"
proof (cases "isPlaintextHelloRecord (en_crypto (ce_hs E)) content")
  case True
  let ?c1 = "closeSessionLocally p c"
  have s1: "stays c ?c1" using session_stays(4) [OF assms(1)] .
  obtain q c2 where a: "allocSession sid peer ?c1 = (q, c2)" by fastforce
  have q: "q = length (cn_heap ?c1)" "cn_heap c2 = cn_heap ?c1 @ [\<lparr>so_id = sid, so_sess = NewSession (cn_config ?c1) peer,
      so_chan = [], so_phase = None\<rparr>]" "cn_closed c2 = cn_closed ?c1"
      "cn_sessions c2 = (cn_sessions ?c1)(sid \<mapsto> q)"
    using a by (auto simp: allocSession_def)
  have "stays ?c1 c2"
    using s1 q by (fastforce simp: stays_def conn_ok_def nth_append NewSession_def)
  moreover have "stays c2 (c2\<lparr>cn_heap := (cn_heap c2)[q := (cn_heap c2 ! q)\<lparr>so_chan := [tl content]\<rparr>]\<rparr>)"
    using calculation q by (intro stays_heap) (auto simp: stays_def)
  ultimately have "stays c (c2\<lparr>cn_heap := (cn_heap c2)[q := (cn_heap c2 ! q)\<lparr>so_chan := [tl content]\<rparr>]\<rparr>)"
    using s1 stays_trans by blast
  then show ?thesis using assms(2) True a by (auto simp: tryResetSessionFromPlaintextHello_def Let_def)
next
  case False
  then show ?thesis using assms by (simp add: tryResetSessionFromPlaintextHello_def reaches_def)
qed

lemma stays_handleSecure:
  assumes "during_ok E" "conn_ok c"
  shows "stays_comp c (handleSecure E t m peer c)"
proof -
  let ?sid = "getSessionID (cn_hostId c) peer"
  obtain p loaded c0 where l: "loadOrStore ?sid peer c = ((p, loaded), c0)" by (metis prod.collapse)
  let ?c1 = "if loaded then c0 else c0\<lparr>cn_handshakes := cn_handshakes c0 @ [p]\<rparr>"
  have s1: "stays c ?c1" and r1: "reaches ?c1 p"
    using stays_loadOrStore [OF assms(2) l] by (auto simp: reaches_def stays_def)
  obtain res inn where d: "decrypt (en_evp (ce_hs E)) (GetContent m) (se_in (sessOf p ?c1)) = (res, inn)" by fastforce
  let ?c2 = "storeSess p ((sessOf p ?c1)\<lparr>se_in := inn\<rparr>) ?c1"
  have s2: "stays c ?c2" using stays_trans [OF s1 session_stays(5) [OF r1]] .
  have r2: "reaches ?c2 p" using reaches_stays [OF r1 session_stays(5) [OF r1]] .
  have rec: "stays_comp c (handleRecord E t m peer ?sid p loaded cm pt ?c2)" for cm pt
    using stays_comp_trans [OF s2 stays_handleRecord [OF assms(1) r2]] .
  obtain b c3 where rs: "tryResetSessionFromPlaintextHello E (GetContent m) p peer ?sid ?c2 = (b, c3)" by fastforce
  have s3: "stays ?c2 c3" using stays_reset [OF r2 rs] .
  have t3: "stays_comp c (terminateSession E p c3)"
    using stays_comp_trans [OF stays_trans [OF s2 s3] session_stays(2) [OF reaches_stays [OF r2 s3]]] .
  show ?thesis
    using l d s2 rec rs stays_trans [OF s2 s3] t3
    by (cases res; cases b) (simp_all add: handleSecure_def Let_def)
qed

lemma stays_handleReadBoundMsg:
  assumes "during_ok E" "conn_ok c"
  shows "stays_comp c (handleReadBoundMsg E t m c)"
  using stays_handleSecure [OF assms] assms(2)
  by (auto simp: handleReadBoundMsg_def split: prod.splits res.splits)

lemma stays_handleAll:
  assumes "during_ok E"
  shows "conn_ok c \<Longrightarrow> stays_comp c (handleAll E t ms c)"
proof (induction ms arbitrary: c)
  case (Cons m ms)
  show ?case
  proof (cases "handleReadBoundMsg E t m c")
    case (Some rc)
    obtain r c' where rc: "rc = (r, c')" by fastforce
    have s: "stays c c'" using stays_handleReadBoundMsg [OF assms Cons.prems, of t m] Some rc by simp
    then have "stays_comp c (handleAll E t ms c')" using Cons.IH [of c'] stays_comp_trans by (auto simp: stays_def)
    then show ?thesis using Some rc s by (cases r) simp_all
  qed simp
qed simp

lemma stays_readRecord:
  assumes "during_ok E" "conn_ok c"
  shows "stays_comp c (readRecord E frame c)"
proof (cases frame)
  case (Ok tm)
  obtain t msg where tm: "tm = (t, msg)" by fastforce
  obtain res rt where b: "BytesToMsgDataReadBoundBatch (ce_codec E) msg (cn_realtime c) = (res, rt)" by fastforce
  have "stays_comp c (handleAll E u items (c\<lparr>cn_realtime := rt\<rparr>))" for items u
    using stays_handleAll [OF assms(1), of "c\<lparr>cn_realtime := rt\<rparr>"] assms(2) by (simp add: stays_comp_frame)
  then show ?thesis using Ok tm b assms(2) by (cases res) (simp_all add: readRecord_def Let_def)
qed (use assms in \<open>simp_all add: readRecord_def\<close>)

lemma stays_WriteMessage:
  assumes "\<And>p c. conn_ok c \<Longrightarrow> stays_comp c (run p c)" "conn_ok c"
  shows "stays_comp c (WriteMessage E run closeErr binary message c)"
proof (cases "BytesToMsgDataWriteBound (ce_codec E) message")
  case (Ok m)
  obtain p loaded c1 where l: "loadOrStore (getSessionID (cn_hostId c) (GetRecvID m)) (GetRecvID m) c = ((p, loaded), c1)"
    by (metis prod.collapse)
  have s1: "stays c c1" and r1: "reaches c1 p"
    using stays_loadOrStore [OF assms(2) l] by (auto simp: reaches_def stays_def)
  show ?thesis
  proof (cases "run p c1")
    case None
    then show ?thesis using Ok l assms(2) by (simp add: WriteMessage_def)
  next
    case (Some rc)
    obtain r c2 where rc: "rc = (r, c2)" by fastforce
    have s: "stays c1 c2" using assms(1) [of c1 p] r1 Some rc by (simp add: reaches_def)
    have s2: "stays c c2" using stays_trans [OF s1 s] .
    note r2 = reaches_stays [OF r1 s]
    have t: "stays_comp c (terminateSession E p c2)" using stays_comp_trans [OF s2 session_stays(2) [OF r2]] .
    let ?c2' = "c2\<lparr>cn_cache := cacheOutboundMessage m (cn_cache c2)\<rparr>"
    have "reaches ?c2' p" "stays c ?c2'" using r2 s2 by simp_all
    then have w: "stays_comp c (writeRecordLocked E RecordApplicationData m p ?c2')"
      using session_stays(1) stays_comp_trans by blast
    have cl: "stays c (snd (connClose closeErr c'))" if "stays c c'" for c'
      using that by (simp add: connClose_def)
    show ?thesis
    proof (cases r)
      case (Fail e)
      then show ?thesis
        using Ok l Some rc t s2 assms(2)
        by (cases "terminateSession E p c2")
          (auto simp: WriteMessage_def stays_comp_def split: res.splits)
    next
      case rOk: (Ok x)
      show ?thesis
      proof (cases "writeRecordLocked E RecordApplicationData m p ?c2'")
        case None
        then show ?thesis using Ok l Some rc rOk assms(2) by (simp add: WriteMessage_def)
      next
        case wS: (Some wc)
        obtain r3 c3 where wc: "wc = (r3, c3)" by fastforce
        have s3: "stays c c3" using w wS wc by simp
        then show ?thesis
          using Ok l Some rc rOk wS wc assms(2) cl [OF s3]
          by (cases r3) (simp_all add: WriteMessage_def connClose_def split: if_splits)
      qed
    qed (use Ok l Some rc s2 assms(2) in \<open>simp add: WriteMessage_def\<close>)
  qed
qed (use assms(2) in \<open>simp_all add: WriteMessage_def\<close>)

lemma stays_runHandshake:
  assumes "reaches c p" "runHandshake E p c = Some c'"
  shows "stays c c'"
proof -
  let ?obj = "cn_heap c ! p"
  have h: "stays c (c\<lparr>cn_heap := (cn_heap c)[p := obj]\<rparr>)" if "so_id obj = so_id ?obj" "so_sess obj = so_sess ?obj" for obj
    using assms(1) that by (intro stays_heap) (auto simp: reaches_def)
  have s: "stays c (storeSess p t (c\<lparr>cn_heap := (cn_heap c)[p := obj]\<rparr>))"
    if "so_id obj = so_id ?obj" "so_sess obj = so_sess ?obj" for obj t
    using stays_trans [OF h [OF that] session_stays(5) [OF reaches_stays [OF assms(1) h [OF that]]]] .
  show ?thesis
    using assms(2) s
    by (auto simp: runHandshake_def Let_def split: option.splits list.splits prod.splits)
qed

text \<open>The runs of a connection: any order of frames, writes, handshake steps, deliveries, timers,
  dialling and closing.\<close>

inductive connRun :: "connState \<Rightarrow> bool" where
  run_start: "connRun (NewSecureConn cfg)"
| run_dial: "connRun c \<Longrightarrow> connRun (snd (DialAndSetUserId dialed hostId c))"
| run_read: "connRun c \<Longrightarrow> during_ok E \<Longrightarrow> readRecord E frame c = Some (r, c') \<Longrightarrow> connRun c'"
| run_write: "connRun c \<Longrightarrow> (\<And>p d. conn_ok d \<Longrightarrow> stays_comp d (run p d)) \<Longrightarrow>
    WriteMessage E run closeErr binary message c = Some (r, c') \<Longrightarrow> connRun c'"
| run_handshake: "connRun c \<Longrightarrow> p < length (cn_heap c) \<Longrightarrow> runHandshake E p c = Some c' \<Longrightarrow> connRun c'"
| run_take: "connRun c \<Longrightarrow> ReadMessage c = Some (x, c') \<Longrightarrow> connRun c'"
| run_timer: "connRun c \<Longrightarrow> expireLostInbound visit sid key (cn_reorder c) = (items, ro) \<Longrightarrow>
    connRun (emit items (c\<lparr>cn_reorder := ro\<rparr>))"
| run_request: "connRun c \<Longrightarrow> p < length (cn_heap c) \<Longrightarrow> requestLostAfterHandshake complete wait ref = Some frame \<Longrightarrow>
    writeSecureControl E p frame c = Some (r, c') \<Longrightarrow> connRun c'"
| run_close: "connRun c \<Longrightarrow> connRun (snd (connClose closeErr c))"
| run_shutdown: "connRun c \<Longrightarrow> connRun (snd (ShutDown closeErr c))"

lemma conn_ok_ShutDown: "conn_ok c \<Longrightarrow> conn_ok (snd (ShutDown closeErr c))"
  by (auto simp: conn_ok_def ShutDown_def nth_enumerate_eq)

section \<open>Properties\<close>


end
