(* ===== verification/ConnProps.thy ===== *)
theory ConnProps
  imports ConnModel
begin

text \<open>
  What the secure connection does with messages: the paths of a sealed, an unreadable and a clear
  message from the websocket to the application, what a writer sends, and the names of sessions.
\<close>

section \<open>Messages in the clear\<close>

lemma messageRef_SetContent [simp]: "messageRef (SetContent d m) = messageRef m"
  by (simp add: messageRef_def GetSendID_def GetRecvID_def GetClientMsgID_def GetServerMsgID_def GetSeq_def SetContent_def
      split: option.splits)

lemma decrypt_plain:
  assumes "hc_cipher hc = None" "hc_seq hc = seq_bytes n" "n < 2 ^ 64 - 1"
  shows "decrypt L x hc = (Ok x, hc\<lparr>hc_seq := seq_bytes (Suc n)\<rparr>)"
  using incSeq_seq_bytes [OF assms(2,3)] assms(1)
  by (simp add: decrypt_def explicitNonceLen_def incSeqAndReturn_def)

text \<open>A secure message of a peer: it is not dropped, and this is its session.\<close>

definition fromPeer :: "connState \<Rightarrow> MsgData \<Rightarrow> string \<Rightarrow> bool" where
  "fromPeer c m peer \<longleftrightarrow> IsSecureReadBound m \<and> \<not> shouldDropSecureInbound m \<and>
     \<not> shouldDropSecureSelfEcho (cn_hostId c) m \<and> inboundPeerID (cn_hostId c) m = peer \<and> peer \<noteq> []"

lemma handleReadBoundMsg_fromPeer:
  "fromPeer c m peer \<Longrightarrow> handleReadBoundMsg E t m c = handleSecure E t m peer c"
  by (auto simp: fromPeer_def handleReadBoundMsg_def)

lemma SetContent_frame [simp]:
  "shouldDropSecureInbound (SetContent d m) = shouldDropSecureInbound m"
  by (simp add: shouldDropSecureInbound_def ReadReqIdentifier_def SetContent_def)

text \<open>A record for a session without a cipher is read as it came.\<close>

definition plainSession :: "sess \<Rightarrow> bool" where
  "plainSession s \<longleftrightarrow> hc_cipher (se_in s) = None \<and> \<not> se_complete s \<and> (\<exists>n < 2 ^ 64 - 1. hc_seq (se_in s) = seq_bytes n)"

lemma plainSession_new: "plainSession ((NewSession cfg peer)\<lparr>se_config := cfg'\<rparr>)"
proof -
  have z: "(0::nat) < 2 ^ 64 - 1" by simp
  have s: "hc_seq newHalfConn = seq_bytes 0" by (simp add: newHalfConn_def seq_bytes_0)
  show ?thesis unfolding plainSession_def using z s by (auto simp: NewSession_def newHalfConn_def intro!: exI [of _ 0])
qed

lemma handleSecure_plain:
  assumes "plainSession (sessOf p c1)" "loadOrStore (getSessionID (cn_hostId c) peer) peer c = ((p, loaded), c0)"
    "c1 = (if loaded then c0 else c0\<lparr>cn_handshakes := cn_handshakes c0 @ [p]\<rparr>)"
  shows "\<exists>inn. handleSecure E t m peer c =
      handleRecord E t m peer (getSessionID (cn_hostId c) peer) p loaded False (GetContent m)
        (storeSess p ((sessOf p c1)\<lparr>se_in := inn\<rparr>) c1) \<and>
    inn = (se_in (sessOf p c1))\<lparr>hc_seq := hc_seq inn\<rparr>"
proof -
  obtain n where n: "n < 2 ^ 64 - 1" "hc_seq (se_in (sessOf p c1)) = seq_bytes n" "hc_cipher (se_in (sessOf p c1)) = None"
      "\<not> se_complete (sessOf p c1)"
    using assms(1) by (auto simp: plainSession_def)
  have d: "decrypt (en_evp (ce_hs E)) (GetContent m) (se_in (sessOf p c1)) =
      (Ok (GetContent m), (se_in (sessOf p c1))\<lparr>hc_seq := seq_bytes (Suc n)\<rparr>)"
    using decrypt_plain [OF n(3,2,1)] .
  show ?thesis
    using d n(4) assms(2)
    by (intro exI [of _ "(se_in (sessOf p c1))\<lparr>hc_seq := seq_bytes (Suc n)\<rparr>"])
      (simp add: handleSecure_def Let_def assms(3) [symmetric])
qed

lemma sessOf_storeSess:
  assumes "p < length (cn_heap c)" "se_done s \<longrightarrow> se_done (sessOf p c)"
  shows "sessOf p (storeSess p s c) = s" "storeSess p s c = c\<lparr>cn_heap := (cn_heap c)[p := (cn_heap c ! p)\<lparr>so_sess := s\<rparr>],
    cn_config := se_config s\<rparr>"
  using assms by (auto simp: sessOf_def storeSess_def Let_def)

text \<open>C5: anybody who can inject one message reads the cache of sent messages.  The first message of
  a peer without a session is taken in the clear, and a control record in it is obeyed at once,
  before any handshake: the answer, with the clear text of the requested message (whoever it was
  sent to), goes out in a record that is not encrypted.\<close>

theorem control_before_handshake_leaks:
  assumes "fromPeer c m peer" "cn_sessions c (getSessionID (cn_hostId c) peer) = None"
    "GetContent m = recordByte RecordSecureControl # payload"
    "ce_json E payload = Some \<lparr>cf_Type = secureControlLostRequest, cf_Messages = [\<lparr>cp_Ref = ref, cp_Content = x\<rparr>]\<rparr>"
    "findCachedOutboundLocked ref (cn_cache c) = Some e"
    "ce_toJson E \<lparr>cf_Type = secureControlRetransmit,
       cf_Messages = [\<lparr>cp_Ref = mergeMessageRef ref (co_ref e), cp_Content = co_content e\<rparr>]\<rparr> = Some answer"
    "frameRecord (ce_codec E) (ce_uuid E) (ce_now E)
       (ConstructMsgData (ce_ctlId E) (ce_now E) (cn_hostId c) peer answer) (recordByte RecordSecureControl # answer) = Ok b"
    "ce_ws E b = Ok ()" "cn_open c" "cn_config c \<noteq> None"
  shows "\<exists>c'. handleReadBoundMsg E t m c = Some (Ok (), c') \<and>
    cn_sessions c' (getSessionID (cn_hostId c) peer) = Some (length (cn_heap c)) \<and>
    \<not> se_complete (sessOf (length (cn_heap c)) c') \<and>
    se_sent (sessOf (length (cn_heap c)) c') = [(RecordSecureControl, recordByte RecordSecureControl # answer)]"
proof -
  let ?sid = "getSessionID (cn_hostId c) peer" and ?p = "length (cn_heap c)"
  obtain c0 where c0: "loadOrStore ?sid peer c = ((?p, False), c0)" "cn_heap c0 = cn_heap c @ [\<lparr>so_id = ?sid,
      so_sess = NewSession (cn_config c) peer, so_chan = [], so_phase = None\<rparr>]" "cn_sessions c0 = (cn_sessions c)(?sid \<mapsto> ?p)"
      "cn_cache c0 = cn_cache c" "cn_hostId c0 = cn_hostId c" "cn_open c0 = cn_open c" "cn_config c0 = cn_config c"
    using assms(2) by (auto simp: loadOrStore_def allocSession_def Let_def)
  let ?c1 = "c0\<lparr>cn_handshakes := cn_handshakes c0 @ [?p]\<rparr>"
  have so: "sessOf ?p ?c1 = (NewSession (cn_config c) peer)\<lparr>se_config := cn_config c0\<rparr>"
    by (simp add: sessOf_def c0(2) nth_append)
  have c1: "?c1 = (if False then c0 else c0\<lparr>cn_handshakes := cn_handshakes c0 @ [?p]\<rparr>)" by simp
  have ps: "plainSession (sessOf ?p ?c1)" unfolding so by (rule plainSession_new)
  obtain inn where inn: "handleSecure E t m peer c =
      handleRecord E t m peer ?sid ?p False False (GetContent m) (storeSess ?p ((sessOf ?p ?c1)\<lparr>se_in := inn\<rparr>) ?c1)"
    using handleSecure_plain [OF ps c0(1) c1, of E t m] by blast
  let ?s2 = "(sessOf ?p ?c1)\<lparr>se_in := inn\<rparr>"
  let ?c2 = "storeSess ?p ?s2 ?c1"
  have p1: "?p < length (cn_heap ?c1)" using c0(2) by simp
  have nd: "se_done ?s2 \<longrightarrow> se_done (sessOf ?p ?c1)" by simp
  note st = sessOf_storeSess [OF p1 nd]
  have c2: "cn_cache ?c2 = cn_cache c" "cn_hostId ?c2 = cn_hostId c" "cn_open ?c2" "?p < length (cn_heap ?c2)"
      "cn_sessions ?c2 ?sid = Some ?p"
    unfolding st(2) using c0 assms(9) by simp_all
  define c3 where "c3 = emit [] (?c2\<lparr>cn_reorder := cn_reorder ?c2, cn_realtime := cn_realtime ?c2\<rparr>)"
  have c3: "cn_hostId c3 = cn_hostId c" "cn_open c3" "?p < length (cn_heap c3)" "sessOf ?p c3 = ?s2" "cn_sessions c3 ?sid = Some ?p"
    using c2 st(1) by (simp_all add: c3_def emit_def sessOf_def)
  have hs: "handleSecureControl K u n v (ce_json E) sid' peer payload (cn_cache c) (ro, rt) =
      ([], Some \<lparr>cf_Type = secureControlRetransmit,
       cf_Messages = [\<lparr>cp_Ref = mergeMessageRef ref (co_ref e), cp_Content = co_content e\<rparr>]\<rparr>, ro, rt)" for K u n v sid' ro rt
    by (simp add: handleSecureControl_def assms(4,5) handleLostRequest_def)
  let ?m = "ConstructMsgData (ce_ctlId E) (ce_now E) (cn_hostId c) peer answer"
  have cm: "controlMsg E c3 ?p answer = ?m"
    using c3(1,4) so by (simp add: controlMsg_def NewSession_def)
  have out: "hc_cipher (se_out (sessOf ?p c3)) = None" unfolding c3(4) so by (simp add: NewSession_def newHalfConn_def)
  have net: "en_net (recEnv E c3 ?p ?m) RecordSecureControl (recordByte RecordSecureControl # answer) = Ok ()"
    using assms(7,8) c3(2) by (simp add: recEnv_def sendFrame_def)
  have cf: "se_config (sessOf ?p c3) \<noteq> None" using c3(4) so c0(7) assms(10) by simp
  have gc: "GetContent ?m = answer" by (simp add: ConstructMsgData_def GetContent_def)
  let ?s4 = "(sessOf ?p c3)\<lparr>se_draws := Suc (se_draws (sessOf ?p c3)),
      se_sent := se_sent (sessOf ?p c3) @ [(RecordSecureControl, recordByte RecordSecureControl # answer)]\<rparr>"
  have w: "writeRecord (recEnv E c3 ?p ?m) RecordSecureControl answer (sessOf ?p c3) = Some (Ok (), ?s4)"
    using out net cf by (subst writeRecord.simps) (simp add: encrypt_def)
  let ?c4 = "storeSess ?p ?s4 c3"
  have ctl: "writeSecureControl E ?p \<lparr>cf_Type = secureControlRetransmit,
       cf_Messages = [\<lparr>cp_Ref = mergeMessageRef ref (co_ref e), cp_Content = co_content e\<rparr>]\<rparr> c3 = Some (Ok (), ?c4)"
    using w by (simp add: writeSecureControl_def assms(6) cm writeRecordLocked_def gc onSess_def)
  have h: "handleReadBoundMsg E t m c = Some (Ok (), ?c4)"
    using ctl handleReadBoundMsg_fromPeer [OF assms(1), of E t] inn c2(1)
    by (simp add: assms(3) handleRecord_def recordType_of_def Let_def handleControl_def hs c3_def)
  have nd4: "se_done ?s4 \<longrightarrow> se_done (sessOf ?p c3)" by simp
  note st4 = sessOf_storeSess [OF c3(3) nd4]
  have "sessOf ?p ?c4 = ?s4" by (rule st4(1))
  moreover have "cn_sessions ?c4 ?sid = Some ?p" unfolding st4(2) using c3(5) by simp
  ultimately show ?thesis
    using h c3(4) so by (intro exI [of _ ?c4]) (simp add: NewSession_def)
qed

lemma plain_record:
  assumes "fromPeer c m peer" "cn_sessions c (getSessionID (cn_hostId c) peer) = Some p" "p < length (cn_heap c)"
    "plainSession (sessOf p c)"
  shows "\<exists>inn. handleReadBoundMsg E t m c =
      handleRecord E t m peer (getSessionID (cn_hostId c) peer) p True False (GetContent m)
        (storeSess p ((sessOf p c)\<lparr>se_in := inn\<rparr>) c) \<and>
    sessOf p (storeSess p ((sessOf p c)\<lparr>se_in := inn\<rparr>) c) = (sessOf p c)\<lparr>se_in := inn\<rparr> \<and>
    inn = (se_in (sessOf p c))\<lparr>hc_seq := hc_seq inn\<rparr>"
proof -
  have l: "loadOrStore (getSessionID (cn_hostId c) peer) peer c = ((p, True), c)" using assms(2) by (simp add: loadOrStore_def)
  have c1: "c = (if True then c else c\<lparr>cn_handshakes := cn_handshakes c @ [p]\<rparr>)" by simp
  obtain inn where inn: "handleSecure E t m peer c =
      handleRecord E t m peer (getSessionID (cn_hostId c) peer) p True False (GetContent m)
        (storeSess p ((sessOf p c)\<lparr>se_in := inn\<rparr>) c)" "inn = (se_in (sessOf p c))\<lparr>hc_seq := hc_seq inn\<rparr>"
    using handleSecure_plain [OF assms(4) l c1, of E t m] by blast
  have "se_done ((sessOf p c)\<lparr>se_in := inn\<rparr>) \<longrightarrow> se_done (sessOf p c)" by simp
  from sessOf_storeSess(1) [OF assms(3) this] inn handleReadBoundMsg_fromPeer [OF assms(1), of E t]
  show ?thesis by (intro exI [of _ inn]) simp
qed



text \<open>A message an application writes to a session with a cipher goes out sealed, under the next
  record number, and only sealed; its clear text is kept in the cache of sent messages, from which
  a retransmission can be served.\<close>

theorem written_message_sealed:
  assumes "BytesToMsgDataWriteBound (ce_codec E) message = Ok m" "GetRecvID m \<noteq> []"
    "loadOrStore (getSessionID (cn_hostId c) (GetRecvID m)) (GetRecvID m) c = ((p, loaded), c1)"
    "run p c1 = Some (Ok (), c2)" "p < length (cn_heap c2)"
    "gcm_lib (en_evp (ce_hs E))" "length k = 16" "iv \<noteq> []" "at_record k iv n (se_out (sessOf p c2))" "n < 2 ^ 64 - 1"
    "\<And>content. \<exists>b. frameRecord (ce_codec E) (ce_uuid E) (ce_now E) m content = Ok b" "\<And>b. ce_ws E b = Ok ()" "cn_open c2"
    "cache_ok (cn_cache c2)" "\<not> noIdentity (messageRef m)" "cn_config c2 \<noteq> None"
  shows "\<exists>c3. WriteMessage E run closeErr True message c = Some (Ok (), c3) \<and>
    se_sent (sessOf p c3) = se_sent (sessOf p c2) @ [(RecordApplicationData, seq_bytes n @ replicate 4 0 @
      gcm_box (en_evp (ce_hs E)) k iv (record_aad n (Suc (length (GetContent m)))) (recordByte RecordApplicationData # GetContent m))] \<and>
    at_record k iv (Suc n) (se_out (sessOf p c3)) \<and>
    (\<exists>e. findCachedOutboundLocked (messageRef m) (cn_cache c3) = Some e \<and> co_content e = GetContent m)"
proof -
  let ?c2 = "c2\<lparr>cn_cache := cacheOutboundMessage m (cn_cache c2)\<rparr>"
  let ?plain = "recordByte RecordApplicationData # GetContent m"
  let ?r = "seq_bytes n @ replicate 4 0 @ gcm_box (en_evp (ce_hs E)) k iv (record_aad n (Suc (length (GetContent m)))) ?plain"
  let ?H = "recEnv E ?c2 p m"
  have s: "sessOf p ?c2 = sessOf p c2" by (simp add: sessOf_def)
  let ?rand = "en_rand ?H (se_draws (sessOf p c2))"
  have ev: "en_evp ?H = en_evp (ce_hs E)" by (simp add: recEnv_def)
  obtain out where out: "encrypt (en_evp (ce_hs E)) ?rand [] [] ?plain (se_out (sessOf p c2)) = (Ok ?r, out)"
      "at_record k iv (Suc n) out"
    using encrypt_record [OF assms(6-8) assms(9,10), of ?rand ?plain] by auto
  obtain b where b: "frameRecord (ce_codec E) (ce_uuid E) (ce_now E) m ?r = Ok b" using assms(11) by blast
  have net: "en_net ?H RecordApplicationData ?r = Ok ()" using b assms(12,13) by (simp add: recEnv_def sendFrame_def)
  let ?s3 = "(sessOf p c2)\<lparr>se_out := out, se_draws := Suc (se_draws (sessOf p c2)),
      se_sent := se_sent (sessOf p c2) @ [(RecordApplicationData, ?r)]\<rparr>"
  have w: "writeRecord ?H RecordApplicationData (GetContent m) (sessOf p c2) = Some (Ok (), ?s3)"
    using out net assms(16) by (subst writeRecord.simps) (simp add: ev sessOf_def)
  let ?c3 = "storeSess p ?s3 ?c2"
  have p: "p < length (cn_heap ?c2)" and d: "se_done ?s3 \<longrightarrow> se_done (sessOf p ?c2)" using assms(5) s by simp_all
  note st = sessOf_storeSess [OF p d]
  have "WriteMessage E run closeErr True message c = Some (Ok (), ?c3)"
    using w by (simp add: WriteMessage_def assms(1-4) writeRecordLocked_def onSess_def s)
  moreover have "\<exists>e. findCachedOutboundLocked (messageRef m) (cn_cache ?c3) = Some e \<and> co_content e = GetContent m"
    unfolding st(2) using cacheOutboundMessage_ok_step [OF assms(14), of m] assms(15)
    by (auto intro!: findCached_key simp: messageRefKey_Nil)
  ultimately show ?thesis using st(1) out(2) by (intro exI [of _ ?c3]) simp
qed

lemma sealed_record_read:
  assumes "fromPeer c m peer" "cn_sessions c (getSessionID (cn_hostId c) peer) = Some p" "p < length (cn_heap c)"
    "se_complete (sessOf p c)" "gcm_lib (en_evp (ce_hs E))" "length k = 16" "iv \<noteq> []"
    "at_record k iv n (se_in (sessOf p c))" "n < 2 ^ 64 - 1" "28 \<le> length (GetContent m)"
    "gcm_unbox (en_evp (ce_hs E)) k iv (record_aad n (length (GetContent m) - 28)) (drop 12 (GetContent m)) =
       Some (recordByte RecordApplicationData # d)"
    "MsgDataToBytesReadBound (ce_codec E) (ce_uuid E) (ce_now E) (SetContent d m) (cn_realtime c) = (Ok b, rt)"
    "deliverApplication (ce_visit E) (ce_now E) (getSessionID (cn_hostId c) peer) (messageRef m)
       \<lparr>ri_sessionId = getSessionID (cn_hostId c) peer, ri_remoteId = peer, ri_msgType = t, ri_msg = b, ri_err = None\<rparr>
       (cn_reorder c) = (items, ro)"
  shows "\<exists>c'. handleReadBoundMsg E t m c = Some (Ok (), c') \<and> cn_out c' = cn_out c @ items \<and> cn_reorder c' = ro \<and>
    at_record k iv (Suc n) (se_in (sessOf p c'))"
proof -
  let ?sid = "getSessionID (cn_hostId c) peer"
  obtain inn where inn: "decrypt (en_evp (ce_hs E)) (GetContent m) (se_in (sessOf p c)) =
      (Ok (recordByte RecordApplicationData # d), inn)" "at_record k iv (Suc n) inn"
    using decrypt_record [OF assms(5-10)] assms(11) by auto
  let ?s = "(sessOf p c)\<lparr>se_in := inn\<rparr>"
  let ?c1 = "storeSess p ?s c"
  have "se_done ?s \<longrightarrow> se_done (sessOf p c)" by simp
  note st = sessOf_storeSess [OF assms(3) this]
  have f: "cn_realtime ?c1 = cn_realtime c" "cn_reorder ?c1 = cn_reorder c" "cn_out ?c1 = cn_out c" unfolding st(2) by simp_all
  have l: "loadOrStore ?sid peer c = ((p, True), c)" using assms(2) by (simp add: loadOrStore_def)
  have r: "messageRef (SetContent d m) = messageRef m" by (rule messageRef_SetContent)
  let ?c2 = "emit items (?c1\<lparr>cn_realtime := rt, cn_reorder := ro\<rparr>)"
  have "handleReadBoundMsg E t m c = Some (Ok (), ?c2)"
    using handleReadBoundMsg_fromPeer [OF assms(1)] l inn(1) assms(4,12,13) f r
    by (simp add: handleSecure_def Let_def handleRecord_def recordType_of_def handleApplicationData_def noCipherYet_def)
  moreover have "sessOf p ?c2 = ?s" using st(1) by (simp add: emit_def sessOf_def)
  moreover have "cn_out ?c2 = cn_out c @ items" "cn_reorder ?c2 = ro" using f by (simp_all add: emit_def)
  ultimately show ?thesis using inn(2) by (intro exI [of _ ?c2]) simp
qed

text \<open>C11: the application data of an established session reaches the application: a sealed record with
  the next number is opened, and the message it held is delivered or held back by the reordering,
  and the session expects the number after it.\<close>

theorem sealed_message_delivered:
  assumes "fromPeer c m peer" "cn_sessions c (getSessionID (cn_hostId c) peer) = Some p" "p < length (cn_heap c)"
    "se_complete (sessOf p c)" "gcm_lib (en_evp (ce_hs E))" "length k = 16" "iv \<noteq> []"
    "at_record k iv n (se_in (sessOf p c))" "n < 2 ^ 64 - 1" "28 \<le> length (GetContent m)"
    "gcm_unbox (en_evp (ce_hs E)) k iv (record_aad n (length (GetContent m) - 28)) (drop 12 (GetContent m)) =
       Some (recordByte RecordApplicationData # d)"
    "MsgDataToBytesReadBound (ce_codec E) (ce_uuid E) (ce_now E) (SetContent d m) (cn_realtime c) = (Ok b, rt)"
    "deliverApplication (ce_visit E) (ce_now E) (getSessionID (cn_hostId c) peer) (messageRef m)
       \<lparr>ri_sessionId = getSessionID (cn_hostId c) peer, ri_remoteId = peer, ri_msgType = t, ri_msg = b, ri_err = None\<rparr>
       (cn_reorder c) = (items, ro)"
  shows "\<exists>c'. handleReadBoundMsg E t m c = Some (Ok (), c') \<and> cn_out c' = cn_out c @ items \<and> cn_reorder c' = ro \<and>
    at_record k iv (Suc n) (se_in (sessOf p c'))"
  using sealed_record_read [OF assms] .

lemma terminateSession_ends:
  assumes "terminateSession E p c = Some (Ok (), c')" "p < length (cn_heap c)"
  shows "cn_sessions c' (so_id (cn_heap c ! p)) = None" "se_done (so_sess (cn_heap c' ! p))"
    "q \<noteq> p \<Longrightarrow> cn_heap c' ! q = cn_heap c ! q" "length (cn_heap c') = length (cn_heap c)" "cn_handshakes c' = cn_handshakes c"
    "sid \<noteq> so_id (cn_heap c ! p) \<Longrightarrow> cn_sessions c' sid = cn_sessions c sid"
proof -
  obtain r s where "writeRecord (recEnv E c p (controlMsg E c p alertText)) RecordAlert alertText (sessOf p c) = Some (r, s)"
      "c' = closeSessionLocally p (storeSess p s c)"
    using assms(1)
    by (auto simp: terminateSession_def writeRecordLocked_def onSess_def controlMsg_def ConstructMsgData_def GetContent_def
        split: option.splits prod.splits res.splits)
  then show "cn_sessions c' (so_id (cn_heap c ! p)) = None" "se_done (so_sess (cn_heap c' ! p))"
    "q \<noteq> p \<Longrightarrow> cn_heap c' ! q = cn_heap c ! q" "length (cn_heap c') = length (cn_heap c)" "cn_handshakes c' = cn_handshakes c"
    "sid \<noteq> so_id (cn_heap c ! p) \<Longrightarrow> cn_sessions c' sid = cn_sessions c sid"
    using assms(2) by (simp_all add: closeSessionLocally_def storeSess_def Let_def)
qed

text \<open>What is known after a reset.\<close>

lemma reset_fresh:
  assumes "isPlaintextHelloRecord (en_crypto (ce_hs E)) content" "old < length (cn_heap c)" "so_id (cn_heap c ! old) = sid"
  shows "\<exists>c'. tryResetSessionFromPlaintextHello E content old peer sid c = (True, c') \<and>
    cn_sessions c' = (cn_sessions c)(sid \<mapsto> length (cn_heap c)) \<and> length (cn_heap c') = Suc (length (cn_heap c)) \<and>
    cn_heap c' ! length (cn_heap c) = \<lparr>so_id = sid, so_sess = NewSession (cn_config c) peer, so_chan = [tl content], so_phase = None\<rparr> \<and>
    so_id (cn_heap c' ! old) = sid \<and> se_done (so_sess (cn_heap c' ! old)) \<and> cn_handshakes c' = cn_handshakes c @ [length (cn_heap c)]"
  using assms
  by (auto simp: tryResetSessionFromPlaintextHello_def allocSession_def closeSessionLocally_def Let_def nth_append nth_list_update)

text \<open>A message an established session cannot open ends it.  A hello in the clear puts a fresh
  session in its place, with the hello in its channel and its handshake started; anything else
  closes the session and takes it out of the map.\<close>

theorem undecryptable_ends_session:
  assumes "fromPeer c m peer" "conn_ok c" "cn_sessions c (getSessionID (cn_hostId c) peer) = Some p"
    "decrypt (en_evp (ce_hs E)) (GetContent m) (se_in (sessOf p c)) = (Fail e, inn)"
    "handleReadBoundMsg E t m c = Some (Ok (), c')"
  shows "se_done (so_sess (cn_heap c' ! p)) \<and>
    (if isPlaintextHelloRecord (en_crypto (ce_hs E)) (GetContent m)
     then cn_sessions c' (getSessionID (cn_hostId c) peer) = Some (length (cn_heap c)) \<and>
          so_chan (cn_heap c' ! length (cn_heap c)) = [tl (GetContent m)] \<and>
          \<not> se_done (so_sess (cn_heap c' ! length (cn_heap c))) \<and> cn_handshakes c' = cn_handshakes c @ [length (cn_heap c)]
     else cn_sessions c' (getSessionID (cn_hostId c) peer) = None)"
proof -
  let ?sid = "getSessionID (cn_hostId c) peer" and ?s = "(sessOf p c)\<lparr>se_in := inn\<rparr>"
  let ?c1 = "storeSess p ?s c"
  have p: "p < length (cn_heap c)" "so_id (cn_heap c ! p) = ?sid" using assms(2,3) by (auto simp: conn_ok_def)
  have "se_done ?s \<longrightarrow> se_done (sessOf p c)" by simp
  note st = sessOf_storeSess [OF p(1) this]
  have c1: "p < length (cn_heap ?c1)" "so_id (cn_heap ?c1 ! p) = ?sid" "length (cn_heap ?c1) = length (cn_heap c)"
      "cn_handshakes ?c1 = cn_handshakes c"
    unfolding st(2) using p by simp_all
  have l: "loadOrStore ?sid peer c = ((p, True), c)" using assms(3) by (simp add: loadOrStore_def)
  have nd: "\<not> shouldDropSecureInbound m" using assms(1) by (simp add: fromPeer_def)
  have h: "handleReadBoundMsg E t m c = (case tryResetSessionFromPlaintextHello E (GetContent m) p peer ?sid ?c1 of
      (True, c3) \<Rightarrow> Some (Ok (), c3) | (False, c3) \<Rightarrow> terminateSession E p c3)"
    using handleReadBoundMsg_fromPeer [OF assms(1), of E t] l nd assms(4) by (simp add: handleSecure_def Let_def)
  show ?thesis
  proof (cases "isPlaintextHelloRecord (en_crypto (ce_hs E)) (GetContent m)")
    case True
    then show ?thesis
      using reset_fresh [OF True c1(1,2), of peer] h assms(5) c1(3,4) by (auto simp: NewSession_def)
  next
    case False
    then have "terminateSession E p ?c1 = Some (Ok (), c')"
      using h assms(5) by (simp add: tryResetSessionFromPlaintextHello_def)
    from terminateSession_ends(1,2) [OF this c1(1)] False c1(2) show ?thesis by simp
  qed
qed

text \<open>C17: after such a reset the writer that was waiting for the old session undoes it: its handshake has
  failed, so it terminates the old session, and that deletes the identifier from the map, where the
  fresh session is.  The fresh session stays open, its handshake goes on, and no message can reach it.\<close>

theorem stale_writer_orphans_session:
  assumes "BytesToMsgDataWriteBound (ce_codec E) message = Ok m" "GetRecvID m \<noteq> []" "conn_ok c"
    "cn_sessions c (getSessionID (cn_hostId c) (GetRecvID m)) = Some old"
    "isPlaintextHelloRecord (en_crypto (ce_hs E)) content"
    "run old c = Some (Fail e, snd (tryResetSessionFromPlaintextHello E content old (GetRecvID m)
       (getSessionID (cn_hostId c) (GetRecvID m)) c))"
    "WriteMessage E run closeErr True message c = Some (Fail e, c')"
  shows "cn_sessions c' (getSessionID (cn_hostId c) (GetRecvID m)) = None \<and>
    \<not> se_done (so_sess (cn_heap c' ! length (cn_heap c))) \<and> length (cn_heap c) \<in> set (cn_handshakes c')"
proof -
  let ?sid = "getSessionID (cn_hostId c) (GetRecvID m)" and ?q = "length (cn_heap c)"
  have p: "old < ?q" "so_id (cn_heap c ! old) = ?sid" using assms(3,4) by (auto simp: conn_ok_def)
  have l: "loadOrStore ?sid (GetRecvID m) c = ((old, True), c)" using assms(4) by (simp add: loadOrStore_def)
  obtain c2 where c2: "tryResetSessionFromPlaintextHello E content old (GetRecvID m) ?sid c = (True, c2)"
      "length (cn_heap c2) = Suc ?q" "so_sess (cn_heap c2 ! ?q) = NewSession (cn_config c) (GetRecvID m)"
      "so_id (cn_heap c2 ! old) = ?sid" "cn_handshakes c2 = cn_handshakes c @ [?q]"
    using reset_fresh [OF assms(5) p, of "GetRecvID m"] by auto
  have t: "terminateSession E old c2 = Some (Ok (), c')"
  proof -
    have "\<exists>r. terminateSession E old c2 = Some (r, c') \<and> (\<forall>s. r \<noteq> Panic s)"
      using assms(7) l c2(1) by (auto simp: WriteMessage_def assms(1,2,6) split: option.splits prod.splits res.splits)
    then show ?thesis
      by (auto simp: terminateSession_def split: option.splits prod.splits res.splits)
  qed
  have o: "old < length (cn_heap c2)" using p c2(2) by simp
  from terminateSession_ends(1) [OF t o] terminateSession_ends(3) [OF t o, of ?q] terminateSession_ends(5) [OF t o] c2 p
  show ?thesis by (simp add: NewSession_def)
qed

section \<open>Identifiers of sessions\<close>

lemma split_at_sep:
  assumes "a @ x # b = a' @ x # b'" "x \<notin> set a" "x \<notin> set a'"
  shows "a = a' \<and> b = b'"
  using assms
proof (induction a arbitrary: a')
  case Nil
  then show ?case by (cases a') auto
next
  case (Cons y ys)
  then show ?case by (cases a') auto
qed

text \<open>Both ends of a session name it alike, and when no user identifier contains an underscore,
  sessions of different pairs of users have different names.\<close>

theorem session_id_identifies:
  assumes "CHR ''_'' \<notin> set A" "CHR ''_'' \<notin> set B" "CHR ''_'' \<notin> set C" "CHR ''_'' \<notin> set D"
  shows "getSessionID A B = getSessionID B A \<and>
    (getSessionID A B = getSessionID C D \<longleftrightarrow> (A = C \<and> B = D) \<or> (A = D \<and> B = C))"
proof -
  have "getSessionID A B = getSessionID B A" for A B
    by (cases "A < B"; cases "B < A") (auto simp: getSessionID_def)
  moreover have "getSessionID A B = getSessionID C D \<Longrightarrow> (A = C \<and> B = D) \<or> (A = D \<and> B = C)"
    using assms split_at_sep [of A "CHR ''_''" B] split_at_sep [of B "CHR ''_''" A]
    by (fastforce simp: getSessionID_def split: if_splits)
  ultimately show ?thesis by metis
qed

lemma session_id_identifies_witness:
  "getSessionID ''u1'' ''u2'' = getSessionID ''u2'' ''u1'' \<and>
   (getSessionID ''u1'' ''u2'' = getSessionID ''u1'' ''u3'' \<longleftrightarrow>
      (''u1'' = ''u1'' \<and> ''u2'' = ''u3'') \<or> (''u1'' = ''u3'' \<and> ''u2'' = ''u1''))"
  by (rule session_id_identifies) simp_all

text \<open>With underscores they do not: for the user \<open>b_c_b\<close> the peers \<open>b_c\<close> and \<open>c_b\<close> have one session.
  Once it exists for the first, what is written to the second goes into it as well.\<close>

theorem session_id_collision:
  "(let h = ''b_c_b''; first = loadOrStore (getSessionID h ''b_c'') ''b_c'' c
    in loadOrStore (getSessionID h ''c_b'') ''c_b'' (snd first) = ((fst (fst first), True), snd first))"
proof -
  have "getSessionID ''b_c_b'' ''b_c'' = getSessionID ''b_c_b'' ''c_b''"
    by (simp add: getSessionID_def less_char_def)
  then show ?thesis
    by (auto simp: loadOrStore_def allocSession_def Let_def split: option.splits)
qed

section \<open>Examples\<close>

definition exConnCodec :: codec where
  "exConnCodec = exCodec\<lparr>pb_marshalMsg := (\<lambda>_. Some [0]), pb_unmarshalMsg := (\<lambda>_. Some exMsg), pb_marshalPush := (\<lambda>_. Some [0]),
     enc_Req := (\<lambda>_. Some [0]), dec_Req := (\<lambda>_. Some exReq), enc_Resp := (\<lambda>_. Some [0]),
     compress := Some, decompress := Some\<rparr>"

definition exConnEnv :: connEnv where
  "exConnEnv = \<lparr>ce_hs = exEnv ''b'', ce_codec = exConnCodec, ce_uuid = ''u'', ce_now = 0, ce_ctlId = ''ctl'',
     ce_json = (\<lambda>_. Some \<lparr>cf_Type = secureControlLostRequest,
       cf_Messages = [\<lparr>cp_Ref = messageRef exSecret, cp_Content = []\<rparr>]\<rparr>),
     ce_toJson = (\<lambda>_. Some [1]), ce_visit = (\<lambda>x. x), ce_ws = (\<lambda>_. Ok ()), ce_wait = HandshakeDone, ce_during = (\<lambda>c. c)\<rparr>"

text \<open>A message from \<open>a\<close> to \<open>b\<close>, and a connection of \<open>h\<close> with one session.\<close>

definition exIn :: "bytes \<Rightarrow> MsgData" where
  "exIn x = \<lparr>md_inner = Some (exMsg\<lparr>sd_Content := x\<rparr>), md_Req = None, md_Resp = None, md_Push = None, md_SecureRead = True\<rparr>"

definition exConn :: "string \<Rightarrow> sess \<Rightarrow> connState" where
  "exConn h s = (NewSecureConn (Some emptyConfig))\<lparr>cn_hostId := h, cn_open := True, cn_sessions := [getSessionID ''b'' ''a'' \<mapsto> 0],
     cn_heap := [\<lparr>so_id = getSessionID ''b'' ''a'', so_sess = s, so_chan = [], so_phase = None\<rparr>]\<rparr>"

definition exSealed :: sess where
  "exSealed = (NewSession None ''a'')\<lparr>se_complete := True, se_in := exHalf, se_out := exHalf\<rparr>"

lemma exIn_content [simp]: "GetContent (exIn x) = x"
  by (simp add: exIn_def GetContent_def)

lemma exIn_from: "cn_hostId c = ''b'' \<Longrightarrow> fromPeer c (exIn x) ''a''"
  by (simp add: fromPeer_def exIn_def IsSecureReadBound_def shouldDropSecureInbound_def ReadReqIdentifier_def
      shouldDropSecureSelfEcho_def inboundPeerID_def GetSendID_def GetRecvID_def exMsg_def)

lemma exConn_simps [simp]:
  "cn_hostId (exConn h s) = h" "cn_open (exConn h s)" "cn_sessions (exConn h s) (getSessionID ''b'' ''a'') = Some 0"
  "0 < length (cn_heap (exConn h s))" "cn_realtime (exConn h s) = Map.empty" "cn_reorder (exConn h s) = Map.empty"
  "cn_config (exConn h s) \<noteq> None" "cn_out (exConn h s) = []" "cn_tasks (exConn h s) = []" "length (cn_heap (exConn h s)) = 1"
  by (simp_all add: exConn_def NewSecureConn_def)

lemma exConn_sess: "sessOf 0 (exConn h s) = s\<lparr>se_config := Some emptyConfig\<rparr>"
  by (simp add: sessOf_def exConn_def NewSecureConn_def)

lemma exConn_ok: "\<not> se_done s \<Longrightarrow> conn_ok (exConn h s)"
  by (auto simp: conn_ok_def exConn_def NewSecureConn_def split: if_splits)

lemma exConn_plain: "plainSession (sessOf 0 (exConn h (NewSession None ''a'')))"
  unfolding exConn_sess by (rule plainSession_new)

lemma exSealed_at: "at_record exKey [1, 2, 3, 4] 0 (se_in (sessOf 0 (exConn h exSealed)))"
  "at_record exKey [1, 2, 3, 4] 0 (se_out (sessOf 0 (exConn h exSealed)))"
  using exHalf_at by (simp_all add: exConn_sess exSealed_def)

lemma exConnEnv_simps [simp]:
  "en_evp (ce_hs exConnEnv) = exEvp" "ce_codec exConnEnv = exConnCodec" "ce_ws exConnEnv x = Ok ()" "ce_hs exConnEnv = exEnv ''b''"
  by (simp_all add: exConnEnv_def)

lemma exConnCodec_frame: "\<exists>b. frameRecord exConnCodec u n m content = Ok b" if "md_inner m \<noteq> None"
  using that
  by (auto simp: frameRecord_def Let_def MsgDataToBytesWriteBound_def SetContent_def SetEx_def exConnCodec_def
      encodeAndCompressWriteBound_def split: option.splits)


lemma exConn_from: "fromPeer (exConn ''b'' s) (exIn x) ''a''"
  by (rule exIn_from) simp

lemma exConn_session: "cn_sessions (exConn ''b'' s) (getSessionID (cn_hostId (exConn ''b'' s)) ''a'') = Some 0"
  by simp

lemmas exConn_facts = exConn_from exConn_session exConn_simps(4)



lemma exConn_net: "ce_ws E = (\<lambda>_. Ok ()) \<Longrightarrow> ce_codec E = exConnCodec \<Longrightarrow> cn_open c \<Longrightarrow> md_inner m \<noteq> None \<Longrightarrow>
    net_ok (recEnv E c p m)"
proof (unfold net_ok_def, intro allI)
  fix t x
  assume e: "ce_ws E = (\<lambda>_. Ok ())" "ce_codec E = exConnCodec" "cn_open c" "md_inner m \<noteq> None"
  let ?m = "if t = RecordAlert then controlMsg E c p alertText else m"
  have "md_inner ?m \<noteq> None" using e(4) by (simp add: controlMsg_def ConstructMsgData_def)
  then obtain b where "frameRecord exConnCodec (ce_uuid E) (ce_now E) ?m x = Ok b" using exConnCodec_frame by blast
  then show "en_net (recEnv E c p m) t x = Ok ()" using e by (simp add: recEnv_def sendFrame_def)
qed

lemma exConn_terminate:
  assumes "ce_ws E = (\<lambda>_. Ok ())" "ce_codec E = exConnCodec" "hc_cipher (se_out (sessOf p c)) = None" "cn_open c" "cn_config c \<noteq> None"
  shows "\<exists>c'. terminateSession E p c = Some (Ok (), c')"
proof -
  let ?m = "controlMsg E c p alertText"
  have "net_ok (recEnv E c p ?m)"
    by (rule exConn_net) (use assms in \<open>simp_all add: controlMsg_def ConstructMsgData_def\<close>)
  from writeRecord_plain [OF this assms(3)] assms(5) show ?thesis
    by (simp add: terminateSession_def writeRecordLocked_def onSess_def sessOf_def)
qed

abbreviation exSilent :: connState where
  "exSilent \<equiv> exConn ''b'' (exSealed\<lparr>se_out := newHalfConn\<rparr>)"

lemma exSilent_undecryptable:
  assumes "ce_ws E = (\<lambda>_. Ok ())" "ce_codec E = exConnCodec" "\<not> isPlaintextHelloRecord (en_crypto (ce_hs E)) x"
    "decrypt (en_evp (ce_hs E)) x (se_in (sessOf 0 exSilent)) = (Fail e, inn)"
  shows "\<exists>c'. handleReadBoundMsg E 2 (exIn x) exSilent = Some (Ok (), c')"
proof -
  let ?c = exSilent
  let ?c1 = "storeSess 0 ((sessOf 0 ?c)\<lparr>se_in := inn\<rparr>) ?c"
  have nd: "se_done ((sessOf 0 ?c)\<lparr>se_in := inn\<rparr>) \<longrightarrow> se_done (sessOf 0 ?c)" by simp
  note st = sessOf_storeSess [OF exConn_simps(4) nd]
  have "hc_cipher (se_out (sessOf 0 ?c1)) = None" unfolding st(1) by (simp add: exConn_sess newHalfConn_def)
  moreover have "cn_open ?c1" "cn_config ?c1 \<noteq> None" unfolding st(2) by (simp_all add: exConn_sess)
  ultimately obtain c' where t: "terminateSession E 0 ?c1 = Some (Ok (), c')" using exConn_terminate [OF assms(1,2)] by blast
  have l: "loadOrStore (getSessionID ''b'' ''a'') ''a'' ?c = ((0, True), ?c)" by (simp add: loadOrStore_def)
  have "\<not> shouldDropSecureInbound (exIn x)" using exConn_from by (simp add: fromPeer_def)
  then show ?thesis
    using handleReadBoundMsg_fromPeer [OF exConn_from, of E 2 x] t assms(3,4) l
    by (simp add: handleSecure_def Let_def tryResetSessionFromPlaintextHello_def)
qed

lemma exSilent_ok: "conn_ok exSilent"
  by (rule exConn_ok) (simp add: exSealed_def NewSession_def)

lemma exHalf_short: "decrypt exEvp [1] exHalf = (Fail AlertBadRecordMAC, exHalf)"
  by (simp add: decrypt_def exHalf_def explicitNonceLen_def ExplicitNonceLen_def NonceSize_def)

lemma undecryptable_ends_session_witness:
  "\<exists>c'. handleReadBoundMsg exConnEnv 2 (exIn [1]) exSilent = Some (Ok (), c') \<and>
     cn_sessions c' (getSessionID ''b'' ''a'') = None \<and> se_done (so_sess (cn_heap c' ! 0))"
proof -
  have d: "decrypt (en_evp (ce_hs exConnEnv)) (GetContent (exIn [1])) (se_in (sessOf 0 exSilent)) = (Fail AlertBadRecordMAC, exHalf)"
    using exHalf_short by (simp add: exConn_sess exSealed_def)
  have nh: "\<not> isPlaintextHelloRecord C [1]" for C by (simp add: isPlaintextHelloRecord_def)
  obtain c' where h: "handleReadBoundMsg exConnEnv 2 (exIn [1]) exSilent = Some (Ok (), c')"
    using exSilent_undecryptable [of exConnEnv "[1]"] d nh by (auto simp: exConnEnv_def)
  from undecryptable_ends_session [OF exConn_from exSilent_ok exConn_session d h] h nh show ?thesis by auto
qed

lemma hello_record_plain:
  assumes "helloMsg_marshal doc_cryptobyte h = Ok d"
  shows "isPlaintextHelloRecord doc_cryptobyte (recordByte RecordHandshake # d)"
proof -
  have "d \<noteq> []" "unmarshalAs doc_cryptobyte (hd d) d = Some (readback (Hello h))"
    using unmarshalAs_marshal [of "Hello h" d] assms by auto
  then show ?thesis
    by (cases d) (simp_all add: isPlaintextHelloRecord_def parsePlaintextHandshakeMessage_def recordType_of_def)
qed

lemma stale_writer_orphans_session_witness:
  "\<exists>run c'. WriteMessage exConnEnv run (Ok ()) True [0] (exConn ''a'' (NewSession None ''b'')) = Some (Fail ErrSessionClosed, c') \<and>
     cn_sessions c' (getSessionID ''a'' ''b'') = None \<and> \<not> se_done (so_sess (cn_heap c' ! 1))"
proof -
  let ?c = "exConn ''a'' (NewSession None ''b'')" and ?sid = "getSessionID ''a'' ''b''"
  let ?x = "recordByte RecordHandshake # hello_bytes exHello"
  let ?run = "\<lambda>_ _. Some (Fail ErrSessionClosed, snd (tryResetSessionFromPlaintextHello exConnEnv ?x 0 ''b'' ?sid ?c))"
  have h: "isPlaintextHelloRecord (en_crypto (ce_hs exConnEnv)) ?x" using hello_record_plain [OF exHello_Ok] by simp
  have sid: "getSessionID ''b'' ''a'' = ?sid" by (simp add: getSessionID_def less_char_def)
  define m where "m = \<lparr>md_inner = Some exMsg, md_Req = Some exReq, md_Resp = None, md_Push = None, md_SecureRead = False\<rparr>"
  have b: "BytesToMsgDataWriteBound (ce_codec exConnEnv) [0] = Ok m"
    by (simp add: BytesToMsgDataWriteBound_def decodeAndDecompressWriteBound_def m_def exConnCodec_def
        exReq_def shouldSecureOutbound_def exMsg_def secureTextContentType_def)
  have r: "GetRecvID m = ''b''" by (simp add: m_def GetRecvID_def exMsg_def)
  have ok: "conn_ok ?c" by (rule exConn_ok) (simp add: NewSession_def)
  have s: "cn_sessions ?c ?sid = Some 0" "so_id (cn_heap ?c ! 0) = ?sid" using sid by (simp_all add: exConn_def NewSecureConn_def)
  obtain c2 where c2: "tryResetSessionFromPlaintextHello exConnEnv ?x 0 ''b'' ?sid ?c = (True, c2)" "cn_open c2"
      "hc_cipher (se_out (sessOf 0 c2)) = None" "cn_config c2 \<noteq> None"
    using h s(2)
    by (auto simp: tryResetSessionFromPlaintextHello_def allocSession_def closeSessionLocally_def Let_def nth_append
        exConn_def NewSecureConn_def sessOf_def NewSession_def newHalfConn_def)
  have "ce_ws exConnEnv = (\<lambda>_. Ok ())" "ce_codec exConnEnv = exConnCodec" by (simp_all add: exConnEnv_def)
  from exConn_terminate [OF this c2(3,2,4)] obtain c' where t: "terminateSession exConnEnv 0 c2 = Some (Ok (), c')" by blast
  have l: "loadOrStore ?sid ''b'' ?c = ((0, True), ?c)" using s(1) by (simp add: loadOrStore_def)
  have w: "WriteMessage exConnEnv ?run (Ok ()) True [0] ?c = Some (Fail ErrSessionClosed, c')"
    using b r t l c2(1) by (simp add: WriteMessage_def)
  have g: "GetRecvID m \<noteq> []" "cn_sessions ?c (getSessionID (cn_hostId ?c) (GetRecvID m)) = Some 0"
    using r s by simp_all
  have rn: "?run 0 ?c = Some (Fail ErrSessionClosed, snd (tryResetSessionFromPlaintextHello exConnEnv ?x 0 (GetRecvID m)
      (getSessionID (cn_hostId ?c) (GetRecvID m)) ?c))"
    using r by simp
  from stale_writer_orphans_session [OF b g(1) ok g(2) h rn w] r
  have "cn_sessions c' ?sid = None \<and> \<not> se_done (so_sess (cn_heap c' ! 1))" by simp
  then show ?thesis using w by blast
qed

lemma sealed_message_delivered_witness:
  "\<exists>x c'. handleReadBoundMsg exConnEnv 2 (exIn x) (exConn ''b'' exSealed) = Some (Ok (), c') \<and> length (cn_out c') = 1"
proof -
  let ?d = "recordByte RecordApplicationData # [5]" and ?c = "exConn ''b'' exSealed" and ?sid = "getSessionID ''b'' ''a''"
  let ?x = "seq_bytes 0 @ replicate 4 0 @ gcm_box exEvp exKey [1, 2, 3, 4] (record_aad 0 2) ?d"
  have z: "(0 :: nat) < 2 ^ 64 - 1" and iv: "[1, 2, 3, 4 :: byte] \<noteq> []" by simp_all
  have l: "length (gcm_box exEvp exKey [1, 2, 3, 4] (record_aad 0 2) ?d) = 18"
    using length_gcm_box [OF exEvp_gcm_lib exKey_length iv, of "record_aad 0 2" ?d] by simp
  have len: "length (GetContent (exIn ?x)) = 30" "drop 12 ?x = gcm_box exEvp exKey [1, 2, 3, 4] (record_aad 0 2) ?d"
    using l by simp_all
  have u: "gcm_unbox (en_evp (ce_hs exConnEnv)) exKey [1, 2, 3, 4] (record_aad 0 (length (GetContent (exIn ?x)) - 28))
      (drop 12 (GetContent (exIn ?x))) = Some (recordByte RecordApplicationData # [5])"
    unfolding len(1) using gcm_unbox_box [OF exEvp_gcm_lib exKey_length iv] len(2) by simp
  obtain b rt where b: "MsgDataToBytesReadBound (ce_codec exConnEnv) (ce_uuid exConnEnv) (ce_now exConnEnv) (SetContent [5] (exIn ?x))
      (cn_realtime ?c) = (Ok b, rt)"
    by (auto simp: MsgDataToBytesReadBound_def exIn_def SetContent_def exConnCodec_def encodeAndCompressReadBound_def)
  let ?i = "\<lparr>ri_sessionId = ?sid, ri_remoteId = ''a'', ri_msgType = 2, ri_msg = b, ri_err = None\<rparr>"
  obtain ro where d: "deliverApplication (ce_visit exConnEnv) (ce_now exConnEnv) ?sid (messageRef (exIn ?x)) ?i (cn_reorder ?c) = ([?i], ro)"
  proof -
    have "\<not> hasBlockingGapLocked newReorderState r" for r by (simp add: hasBlockingGapLocked_def newReorderState_def)
    moreover have "flushReadyPendingLocked (\<lambda>x. x) newReorderState = ([], newReorderState)"
      by (simp add: flushReadyPendingLocked_def newReorderState_def)
    ultimately show ?thesis
      using that by (simp add: deliverApplication_def reorderStateLocked_def flushReadyPending_def exConnEnv_def)
  qed
  have cm: "se_complete (sessOf 0 ?c)" by (simp add: exConn_sess exSealed_def)
  have L: "gcm_lib (en_evp (ce_hs exConnEnv))" "28 \<le> length (GetContent (exIn ?x))" using len(1) by simp_all
  have h: "cn_hostId ?c = ''b''" by simp
  from sealed_message_delivered [OF exConn_facts cm L(1) exKey_length iv exSealed_at(1) z L(2) u b, unfolded h, OF d]
  show ?thesis by fastforce
qed

lemma written_message_sealed_witness:
  "\<exists>run c3. WriteMessage exConnEnv run (Ok ()) True [0] (exConn ''a'' exSealed) = Some (Ok (), c3) \<and> length (se_sent (sessOf 0 c3)) = 1"
proof -
  let ?c = "exConn ''a'' exSealed" and ?run = "\<lambda>_ c. Some (Ok (), c)"
  define m where "m = \<lparr>md_inner = Some exMsg, md_Req = Some exReq, md_Resp = None, md_Push = None, md_SecureRead = False\<rparr>"
  have b: "BytesToMsgDataWriteBound (ce_codec exConnEnv) [0] = Ok m"
    by (simp add: BytesToMsgDataWriteBound_def decodeAndDecompressWriteBound_def m_def exConnCodec_def
        exReq_def shouldSecureOutbound_def exMsg_def secureTextContentType_def)
  have r: "GetRecvID m = ''b''" by (simp add: m_def GetRecvID_def exMsg_def)
  have sid: "getSessionID ''b'' ''a'' = getSessionID ''a'' ''b''" by (simp add: getSessionID_def less_char_def)
  have l: "loadOrStore (getSessionID (cn_hostId ?c) (GetRecvID m)) (GetRecvID m) ?c = ((0, True), ?c)"
    using sid exConn_simps(3) [of "''a''" exSealed] r by (simp add: loadOrStore_def)
  have rn: "?run 0 ?c = Some (Ok (), ?c)" and iv: "[1, 2, 3, 4 :: byte] \<noteq> []" and z: "(0 :: nat) < 2 ^ 64 - 1" and g: "GetRecvID m \<noteq> []"
    using r by simp_all
  have f: "\<exists>b. frameRecord (ce_codec exConnEnv) (ce_uuid exConnEnv) (ce_now exConnEnv) m x = Ok b" for x
    using exConnCodec_frame [of m] by (simp add: m_def)
  have L: "gcm_lib (en_evp (ce_hs exConnEnv))" "ce_ws exConnEnv x = Ok ()" "cn_open ?c" for x by simp_all
  have k: "cache_ok (cn_cache ?c)" by (simp add: exConn_def NewSecureConn_def cache_ok_def)
  have n: "\<not> noIdentity (messageRef m)"
    by (simp add: noIdentity_def messageRef_def m_def GetClientMsgID_def exMsg_def)
  have s: "se_sent (sessOf 0 ?c) = []" by (simp add: exConn_sess exSealed_def NewSession_def)
  from written_message_sealed [where run = ?run and c = ?c and closeErr = "Ok ()", OF b g l rn exConn_simps(4) L(1) exKey_length iv exSealed_at(2) z f L(2,3) k n exConn_simps(7)] s
  show ?thesis by (metis (no_types, lifting) append_Nil list.size(3) length_Cons One_nat_def)
qed

lemma control_before_handshake_leaks_witness:
  "\<exists>c c'. handleReadBoundMsg exConnEnv 2 (exIn (recordByte RecordSecureControl # [9])) c = Some (Ok (), c') \<and>
     \<not> se_complete (sessOf 0 c') \<and> se_sent (sessOf 0 c') = [(RecordSecureControl, [25, 1])]"
proof -
  let ?c = "(NewSecureConn (Some emptyConfig))\<lparr>cn_hostId := ''b'', cn_open := True, cn_cache := cacheOutboundMessage exSecret emptyCache\<rparr>"
  have c: "cn_hostId ?c = ''b''" "cn_sessions ?c (getSessionID (cn_hostId ?c) ''a'') = None" "cn_open ?c"
      "length (cn_heap ?c) = 0" "cn_config ?c \<noteq> None"
    by (simp_all add: NewSecureConn_def)
  have n: "\<not> noIdentity (messageRef exSecret)"
    by (simp add: noIdentity_def messageRef_def exSecret_def GetClientMsgID_def SetContent_def exMsg_def)
  have e: "cache_ok emptyCache" by (simp add: cache_ok_def emptyCache_def)
  obtain en where f: "findCachedOutboundLocked (messageRef exSecret) (cn_cache ?c) = Some en"
    using cacheOutboundMessage_ok_step [OF e, of exSecret] n findCached_key [of _ "messageRef exSecret"]
    by (auto simp: messageRefKey_Nil)
  let ?m = "ConstructMsgData (ce_ctlId exConnEnv) (ce_now exConnEnv) (cn_hostId ?c) ''a'' [1]"
  have "md_inner ?m \<noteq> None" by (simp add: ConstructMsgData_def)
  then obtain b where b: "frameRecord (ce_codec exConnEnv) (ce_uuid exConnEnv) (ce_now exConnEnv) ?m (recordByte RecordSecureControl # [1]) = Ok b"
    using exConnCodec_frame by fastforce
  have j: "ce_json exConnEnv [9] = Some \<lparr>cf_Type = secureControlLostRequest, cf_Messages = [\<lparr>cp_Ref = messageRef exSecret, cp_Content = []\<rparr>]\<rparr>"
    "ce_toJson exConnEnv x = Some [1]" "ce_ws exConnEnv b = Ok ()" for x
    by (simp_all add: exConnEnv_def)
  from control_before_handshake_leaks [OF exIn_from [OF c(1)] c(2) exIn_content j(1) f j(2) b j(3) c(3,5), unfolded c(4), of 2]
  show ?thesis by force
qed

end
