(* ===== verification/ReadLoop.thy ===== *)
theory ReadLoop
  imports ConnProps
begin

text \<open>
  The reader goroutine of a connection, \<open>readLoop\<close> of \<open>e2ewebsocket/conn.go\<close>: it waits until there
  is a websocket it has not read yet, reads it until an error, and starts again; shutting the
  connection down or a panic ends it for good.  Websockets are numbered in the order of dialling.
\<close>

section \<open>State\<close>

text \<open>
  \<open>ls_conn\<close> is \<open>c.conn\<close> and \<open>ls_last\<close> the variable \<open>lastConn\<close>.  The loop waits on \<open>connCond\<close>,
  reads a websocket, waits with \<open>connMu\<close> held for a free place in \<open>msgChan\<close> to send an error, or
  has returned and closed \<open>msgChan\<close>.
\<close>

datatype loopPhase = Waiting | Reading nat | Sending nat error | Exited

record loopState =
  ls_state :: connState
  ls_conn :: "nat option"
  ls_last :: "nat option"
  ls_phase :: loopPhase

definition msgChanCapacity :: nat where "msgChanCapacity = 128"

definition newLoop :: "config option \<Rightarrow> loopState" where
  "newLoop cfg = \<lparr>ls_state = NewSecureConn cfg, ls_conn = None, ls_last = None, ls_phase = Waiting\<rparr>"

section \<open>The loop\<close>

text \<open>The head of the outer loop.\<close>

definition loopTop :: "loopState \<Rightarrow> loopState" where
  "loopTop ls =
     (if cn_closed (ls_state ls) then ls\<lparr>ls_phase := Exited\<rparr>
      else case ls_conn ls of
             Some k \<Rightarrow> if ls_last ls = Some k then ls\<lparr>ls_phase := Waiting\<rparr>
                       else ls\<lparr>ls_last := Some k, ls_phase := Reading k\<rparr>
           | None \<Rightarrow> ls\<lparr>ls_phase := Waiting\<rparr>)"

definition errorItem :: "error \<Rightarrow> readMsgItem" where
  "errorItem e = \<lparr>ri_sessionId = [], ri_remoteId = [], ri_msgType = 0, ri_msg = [], ri_err = Some e\<rparr>"

definition sendError :: "nat \<Rightarrow> error \<Rightarrow> loopState \<Rightarrow> loopState" where
  "sendError k e ls =
     (if length (cn_out (ls_state ls)) < msgChanCapacity
      then loopTop (ls\<lparr>ls_state := emit [errorItem e] (ls_state ls)\<rparr>)
      else ls\<lparr>ls_phase := Sending k e\<rparr>)"

text \<open>One call of \<open>readRecord\<close>, with what the websocket gave it, and what follows in the inner loop.\<close>

definition onFrame :: "connEnv \<Rightarrow> (int \<times> bytes) res \<Rightarrow> loopState \<Rightarrow> loopState option" where
  "onFrame E frame ls =
     (case ls_phase ls of
        Reading k \<Rightarrow>
          (case readRecord E frame (ls_state ls) of
             None \<Rightarrow> None
           | Some (Ok _, c) \<Rightarrow> Some (ls\<lparr>ls_state := c\<rparr>)
           | Some (Panic _, c) \<Rightarrow> Some (ls\<lparr>ls_state := c, ls_phase := Exited\<rparr>)
           | Some (Fail e, c) \<Rightarrow>
               (let ls' = ls\<lparr>ls_state := c\<rparr> in
                Some (if cn_closed c then ls'\<lparr>ls_phase := Exited\<rparr>
                      else if ls_conn ls = Some k then sendError k e ls'
                      else loopTop ls')))
      | _ \<Rightarrow> None)"

section \<open>What the application does meanwhile\<close>

text \<open>Dialling, closing and shutting down take \<open>connMu\<close>; \<open>None\<close> while the loop holds it.\<close>

definition lockFree :: "loopState \<Rightarrow> bool" where
  "lockFree ls \<longleftrightarrow> (case ls_phase ls of Sending _ _ \<Rightarrow> False | _ \<Rightarrow> True)"

definition wake :: "loopState \<Rightarrow> loopState" where
  "wake ls = (if ls_phase ls = Waiting then loopTop ls else ls)"

definition onDial :: "nat \<Rightarrow> string \<Rightarrow> loopState \<Rightarrow> loopState option" where
  "onDial k hostId ls =
     (if lockFree ls
      then Some (wake (ls\<lparr>ls_state := snd (DialAndSetUserId (Ok ()) hostId (ls_state ls)), ls_conn := Some k\<rparr>))
      else None)"

definition onClose :: "loopState \<Rightarrow> loopState option" where
  "onClose ls =
     (if lockFree ls then Some (ls\<lparr>ls_state := snd (connClose (Ok ()) (ls_state ls)), ls_conn := None\<rparr>) else None)"

definition onShutDown :: "loopState \<Rightarrow> loopState option" where
  "onShutDown ls =
     (if lockFree ls then Some (wake (ls\<lparr>ls_state := snd (ShutDown (Ok ()) (ls_state ls)), ls_conn := None\<rparr>)) else None)"

text \<open>\<open>ReadMessage\<close>: the next item, an error when the channel is closed and empty, otherwise it waits.
  A place that becomes free takes the error the loop is about to send.\<close>

definition onTake :: "loopState \<Rightarrow> ((int \<times> bytes \<times> error option) option \<times> loopState) option" where
  "onTake ls =
     (case ReadMessage (ls_state ls) of
        None \<Rightarrow> if ls_phase ls = Exited then Some (None, ls) else None
      | Some (x, c) \<Rightarrow>
          let ls' = ls\<lparr>ls_state := c\<rparr> in
          Some (Some x, case ls_phase ls of Sending k e \<Rightarrow> sendError k e ls' | _ \<Rightarrow> ls'))"

datatype loopEvent =
    Dialled nat string | FrameRead "(int \<times> bytes) res" | ClosedByApp | ShutDownByApp | Taken

fun loopStep :: "connEnv \<Rightarrow> loopEvent \<Rightarrow> loopState \<Rightarrow> loopState option" where
  "loopStep E (Dialled k h) ls = onDial k h ls"
| "loopStep E (FrameRead f) ls = onFrame E f ls"
| "loopStep E ClosedByApp ls = onClose ls"
| "loopStep E ShutDownByApp ls = onShutDown ls"
| "loopStep E Taken ls = map_option snd (onTake ls)"

fun runLoop :: "connEnv \<Rightarrow> loopEvent list \<Rightarrow> loopState \<Rightarrow> loopState option" where
  "runLoop E [] ls = Some ls"
| "runLoop E (ev # evs) ls = Option.bind (loopStep E ev ls) (runLoop E evs)"

section \<open>Lemmas\<close>

definition loop_ok :: "loopState \<Rightarrow> bool" where
  "loop_ok ls \<longleftrightarrow>
     (case ls_phase ls of
        Waiting \<Rightarrow> \<not> cn_closed (ls_state ls) \<and> (ls_conn ls = None \<or> ls_conn ls = ls_last ls)
      | Reading k \<Rightarrow> ls_last ls = Some k
      | Sending k e \<Rightarrow> ls_last ls = Some k \<and> ls_conn ls = Some k \<and> \<not> cn_closed (ls_state ls) \<and>
                       msgChanCapacity \<le> length (cn_out (ls_state ls))
      | Exited \<Rightarrow> True)"

lemma emit_simps [simp]: "cn_closed (emit items c) = cn_closed c" "cn_out (emit items c) = cn_out c @ items"
  by (simp_all add: emit_def)

lemma loop_ok_top: "loop_ok (loopTop ls)"
  by (auto simp: loop_ok_def loopTop_def split: option.splits)

lemma loop_ok_sendError:
  "ls_last ls = Some k \<Longrightarrow> ls_conn ls = Some k \<Longrightarrow> \<not> cn_closed (ls_state ls) \<Longrightarrow> loop_ok (sendError k e ls)"
  by (auto simp: sendError_def loop_ok_top) (simp add: loop_ok_def)

lemma loop_ok_onFrame: "loop_ok ls \<Longrightarrow> onFrame E f ls = Some ls' \<Longrightarrow> loop_ok ls'"
  by (auto simp: onFrame_def loop_ok_top Let_def intro!: loop_ok_sendError
      split: loopPhase.splits option.splits res.splits if_splits)
    (auto simp: loop_ok_def)

lemma ReadMessage_closed: "ReadMessage c = Some (x, c') \<Longrightarrow> cn_closed c' = cn_closed c"
  by (auto simp: ReadMessage_def split: list.splits)

lemma loop_ok_onTake: "loop_ok ls \<Longrightarrow> onTake ls = Some (x, ls') \<Longrightarrow> loop_ok ls'"
  by (auto simp: onTake_def Let_def ReadMessage_closed intro!: loop_ok_sendError
      split: option.splits if_splits loopPhase.splits)
    (auto simp: loop_ok_def ReadMessage_closed)

lemma DialAndSetUserId_closed [simp]: "cn_closed (snd (DialAndSetUserId r h c)) = cn_closed c"
  "cn_out (snd (DialAndSetUserId r h c)) = cn_out c"
  by (cases r; simp add: DialAndSetUserId_def Let_def)+

lemma connClose_closed [simp]: "cn_closed (snd (connClose r c)) = cn_closed c" "cn_out (snd (connClose r c)) = cn_out c"
  by (simp_all add: connClose_def)

lemma ShutDown_closed [simp]: "cn_closed (snd (ShutDown r c))" "cn_out (snd (ShutDown r c)) = cn_out c"
  by (simp_all add: ShutDown_def)

lemma loop_ok_wake: "(ls_phase ls \<noteq> Waiting \<Longrightarrow> loop_ok ls) \<Longrightarrow> loop_ok (wake ls)"
  by (simp add: wake_def loop_ok_top)

lemma loop_ok_step:
  assumes "loop_ok ls" "loopStep E ev ls = Some ls'"
  shows "loop_ok ls'"
proof (cases ev)
  case (Dialled k h)
  then show ?thesis
    using assms by (auto simp: onDial_def lockFree_def intro!: loop_ok_wake split: if_splits loopPhase.splits) (auto simp: loop_ok_def)
next
  case ClosedByApp
  then show ?thesis
    using assms by (auto simp: onClose_def lockFree_def loop_ok_def split: if_splits loopPhase.splits)
next
  case ShutDownByApp
  then show ?thesis
    using assms by (auto simp: onShutDown_def lockFree_def intro!: loop_ok_wake split: if_splits loopPhase.splits) (auto simp: loop_ok_def)
next
  case Taken
  then show ?thesis using assms loop_ok_onTake [of ls] by auto
next
  case (FrameRead f)
  then show ?thesis using assms loop_ok_onFrame [of ls] by auto
qed

lemma runLoop_append: "runLoop E (xs @ ys) ls = Option.bind (runLoop E xs ls) (runLoop E ys)"
  by (induction xs arbitrary: ls) (auto simp: Option.bind_assoc split: Option.bind_splits)

lemma loop_ok_run: "loop_ok ls \<Longrightarrow> runLoop E evs ls = Some ls' \<Longrightarrow> loop_ok ls'"
proof (induction evs arbitrary: ls)
  case (Cons ev evs)
  then obtain l1 where "loopStep E ev ls = Some l1" "runLoop E evs l1 = Some ls'"
    by (auto simp: Option.bind_eq_Some_conv)
  then show ?case using Cons.IH loop_ok_step [OF Cons.prems(1)] by blast
qed simp

lemma loop_ok_new: "loop_ok (newLoop cfg)"
  by (simp add: loop_ok_def newLoop_def NewSecureConn_def)

lemma onFrame_Fail: "ls_phase ls = Reading k \<Longrightarrow> onFrame E (Fail e) ls = Some
    (if cn_closed (ls_state ls) then ls\<lparr>ls_phase := Exited\<rparr> else if ls_conn ls = Some k then sendError k e ls else loopTop ls)"
  by (simp add: onFrame_def readRecord_def Let_def)

section \<open>Properties\<close>

text \<open>C15: In every run of a connection the reader waits only while there is no websocket it has not read,
  and it holds the lock only to report the error of the current websocket to a full channel.\<close>

theorem reader_invariant:
  assumes "runLoop E evs (newLoop cfg) = Some ls"
  shows "case ls_phase ls of
      Waiting \<Rightarrow> \<not> cn_closed (ls_state ls) \<and> (ls_conn ls = None \<or> ls_conn ls = ls_last ls)
    | Reading k \<Rightarrow> ls_last ls = Some k
    | Sending k e \<Rightarrow> ls_last ls = Some k \<and> ls_conn ls = Some k \<and> \<not> cn_closed (ls_state ls) \<and> 128 \<le> length (cn_out (ls_state ls))
    | Exited \<Rightarrow> True"
  using loop_ok_run [OF loop_ok_new assms] by (cases "ls_phase ls") (auto simp: loop_ok_def msgChanCapacity_def)

lemma reader_invariant_witness:
  "\<exists>ls. runLoop exConnEnv [Dialled 0 ''b''] (newLoop None) = Some ls \<and> ls_last ls = Some 0 \<and> ls_phase ls = Reading 0"
proof -
  let ?r = "runLoop exConnEnv [Dialled 0 ''b''] (newLoop None)"
  obtain ls where ls: "?r = Some ls" "ls_phase ls = Reading 0"
    by (simp add: onDial_def lockFree_def newLoop_def NewSecureConn_def wake_def loopTop_def)
  show ?thesis using reader_invariant [OF ls(1)] ls by simp
qed

text \<open>A websocket that is dialled is read: at once when the reader waits, and after the error of the
  old one, which the application does not see, when it reads another.\<close>

theorem reader_follows_dial:
  assumes "runLoop E evs (newLoop cfg) = Some ls" "ls_last ls \<noteq> Some k" "\<not> cn_closed (ls_state ls)"
    "ls_phase ls = Waiting \<or> (\<exists>j. ls_phase ls = Reading j)"
  shows "\<exists>ls'. runLoop E (if ls_phase ls = Waiting then [Dialled k h] else [Dialled k h, FrameRead (Fail e)]) ls = Some ls' \<and>
    ls_phase ls' = Reading k \<and> cn_out (ls_state ls') = cn_out (ls_state ls)"
proof (cases "ls_phase ls")
  case Waiting
  then show ?thesis using assms(2,3) by (simp add: onDial_def lockFree_def wake_def loopTop_def)
next
  case (Reading j)
  then have j: "j \<noteq> k" using loop_ok_run [OF loop_ok_new assms(1)] assms(2) by (auto simp: loop_ok_def)
  let ?l = "ls\<lparr>ls_state := snd (DialAndSetUserId (Ok ()) h (ls_state ls)), ls_conn := Some k\<rparr>"
  have d: "onDial k h ls = Some ?l" using Reading by (simp add: onDial_def lockFree_def wake_def)
  have p: "ls_phase ?l = Reading j" using Reading by simp
  show ?thesis
    using Reading d onFrame_Fail [OF p, of E e] j assms(2,3) by (simp add: loopTop_def)
qed (use assms(4) in auto)

lemma reader_follows_dial_witness:
  "\<exists>ls. runLoop exConnEnv [Dialled 0 ''b'', Dialled 1 ''b'', FrameRead (Fail LibError)] (newLoop None) = Some ls \<and> ls_phase ls = Reading 1"
proof -
  obtain ls where ls: "runLoop exConnEnv [Dialled 0 ''b''] (newLoop None) = Some ls" "ls_phase ls = Reading 0" "ls_last ls = Some 0"
      "\<not> cn_closed (ls_state ls)"
    by (simp add: onDial_def lockFree_def newLoop_def NewSecureConn_def wake_def loopTop_def DialAndSetUserId_def)
  have n: "ls_last ls \<noteq> Some 1" "ls_phase ls = Waiting \<or> (\<exists>j. ls_phase ls = Reading j)" using ls by simp_all
  obtain ls' where l': "runLoop exConnEnv [Dialled 1 ''b'', FrameRead (Fail LibError)] ls = Some ls'" "ls_phase ls' = Reading 1"
    using reader_follows_dial [OF ls(1) n(1) ls(4) n(2), of "''b''" LibError] ls(2) by auto
  have "runLoop exConnEnv ([Dialled 0 ''b''] @ [Dialled 1 ''b'', FrameRead (Fail LibError)]) (newLoop None) = Some ls'"
    using ls(1) l'(1) by (simp only: runLoop_append) simp
  then show ?thesis using l'(2) by auto
qed

lemma quiet_step:
  assumes "ls_phase ls = Waiting \<or> ls_phase ls = Exited" "ls_conn ls = None" "loopStep E ev ls = Some ls'"
    "\<And>k h. ev \<noteq> Dialled k h"
  shows "(ls_phase ls' = Waiting \<or> ls_phase ls' = Exited) \<and> ls_conn ls' = None \<and>
    (\<exists>n. cn_out (ls_state ls') = drop n (cn_out (ls_state ls)))"
proof (cases ev)
  case Taken
  then show ?thesis
    using assms
    by (auto simp: onTake_def ReadMessage_def Let_def split: list.splits if_splits intro: exI [of _ "0::nat"] exI [of _ "1::nat"])
next
  case (FrameRead f)
  then show ?thesis using assms(1,3) by (auto simp: onFrame_def)
next
  case ClosedByApp
  then show ?thesis using assms by (auto simp: onClose_def split: if_splits intro: exI [of _ "0::nat"])
next
  case ShutDownByApp
  then show ?thesis
    using assms by (auto simp: onShutDown_def wake_def loopTop_def split: if_splits intro: exI [of _ "0::nat"])
qed (use assms in auto)

lemma quiet_run:
  assumes "ls_phase ls = Waiting \<or> ls_phase ls = Exited" "ls_conn ls = None" "runLoop E evs ls = Some ls'"
    "\<forall>k h. Dialled k h \<notin> set evs"
  shows "(ls_phase ls' = Waiting \<or> ls_phase ls' = Exited) \<and> (\<exists>n. cn_out (ls_state ls') = drop n (cn_out (ls_state ls)))"
  using assms
proof (induction evs arbitrary: ls)
  case Nil
  then show ?case by (auto intro: exI [of _ "0::nat"])
next
  case (Cons ev evs)
  then obtain l1 where l1: "loopStep E ev ls = Some l1" "runLoop E evs l1 = Some ls'"
    by (auto simp: Option.bind_eq_Some_conv)
  have nd: "\<And>k h. ev \<noteq> Dialled k h" "\<forall>k h. Dialled k h \<notin> set evs" using Cons.prems(4) by auto
  note q = quiet_step [OF Cons.prems(1,2) l1(1) nd(1)]
  obtain n where n: "cn_out (ls_state l1) = drop n (cn_out (ls_state ls))" using q by blast
  have "(ls_phase ls' = Waiting \<or> ls_phase ls' = Exited) \<and> (\<exists>n. cn_out (ls_state ls') = drop n (cn_out (ls_state l1)))"
    by (rule Cons.IH) (use q l1(2) nd(2) in simp_all)
  then show ?case using n by (metis drop_drop)
qed

text \<open>An application that reads is not told of a close of its own side: when a failed write (or
  \<open>Close\<close>) has closed the connection, the error of the websocket is dropped, and until it dials again
  the reader waits and no item is added to the channel.\<close>

theorem local_close_is_silent:
  assumes "ls_phase ls = Reading k" "\<not> cn_closed (ls_state ls)" "\<forall>k h. Dialled k h \<notin> set evs"
    "runLoop E (ClosedByApp # FrameRead (Fail e) # evs) ls = Some ls'"
  shows "(ls_phase ls' = Waiting \<or> ls_phase ls' = Exited) \<and> (\<exists>n. cn_out (ls_state ls') = drop n (cn_out (ls_state ls)))"
proof -
  let ?l = "ls\<lparr>ls_state := snd (connClose (Ok ()) (ls_state ls)), ls_conn := None\<rparr>"
  have c: "onClose ls = Some ?l" using assms(1) by (simp add: onClose_def lockFree_def)
  have p: "ls_phase ?l = Reading k" using assms(1) by simp
  have f: "onFrame E (Fail e) ?l = Some (?l\<lparr>ls_phase := Waiting\<rparr>)"
    using onFrame_Fail [OF p, of E e] assms(2) by (simp add: loopTop_def)
  have r: "runLoop E evs (?l\<lparr>ls_phase := Waiting\<rparr>) = Some ls'" using assms(4) c f by simp
  show ?thesis using quiet_run [OF _ _ r assms(3)] by simp
qed

lemma local_close_is_silent_witness:
  "\<exists>ls. runLoop exConnEnv [Dialled 0 ''b'', ClosedByApp, FrameRead (Fail ErrNotConnected)] (newLoop None) = Some ls \<and>
     ls_phase ls = Waiting \<and> cn_out (ls_state ls) = []"
proof -
  obtain l0 where l0: "runLoop exConnEnv [Dialled 0 ''b''] (newLoop None) = Some l0" "ls_phase l0 = Reading 0" "cn_out (ls_state l0) = []"
      "\<not> cn_closed (ls_state l0)"
    by (simp add: onDial_def lockFree_def newLoop_def NewSecureConn_def wake_def loopTop_def DialAndSetUserId_def)
  obtain ls where ls: "runLoop exConnEnv [ClosedByApp, FrameRead (Fail ErrNotConnected)] l0 = Some ls" "ls_phase ls = Waiting"
    using l0 onFrame_Fail [of _ 0 exConnEnv ErrNotConnected] by (simp add: onClose_def lockFree_def loopTop_def)
  have nd: "\<forall>k h. Dialled k h \<notin> set []" by simp
  have "cn_out (ls_state ls) = []" using local_close_is_silent [OF l0(2,4) nd ls(1)] l0(3) by auto
  moreover have "runLoop exConnEnv ([Dialled 0 ''b''] @ [ClosedByApp, FrameRead (Fail ErrNotConnected)]) (newLoop None) = Some ls"
    using l0(1) ls(1) by (simp only: runLoop_append) simp
  ultimately show ?thesis using ls(2) by auto
qed

text \<open>When the channel is full, the reader keeps the lock of the connection while it reports an error:
  dialling, closing and shutting down all wait until the application takes an item.\<close>

theorem full_channel_holds_lock:
  assumes "ls_phase ls = Reading k" "ls_conn ls = Some k" "\<not> cn_closed (ls_state ls)"
    "length (cn_out (ls_state ls)) = msgChanCapacity"
  shows "\<exists>ls'. loopStep E (FrameRead (Fail e)) ls = Some ls' \<and> loopStep E (Dialled j h) ls' = None \<and>
    loopStep E ClosedByApp ls' = None \<and> loopStep E ShutDownByApp ls' = None \<and> loopStep E (FrameRead f) ls' = None \<and>
    (\<exists>x ls''. onTake ls' = Some (Some x, ls'') \<and> lockFree ls'' \<and>
       last (cn_out (ls_state ls'')) = errorItem e)"
proof -
  let ?l = "ls\<lparr>ls_phase := Sending k e\<rparr>"
  have f: "onFrame E (Fail e) ls = Some ?l" using onFrame_Fail [OF assms(1), of E e] assms(2-4) by (simp add: sendError_def)
  obtain x xs where x: "cn_out (ls_state ls) = x # xs" using assms(4) by (cases "cn_out (ls_state ls)") (auto simp: msgChanCapacity_def)
  have "lockFree (loopTop l)" "ls_state (loopTop l) = ls_state l" for l
    by (auto simp: lockFree_def loopTop_def split: option.splits)
  then have t: "\<exists>ls''. onTake ?l = Some (Some (ri_msgType x, ri_msg x, ri_err x), ls'') \<and> lockFree ls'' \<and> last (cn_out (ls_state ls'')) = errorItem e"
    using x assms(4) by (auto simp: onTake_def ReadMessage_def sendError_def)
  show ?thesis
    using f t by (intro exI [of _ ?l]) (auto simp: onDial_def onClose_def onShutDown_def lockFree_def onFrame_def)
qed

lemma full_channel_holds_lock_witness:
  "\<exists>ls ls'. length (cn_out (ls_state ls)) = 128 \<and> loopStep exConnEnv (FrameRead (Fail LibError)) ls = Some ls' \<and>
     loopStep exConnEnv ShutDownByApp ls' = None"
proof -
  let ?s = "(NewSecureConn None)\<lparr>cn_open := True, cn_out := replicate 128 (errorItem LibError)\<rparr>"
  let ?l = "\<lparr>ls_state = ?s, ls_conn = Some 0, ls_last = Some 0, ls_phase = Reading 0\<rparr>"
  have h: "ls_phase ?l = Reading 0" "ls_conn ?l = Some 0" "\<not> cn_closed (ls_state ?l)"
      "length (cn_out (ls_state ?l)) = msgChanCapacity"
    by (simp_all add: NewSecureConn_def msgChanCapacity_def)
  have "length (cn_out (ls_state ?l)) = 128" by simp
  then show ?thesis using full_channel_holds_lock [OF h, of exConnEnv LibError] by blast
qed

lemma exited_step:
  "ls_phase ls = Exited \<Longrightarrow> loopStep E ev ls = Some ls' \<Longrightarrow> ls_phase ls' = Exited"
  by (cases ev)
    (auto simp: onDial_def onClose_def onShutDown_def onFrame_def onTake_def wake_def Let_def split: if_splits option.splits)

lemma exited_run: "ls_phase ls = Exited \<Longrightarrow> runLoop E evs ls = Some ls' \<Longrightarrow> ls_phase ls' = Exited"
proof (induction evs arbitrary: ls)
  case (Cons ev evs)
  then obtain l1 where "loopStep E ev ls = Some l1" "runLoop E evs l1 = Some ls'"
    by (auto simp: Option.bind_eq_Some_conv)
  then show ?case using Cons.IH exited_step [OF Cons.prems(1)] by blast
qed simp

lemma terminateSession_nil_config:
  assumes "cn_config c = None"
  shows "\<exists>c'. terminateSession E p c = Some (Panic ''nil pointer dereference'', c')"
proof -
  have "se_config (sessOf p c) = None" using assms by (simp add: sessOf_def)
  then have "writeRecord H RecordAlert d (sessOf p c) = Some (Panic ''nil pointer dereference'', sessOf p c)" for H d
    by (subst writeRecord.simps) simp
  then show ?thesis by (simp add: terminateSession_def writeRecordLocked_def onSess_def)
qed

text \<open>A connection made without a configuration, which the handshake would fill in, can be stopped by
  one message: when the first message of a peer is empty, the alert is sent before there is a
  configuration, its nil pointer ends the reader goroutine, and whatever happens afterwards, dialling
  again included, nothing is read any more.\<close>

theorem nil_config_stops_reader:
  assumes "ls_phase ls = Reading k" "cn_config (ls_state ls) = None"
    "BytesToMsgDataReadBoundBatch (ce_codec E) frame (cn_realtime (ls_state ls)) = (Ok (m # ms), rt)"
    "fromPeer (ls_state ls) m peer" "cn_sessions (ls_state ls) (getSessionID (cn_hostId (ls_state ls)) peer) = None"
    "GetContent m = []"
  shows "\<exists>ls'. onFrame E (Ok (2, frame)) ls = Some ls' \<and>
    (\<forall>evs ls''. runLoop E evs ls' = Some ls'' \<longrightarrow> ls_phase ls'' = Exited)"
proof -
  let ?c = "(ls_state ls)\<lparr>cn_realtime := rt\<rparr>"
  let ?sid = "getSessionID (cn_hostId ?c) peer" and ?p = "length (cn_heap ?c)"
  obtain c0 where c0: "loadOrStore ?sid peer ?c = ((?p, False), c0)" "cn_config c0 = None"
      "cn_heap c0 = cn_heap ?c @ [\<lparr>so_id = ?sid, so_sess = NewSession None peer, so_chan = [], so_phase = None\<rparr>]"
    using assms(2,5) by (auto simp: loadOrStore_def allocSession_def Let_def)
  let ?c1 = "c0\<lparr>cn_handshakes := cn_handshakes c0 @ [?p]\<rparr>"
  have so: "sessOf ?p ?c1 = (NewSession None peer)\<lparr>se_config := None\<rparr>"
    using c0(2,3) by (simp add: sessOf_def nth_append)
  have ps: "plainSession (sessOf ?p ?c1)" unfolding so by (rule plainSession_new)
  have c1: "?c1 = (if False then c0 else c0\<lparr>cn_handshakes := cn_handshakes c0 @ [?p]\<rparr>)" by simp
  obtain inn where inn: "handleSecure E 2 m peer ?c =
      handleRecord E 2 m peer ?sid ?p False False (GetContent m) (storeSess ?p ((sessOf ?p ?c1)\<lparr>se_in := inn\<rparr>) ?c1)"
    using handleSecure_plain [OF ps c0(1) c1, of E 2 m] by blast
  have cf: "cn_config (storeSess ?p ((sessOf ?p ?c1)\<lparr>se_in := inn\<rparr>) ?c1) = None"
    unfolding so by (simp add: storeSess_def closeSessionLocally_def Let_def)
  have f: "fromPeer ?c m peer" using assms(4) by (simp add: fromPeer_def)
  have nd: "\<not> shouldDropSecureInbound m" using assms(4) by (simp add: fromPeer_def)
  obtain c' where "handleReadBoundMsg E 2 m ?c = Some (Panic ''nil pointer dereference'', c')"
    using terminateSession_nil_config [OF cf] handleReadBoundMsg_fromPeer [OF f, of E 2] inn assms(6) nd
    by (auto simp: handleRecord_def terminateUnlessSynced_def)
  then have "onFrame E (Ok (2, frame)) ls = Some (ls\<lparr>ls_state := c', ls_phase := Exited\<rparr>)"
    using assms(1,3) by (simp add: onFrame_def readRecord_def Let_def)
  then show ?thesis using exited_run [of "ls\<lparr>ls_state := c', ls_phase := Exited\<rparr>" E] by auto
qed

definition exReadEnv :: connEnv where
  "exReadEnv = exConnEnv\<lparr>ce_codec := exConnCodec\<lparr>dec_Resp := (\<lambda>_. Some exResp),
     pb_unmarshalPush := (\<lambda>_. Some [(''conv'', Some \<lparr>pm_Msgs = [Some (exMsg\<lparr>sd_Content := []\<rparr>)], pm_rest = []\<rparr>)])\<rparr>\<rparr>"

lemma exReadEnv_read:
  assumes "cn_hostId c = ''b''"
  shows "\<exists>m. BytesToMsgDataReadBoundBatch (ce_codec exReadEnv) [0] rt = (Ok [m], rt) \<and> fromPeer c m ''a'' \<and> GetContent m = []"
proof -
  let ?m = "exMsg\<lparr>sd_Content := []\<rparr>"
  let ?i = "readItem exResp ''conv'' \<lparr>pm_Msgs = [Some ?m], pm_rest = []\<rparr> ?m"
  have s: "HasPrefix (sd_Ex ?m) SecureWSMarker" by (simp add: exMsg_def HasPrefix_def)
  have "BytesToMsgDataReadBoundBatch (ce_codec exReadEnv) [0] rt = (Ok [?i], rt)"
    using s by (simp add: BytesToMsgDataReadBoundBatch_def exReadEnv_def exConnCodec_def decodeAndDecompressReadBound_def
        readItems_def exResp_def realtimePushReqIdentifier_def readItem_def Let_def)
  moreover have "fromPeer c ?i ''a''" "GetContent ?i = []"
    using assms s by (simp_all add: fromPeer_def readItem_def Let_def IsSecureReadBound_def shouldDropSecureInbound_def
        ReadReqIdentifier_def shouldDropSecureSelfEcho_def inboundPeerID_def GetSendID_def GetRecvID_def GetContent_def
        exMsg_def exResp_def)
  ultimately show ?thesis by blast
qed

lemma nil_config_stops_reader_witness:
  "\<exists>E frame ls'. runLoop E [Dialled 0 ''b'', FrameRead (Ok (2, frame)), Dialled 1 ''b''] (newLoop None) = Some ls' \<and> ls_phase ls' = Exited"
proof -
  obtain l0 where l0: "runLoop exReadEnv [Dialled 0 ''b''] (newLoop None) = Some l0" "ls_phase l0 = Reading 0"
      "cn_config (ls_state l0) = None" "cn_sessions (ls_state l0) = Map.empty" "cn_hostId (ls_state l0) = ''b''"
    by (simp add: onDial_def lockFree_def newLoop_def NewSecureConn_def wake_def loopTop_def DialAndSetUserId_def)
  obtain m ms rt where m: "BytesToMsgDataReadBoundBatch (ce_codec exReadEnv) [0] (cn_realtime (ls_state l0)) = (Ok (m # ms), rt)"
     "fromPeer (ls_state l0) m ''a''" "GetContent m = []"
    using exReadEnv_read [OF l0(5)] by blast
  have s: "cn_sessions (ls_state l0) (getSessionID (cn_hostId (ls_state l0)) ''a'') = None" using l0(4) by simp
  obtain l1 where l1: "onFrame exReadEnv (Ok (2, [0])) l0 = Some l1"
      "\<And>evs ls'. runLoop exReadEnv evs l1 = Some ls' \<Longrightarrow> ls_phase ls' = Exited"
    using nil_config_stops_reader [OF l0(2,3) m(1,2) s m(3)] by blast
  have x: "ls_phase l1 = Exited" using l1(2) [of "[]"] by simp
  obtain l2 where l2: "runLoop exReadEnv [Dialled 1 ''b''] l1 = Some l2" using x by (simp add: onDial_def lockFree_def)
  have "runLoop exReadEnv ([Dialled 0 ''b''] @ FrameRead (Ok (2, [0])) # [Dialled 1 ''b'']) (newLoop None) = Some l2"
    using l0(1) l1(1) l2 by (simp only: runLoop_append) simp
  then show ?thesis using l1(2) [OF l2] by (intro exI [of _ exReadEnv] exI [of _ "[0]"] exI [of _ l2]) simp
qed

end
