(* ===== verification/Relay.thy ===== *)
theory Relay
  imports ConnProps
begin

text \<open>
  The relay server of \<open>e2ewebsocket/mock_server.go\<close>, which stands in for the OpenIM gateway: it decodes
  what a client sends, wraps the message into a push and forwards it to the connection of the
  receiver.  Composed with the two ends it gives the delivery of a message from application to
  application.
\<close>

section \<open>The relay\<close>

text \<open>The registered websockets, numbered in the order they were accepted.\<close>

type_synonym relayConns = "string \<rightharpoonup> nat"

definition relayRegister :: "string \<Rightarrow> nat \<Rightarrow> relayConns \<Rightarrow> relayConns" where
  "relayRegister uid w conns = (if uid \<noteq> [] then conns(uid \<mapsto> w) else conns)"

text \<open>The deferred function of a handler: it deletes the identifier, whichever websocket it names.\<close>

definition relayRemove :: "string \<Rightarrow> relayConns \<Rightarrow> relayConns" where
  "relayRemove uid conns = (if uid \<noteq> [] then conns(uid := None) else conns)"

definition relayPush :: "sdkMsg \<Rightarrow> pushMessages" where
  "relayPush d = [(sd_RecvID d, Some \<lparr>pm_Msgs = [Some d], pm_rest = []\<rparr>)]"

definition relayResp :: "Req \<Rightarrow> bytes \<Rightarrow> Resp" where
  "relayResp req pb = \<lparr>rs_ReqIdentifier = 2001, rs_MsgIncr = rq_MsgIncr req, rs_OperationID = rq_OperationID req,
     rs_ErrCode = 0, rs_ErrMsg = [], rs_Data = pb\<rparr>"

text \<open>One frame of a client: the websocket written to and what is written.  An error of marshalling the
  push is ignored, and leaves no bytes.\<close>

definition relayFrame :: "codec \<Rightarrow> relayConns \<Rightarrow> bytes \<Rightarrow> (nat \<times> bytes) list" where
  "relayFrame K conns msg =
     (case dec_Req K msg of
        None \<Rightarrow> []
      | Some req \<Rightarrow>
          if rq_Data req = [] then []
          else case pb_unmarshalMsg K (rq_Data req) of
                 None \<Rightarrow> []
               | Some d \<Rightarrow>
                   (let pb = (case pb_marshalPush K (relayPush d) of None \<Rightarrow> [] | Some b \<Rightarrow> b) in
                    case enc_Resp K (relayResp req pb) of
                      None \<Rightarrow> []
                    | Some out \<Rightarrow> (case conns (sd_RecvID d) of None \<Rightarrow> [] | Some w \<Rightarrow> [(w, out)])))"

definition injectRawToUID :: "relayConns \<Rightarrow> string \<Rightarrow> bytes \<Rightarrow> (nat \<times> bytes) list" where
  "injectRawToUID conns uid msg = (case conns uid of None \<Rightarrow> [] | Some w \<Rightarrow> [(w, msg)])"

text \<open>The message an application of the tests writes.\<close>

definition makeAppMsg :: "codec \<Rightarrow> string \<Rightarrow> string \<Rightarrow> string \<Rightarrow> string \<Rightarrow> bytes \<Rightarrow> bytes res" where
  "makeAppMsg K opId incr from to content =
     bind_res (of_option LibError (pb_marshalMsg K
       \<lparr>sd_SendID = from, sd_RecvID = to, sd_ClientMsgID = [], sd_ServerMsgID = [], sd_SenderPlatformID = 0,
        sd_SenderNickname = [], sd_SessionType = 1, sd_MsgFrom = 100, sd_ContentType = 101, sd_Content = content,
        sd_Seq = 0, sd_CreateTime = 0, sd_Status = 0, sd_Options = [], sd_AttachedInfo = [], sd_Ex = [], sd_other = []\<rparr>))
       (\<lambda>dataBytes. of_option LibError (enc_Req K
         \<lparr>rq_ReqIdentifier = 1003, rq_Token = [], rq_SendID = from, rq_OperationID = opId, rq_MsgIncr = incr,
          rq_Data = dataBytes\<rparr>))"

section \<open>Lemmas\<close>

text \<open>What a writer puts into a frame.\<close>

definition sealedMsg :: "bytes \<Rightarrow> sdkMsg \<Rightarrow> sdkMsg" where
  "sealedMsg x d = d\<lparr>sd_Content := x, sd_Ex := SecureWSMarker @ sd_Ex d\<rparr>"

lemma marked_sealedMsg [simp]: "HasPrefix (sd_Ex (sealedMsg x d)) SecureWSMarker"
  by (simp add: sealedMsg_def HasPrefix_def)

lemma sealedMsg_simps [simp]:
  "sd_RecvID (sealedMsg x d) = sd_RecvID d" "sd_SendID (sealedMsg x d) = sd_SendID d" "sd_Content (sealedMsg x d) = x"
  by (simp_all add: sealedMsg_def)

lemma open_sealedMsg:
  "(sealedMsg x d)\<lparr>sd_Ex := TrimPrefix (sd_Ex (sealedMsg x d)) SecureWSMarker, sd_Content := sd_Content d\<rparr> = d"
  by (simp add: sealedMsg_def TrimPrefix_def HasPrefix_def)

lemma frameRecord_frame:
  assumes "md_inner m = Some d" "md_Req m = Some req" "\<not> HasPrefix (sd_Ex d) SecureWSMarker" "frameRecord K u n m x = Ok b"
    "\<And>z. compress K z = Some z"
  shows "\<exists>db. pb_marshalMsg K (sealedMsg x d) = Some db \<and> enc_Req K (req\<lparr>rq_Data := db\<rparr>) = Some b"
proof -
  have "SetEx (SecureWSMarker @ GetEx (SetContent x m)) (SetContent x m) = m\<lparr>md_inner := Some (sealedMsg x d)\<rparr>"
    using assms(1) by (simp add: SetEx_def SetContent_def GetEx_def sealedMsg_def)
  moreover have "\<not> HasPrefix (GetEx (SetContent x m)) SecureWSMarker" using assms(1,3) by (simp add: SetContent_def GetEx_def)
  ultimately show ?thesis
    using assms(2,4,5) by (auto simp: frameRecord_def Let_def MsgDataToBytesWriteBound_def encodeAndCompressWriteBound_def outcome_simps)
qed

lemma write_bound_msg:
  assumes "BytesToMsgDataWriteBound K message = Ok m"
  shows "\<exists>d req. m = \<lparr>md_inner = Some d, md_Req = Some req, md_Resp = None, md_Push = None, md_SecureRead = False\<rparr> \<and>
    shouldSecureOutbound d"
  using assms by (auto simp: BytesToMsgDataWriteBound_def outcome_simps split: if_splits option.splits)

text \<open>What the receiver reads out of the relayed frame.\<close>

lemma relayed_read:
  assumes "codec_ok K" "\<And>z. compress K z = Some z" "pb_marshalPush K (relayPush d1) = Some pb"
    "enc_Resp K (relayResp req pb) = Some out" "HasPrefix (sd_Ex d1) SecureWSMarker"
  shows "BytesToMsgDataReadBoundBatch K out rt =
    (Ok [readItem (relayResp req pb) (sd_RecvID d1) \<lparr>pm_Msgs = [Some d1], pm_rest = []\<rparr> d1], rt)"
proof -
  have c: "decompress K out = Some out" using codec_okD(5) [OF assms(1)] assms(2) by blast
  have r: "dec_Resp K out = Some (relayResp req pb)" using codec_okD(4) [OF assms(1) assms(4)] .
  have p: "pb_unmarshalPush K pb = Some (relayPush d1)" using codec_okD(2) [OF assms(1) assms(3)] .
  have i: "readItems (relayResp req pb) (relayPush d1) =
      [readItem (relayResp req pb) (sd_RecvID d1) \<lparr>pm_Msgs = [Some d1], pm_rest = []\<rparr> d1]"
    by (simp add: readItems_def relayPush_def)
  show ?thesis
    using c r p i assms(5)
    by (simp add: BytesToMsgDataReadBoundBatch_def decodeAndDecompressReadBound_def Let_def relayPush_def
        relayResp_def realtimePushReqIdentifier_def readItem_def)
qed

lemma deliver_without_gap:
  "ro sid = None \<Longrightarrow> \<exists>ro'. deliverApplication visit now sid ref item ro = ([item], ro')"
  by (simp add: deliverApplication_def reorderStateLocked_def hasBlockingGapLocked_def newReorderState_def
      flushReadyPending_def flushReadyPendingLocked_def Let_def)

text \<open>The record a session sends as its number \<open>n\<close>.\<close>

definition sealedRecord :: "evp \<Rightarrow> bytes \<Rightarrow> bytes \<Rightarrow> nat \<Rightarrow> recordType \<Rightarrow> bytes \<Rightarrow> bytes" where
  "sealedRecord L k iv n t d =
     seq_bytes n @ replicate 4 0 @ gcm_box L k iv (record_aad n (Suc (length d))) (recordByte t # d)"

lemma sealedRecord_opens:
  assumes "gcm_lib L" "length k = 16" "iv \<noteq> []"
  shows "28 \<le> length (sealedRecord L k iv n t d)"
    "gcm_unbox L k iv (record_aad n (length (sealedRecord L k iv n t d) - 28)) (drop 12 (sealedRecord L k iv n t d)) =
       Some (recordByte t # d)"
proof -
  have l: "length (gcm_box L k iv (record_aad n (Suc (length d))) (recordByte t # d)) = length d + 17"
    using length_gcm_box [OF assms] by simp
  show "28 \<le> length (sealedRecord L k iv n t d)" by (simp add: sealedRecord_def l)
  have "length (sealedRecord L k iv n t d) - 28 = Suc (length d)" by (simp add: sealedRecord_def l)
  moreover have "drop 12 (sealedRecord L k iv n t d) = gcm_box L k iv (record_aad n (Suc (length d))) (recordByte t # d)"
    by (simp add: sealedRecord_def)
  ultimately show "gcm_unbox L k iv (record_aad n (length (sealedRecord L k iv n t d) - 28)) (drop 12 (sealedRecord L k iv n t d)) =
       Some (recordByte t # d)"
    using gcm_unbox_box [OF assms] by simp
qed

text \<open>What the relayed frame looks like to the receiver, from what the sender wrote.\<close>

lemma frame_relayed:
  assumes "codec_ok K" "\<And>z. compress K z = Some z" "BytesToMsgDataWriteBound K message = Ok m"
    "md_inner m = Some d" "\<not> HasPrefix (sd_Ex d) SecureWSMarker" "frameRecord K u now m x = Ok b"
    "relayFrame K conns b = [(w, out)]" "pb_marshalPush K (relayPush (sealedMsg x d)) \<noteq> None"
  shows "\<exists>req pb. md_Req m = Some req \<and> BytesToMsgDataReadBoundBatch K out rt =
      (Ok [readItem (relayResp req pb) (sd_RecvID d) \<lparr>pm_Msgs = [Some (sealedMsg x d)], pm_rest = []\<rparr> (sealedMsg x d)], rt) \<and>
    conns (sd_RecvID d) = Some w"
proof -
  obtain req where req: "md_Req m = Some req" using write_bound_msg [OF assms(3)] by auto
  obtain db where db: "pb_marshalMsg K (sealedMsg x d) = Some db" "enc_Req K (req\<lparr>rq_Data := db\<rparr>) = Some b"
    using frameRecord_frame [OF assms(4) req assms(5,6,2)] by blast
  have dec: "dec_Req K b = Some (req\<lparr>rq_Data := db\<rparr>)" "pb_unmarshalMsg K db = Some (sealedMsg x d)"
    using codec_okD(3) [OF assms(1) db(2)] codec_okD(1) [OF assms(1) db(1)] by simp_all
  obtain pb where pb: "pb_marshalPush K (relayPush (sealedMsg x d)) = Some pb" using assms(8) by blast
  have resp: "relayResp (req\<lparr>rq_Data := db\<rparr>) pb = relayResp req pb" by (simp add: relayResp_def)
  have out: "enc_Resp K (relayResp req pb) = Some out" "conns (sd_RecvID d) = Some w"
    using assms(7) dec pb by (auto simp: relayFrame_def Let_def resp split: if_splits option.splits)
  show ?thesis
    using relayed_read [OF assms(1,2) pb out(1), of rt] out(2) req by (auto simp del: marked_sealedMsg) (use marked_sealedMsg in blast)
qed

section \<open>Properties\<close>

text \<open>C1: A message written at one end is read at the other.  What a session of the sender seals as its
  record \<open>n\<close> travels in a frame through the relay to the websocket registered for the receiver; when
  the receiver's session expects record \<open>n\<close> under the same key and no earlier message is missing, its
  application gets one item, and decoding that gives the very message the sender's application
  wrote, all its fields included.\<close>

theorem relayed_message_delivered:
  assumes "codec_ok (ce_codec E)" "\<And>z. compress (ce_codec E) z = Some z"
    "BytesToMsgDataWriteBound (ce_codec E) message = Ok m" "md_inner m = Some d" "\<not> HasPrefix (sd_Ex d) SecureWSMarker"
    "gcm_lib (en_evp (ce_hs E))" "length k = 16" "iv \<noteq> []" "n < 2 ^ 64 - 1"
    "x = sealedRecord (en_evp (ce_hs E)) k iv n RecordApplicationData (sd_Content d)"
    "frameRecord (ce_codec E) u now m x = Ok b" "relayFrame (ce_codec E) conns b = [(w, out)]"
    "pb_marshalPush (ce_codec E) (relayPush (sealedMsg x d)) \<noteq> None"
    "cn_hostId c = sd_RecvID d" "sd_SendID d \<noteq> sd_RecvID d"
    "sid = getSessionID (cn_hostId c) (sd_SendID d)" "cn_sessions c sid = Some p" "p < length (cn_heap c)"
    "se_complete (sessOf p c)" "at_record k iv n (se_in (sessOf p c))" "cn_reorder c sid = None"
    "md_Req m = Some req" "pb_marshalPush (ce_codec E) (relayPush d) = Some plainPush"
    "enc_Resp (ce_codec E) (relayResp req plainPush) = Some mb"
  shows "\<exists>c' item resp. readRecord E (Ok (2, out)) c = Some (Ok (), c') \<and> cn_out c' = cn_out c @ [item] \<and>
    ri_remoteId item = sd_SendID d \<and> ri_err item = None \<and>
    decodeAndDecompressReadBound (ce_codec E) (ri_msg item) = Ok resp \<and>
    pb_unmarshalPush (ce_codec E) (rs_Data resp) = Some [(sd_RecvID d, Some \<lparr>pm_Msgs = [Some d], pm_rest = []\<rparr>)] \<and>
    at_record k iv (Suc n) (se_in (sessOf p c'))"
proof -
  let ?K = "ce_codec E" and ?pl = "\<lparr>pm_Msgs = [Some (sealedMsg x d)], pm_rest = []\<rparr> :: pullMsgs"
  have so: "sd_SendID d \<noteq> []" "sd_RecvID d \<noteq> []"
    using write_bound_msg [OF assms(3)] assms(4) by (auto simp: shouldSecureOutbound_def split: if_splits)
  obtain req' pb where r': "md_Req m = Some req'" "BytesToMsgDataReadBoundBatch ?K out (cn_realtime c) =
      (Ok [readItem (relayResp req' pb) (sd_RecvID d) ?pl (sealedMsg x d)], cn_realtime c)"
    using frame_relayed [OF assms(1-5,11-13)] by blast
  then have r: "BytesToMsgDataReadBoundBatch ?K out (cn_realtime c) =
      (Ok [readItem (relayResp req pb) (sd_RecvID d) ?pl (sealedMsg x d)], cn_realtime c)" using assms(22) by simp
  let ?i = "readItem (relayResp req pb) (sd_RecvID d) ?pl (sealedMsg x d)"
  have mk: "marked (sealedMsg x d)" by (simp add: marked_def)
  have i: "md_inner ?i = Some (d\<lparr>sd_Content := x\<rparr>)" "md_Resp ?i = Some (relayResp req pb)" "md_SecureRead ?i"
    by (simp_all add: readItem_def Let_def) (simp add: sealedMsg_def TrimPrefix_def HasPrefix_def)
  have gc: "GetContent ?i = x" using i(1) by (simp add: GetContent_def)
  have fp: "fromPeer c ?i (sd_SendID d)"
    using i so assms(14,15)
    by (simp add: fromPeer_def IsSecureReadBound_def shouldDropSecureInbound_def ReadReqIdentifier_def relayResp_def
        shouldDropSecureSelfEcho_def inboundPeerID_def GetSendID_def GetRecvID_def)
  have rp: "readPush (SetContent (sd_Content d) ?i) = relayPush d"
    using readPush_readItem [OF mk, where c = "sd_Content d" and resp = "relayResp req pb" and conv = "sd_RecvID d" and pl = "?pl"] so(2) open_sealedMsg [where x = x and d = d]
    by (simp add: relayPush_def)
  note mb = assms(24)
  have fields: "md_inner (SetContent (sd_Content d) ?i) \<noteq> None" "md_Resp (SetContent (sd_Content d) ?i) = Some (relayResp req pb)"
    using i by (simp_all add: SetContent_def)
  have rr: "(relayResp req pb)\<lparr>rs_Data := plainPush\<rparr> = relayResp req plainPush" by (simp add: relayResp_def)
  obtain rt where b: "MsgDataToBytesReadBound ?K (ce_uuid E) (ce_now E) (SetContent (sd_Content d) ?i) (cn_realtime c) = (Ok mb, rt)"
    using fields rp assms(2,23) mb by (simp add: MsgDataToBytesReadBound_def Let_def encodeAndCompressReadBound_def rr)
  let ?item = "\<lparr>ri_sessionId = sid, ri_remoteId = sd_SendID d, ri_msgType = 2, ri_msg = mb, ri_err = None\<rparr>"
  obtain ro where dl: "deliverApplication (ce_visit E) (ce_now E) sid (messageRef ?i) ?item (cn_reorder c) = ([?item], ro)"
    using deliver_without_gap [where ro = "cn_reorder c" and sid = sid] assms(21) by blast
  note op = sealedRecord_opens [OF assms(6-8), of n RecordApplicationData "sd_Content d", folded assms(10)]
  have s: "cn_sessions c (getSessionID (cn_hostId c) (sd_SendID d)) = Some p" using assms(16,17) by simp
  obtain c' where c': "handleReadBoundMsg E 2 ?i c = Some (Ok (), c')" "cn_out c' = cn_out c @ [?item]"
      "at_record k iv (Suc n) (se_in (sessOf p c'))"
    using sealed_record_read [OF fp s assms(18,19,6-8,20,9) _ _ b dl [unfolded assms(16)]] op unfolding gc assms(16) by blast
  have rd: "readRecord E (Ok (2, out)) c = Some (Ok (), c')" using r c'(1) by (simp add: readRecord_def)
  have "decodeAndDecompressReadBound ?K mb = Ok (relayResp req plainPush)"
    using codec_okD(5) [OF assms(1) assms(2) [where z = mb]] codec_okD(4) [OF assms(1) mb] by (simp add: decodeAndDecompressReadBound_def)
  moreover have "pb_unmarshalPush ?K (rs_Data (relayResp req plainPush)) = Some (relayPush d)"
    using codec_okD(2) [OF assms(1,23)] by (simp add: relayResp_def)
  ultimately show ?thesis
    using rd c'(2,3) by (intro exI [of _ c'] exI [of _ ?item] exI [of _ "relayResp req plainPush"]) (simp add: relayPush_def)
qed


section \<open>Example\<close>

definition exOut :: sdkMsg where
  "exOut = exMsg\<lparr>sd_Ex := ''x''\<rparr>"

definition exRelayCodec :: "bytes \<Rightarrow> codec" where
  "exRelayCodec x = table_codec (exOut, sealedMsg x exOut) (relayPush exOut, relayPush (sealedMsg x exOut))
     (exReq, exReq\<lparr>rq_Data := [1]\<rparr>) (relayResp exReq [0], relayResp exReq [1])"

lemma exOut_sealed: "sealedMsg x exOut \<noteq> exOut" "relayPush (sealedMsg x exOut) \<noteq> relayPush exOut"
  by (auto simp: sealedMsg_def exOut_def exMsg_def SecureWSMarker_def relayPush_def dest: arg_cong [where f = sd_Ex])

lemma exOut_simps [simp]:
  "sd_SendID exOut = ''a''" "sd_RecvID exOut = ''b''" "\<not> HasPrefix (sd_Ex exOut) SecureWSMarker" "shouldSecureOutbound exOut"
  by (simp_all add: exOut_def exMsg_def HasPrefix_def SecureWSMarker_def shouldSecureOutbound_def secureTextContentType_def)

lemma exRelayCodec_simps [simp]:
  "codec_ok (exRelayCodec x)" "compress (exRelayCodec x) z = Some z" "decompress (exRelayCodec x) z = Some z"
  "dec_Req (exRelayCodec x) [0] = Some exReq" "dec_Req (exRelayCodec x) [1] = Some (exReq\<lparr>rq_Data := [1]\<rparr>)"
  "pb_unmarshalMsg (exRelayCodec x) [0] = Some exOut" "pb_unmarshalMsg (exRelayCodec x) [1] = Some (sealedMsg x exOut)"
  "pb_marshalMsg (exRelayCodec x) (sealedMsg x exOut) = Some [1]" "enc_Req (exRelayCodec x) (exReq\<lparr>rq_Data := [1]\<rparr>) = Some [1]"
  "pb_marshalPush (exRelayCodec x) (relayPush exOut) = Some [0]"
  "pb_marshalPush (exRelayCodec x) (relayPush (sealedMsg x exOut)) = Some [1]"
  "enc_Resp (exRelayCodec x) (relayResp exReq [0]) = Some [0]" "enc_Resp (exRelayCodec x) (relayResp exReq [1]) = Some [1]"
  using exOut_sealed [of x]
  by (simp_all add: exRelayCodec_def table_codec_ok) (simp_all add: table_codec_def enc2_def dec2_def exReq_def relayResp_def)

lemma relayed_message_delivered_witness:
  "\<exists>E out c'. relayFrame (ce_codec E) [''b'' \<mapsto> 0] [1] = [(0, out)] \<and>
     readRecord E (Ok (2, out)) (exConn ''b'' exSealed) = Some (Ok (), c') \<and> length (cn_out c') = 1"
proof -
  define x where "x = sealedRecord exEvp exKey [1, 2, 3, 4] 0 RecordApplicationData (sd_Content exOut)"
  let ?E = "exConnEnv\<lparr>ce_codec := exRelayCodec x\<rparr>" and ?c = "exConn ''b'' exSealed"
  define m where "m = \<lparr>md_inner = Some exOut, md_Req = Some exReq, md_Resp = None, md_Push = None, md_SecureRead = False\<rparr>"
  have w: "BytesToMsgDataWriteBound (ce_codec ?E) [0] = Ok m"
    by (simp add: BytesToMsgDataWriteBound_def decodeAndDecompressWriteBound_def m_def) (simp add: exReq_def)
  have i: "md_inner m = Some exOut" "md_Req m = Some exReq" by (simp_all add: m_def)
  have s: "SetEx (SecureWSMarker @ GetEx (SetContent x m)) (SetContent x m) = m\<lparr>md_inner := Some (sealedMsg x exOut)\<rparr>"
    by (simp add: SetEx_def SetContent_def GetEx_def sealedMsg_def m_def)
  have f: "frameRecord (ce_codec ?E) [] 0 m x = Ok [1]"
    using s i by (simp add: frameRecord_def Let_def MsgDataToBytesWriteBound_def encodeAndCompressWriteBound_def m_def
        GetEx_def SetContent_def)
  have rr: "relayResp (exReq\<lparr>rq_Data := [1]\<rparr>) [1] = relayResp exReq [1]" by (simp add: relayResp_def)
  have rf: "relayFrame (ce_codec ?E) [''b'' \<mapsto> 0] [1] = [(0, [1])]" by (simp add: relayFrame_def rr)
  have z: "(0 :: nat) < 2 ^ 64 - 1" and iv: "[1, 2, 3, 4 :: byte] \<noteq> []" by simp_all
  have e: "codec_ok (ce_codec ?E)" "compress (ce_codec ?E) y = Some y" "gcm_lib (en_evp (ce_hs ?E))"
    "x = sealedRecord (en_evp (ce_hs ?E)) exKey [1, 2, 3, 4] 0 RecordApplicationData (sd_Content exOut)"
    "pb_marshalPush (ce_codec ?E) (relayPush (sealedMsg x exOut)) \<noteq> None" for y by (simp_all add: x_def)
  have p: "cn_hostId ?c = sd_RecvID exOut" "sd_SendID exOut \<noteq> sd_RecvID exOut" "cn_reorder ?c (getSessionID ''b'' ''a'') = None"
    "se_complete (sessOf 0 ?c)" "getSessionID ''b'' ''a'' = getSessionID (cn_hostId ?c) (sd_SendID exOut)"
    by (simp_all add: exConn_sess exSealed_def)
  have q: "pb_marshalPush (ce_codec ?E) (relayPush exOut) = Some [0]" "enc_Resp (ce_codec ?E) (relayResp exReq [0]) = Some [0]"
    by simp_all
  from relayed_message_delivered [OF e(1,2) w i(1) exOut_simps(3) e(3) exKey_length iv z e(4) f rf e(5) p(1,2,5)
      exConn_simps(3,4) p(4) exSealed_at(1) p(3) i(2) q]
  obtain c' item where r: "readRecord ?E (Ok (2, [1])) ?c = Some (Ok (), c')" "cn_out c' = cn_out ?c @ [item]" by blast
  have "length (cn_out c') = 1" using r(2) by simp
  then show ?thesis using rf r(1) by blast
qed

end
