(* ===== verification/SendCache.thy ===== *)
theory SendCache
  imports Recovery
begin

text \<open>
  The cache of sent messages in \<open>e2ewebsocket/recovery.go\<close> against its specification: a queue of
  at most 256 messages, filed under their keys, that drops the oldest.
\<close>

section \<open>The specification\<close>

type_synonym sentQueue = "(string \<times> cachedOutboundMsg) list"

text \<open>Sending a message again replaces the text in its old place; a new one goes to the end.\<close>

definition specCache :: "MsgData \<Rightarrow> sentQueue \<Rightarrow> sentQueue" where
  "specCache m q =
     (if noIdentity (messageRef m) then q
      else let k = messageRefKey (messageRef m); e = \<lparr>co_ref = messageRef m, co_content = GetContent m\<rparr> in
        if k \<in> fst ` set q then map (\<lambda>(k', e'). (k', if k' = k then e else e')) q
        else let q' = q @ [(k, e)] in drop (length q' - 256) q')"

definition specFind :: "secureMessageRef \<Rightarrow> sentQueue \<Rightarrow> cachedOutboundMsg option" where
  "specFind ref q = (case filter (\<lambda>k. k \<in> fst ` set q) (messageRefCandidateKeys ref) of [] \<Rightarrow> None | k # _ \<Rightarrow> map_of q k)"

section \<open>The refinement\<close>

definition absCache :: "sendCache \<Rightarrow> sentQueue" where
  "absCache sc = map (\<lambda>k. (k, the (sc_map sc k))) (sc_order sc)"

lemma absCache_keys: "cache_ok sc \<Longrightarrow> fst ` set (absCache sc) = dom (sc_map sc)"
  by (auto simp: absCache_def cache_ok_def image_image)

lemma absCache_lookup: "cache_ok sc \<Longrightarrow> map_of (absCache sc) k = sc_map sc k"
  by (auto simp: absCache_def map_of_map_key cache_ok_def dom_def)

lemma length_absCache [simp]: "length (absCache sc) = length (sc_order sc)"
  by (simp add: absCache_def)

lemma absCache_step:
  assumes "cache_ok sc"
  shows "absCache (cacheOutboundMessage m sc) = specCache m (absCache sc)"
proof (cases "noIdentity (messageRef m)")
  case True
  then show ?thesis by (simp add: cacheOutboundMessage_def specCache_def)
next
  case False
  let ?k = "messageRefKey (messageRef m)" and ?e = "\<lparr>co_ref = messageRef m, co_content = GetContent m\<rparr>"
  have C: "distinct (sc_order sc)" "set (sc_order sc) = dom (sc_map sc)" "length (sc_order sc) \<le> 256"
    using assms by (auto simp: cache_ok_def maxSendCacheEntries_def)
  note eq = cacheOutboundMessage_cases [OF assms False]
  have new: "map (\<lambda>k. (k, the (((sc_map sc)(?k \<mapsto> ?e)) k))) ks = map (\<lambda>k. (k, the (sc_map sc k))) ks" if "?k \<notin> set ks" for ks
    using that by (auto intro!: map_cong)
  have mem: "?k \<in> fst ` set (absCache sc) \<longleftrightarrow> sc_map sc ?k \<noteq> None" using absCache_keys [OF assms] by auto
  consider (known) "sc_map sc ?k \<noteq> None" | (room) "sc_map sc ?k = None" "length (sc_order sc) < 256"
    | (full) "sc_map sc ?k = None" "length (sc_order sc) = 256"
    using C(3) by linarith
  then show ?thesis
  proof cases
    case known
    then show ?thesis using mem False by (auto simp: eq specCache_def Let_def absCache_def)
  next
    case room
    then have "?k \<notin> set (sc_order sc)" using C(2) by auto
    with room new [OF this] mem False show ?thesis
      by (simp add: eq specCache_def Let_def maxSendCacheEntries_def) (simp add: absCache_def)
  next
    case full
    then obtain h t where o: "sc_order sc = h # t" by (cases "sc_order sc") auto
    then have k: "?k \<notin> set t" "?k \<noteq> h" "h \<notin> set t" using C(1,2) full(1) by auto
    have "map (\<lambda>k. (k, the (((sc_map sc)(?k \<mapsto> ?e, h := None)) k))) t = map (\<lambda>k. (k, the (sc_map sc k))) t"
      using k by (auto intro!: map_cong)
    with full mem False k o show ?thesis
      by (simp add: eq specCache_def Let_def maxSendCacheEntries_def) (simp add: absCache_def)
  qed
qed

interpretation sent: op_refinement cache_ok absCache cacheOutboundMessage specCache
  by unfold_locales (simp_all add: cacheOutboundMessage_ok_step absCache_step)

lemma find_as_filter: "find P xs = (case filter P xs of [] \<Rightarrow> None | x # _ \<Rightarrow> Some x)"
  by (induction xs) auto

lemma findCached_abs:
  assumes "cache_ok sc"
  shows "findCachedOutboundLocked ref sc = specFind ref (absCache sc)"
proof -
  have "filter (\<lambda>k. k \<in> fst ` set (absCache sc)) (messageRefCandidateKeys ref) =
      filter (\<lambda>k. sc_map sc k \<noteq> None) (messageRefCandidateKeys ref)"
    using absCache_keys [OF assms] by (auto intro: filter_cong)
  then show ?thesis
    by (simp add: findCachedOutboundLocked_def specFind_def find_as_filter absCache_lookup [OF assms] split: list.split)
qed

text \<open>C29: the map and the order list of the cache implement a bounded queue.  Whatever messages were
  sent, in whatever order, the cache holds what the queue holds, and looking a reference up in the
  one finds what the other holds for it.\<close>

theorem send_cache_refines_queue:
  "absCache (fold cacheOutboundMessage ms emptyCache) = fold specCache ms [] \<and>
   findCachedOutboundLocked ref (fold cacheOutboundMessage ms emptyCache) = specFind ref (fold specCache ms [])"
proof -
  have e: "cache_ok emptyCache" by (simp add: cache_ok_def emptyCache_def)
  have "absCache (fold cacheOutboundMessage ms emptyCache) = fold specCache ms []"
    using sent.abs_run [OF e] by (simp add: absCache_def emptyCache_def)
  then show ?thesis using findCached_abs [OF sent.inv_run [OF e]] by simp
qed

text \<open>What the queue does with messages that all have different names: it keeps the last 256.\<close>

lemma specCache_fresh:
  assumes "\<not> noIdentity (messageRef m)" "messageRefKey (messageRef m) \<notin> fst ` set q"
  shows "specCache m q = drop (Suc (length q) - 256) (q @ [(messageRefKey (messageRef m), \<lparr>co_ref = messageRef m, co_content = GetContent m\<rparr>)])"
  using assms by (simp add: specCache_def Let_def)

definition sentEntry :: "MsgData \<Rightarrow> string \<times> cachedOutboundMsg" where
  "sentEntry m = (messageRefKey (messageRef m), \<lparr>co_ref = messageRef m, co_content = GetContent m\<rparr>)"

lemma specCache_distinct:
  assumes "distinct (map (fst \<circ> sentEntry) ms)" "\<forall>m\<in>set ms. \<not> noIdentity (messageRef m)"
  shows "fold specCache ms [] = drop (length ms - 256) (map sentEntry ms)"
  using assms
proof (induction ms rule: rev_induct)
  case Nil
  then show ?case by simp
next
  case (snoc m ms)
  then have q: "fold specCache ms [] = drop (length ms - 256) (map sentEntry ms)" by simp
  have "messageRefKey (messageRef m) \<notin> fst ` set (map sentEntry ms)"
    using snoc.prems(1) by (auto simp: sentEntry_def)
  then have "messageRefKey (messageRef m) \<notin> fst ` set (drop (length ms - 256) (map sentEntry ms))"
    using in_set_dropD by fastforce
  then have "fold specCache (ms @ [m]) [] =
      drop (Suc (length ms - (length ms - 256)) - 256) (drop (length ms - 256) (map sentEntry ms) @ [sentEntry m])"
    using snoc.prems(2) q by (simp add: specCache_fresh sentEntry_def)
  moreover have "Suc (length ms - 256) = length ms - 255" if "256 \<le> length ms" using that by simp
  ultimately show ?case by (cases "256 \<le> length ms") simp_all
qed

text \<open>Of messages with different names the cache holds exactly the last 256, in the order they were
  sent, so each of these and none of the older ones can be sent again.\<close>

theorem cache_keeps_last_256:
  assumes "distinct (map (\<lambda>m. messageRefKey (messageRef m)) ms)" "\<forall>m\<in>set ms. \<not> noIdentity (messageRef m)" "i < length ms"
  shows "sc_map (fold cacheOutboundMessage ms emptyCache) (messageRefKey (messageRef (ms ! i))) =
    (if length ms \<le> i + 256 then Some \<lparr>co_ref = messageRef (ms ! i), co_content = GetContent (ms ! i)\<rparr> else None)"
proof -
  let ?sc = "fold cacheOutboundMessage ms emptyCache"
  have e: "cache_ok emptyCache" by (simp add: cache_ok_def emptyCache_def)
  have d: "distinct (map (fst \<circ> sentEntry) ms)" using assms(1) by (simp add: sentEntry_def comp_def)
  have a: "absCache ?sc = drop (length ms - 256) (map sentEntry ms)"
    using sent.abs_run [OF e, of ms] specCache_distinct [OF d assms(2)] by (simp add: absCache_def emptyCache_def)
  have l: "sc_map ?sc k = map_of (drop (length ms - 256) (map sentEntry ms)) k" for k
    using absCache_lookup [OF sent.inv_run [OF e], of ms k] a by simp
  have dd: "distinct (map fst (map sentEntry ms))" using d by simp
  show ?thesis
  proof (cases "length ms \<le> i + 256")
    case True
    then have "sentEntry (ms ! i) \<in> set (drop (length ms - 256) (map sentEntry ms))"
      using assms(3) by (fastforce simp: in_set_conv_nth intro!: exI [of _ "i - (length ms - 256)"])
    moreover have "distinct (map fst (drop (length ms - 256) (map sentEntry ms)))"
      using distinct_drop [OF dd] by (simp only: drop_map)
    ultimately show ?thesis using True l by (simp add: sentEntry_def)
  next
    case False
    have "fst (sentEntry (ms ! i)) \<notin> fst ` set (drop (length ms - 256) (map sentEntry ms))"
    proof
      assume "fst (sentEntry (ms ! i)) \<in> fst ` set (drop (length ms - 256) (map sentEntry ms))"
      then obtain e where e: "e \<in> set (drop (length ms - 256) (map sentEntry ms))" "fst (sentEntry (ms ! i)) = fst e" by blast
      then obtain j where "j < length ms - (length ms - 256)" "sentEntry (ms ! (length ms - 256 + j)) = e"
        by (auto simp: in_set_conv_nth)
      then have j: "length ms - 256 + j < length ms"
          "fst (sentEntry (ms ! i)) = fst (sentEntry (ms ! (length ms - 256 + j)))" using e(2) by simp_all
      then have "i = length ms - 256 + j" using dd assms(3) by (auto simp: distinct_conv_nth)
      then show False using False by simp
    qed
    then show ?thesis using False l by (simp add: sentEntry_def map_of_eq_None_iff)
  qed
qed

lemma cache_keeps_last_256_witness:
  "sc_map (fold cacheOutboundMessage [exData 7 [1], exData 8 [2]] emptyCache) (messageRefKey (messageRef (exData 7 [1]))) =
     Some \<lparr>co_ref = messageRef (exData 7 [1]), co_content = [1]\<rparr>"
proof -
  let ?ms = "[exData 7 [1], exData 8 [2]]"
  have "distinct (map (\<lambda>m. messageRefKey (messageRef m)) ?ms)"
    by (simp add: seqKey_def decimal_def decimal_nat.simps char_of_def bit_0)
  moreover have "\<forall>m\<in>set ?ms. \<not> noIdentity (messageRef m)"
    by simp
  moreover have "0 < length ?ms" by simp
  ultimately show ?thesis using cache_keeps_last_256 [of ?ms 0] by (simp add: exData_def GetContent_def)
qed

end
