(* ===== verification/SessionTypes.thy ===== *)
theory SessionTypes
  imports Handshake
begin

text \<open>
  The type of a session's state.  Go keeps the ciphers of a half connection as values of type \<open>any\<close>
  and switches on them at every record; here the states a session can reach are shown to hold
  nothing but SM4-GCM objects with a full key, so that none of the panics of that switch can happen.
\<close>

section \<open>Well-typed half connections\<close>

definition goodCipher :: "cipherObj option \<Rightarrow> bool" where
  "goodCipher co \<longleftrightarrow> (\<forall>x. co = Some x \<longrightarrow> (\<exists>c k iv. x = AEADObj c \<and> aead_of c k iv \<and> length k = 16 \<and> iv \<noteq> []))"

definition typed_half :: "halfConn \<Rightarrow> bool" where
  "typed_half hc \<longleftrightarrow> goodCipher (hc_cipher hc) \<and> goodCipher (hc_nextCipher hc) \<and> length (hc_seq hc) = 8"

definition wraparound :: string where "wraparound = ''sequence number wraparound''"

text \<open>A result that is no panic but the one of an exhausted sequence number.\<close>

definition safeRes :: "'a res \<Rightarrow> bool" where
  "safeRes r \<longleftrightarrow> (\<forall>p. r = Panic p \<longrightarrow> p = wraparound)"

lemma safeRes_simps [simp]: "safeRes (Ok x)" "safeRes (Fail e)" "safeRes (Panic p) \<longleftrightarrow> p = wraparound"
  by (simp_all add: safeRes_def)

lemma goodCipher_simps [simp]:
  "goodCipher None" "goodCipher (Some (AEADObj c)) \<longleftrightarrow> (\<exists>k iv. aead_of c k iv \<and> length k = 16 \<and> iv \<noteq> [])"
  by (auto simp: goodCipher_def)

lemma typed_newHalfConn [simp]: "typed_half newHalfConn"
  by (simp add: typed_half_def newHalfConn_def)

lemma typed_incSeqAndReturn:
  assumes "typed_half hc" "incSeqAndReturn out hc = (r, hc')"
  shows "typed_half hc' \<and> safeRes r"
proof -
  have l: "length (hc_seq hc) = 8" using assms(1) by (simp add: typed_half_def)
  have f: "snd (incSeq hc) = hc\<lparr>hc_seq := hc_seq (snd (incSeq hc))\<rparr>" by (simp add: incSeq_def split_def Let_def)
  have "hc' = snd (incSeq hc)" "r = bind_res (fst (incSeq hc)) (\<lambda>_. Ok out)"
    using assms(2) by (auto simp: incSeqAndReturn_def split_def)
  moreover have "typed_half (snd (incSeq hc))"
    by (subst f) (use assms(1) incSeq_spec [OF l] in \<open>simp add: typed_half_def\<close>)
  ultimately show ?thesis using incSeq_spec [OF l] by (auto simp: wraparound_def split: if_splits)
qed

lemma goodCipher_cases:
  assumes "goodCipher co"
  obtains "co = None" | c k iv where "co = Some (AEADObj c)" "aead_of c k iv" "length k = 16" "iv \<noteq> []"
  using assms by (cases co) (auto simp: goodCipher_def)

lemma typed_setCipher:
  "typed_half hc \<Longrightarrow> aead_of c k iv \<Longrightarrow> length k = 16 \<Longrightarrow> iv \<noteq> [] \<Longrightarrow> typed_half (hc\<lparr>hc_cipher := Some (AEADObj c)\<rparr>)"
  by (auto simp: typed_half_def)

lemma decrypt_typed:
  assumes "gcm_lib L" "typed_half hc" "decrypt L x hc = (r, hc')"
  shows "typed_half hc' \<and> safeRes r"
proof -
  have g: "goodCipher (hc_cipher hc)" using assms(2) by (simp add: typed_half_def)
  from g show ?thesis
  proof (cases rule: goodCipher_cases)
    case 1
    then show ?thesis
      using assms(2,3) typed_incSeqAndReturn [OF assms(2), of x] by (simp add: decrypt_def explicitNonceLen_def)
  next
    case (2 c k iv)
    show ?thesis
    proof (cases "length x < 28")
      case True
      then show ?thesis
        using assms(2,3) 2
        by (auto simp: decrypt_def explicitNonceLen_def ExplicitNonceLen_def NonceSize_def Overhead_def Let_def split: if_splits)
    next
      case False
      then have l: "16 \<le> length (drop 12 x)" by simp
      let ?a = "hc_seq hc @ len16 (length x - 28)"
      have a: "?a \<noteq> []" by (simp add: len16_def)
      obtain c' where o: "Open L c (take 12 x) (drop 12 x) ?a = (of_option LibError (gcm_unbox L k iv ?a (drop 12 x)), c')"
          "aead_of c' k iv"
        using Open_unbox [OF assms(1) 2(2-4) a l] by blast
      have t: "typed_half (hc\<lparr>hc_cipher := Some (AEADObj c')\<rparr>)" using typed_setCipher [OF assms(2) o(2) 2(3,4)] .
      show ?thesis
        using assms(3) 2(1) o(1) t False typed_incSeqAndReturn [OF t]
        by (cases "gcm_unbox L k iv ?a (drop 12 x)")
          (auto simp: decrypt_def explicitNonceLen_def ExplicitNonceLen_def NonceSize_def Overhead_def Let_def split: if_splits)
    qed
  qed
qed

lemma encrypt_typed:
  assumes "gcm_lib L" "typed_half hc" "encrypt L rand rec spare x hc = (r, hc')"
  shows "typed_half hc' \<and> safeRes r"
proof -
  have g: "goodCipher (hc_cipher hc)" using assms(2) by (simp add: typed_half_def)
  from g show ?thesis
  proof (cases rule: goodCipher_cases)
    case 1
    then show ?thesis using assms(2,3) by (auto simp: encrypt_def)
  next
    case (2 c k iv)
    let ?e = "go_copy (snd (sliceForAppend rec spare 12)) (hc_seq hc)" and ?a = "hc_seq hc @ len16 (length x)"
    have a: "?a \<noteq> []" by (simp add: len16_def)
    obtain c' where s: "Seal L c (rec @ ?e) (if ?e = [] then hc_seq hc else ?e) x ?a = Ok ((rec @ ?e) @ gcm_box L k iv ?a x, c')"
        "aead_of c' k iv"
      using Seal_box [OF assms(1) 2(2-4) a] by blast
    have t: "typed_half (hc\<lparr>hc_cipher := Some (AEADObj c')\<rparr>)" using typed_setCipher [OF assms(2) s(2) 2(3,4)] .
    show ?thesis
      using assms(3) 2(1) s(1) typed_incSeqAndReturn [OF t]
      by (auto simp: encrypt_def explicitNonceLen_def ExplicitNonceLen_def NonceSize_def Let_def)
  qed
qed

lemma changeCipherSpec_typed:
  assumes "typed_half hc" "changeCipherSpec done pick hc = Some (r, hc')"
  shows "typed_half hc' \<and> safeRes r"
  using assms
  by (auto simp: changeCipherSpec_def awaitToken_def switchCipher_def typed_half_def split: if_splits option.splits)

section \<open>Well-typed sessions\<close>

definition typed :: "sess \<Rightarrow> bool" where
  "typed s \<longleftrightarrow> typed_half (se_in s) \<and> typed_half (se_out s)"

text \<open>The cipher suite of a handshake under way is one of the table.\<close>

definition typedPhase :: "phase \<Rightarrow> bool" where
  "typedPhase ph = (case ph of AwaitKeyExchange hs _ _ \<Rightarrow> real_suite (hs_suite hs) | _ \<Rightarrow> True)"

text \<open>A computation ends in a well-typed session, with a result that fits.\<close>

definition yields :: "('a \<Rightarrow> bool) \<Rightarrow> 'a comp \<Rightarrow> bool" where
  "yields Q c \<longleftrightarrow> (\<forall>r s'. c = Some (r, s') \<longrightarrow> typed s' \<and> (\<forall>x. r = Ok x \<longrightarrow> Q x))"

lemma yields_bind:
  assumes "yields P m" "\<And>x s. P x \<Longrightarrow> typed s \<Longrightarrow> yields Q (f x s)"
  shows "yields Q (bindS m f)"
proof (cases m)
  case (Some p)
  obtain r s where p: "p = (r, s)" by fastforce
  then show ?thesis using assms Some by (cases r) (auto simp: yields_def)
qed (simp add: yields_def)

lemma yields_Some: "typed s \<Longrightarrow> (\<And>x. r = Ok x \<Longrightarrow> Q x) \<Longrightarrow> yields Q (Some (r, s))"
  by (simp add: yields_def)

lemma yields_map: "typed s \<Longrightarrow> (\<And>x. m = Some (Ok x) \<Longrightarrow> Q x) \<Longrightarrow> yields Q (map_option (\<lambda>r. (r, s)) m)"
  by (auto simp: yields_def)

lemma yields_if: "(P \<Longrightarrow> yields Q a) \<Longrightarrow> (\<not> P \<Longrightarrow> yields Q b) \<Longrightarrow> yields Q (if P then a else b)"
  by simp

lemma writeRecord_typed:
  assumes "gcm_lib (en_evp E)" "typed s" "writeRecord E t c s = Some (r, s')"
  shows "typed s'"
proof -
  obtain x out where e: "encrypt (en_evp E) (en_rand E (se_draws s)) [] [] (recordByte t # c) (se_out s) = (x, out)" by fastforce
  have t: "typed_half out" using encrypt_typed [OF assms(1) _ e] assms(2) by (simp add: typed_def)
  have "x \<noteq> Fail y" for y
    using encrypt_never_fails [of "en_evp E" "en_rand E (se_draws s)" "recordByte t # c" "se_out s" y] e by simp
  then show ?thesis
    using assms(2,3) e t
    by (subst (asm) writeRecord.simps) (cases x; auto simp: typed_def Let_def split: res.splits if_splits)
qed

lemma yields_writeRecord: "gcm_lib (en_evp E) \<Longrightarrow> typed s \<Longrightarrow> yields (\<lambda>_. True) (writeRecord E t c s)"
  using writeRecord_typed by (auto simp: yields_def)

lemmas yields_rules = yields_bind yields_Some yields_map yields_if

lemma yields_writeHandshakeRecord: "gcm_lib (en_evp E) \<Longrightarrow> typed s \<Longrightarrow> yields (\<lambda>_. True) (writeHandshakeRecord E m t s)"
  unfolding writeHandshakeRecord_def
  by (rule yields_bind [where P = "\<lambda>_. True"], simp add: yields_Some,
      rule yields_bind [where P = "\<lambda>_. True"], simp add: yields_writeRecord, simp add: yields_Some)

lemma yields_writeChangeCipherRecord:
  assumes "gcm_lib (en_evp E)" "typed s"
  shows "yields (\<lambda>_. True) (writeChangeCipherRecord E s)"
  unfolding writeChangeCipherRecord_def
proof (rule yields_bind [OF yields_writeRecord [OF assms]])
  fix x :: unit and s
  assume "typed s"
  then show "yields (\<lambda>_. True) (map_option (\<lambda>(r, out). (r, s\<lparr>se_out := out\<rparr>)) (changeCipherSpec (se_done s) (en_pick E) (se_out s)))"
    using changeCipherSpec_typed by (fastforce simp: yields_def typed_def)
qed


section \<open>The handshake keeps the types\<close>

lemma typed_frame [simp]:
  "typed (s\<lparr>se_config := a\<rparr>) = typed s" "typed (s\<lparr>se_vers := b\<rparr>) = typed s" "typed (s\<lparr>se_cipherSuite := d\<rparr>) = typed s"
  "typed (s\<lparr>se_secureRenegotiation := e\<rparr>) = typed s" "typed (s\<lparr>se_curveID := f\<rparr>) = typed s"
  "typed (s\<lparr>se_handshakes := g\<rparr>) = typed s" "typed (s\<lparr>se_complete := h\<rparr>) = typed s" "typed (s\<lparr>se_err := i\<rparr>) = typed s"
  "typed (s\<lparr>se_localFinished := j\<rparr>) = typed s" "typed (s\<lparr>se_remoteFinished := k\<rparr>) = typed s"
  "typed (s\<lparr>se_draws := l\<rparr>) = typed s" "typed (s\<lparr>se_done := m\<rparr>) = typed s"
  by (simp_all add: typed_def)

lemma yields_processHello:
  assumes "typed s"
  shows "yields (\<lambda>(suite, _). real_suite suite) (processHello E h r s)"
proof -
  have p: "yields real_suite (pickCipherSuite E h r s)" if "typed s" for s
    using that suite_cases by (auto simp: yields_def pickCipherSuite_def real_suite_def split: option.splits)
  have q: "yields (\<lambda>_. True) (checkRenegotiation r s)" if "typed s" for s
    using that by (auto simp: yields_def checkRenegotiation_def Let_def split: if_splits)
  show ?thesis
    unfolding processHello_def
    by (rule yields_bind [OF p [OF assms]], rule yields_bind [where P = "\<lambda>_. True"], simp add: yields_Some,
        rule yields_bind [OF q], simp) (simp add: yields_def)
qed

lemma yields_onHello:
  assumes "gcm_lib (en_evp E)" "typed s"
  shows "yields (\<lambda>(hs, _, _). real_suite (hs_suite hs)) (onHello E h ev s)"
proof -
  have v: "yields (\<lambda>_. True) (pickE2EVersion r s)" if "typed s" for r s
    using that by (auto simp: yields_def pickE2EVersion_def typed_def typed_half_def split: prod.splits bool.splits)
  have k: "yields (\<lambda>(hs', _, _). real_suite (hs_suite hs')) (sendKeyExchange E hs s)" if "typed s" "real_suite (hs_suite hs)" for hs s
    unfolding sendKeyExchange_def
    by (rule yields_bind [where P = "\<lambda>_. True"], simp add: yields_Some that(1),
        rule yields_bind [where P = "\<lambda>_. True"], simp add: yields_Some, clarsimp simp only: prod.case,
        rule yields_if; rule yields_bind [OF yields_writeHandshakeRecord [OF assms(1)]])
      (auto intro!: yields_Some simp: that(2))
  have m: "yields (\<lambda>(hs, _, _). real_suite (hs_suite hs))
     (case msg of
       Hello remoteHello \<Rightarrow>
         bindS (pickE2EVersion remoteHello s) (\<lambda>_ s.
         bindS (processHello E h remoteHello s) (\<lambda>(suite, scheme) s.
         bindS (Some (helloTranscript E (en_hostId E) (se_remoteId s) h remoteHello
                        (newFinishedHash (en_digests E) suite (en_hostId E) (se_remoteId s)), s)) (\<lambda>f s.
         sendKeyExchange E
           \<lparr>hs_localId = en_hostId E, hs_remoteId = se_remoteId s, hs_helloMsg = h,
            hs_remoteHelloMsg = remoteHello, hs_suite = suite, hs_signatureScheme = scheme,
            hs_finishedHash = f, hs_masterSecret = []\<rparr> s)))
     | _ \<Rightarrow> Some (Fail ErrUnexpectedMessage, s))" if "typed s" for msg s
  proof (cases msg)
    case (Hello r)
    then show ?thesis
      by (simp only: handshakeMessage.case)
        (rule yields_bind [OF v [OF that]], rule yields_bind [OF yields_processHello], assumption, clarsimp simp only: prod.case,
          rule yields_bind [where P = "\<lambda>_. True"], simp add: yields_Some, rule k, simp_all)
  qed (simp_all add: that yields_def)
  show ?thesis
    unfolding onHello_def
    by (rule yields_bind [where P = "\<lambda>_. True"], simp add: yields_Some assms(2), rule m)
qed

lemma yields_establishKeys:
  assumes "gcm_lib (en_evp E)" "digests_ok (en_digests E)" "real_suite (hs_suite hs)" "typed s"
  shows "yields (\<lambda>_. True) (establishKeys E hs s)"
proof -
  let ?kb = "suiteKeys (en_digests E) (hs_suite hs) (hs_masterSecret hs) (initiatorRandom hs) (responderRandom hs)"
  note l = suiteKeys_lengths [OF assms(2,3), of "hs_masterSecret hs" "initiatorRandom hs" "responderRandom hs"]
  have l': "length (kb_clientKey ?kb) = 16" "kb_clientIV ?kb \<noteq> []" "length (kb_serverKey ?kb) = 16" "kb_serverIV ?kb \<noteq> []"
    using l [of True] l [of False] by (simp_all add: dirKey_def dirIV_def)
  have k: "keysFromMasterSecret (en_digests E) (hs_suite hs) (hs_masterSecret hs) (initiatorRandom hs) (responderRandom hs)
      (cs_macLen (hs_suite hs)) (cs_keyLen (hs_suite hs)) (cs_ivLen (hs_suite hs)) = Some (Ok ?kb)"
    using keys_suiteKeys [OF assms(2)] by simp
  obtain ci where ci: "NewSm4AEADCipher (en_evp E) (kb_clientKey ?kb) (kb_clientIV ?kb) = Some ci"
      "aead_of ci (kb_clientKey ?kb) (kb_clientIV ?kb)"
    using NewSm4AEADCipher_aead_of [OF assms(1) l'(2), of "kb_clientKey ?kb"] by blast
  obtain cr where cr: "NewSm4AEADCipher (en_evp E) (kb_serverKey ?kb) (kb_serverIV ?kb) = Some cr"
      "aead_of cr (kb_serverKey ?kb) (kb_serverIV ?kb)"
    using NewSm4AEADCipher_aead_of [OF assms(1) l'(4), of "kb_serverKey ?kb"] by blast
  have g: "goodCipher (Some (AEADObj ci))" "goodCipher (Some (AEADObj cr))" using ci(2) cr(2) l' by auto
  show ?thesis
    using assms(4) g ci(1) cr(1) real_suite_simps(4,5) [OF assms(3)]
    by (auto simp: yields_def establishKeys_def k Let_def suiteCipher_def aeadSM4_def typed_def typed_half_def prepareCipherSpec_def)
qed

lemma yields_readKeyExchange:
  assumes "real_suite (hs_suite hs)" "typed s"
  shows "yields (\<lambda>(hs', _). real_suite (hs_suite hs')) (readKeyExchange E hs ka kx msg s)"
  unfolding readKeyExchange_def
proof (cases msg; simp only: handshakeMessage.case)
  fix m
  show "yields (\<lambda>(hs', _). real_suite (hs_suite hs'))
    (bindS (Some (kxmTranscript E hs kx m, s)) (\<lambda>h s.
     bindS (Some (processRemoteKeyExchange (en_ka E) (hs_signatureScheme hs) (h_random (hs_helloMsg hs))
                   (h_random (hs_remoteHelloMsg hs)) m ka, s)) (\<lambda>preMasterSecret s.
     if 3 \<le> length m \<and> m ! 0 = 3
     then bindS (Some (BEUint16 (drop 1 m), s)) (\<lambda>curve s.
          Some (Ok (hs\<lparr>hs_finishedHash := h\<rparr>, preMasterSecret), s\<lparr>se_curveID := curve\<rparr>))
     else Some (Ok (hs\<lparr>hs_finishedHash := h\<rparr>, preMasterSecret), s))))"
    by (rule yields_bind [where P = "\<lambda>_. True"], simp add: yields_Some assms(2),
        rule yields_bind [where P = "\<lambda>_. True"], simp add: yields_Some, rule yields_if,
        rule yields_bind [where P = "\<lambda>_. True"])
      (auto intro!: yields_Some simp: assms(1))
qed (auto intro!: yields_Some simp: assms)

lemma yields_deriveMaster:
  assumes "typed s" "real_suite (hs_suite h)"
  shows "yields (\<lambda>hs'. real_suite (hs_suite hs')) (deriveMaster E h p s)"
  unfolding deriveMaster_def
  by (rule yields_bind [where P = "\<lambda>_. True"], simp add: yields_map assms(1)) (auto intro!: yields_Some simp: assms(2))

lemma yields_onKeyExchange:
  assumes "gcm_lib (en_evp E)" "digests_ok (en_digests E)" "real_suite (hs_suite hs)" "typed s"
  shows "yields (\<lambda>_. True) (onKeyExchange E hs ka kx ev s)"
proof -
  have f: "yields (\<lambda>_. True) (sendFinished E h s)" if "typed s" for h s
    unfolding sendFinished_def
    by (rule yields_bind [OF yields_writeChangeCipherRecord [OF assms(1) that]],
        rule yields_bind [where P = "\<lambda>_. True"], simp add: yields_map,
        rule yields_bind [OF yields_writeHandshakeRecord [OF assms(1)]], assumption)
      (auto intro!: yields_Some)
  show ?thesis
    unfolding onKeyExchange_def
    by (rule yields_bind [where P = "\<lambda>_. True"], simp add: yields_Some assms(4),
        rule yields_bind [OF yields_readKeyExchange [OF assms(3)]], assumption, clarsimp simp only: prod.case,
        rule yields_bind [OF yields_deriveMaster], assumption, assumption,
        rule yields_bind [OF yields_establishKeys [OF assms(1,2)]], assumption, assumption,
        rule yields_bind [OF f], assumption)
      (auto intro!: yields_Some)
qed

lemma yields_onFinished: "typed s \<Longrightarrow> yields (\<lambda>_. True) (onFinished E hs ev s)"
  by (auto simp: yields_def onFinished_def bindS_def split: res.splits option.splits handshakeMessage.splits if_splits prod.splits)

lemma yields_startHandshake:
  assumes "gcm_lib (en_evp E)" "typed s"
  shows "yields (\<lambda>_. True) (startHandshake E s)"
proof -
  have "yields (\<lambda>_. True) (makeHello E s)"
    using assms(2) by (auto simp: yields_def makeHello_def Let_def split: if_splits option.splits)
  then show ?thesis
    unfolding startHandshake_def
    by (rule yields_bind) (rule yields_bind [OF yields_writeHandshakeRecord [OF assms(1)]], auto intro!: yields_Some)
qed

lemma typed_endHandshake: "typed (snd (endHandshake r s)) = typed s"
  by (cases r) (simp_all add: endHandshake_def Let_def)

lemma yields_endOr:
  assumes "yields Q c" "\<And>x. Q x \<Longrightarrow> typedPhase (next x)" "endOr next c = Some (ph, s')"
  shows "typedPhase ph \<and> typed s'"
proof -
  obtain r s where c: "c = Some (r, s)" using assms(3) by (auto simp: endOr_def)
  show ?thesis
    using assms c typed_endHandshake [of _ s]
    by (cases r) (auto simp: yields_def endOr_def typedPhase_def split_def Let_def)
qed

lemma typed_stepPhase:
  assumes "gcm_lib (en_evp E)" "digests_ok (en_digests E)" "typedPhase ph" "typed s" "stepPhase E ph ev s = Some (ph', s')"
  shows "typedPhase ph' \<and> typed s'"
proof (cases ph)
  case (AwaitHello h)
  then have "endOr (\<lambda>(hs, ka, kxm). AwaitKeyExchange hs ka kxm) (onHello E h ev s) = Some (ph', s')"
    using assms(5) by (simp add: stepPhase_def)
  from yields_endOr [OF yields_onHello [OF assms(1,4)] _ this] show ?thesis by (auto simp: typedPhase_def)
next
  case (AwaitKeyExchange hs ka kx)
  then have "endOr AwaitFinished (onKeyExchange E hs ka kx ev s) = Some (ph', s')" "real_suite (hs_suite hs)"
    using assms(3,5) by (simp_all add: stepPhase_def typedPhase_def)
  from yields_endOr [OF yields_onKeyExchange [OF assms(1,2) this(2) assms(4)] _ this(1)] show ?thesis
    by (simp add: typedPhase_def)
next
  case (AwaitFinished hs)
  then show ?thesis
    using assms(5) yields_onFinished [OF assms(4), of E hs ev] typed_endHandshake
    by (auto simp: stepPhase_def yields_def split_def Let_def typedPhase_def)
next
  case (Ended r)
  then show ?thesis using assms(3-5) by (simp add: stepPhase_def)
qed

section \<open>The life of a session\<close>

text \<open>Everything the connection does with a session: the handshake (the phase is \<open>None\<close> outside of
  one), sending and opening records, changing the cipher, closing, and a configuration filled in by
  the handshake of another session.\<close>

inductive sessRun :: "hsEnv \<Rightarrow> phase option \<Rightarrow> sess \<Rightarrow> bool" for E where
  sess_new: "sessRun E None (NewSession cfg peer)"
| sess_enter: "sessRun E None s \<Longrightarrow> enterHandshake E s = Some (ph, s') \<Longrightarrow> sessRun E (Some ph) s'"
| sess_step: "sessRun E (Some ph) s \<Longrightarrow> stepPhase E ph ev s = Some (ph', s') \<Longrightarrow> sessRun E (Some ph') s'"
| sess_leave: "sessRun E (Some (Ended r)) s \<Longrightarrow> sessRun E None s"
| sess_write: "sessRun E ph s \<Longrightarrow> en_evp F = en_evp E \<Longrightarrow> writeRecord F t d s = Some (r, s') \<Longrightarrow> sessRun E ph s'"
| sess_read: "sessRun E ph s \<Longrightarrow> decrypt (en_evp E) x (se_in s) = (r, inn) \<Longrightarrow> sessRun E ph (s\<lparr>se_in := inn\<rparr>)"
| sess_change: "sessRun E ph s \<Longrightarrow> changeCipherSpec (se_done s) pick (se_in s) = Some (r, inn) \<Longrightarrow>
    sessRun E ph (s\<lparr>se_in := inn\<rparr>)"
| sess_close: "sessRun E ph s \<Longrightarrow> sessRun E ph (s\<lparr>se_done := True\<rparr>)"
| sess_config: "sessRun E ph s \<Longrightarrow> sessRun E ph (s\<lparr>se_config := cfg\<rparr>)"

lemma sessRun_typed:
  assumes "sessRun E ph s" "gcm_lib (en_evp E)" "digests_ok (en_digests E)"
  shows "typed s \<and> (\<forall>p. ph = Some p \<longrightarrow> typedPhase p)"
  using assms(1)
proof induction
  case (sess_new cfg peer)
  show ?case by (simp add: typed_def NewSession_def)
next
  case (sess_enter s ph s')
  then show ?case
    using yields_endOr [OF yields_startHandshake [OF assms(2), of s], of AwaitHello ph s']
    by (auto simp: enterHandshake_def typedPhase_def split: if_splits option.splits)
next
  case (sess_step ph s ev ph' s')
  then show ?case using typed_stepPhase [OF assms(2,3)] by blast
next
  case (sess_write ph s F t d r s')
  then show ?case using writeRecord_typed [of F s t d r s'] assms(2) by auto
next
  case (sess_read ph s x r inn)
  then show ?case using decrypt_typed [OF assms(2)] by (auto simp: typed_def)
next
  case (sess_change ph s pick r inn)
  then show ?case using changeCipherSpec_typed by (auto simp: typed_def)
qed (simp_all add: typed_frame)

text \<open>C7: in every state a session can reach, its ciphers are absent or SM4-GCM objects with a key of
  16 bytes, and the sequence numbers have eight bytes.  So opening any record, however malformed,
  sealing one and changing the cipher never panic, except when a sequence number is exhausted: the
  switch over the cipher's dynamic type never meets an unknown one, and the C calls under it never
  get an empty buffer.\<close>

theorem session_well_typed:
  assumes "sessRun E ph s" "gcm_lib (en_evp E)" "digests_ok (en_digests E)"
  shows "typed_half (se_in s) \<and> typed_half (se_out s) \<and>
    safeRes (fst (decrypt (en_evp E) x (se_in s))) \<and> safeRes (fst (encrypt (en_evp E) rand rec spare y (se_out s))) \<and>
    (\<forall>pick r hc. changeCipherSpec (se_done s) pick (se_in s) = Some (r, hc) \<longrightarrow> safeRes r)"
proof -
  have t: "typed_half (se_in s)" "typed_half (se_out s)" using sessRun_typed [OF assms] by (simp_all add: typed_def)
  obtain r hc where d: "decrypt (en_evp E) x (se_in s) = (r, hc)" by fastforce
  obtain r' hc' where e: "encrypt (en_evp E) rand rec spare y (se_out s) = (r', hc')" by fastforce
  show ?thesis
    using t d e decrypt_typed [OF assms(2) t(1) d] encrypt_typed [OF assms(2) t(2) e] changeCipherSpec_typed [OF t(1)] by auto
qed

lemma session_well_typed_witness:
  "safeRes (fst (decrypt exEvp [1, 2, 3] (se_in ((NewSession None ''a'')\<lparr>se_done := True\<rparr>))))"
proof -
  have "sessRun (exEnv ''b'') None ((NewSession None ''a'')\<lparr>se_done := True\<rparr>)" by (intro sess_close sess_new)
  from session_well_typed [OF this] exEnv_ok show ?thesis by (auto simp: env_ok_def exEnv_def)
qed

end
