(* ===== verification/Bio.thy ===== *)
theory Bio
  imports Prelude
begin

text \<open>
  The memory BIOs of \<open>crypto/bio.go\<close>, through which OpenSSL reads and writes Go buffers, and the
  table of \<open>crypto/mapping.go\<close> that names them.  C code calls the exported functions from other
  threads while a Go goroutine is inside \<open>WriteTo\<close> or \<open>ReadFromOnce\<close> (whose calls of the connection
  run without a lock), so these two are split at the points where they give the data lock back.
\<close>

section \<open>The table of tokens\<close>

text \<open>A token is an address that \<open>malloc\<close> gave; 0 is the nil pointer.  The values are Go objects.\<close>

type_synonym token = nat
type_synonym mapping = "token \<rightharpoonup> nat"

definition mapping_Add :: "token \<Rightarrow> nat \<Rightarrow> mapping \<Rightarrow> mapping" where
  "mapping_Add fresh x m = m(fresh \<mapsto> x)"

definition mapping_Get :: "mapping \<Rightarrow> token \<Rightarrow> nat option" where
  "mapping_Get m x = m x"

definition mapping_Del :: "token \<Rightarrow> mapping \<Rightarrow> mapping" where
  "mapping_Del x m = m(x := None)"

text \<open>A C BIO, as far as the Go code goes: its data pointer and the retry-read flags.\<close>

record cBio =
  cb_data :: token
  cb_retryRead :: bool

definition loadPtr :: "mapping \<Rightarrow> cBio \<Rightarrow> nat option" where
  "loadPtr m b = mapping_Get m (cb_data b)"

definition MakeCBIO :: "token \<Rightarrow> nat \<Rightarrow> mapping \<Rightarrow> cBio \<times> mapping" where
  "MakeCBIO fresh x m = (\<lparr>cb_data = fresh, cb_retryRead = False\<rparr>, mapping_Add fresh x m)"

definition Disconnect :: "nat \<Rightarrow> cBio \<Rightarrow> mapping \<Rightarrow> cBio \<times> mapping" where
  "Disconnect x b m =
     (if loadPtr m b = Some x then (b\<lparr>cb_data := 0\<rparr>, mapping_Del (cb_data b) m) else (b, m))"

section \<open>The write BIO\<close>

text \<open>\<open>wb_inFlight\<close> is the slice \<open>WriteTo\<close> took and is writing while the lock is free.\<close>

record writeBio =
  wb_buf :: bytes
  wb_release :: bool
  wb_inFlight :: "bytes option"

definition newWriteBio :: writeBio where
  "newWriteBio = \<lparr>wb_buf = [], wb_release = False, wb_inFlight = None\<rparr>"

text \<open>\<open>go_write_bio_write\<close>: the result, and the object afterwards.  \<open>data = None\<close> is the nil pointer.\<close>

definition go_write_bio_write :: "bytes option \<Rightarrow> int \<Rightarrow> writeBio option \<Rightarrow> int \<times> writeBio option" where
  "go_write_bio_write data sz ptr =
     (case (ptr, data) of
        (Some w, Some d) \<Rightarrow>
          if sz < 0 then (-1, ptr) else (sz, Some (w\<lparr>wb_buf := wb_buf w @ take (nat sz) d\<rparr>))
      | _ \<Rightarrow> (-1, ptr))"

datatype ctrl = CtrlPending | CtrlWPending | CtrlDup | CtrlFlush | CtrlOther

definition go_write_bio_ctrl :: "ctrl \<Rightarrow> writeBio option \<Rightarrow> int" where
  "go_write_bio_ctrl cmd ptr =
     (case cmd of CtrlWPending \<Rightarrow> (case ptr of None \<Rightarrow> 0 | Some w \<Rightarrow> int (length (wb_buf w)))
      | CtrlDup \<Rightarrow> 1 | CtrlFlush \<Rightarrow> 1 | _ \<Rightarrow> 0)"

text \<open>\<open>WriteTo\<close> up to the call of \<open>Write\<close> (only one at a time: \<open>opMtx\<close>), and what follows when \<open>n\<close>
  bytes were written.\<close>

definition writeToBegin :: "writeBio \<Rightarrow> writeBio" where
  "writeToBegin w = (if wb_buf w = [] then w else w\<lparr>wb_inFlight := Some (wb_buf w)\<rparr>)"

definition writeToEnd :: "nat \<Rightarrow> writeBio \<Rightarrow> writeBio" where
  "writeToEnd n w = w\<lparr>wb_buf := drop n (wb_buf w), wb_inFlight := None\<rparr>"

section \<open>The read BIO\<close>

text \<open>
  The buffer is a slice: \<open>rb_arr\<close> is its array (as long as the capacity) and \<open>rb_len\<close> its length; the
  nil slice has the empty array.  \<open>rb_start\<close> is the length at which \<open>ReadFromOnce\<close> is reading behind
  the buffer while the lock is free.
\<close>

record readBio =
  rb_arr :: bytes
  rb_len :: nat
  rb_eof :: bool
  rb_release :: bool
  rb_start :: "nat option"

definition newReadBio :: readBio where
  "newReadBio = \<lparr>rb_arr = [], rb_len = 0, rb_eof = False, rb_release = False, rb_start = None\<rparr>"

definition rb_buf :: "readBio \<Rightarrow> bytes" where
  "rb_buf b = take (rb_len b) (rb_arr b)"

text \<open>\<open>go_read_bio_read\<close>: the result, the bytes put into the C buffer, whether the retry flag is set.\<close>

definition go_read_bio_read :: "bool \<Rightarrow> int \<Rightarrow> readBio \<Rightarrow> (int \<times> bytes \<times> bool) \<times> readBio" where
  "go_read_bio_read dataNil sz b =
     (if sz < 0 then ((-1, [], False), b)
      else if rb_len b = 0 then (if rb_eof b then ((0, [], False), b) else ((-1, [], True), b))
      else if sz = 0 \<or> dataNil then ((int (rb_len b), [], False), b)
      else
        let rc = min (nat sz) (rb_len b);
            l = rb_len b - rc;
            arr = take l (drop rc (rb_arr b)) @ drop l (rb_arr b)
        in ((int rc, take rc (rb_arr b), False),
            if rb_release b \<and> l = 0 then b\<lparr>rb_arr := [], rb_len := 0\<rparr> else b\<lparr>rb_arr := arr, rb_len := l\<rparr>))"

definition go_read_bio_ctrl :: "ctrl \<Rightarrow> readBio option \<Rightarrow> int" where
  "go_read_bio_ctrl cmd ptr =
     (case cmd of CtrlPending \<Rightarrow> (case ptr of None \<Rightarrow> 0 | Some b \<Rightarrow> int (rb_len b))
      | CtrlDup \<Rightarrow> 1 | CtrlFlush \<Rightarrow> 1 | _ \<Rightarrow> 0)"

definition SSLRecordSize :: nat where "SSLRecordSize = 16384"

text \<open>\<open>ReadFromOnce\<close> up to the call of \<open>Read\<close>: the room it reads into is the array behind the buffer.\<close>

definition readFromBegin :: "readBio \<Rightarrow> readBio" where
  "readFromBegin b =
     (let arr = (if length (rb_arr b) < rb_len b + SSLRecordSize
                 then take (rb_len b) (rb_arr b) @ replicate SSLRecordSize 0 else rb_arr b)
      in b\<lparr>rb_arr := arr, rb_start := Some (rb_len b)\<rparr>)"

definition readRoom :: "readBio \<Rightarrow> nat" where
  "readRoom b = (case rb_start b of None \<Rightarrow> 0 | Some st \<Rightarrow> length (rb_arr b) - st)"

definition overwrite :: "nat \<Rightarrow> bytes \<Rightarrow> bytes \<Rightarrow> bytes" where
  "overwrite i d arr = take i arr @ d @ drop (i + length d) arr"

text \<open>What follows when \<open>Read\<close> has put \<open>d\<close> into that room (with or without an error).  When the buffer
  was released meanwhile, the room is no longer part of it, and slicing it out of the nil slice
  panics; otherwise the new bytes are where they were read, and are copied down when the buffer has
  become shorter.\<close>

definition readFromEnd :: "bytes \<Rightarrow> bool \<Rightarrow> readBio \<Rightarrow> nat res \<times> readBio" where
  "readFromEnd d failed b =
     (case rb_start b of
        None \<Rightarrow> (Ok 0, b)
      | Some st \<Rightarrow>
          let b1 = b\<lparr>rb_start := None\<rparr>; n = length d;
              ret = (if failed then Fail LibError else Ok n)
          in if n = 0 then (ret, b1)
             else if length (rb_arr b) < rb_len b + n then (Panic ''slice bounds out of range'', b1)
             else let arr = overwrite st d (rb_arr b);
                      arr' = (if st = rb_len b then arr else overwrite (rb_len b) d arr)
                  in (ret, b1\<lparr>rb_arr := arr', rb_len := rb_len b + n\<rparr>))"

definition SetRelease :: "bool \<Rightarrow> readBio \<Rightarrow> readBio" where
  "SetRelease flag b = b\<lparr>rb_release := flag\<rparr>"

definition MarkEOF :: "readBio \<Rightarrow> readBio" where
  "MarkEOF b = b\<lparr>rb_eof := True\<rparr>"

section \<open>The Go side of a C BIO\<close>

text \<open>\<open>anyBio\<close>: \<open>ret\<close> is what the C function returned.  \<open>None\<close> is \<open>io.EOF\<close>; the flag of a write tells
  whether there is no error.\<close>

definition anyBio_Read :: "nat \<Rightarrow> int \<Rightarrow> nat option" where
  "anyBio_Read len ret = (if len = 0 then Some 0 else if ret \<le> 0 then None else Some (nat ret))"

definition anyBio_Write :: "nat \<Rightarrow> int \<Rightarrow> nat \<times> bool" where
  "anyBio_Write len ret =
     (if len = 0 then (0, True) else if ret < 0 then (0, False)
      else (nat ret, \<not> ret < int len))"

section \<open>Writing\<close>

text \<open>A write BIO in use: what C writes, and a goroutine that moves it to the connection.  The second
  component is what the connection got.\<close>

datatype writeEvent = CWrite bytes | WriteBegin | WriteEnd nat

definition writeStep :: "writeEvent \<Rightarrow> writeBio \<times> bytes \<Rightarrow> writeBio \<times> bytes" where
  "writeStep e s =
     (case s of (w, out) \<Rightarrow>
        case e of
          CWrite d \<Rightarrow> (the (snd (go_write_bio_write (Some d) (int (length d)) (Some w))), out)
        | WriteBegin \<Rightarrow> (if wb_inFlight w = None then writeToBegin w else w, out)
        | WriteEnd n \<Rightarrow>
            (case wb_inFlight w of None \<Rightarrow> (w, out)
             | Some data \<Rightarrow> let n' = min n (length data) in (writeToEnd n' w, out @ take n' data)))"

text \<open>The specification: a stream of bytes, to which writing appends.\<close>

definition streamStep :: "writeEvent \<Rightarrow> bytes \<Rightarrow> bytes" where
  "streamStep e st = (case e of CWrite d \<Rightarrow> st @ d | _ \<Rightarrow> st)"

definition writeStream :: "writeBio \<times> bytes \<Rightarrow> bytes" where
  "writeStream s = snd s @ wb_buf (fst s)"

definition write_ok :: "writeBio \<times> bytes \<Rightarrow> bool" where
  "write_ok s \<longleftrightarrow> (\<forall>data. wb_inFlight (fst s) = Some data \<longrightarrow> (\<exists>later. wb_buf (fst s) = data @ later))"

interpretation write_bio: op_refinement write_ok writeStream writeStep streamStep
  by unfold_locales
    (auto simp: write_ok_def writeStream_def writeStep_def streamStep_def go_write_bio_write_def writeToBegin_def
      writeToEnd_def Let_def min_def split: writeEvent.splits option.splits)

text \<open>C37: however the C calls and the writer interleave, what the connection got followed by what is
  still in the buffer is exactly what C wrote, in order: nothing is lost, repeated or reordered, also
  when the connection takes only a part.\<close>

theorem write_bio_refines_stream:
  "writeStream (fold writeStep es (newWriteBio, [])) = concat (map (\<lambda>e. case e of CWrite d \<Rightarrow> d | _ \<Rightarrow> []) es)"
proof -
  have "fold streamStep es st = st @ concat (map (\<lambda>e. case e of CWrite d \<Rightarrow> d | _ \<Rightarrow> []) es)" for st
    by (induction es arbitrary: st) (auto simp: streamStep_def split: writeEvent.split)
  moreover have "write_ok (newWriteBio, [])" by (simp add: write_ok_def newWriteBio_def)
  moreover have "writeStream (newWriteBio, []) = []" by (simp add: writeStream_def newWriteBio_def)
  ultimately show ?thesis using write_bio.abs_run by simp
qed

section \<open>Reading\<close>

text \<open>A read BIO in use: the goroutine that fills it from the connection, and C that reads it.  \<open>rs_fed\<close>
  is what the connection gave, \<open>rs_got\<close> what C got, \<open>rs_panic\<close> whether a call panicked.\<close>

datatype readEvent = CRead bool int | FillBegin | FillEnd bytes bool | Eof

record readRun =
  rs_bio :: readBio
  rs_fed :: bytes
  rs_got :: bytes
  rs_panic :: bool

definition readStep :: "readEvent \<Rightarrow> readRun \<Rightarrow> readRun" where
  "readStep e s =
     (let b = rs_bio s in
      case e of
        CRead dataNil sz \<Rightarrow>
          (let ((_, d, _), b') = go_read_bio_read dataNil sz b in s\<lparr>rs_bio := b', rs_got := rs_got s @ d\<rparr>)
      | FillBegin \<Rightarrow> (if rb_start b = None then s\<lparr>rs_bio := readFromBegin b\<rparr> else s)
      | FillEnd d failed \<Rightarrow>
          (if rb_start b = None then s
           else let d' = take (readRoom b) d; (r, b') = readFromEnd d' failed b
                in s\<lparr>rs_bio := b', rs_fed := rs_fed s @ d', rs_panic := (rs_panic s \<or> (\<exists>p. r = Panic p))\<rparr>)
      | Eof \<Rightarrow> s\<lparr>rs_bio := MarkEOF b\<rparr>)"

definition newReadRun :: readRun where
  "newReadRun = \<lparr>rs_bio = newReadBio, rs_fed = [], rs_got = [], rs_panic = False\<rparr>"

definition read_ok :: "readRun \<Rightarrow> bool" where
  "read_ok s \<longleftrightarrow>
     (let b = rs_bio s in
      \<not> rb_release b \<and> rb_len b \<le> length (rb_arr b) \<and>
      (\<forall>st. rb_start b = Some st \<longrightarrow> rb_len b \<le> st \<and> st \<le> length (rb_arr b)) \<and>
      \<not> rs_panic s \<and> rs_fed s = rs_got s @ rb_buf b)"

lemma take_overwrite:
  assumes "i \<le> length arr"
  shows "take (i + length d) (overwrite i d arr) = take i arr @ d"
  using assms by (simp add: overwrite_def)

lemma length_overwrite [simp]: "i + length d \<le> length arr \<Longrightarrow> length (overwrite i d arr) = length arr"
  by (simp add: overwrite_def)

lemma take_overwrite_below: "j \<le> i \<Longrightarrow> i \<le> length arr \<Longrightarrow> take j (overwrite i d arr) = take j arr"
  by (simp add: overwrite_def min_def)

lemma readFromEnd_fills:
  assumes "rb_start b = Some st" "rb_len b \<le> st" "st \<le> length (rb_arr b)" "length d \<le> length (rb_arr b) - st"
  shows "\<exists>b'. readFromEnd d failed b = (if failed then Fail LibError else Ok (length d), b') \<and>
    rb_buf b' = rb_buf b @ d \<and> rb_len b' \<le> length (rb_arr b') \<and> rb_start b' = None \<and> rb_release b' = rb_release b"
proof (cases "d = []")
  case True
  then show ?thesis using assms by (simp add: readFromEnd_def rb_buf_def)
next
  case False
  let ?a = "overwrite st d (rb_arr b)"
  have l: "length ?a = length (rb_arr b)" using assms by simp
  have "rb_len b + length d \<le> length (rb_arr b)" using assms by linarith
  then show ?thesis
    using assms False l take_overwrite [of "rb_len b" "rb_arr b" d] take_overwrite [of "rb_len b" ?a d]
      take_overwrite_below [of "rb_len b" st "rb_arr b" d]
    by (auto simp: readFromEnd_def rb_buf_def Let_def)
qed

lemma go_read_takes:
  assumes "\<not> rb_release b" "rb_len b \<le> length (rb_arr b)" "go_read_bio_read dataNil sz b = ((r, d, retry), b')"
  shows "rb_buf b = d @ rb_buf b' \<and> length (rb_arr b') = length (rb_arr b) \<and> rb_len b' \<le> rb_len b \<and>
    rb_start b' = rb_start b \<and> \<not> rb_release b'"
proof (cases "sz < 0 \<or> rb_len b = 0 \<or> sz = 0 \<or> dataNil")
  case True
  then show ?thesis using assms by (auto simp: go_read_bio_read_def split: if_splits)
next
  case False
  define rc where "rc = min (nat sz) (rb_len b)"
  have le: "rc \<le> rb_len b" by (simp add: rc_def)
  have b': "b' = b\<lparr>rb_arr := take (rb_len b - rc) (drop rc (rb_arr b)) @ drop (rb_len b - rc) (rb_arr b), rb_len := rb_len b - rc\<rparr>"
      "d = take rc (rb_arr b)"
    using assms(1,3) False by (auto simp: go_read_bio_read_def Let_def rc_def)
  have "take (rb_len b) (rb_arr b) = take rc (rb_arr b) @ take (rb_len b - rc) (drop rc (rb_arr b))"
    using le by (simp add: take_add [symmetric])
  moreover have "length (take (rb_len b - rc) (drop rc (rb_arr b))) = rb_len b - rc" using assms(2) by simp
  ultimately show ?thesis using b' assms(1,2) le by (simp add: rb_buf_def)
qed

lemma read_ok_step:
  assumes "read_ok s"
  shows "read_ok (readStep e s)"
proof (cases e)
  case (CRead dataNil sz)
  obtain r d retry b' where g: "go_read_bio_read dataNil sz (rs_bio s) = ((r, d, retry), b')" by (metis prod.exhaust)
  show ?thesis
    using assms go_read_takes [OF _ _ g] CRead g by (auto simp: read_ok_def readStep_def Let_def)
next
  case FillBegin
  then show ?thesis
    using assms by (auto simp: read_ok_def readStep_def readFromBegin_def Let_def rb_buf_def SSLRecordSize_def)
next
  case (FillEnd d failed)
  show ?thesis
  proof (cases "rb_start (rs_bio s)")
    case None
    then show ?thesis using assms FillEnd by (simp add: readStep_def Let_def)
  next
    case (Some st)
    let ?d = "take (readRoom (rs_bio s)) d"
    have r: "rb_len (rs_bio s) \<le> st" "st \<le> length (rb_arr (rs_bio s))" "length ?d \<le> length (rb_arr (rs_bio s)) - st"
      using assms Some by (auto simp: read_ok_def Let_def readRoom_def)
    show ?thesis
      using readFromEnd_fills [OF Some r, of failed] assms FillEnd Some
      by (auto simp: read_ok_def readStep_def Let_def split: if_splits)
  qed
next
  case Eof
  then show ?thesis using assms by (auto simp: read_ok_def readStep_def MarkEOF_def Let_def rb_buf_def)
qed

text \<open>C38: while buffers are not released, a read BIO is a queue: however filling it and reading it
  interleave, also when C reads between the two halves of a fill, what C got followed by what is in
  the buffer is exactly what came from the connection, and no call panics.\<close>

theorem read_bio_is_a_queue:
  "let s = fold readStep es newReadRun in rs_fed s = rs_got s @ rb_buf (rs_bio s) \<and> \<not> rs_panic s"
proof -
  have "read_ok (fold readStep es s)" if "read_ok s" for s
    using that by (induction es arbitrary: s) (auto intro: read_ok_step)
  moreover have "read_ok newReadRun" by (simp add: read_ok_def newReadRun_def newReadBio_def rb_buf_def)
  ultimately show ?thesis by (auto simp: read_ok_def Let_def)
qed

text \<open>With released buffers it is not: when C drains the buffer while \<open>ReadFromOnce\<close> is waiting for
  the connection, the buffer becomes nil, and the first byte that arrives makes the call panic; the
  bytes are lost.\<close>

theorem release_during_fill_panics:
  assumes "rb_release b" "rb_start b = None" "0 < rb_len b" "int (rb_len b) \<le> sz" "d \<noteq> []"
  shows "let b2 = snd (go_read_bio_read False sz (readFromBegin b)); out = readFromEnd d failed b2
    in (\<exists>p. fst out = Panic p) \<and> rb_buf (snd out) = []"
  using assms
  by (auto simp: go_read_bio_read_def readFromBegin_def readFromEnd_def Let_def rb_buf_def min_def)

definition exReleased :: readBio where
  "exReleased = \<lparr>rb_arr = [1, 2], rb_len = 2, rb_eof = False, rb_release = True, rb_start = None\<rparr>"

lemma release_during_fill_panics_witness:
  "\<exists>p. fst (readFromEnd [9] False (snd (go_read_bio_read False 5 (readFromBegin exReleased)))) = Panic p"
proof -
  have "rb_release exReleased" "rb_start exReleased = None" "0 < rb_len exReleased" "int (rb_len exReleased) \<le> 5" "[9 :: byte] \<noteq> []"
    by (simp_all add: exReleased_def)
  from release_during_fill_panics [OF this, of False] show ?thesis by (simp add: Let_def)
qed

section \<open>Tokens\<close>

text \<open>After \<open>Disconnect\<close> no callback of the C BIO finds the Go object again, and the table is as it was
  before the BIO was made, so that other BIOs keep theirs.\<close>

lemma disconnect_forgets:
  assumes "m 0 = None" "m fresh = None" "fresh \<noteq> 0"
  shows "let (b, m1) = MakeCBIO fresh x m; (b', m2) = Disconnect x b m1
    in loadPtr m1 b = Some x \<and> loadPtr m2 b' = None \<and> m2 = m"
  using assms by (auto simp: MakeCBIO_def Disconnect_def loadPtr_def mapping_Add_def mapping_Get_def mapping_Del_def Let_def)

end
