(* ===== verification/GenKeys.thy ===== *)
theory GenKeys
  imports Prelude
begin

text \<open>
  The key generator \<open>cmd/genkeys\<close>: reading the list of user identifiers, and writing the key files of
  each into a directory of its own.  The file system is a map of paths to contents and permissions;
  which of its operations fail, and the keys the crypto library makes, are arguments.
\<close>

section \<open>Strings\<close>

text \<open>\<open>strings.Split(s, sep)\<close> for a separator of one byte.\<close>

fun splitOn :: "char \<Rightarrow> string \<Rightarrow> string list" where
  "splitOn c [] = [[]]"
| "splitOn c (x # xs) =
     (if x = c then [] # splitOn c xs
      else (case splitOn c xs of [] \<Rightarrow> [[x]] | p # ps \<Rightarrow> (x # p) # ps))"

text \<open>The UTF-8 encodings of the code points with the White_Space property (\<open>unicode.IsSpace\<close>).\<close>

definition spaceRunes :: "string list" where
  "spaceRunes =
     map (map char_of) ([[9], [10], [11], [12], [13], [32], [0xC2, 0x85], [0xC2, 0xA0], [0xE1, 0x9A, 0x80],
       [0xE2, 0x80, 0xA8], [0xE2, 0x80, 0xA9], [0xE2, 0x80, 0xAF], [0xE2, 0x81, 0x9F], [0xE3, 0x80, 0x80]] @
       map (\<lambda>i. [0xE2, 0x80, i]) [0x80..<0x8B :: nat])"

definition startsWith :: "string \<Rightarrow> string \<Rightarrow> bool" where
  "startsWith p s \<longleftrightarrow> take (length p) s = p"

definition leadingSpace :: "string list \<Rightarrow> string \<Rightarrow> string option" where
  "leadingSpace runes s = find (\<lambda>r. startsWith r s) runes"

function trimLeft :: "string list \<Rightarrow> string \<Rightarrow> string" where
  "trimLeft runes s =
     (case leadingSpace runes s of
        None \<Rightarrow> s
      | Some r \<Rightarrow> if r = [] \<or> s = [] then s else trimLeft runes (drop (length r) s))"
  by pat_completeness auto
termination by (relation "measure (\<lambda>(_, s). length s)") auto

declare trimLeft.simps [simp del]

text \<open>From the right, the same on the reversed string with reversed encodings.\<close>

definition TrimSpace :: "string \<Rightarrow> string" where
  "TrimSpace s = rev (trimLeft (map rev spaceRunes) (rev (trimLeft spaceRunes s)))"

section \<open>Identifiers\<close>

fun keepNew :: "string set \<Rightarrow> string list \<Rightarrow> string list" where
  "keepNew seen [] = []"
| "keepNew seen (part # parts) =
     (let uid = TrimSpace part in
      if uid = [] then keepNew seen parts
      else if uid \<in> seen then keepNew seen parts
      else uid # keepNew (insert uid seen) parts)"

definition parseIDs :: "string \<Rightarrow> string list" where
  "parseIDs raw = keepNew {} (splitOn (CHR '','') raw)"

section \<open>Files\<close>

text \<open>\<open>filepath.Join(dir, name)\<close>: empty elements are dropped and the rest is cleaned.\<close>

definition pushComponent :: "bool \<Rightarrow> string \<Rightarrow> string list \<Rightarrow> string list" where
  "pushComponent rooted c out =
     (if c = [] \<or> c = ''.'' then out
      else if c = ''..'' then
        (if out \<noteq> [] \<and> last out \<noteq> ''..'' then butlast out else if rooted then out else out @ [c])
      else out @ [c])"

fun joinSlash :: "string list \<Rightarrow> string" where
  "joinSlash [] = []"
| "joinSlash [p] = p"
| "joinSlash (p # ps) = p @ CHR ''/'' # joinSlash ps"

definition cleanPath :: "string \<Rightarrow> string" where
  "cleanPath path =
     (let rooted = (path \<noteq> [] \<and> hd path = CHR ''/'');
          out = fold (pushComponent rooted) (splitOn (CHR ''/'') path) [];
          s = (if rooted then CHR ''/'' # joinSlash out else joinSlash out)
      in if s = [] then ''.'' else s)"

definition joinPath :: "string \<Rightarrow> string \<Rightarrow> string" where
  "joinPath a b =
     (if a = [] then (if b = [] then [] else cleanPath b) else cleanPath (a @ CHR ''/'' # b))"

record keyFile =
  fl_data :: bytes
  fl_perm :: nat

type_synonym files = "string \<rightharpoonup> keyFile"

text \<open>Which operations fail, by path: \<open>fe_open\<close> for another reason than the file being there, \<open>fe_write\<close>
  after so many bytes; \<open>fe_umask\<close> is what creating a file makes of its permissions.\<close>

record fileEnv =
  fe_open :: "string \<Rightarrow> bool"
  fe_write :: "string \<Rightarrow> nat option"
  fe_chmod :: "string \<Rightarrow> bool"
  fe_umask :: "nat \<Rightarrow> nat"

datatype keyError = AlreadyExists string | FileError string | KeyError string | NeedsTag | NoID

type_synonym 'a kres = "keyError + 'a"

definition writeKeyFile :: "fileEnv \<Rightarrow> string \<Rightarrow> bytes \<Rightarrow> nat \<Rightarrow> bool \<Rightarrow> files \<Rightarrow> unit kres \<times> files" where
  "writeKeyFile F path dat perm force fs =
     (if fe_open F path then (Inl (FileError path), fs)
      else if \<not> force \<and> fs path \<noteq> None then (Inl (AlreadyExists path), fs)
      else
        let old = (case fs path of None \<Rightarrow> fe_umask F perm | Some f \<Rightarrow> fl_perm f);
            put = (\<lambda>d p. fs(path \<mapsto> \<lparr>fl_data = d, fl_perm = p\<rparr>))
        in case fe_write F path of
             Some n \<Rightarrow> (Inl (FileError path), put (take n dat) old)
           | None \<Rightarrow> if fe_chmod F path then (Inl (FileError path), put dat old) else (Inr (), put dat perm))"

section \<open>The keys of a user\<close>

definition sm2PrivateKeyFile :: string where "sm2PrivateKeyFile = ''private_key.pem''"
definition sm2PublicKeyFile :: string where "sm2PublicKeyFile = ''public_key.pem''"
definition sm2MLKEMPrivateKeyFile :: string where "sm2MLKEMPrivateKeyFile = ''sm2mlkem_private.bin''"
definition sm2MLKEMPublicKeyFile :: string where "sm2MLKEMPublicKeyFile = ''sm2mlkem_public.bin''"

text \<open>A hybrid key of \<open>crypto/sm2mlkem\<close>: the bytes of its halves (\<open>None\<close> is nil).  The parameters stand
  for Go's ML-KEM package: the encapsulation key of a seed, and which bytes are an encapsulation key.\<close>

record kemKey =
  kk_private :: "bytes option"
  kk_public :: "bytes option"

record mlkem =
  ml_public :: "bytes \<Rightarrow> bytes option"
  ml_valid :: "bytes \<Rightarrow> bool"

definition kemPublicKeySize :: nat where "kemPublicKeySize = 1184"
definition kemPrivateKeySize :: nat where "kemPrivateKeySize = 64"

text \<open>What Go documents of it: both keys have their fixed lengths, every seed of the right length is a
  key, and the encapsulation key of a seed is valid.\<close>

definition mlkem_ok :: "mlkem \<Rightarrow> bool" where
  "mlkem_ok M \<longleftrightarrow>
     (\<forall>seed. length seed = kemPrivateKeySize \<longrightarrow>
        (\<exists>ek. ml_public M seed = Some ek \<and> length ek = kemPublicKeySize \<and> ml_valid M ek))"

definition kem_GenerateKey :: "mlkem \<Rightarrow> bytes option \<Rightarrow> kemKey option" where
  "kem_GenerateKey M seed =
     (case seed of None \<Rightarrow> None | Some s \<Rightarrow> Some \<lparr>kk_private = Some s, kk_public = ml_public M s\<rparr>)"

definition ImportPublicKey :: "mlkem \<Rightarrow> bytes \<Rightarrow> kemKey kres" where
  "ImportPublicKey M d =
     (if length d \<noteq> kemPublicKeySize then Inl (KeyError ''invalid SM2MLKEM public key length'')
      else if \<not> ml_valid M d then Inl (KeyError ''mlkem'')
      else Inr \<lparr>kk_private = None, kk_public = Some d\<rparr>)"

definition ImportPrivateKey :: "mlkem \<Rightarrow> bytes \<Rightarrow> kemKey kres" where
  "ImportPrivateKey M d =
     (if length d \<noteq> kemPrivateKeySize then Inl (KeyError ''invalid SM2MLKEM private key length'')
      else case ml_public M d of
             None \<Rightarrow> Inl (KeyError ''mlkem'')
           | Some ek \<Rightarrow> Inr \<lparr>kk_private = Some d, kk_public = Some ek\<rparr>)"

definition LoadPublicKey :: "mlkem \<Rightarrow> string \<Rightarrow> files \<Rightarrow> kemKey kres" where
  "LoadPublicKey M path fs = (case fs path of None \<Rightarrow> Inl (FileError path) | Some f \<Rightarrow> ImportPublicKey M (fl_data f))"

definition LoadPrivateKey :: "mlkem \<Rightarrow> string \<Rightarrow> files \<Rightarrow> kemKey kres" where
  "LoadPrivateKey M path fs = (case fs path of None \<Rightarrow> Inl (FileError path) | Some f \<Rightarrow> ImportPrivateKey M (fl_data f))"

definition ExportPublicKey :: "kemKey option \<Rightarrow> bytes kres" where
  "ExportPublicKey k =
     (case Option.bind k kk_public of None \<Rightarrow> Inl (KeyError ''nil SM2MLKEM public key'') | Some d \<Rightarrow> Inr d)"

definition ExportPrivateKey :: "kemKey option \<Rightarrow> bytes kres" where
  "ExportPrivateKey k =
     (case Option.bind k kk_private of None \<Rightarrow> Inl (KeyError ''nil SM2MLKEM private key'') | Some d \<Rightarrow> Inr d)"

text \<open>What is drawn for a user: the PEM texts of an SM2 key pair (\<open>None\<close> where making or marshalling
  fails) and the seed of a hybrid one.\<close>

record userKeys =
  uk_priv :: "bytes option"
  uk_pub :: "bytes option"
  uk_seed :: "bytes option"

fun andThen :: "'a kres \<times> files \<Rightarrow> ('a \<Rightarrow> files \<Rightarrow> 'b kres \<times> files) \<Rightarrow> 'b kres \<times> files" where
  "andThen (Inl e, fs) f = (Inl e, fs)"
| "andThen (Inr x, fs) f = f x fs"

definition required :: "string \<Rightarrow> 'a option \<Rightarrow> 'a kres" where
  "required what x = (case x of None \<Rightarrow> Inl (KeyError what) | Some y \<Rightarrow> Inr y)"

definition sized :: "string \<Rightarrow> nat \<Rightarrow> bytes \<Rightarrow> bytes kres" where
  "sized what n d = (if length d \<noteq> n then Inl (KeyError what) else Inr d)"

text \<open>The build tag \<open>sm2mlkem\<close> is the flag \<open>tagged\<close>.\<close>

definition generateSM2MLKEMKeyFiles ::
  "bool \<Rightarrow> fileEnv \<Rightarrow> mlkem \<Rightarrow> bytes option \<Rightarrow> string \<Rightarrow> bool \<Rightarrow> files \<Rightarrow> unit kres \<times> files" where
  "generateSM2MLKEMKeyFiles tagged F M seed dir force fs =
     (if \<not> tagged then (Inl NeedsTag, fs)
      else
        andThen (required ''generate SM2MLKEM key'' (kem_GenerateKey M seed), fs) (\<lambda>key fs.
        andThen (ExportPrivateKey (Some key), fs) (\<lambda>priv fs.
        andThen (sized ''SM2MLKEM private key length'' kemPrivateKeySize priv, fs) (\<lambda>_ fs.
        andThen (writeKeyFile F (joinPath dir sm2MLKEMPrivateKeyFile) priv 0x180 force fs) (\<lambda>_ fs.
        andThen (ExportPublicKey (Some key), fs) (\<lambda>pub fs.
        andThen (sized ''SM2MLKEM public key length'' kemPublicKeySize pub, fs) (\<lambda>_ fs.
        writeKeyFile F (joinPath dir sm2MLKEMPublicKeyFile) pub 0x1A4 force fs)))))))"

text \<open>\<open>mkdir\<close> tells whether the directory is there or can be made.\<close>

definition generateUserKeys ::
  "bool \<Rightarrow> fileEnv \<Rightarrow> mlkem \<Rightarrow> (string \<Rightarrow> bool) \<Rightarrow> userKeys \<Rightarrow> string \<Rightarrow> string \<Rightarrow> bool \<Rightarrow> bool \<Rightarrow> files \<Rightarrow>
   unit kres \<times> files" where
  "generateUserKeys tagged F M mkdir u baseDir uid withSM2MLKEM force fs =
     (let dir = joinPath baseDir uid in
      if \<not> mkdir dir then (Inl (FileError dir), fs)
      else
        andThen (required ''SM2 private key'' (uk_priv u), fs) (\<lambda>pemPriv fs.
        andThen (writeKeyFile F (joinPath dir sm2PrivateKeyFile) pemPriv 0x180 force fs) (\<lambda>_ fs.
        andThen (required ''SM2 public key'' (uk_pub u), fs) (\<lambda>pemPub fs.
        andThen (writeKeyFile F (joinPath dir sm2PublicKeyFile) pemPub 0x1A4 force fs) (\<lambda>_ fs.
        if withSM2MLKEM then generateSM2MLKEMKeyFiles tagged F M (uk_seed u) dir force fs else (Inr (), fs))))))"

fun generateAll ::
  "bool \<Rightarrow> fileEnv \<Rightarrow> mlkem \<Rightarrow> (string \<Rightarrow> bool) \<Rightarrow> (string \<Rightarrow> userKeys) \<Rightarrow> string \<Rightarrow> bool \<Rightarrow> bool \<Rightarrow> string list \<Rightarrow> files \<Rightarrow>
   unit kres \<times> files" where
  "generateAll tagged F M mkdir u outDir withSM2MLKEM force [] fs = (Inr (), fs)"
| "generateAll tagged F M mkdir u outDir withSM2MLKEM force (uid # ids) fs =
     andThen (generateUserKeys tagged F M mkdir (u uid) outDir uid withSM2MLKEM force fs)
       (\<lambda>_ fs. generateAll tagged F M mkdir u outDir withSM2MLKEM force ids fs)"

definition runGenKeys ::
  "bool \<Rightarrow> fileEnv \<Rightarrow> mlkem \<Rightarrow> (string \<Rightarrow> bool) \<Rightarrow> (string \<Rightarrow> userKeys) \<Rightarrow> string \<Rightarrow> string \<Rightarrow> bool \<Rightarrow> bool \<Rightarrow> files \<Rightarrow>
   unit kres \<times> files" where
  "runGenKeys tagged F M mkdir u outDir idsFlag withSM2MLKEM force fs =
     (let ids = parseIDs idsFlag in
      if ids = [] then (Inl NoID, fs) else generateAll tagged F M mkdir u outDir withSM2MLKEM force ids fs)"

section \<open>Lemmas\<close>

lemma andThen_Ok_iff: "andThen m f = (Inr y, fs') \<longleftrightarrow> (\<exists>x fs. m = (Inr x, fs) \<and> f x fs = (Inr y, fs'))"
  by (cases m rule: prod.exhaust; cases "fst m") auto

lemma required_Ok_iff: "required what x = Inr y \<longleftrightarrow> x = Some y"
  by (simp add: required_def split: option.split)

lemma sized_Ok_iff: "sized what n d = Inr y \<longleftrightarrow> length d = n \<and> y = d"
  by (auto simp: sized_def)

lemmas keys_Ok_iff = andThen_Ok_iff required_Ok_iff sized_Ok_iff

lemma writeKeyFile_Ok:
  "writeKeyFile F p d perm force fs = (Inr x, fs') \<Longrightarrow>
     fs' = fs(p \<mapsto> \<lparr>fl_data = d, fl_perm = perm\<rparr>) \<and> (force \<or> fs p = None)"
  by (auto simp: writeKeyFile_def Let_def split: if_splits option.splits)

text \<open>A computation that leaves the files alone which were there.\<close>

definition keepsFiles :: "files \<Rightarrow> files \<Rightarrow> bool" where
  "keepsFiles fs fs' \<longleftrightarrow> (\<forall>path f. fs path = Some f \<longrightarrow> fs' path = Some f)"

lemma keepsFiles_refl [simp]: "keepsFiles fs fs"
  by (simp add: keepsFiles_def)

lemma keepsFiles_trans: "keepsFiles a b \<Longrightarrow> keepsFiles b c \<Longrightarrow> keepsFiles a c"
  by (simp add: keepsFiles_def)

lemma keepsFiles_write: "keepsFiles fs (snd (writeKeyFile F p d perm False fs))"
  by (auto simp: keepsFiles_def writeKeyFile_def Let_def split: option.splits)

lemma keepsFiles_andThen:
  assumes "keepsFiles fs (snd m)" "\<And>x fs'. keepsFiles fs' (snd (f x fs'))"
  shows "keepsFiles fs (snd (andThen m f))"
proof (cases m)
  case (Pair r fs')
  then show ?thesis using assms keepsFiles_trans by (cases r) auto
qed

lemma keepsFiles_if: "(P \<Longrightarrow> keepsFiles fs (snd a)) \<Longrightarrow> (\<not> P \<Longrightarrow> keepsFiles fs (snd b)) \<Longrightarrow> keepsFiles fs (snd (if P then a else b))"
  by simp

lemma keepsFiles_snd: "keepsFiles fs (snd (x, fs))"
  by simp

lemmas keepsFiles_rules = keepsFiles_if keepsFiles_andThen keepsFiles_write keepsFiles_snd

lemma keepsFiles_kem: "keepsFiles fs (snd (generateSM2MLKEMKeyFiles tagged F M seed dir False fs))"
  unfolding generateSM2MLKEMKeyFiles_def by (intro keepsFiles_rules)

lemma keepsFiles_user: "keepsFiles fs (snd (generateUserKeys tagged F M mkdir u baseDir uid withKem False fs))"
  unfolding generateUserKeys_def Let_def by (intro keepsFiles_rules keepsFiles_kem)

lemma keepsFiles_all: "keepsFiles fs (snd (generateAll tagged F M mkdir u outDir withKem False ids fs))"
  by (induction ids arbitrary: fs) (auto intro!: keepsFiles_rules keepsFiles_user)

text \<open>Paths in a directory.\<close>

definition plainName :: "string \<Rightarrow> bool" where
  "plainName b \<longleftrightarrow> b \<noteq> [] \<and> CHR ''/'' \<notin> set b \<and> b \<noteq> ''.'' \<and> b \<noteq> ''..''"

lemma splitOn_not_Nil [simp]: "splitOn c s \<noteq> []"
  by (induction s) (auto split: list.split)

lemma splitOn_single: "c \<notin> set s \<Longrightarrow> splitOn c s = [s]"
  by (induction s) auto

lemma splitOn_append: "splitOn c (a @ c # b) = splitOn c a @ splitOn c b"
  by (induction a) (auto split: list.split)

lemma joinSlash_snoc: "joinSlash (out @ [b]) = (if out = [] then b else joinSlash out @ CHR ''/'' # b)"
  by (induction out rule: joinSlash.induct) auto

lemma joinPath_plain:
  assumes "plainName b"
  shows "\<exists>pre. joinPath a b = pre @ b \<and> (\<forall>c. plainName c \<longrightarrow> joinPath a c = pre @ c)"
proof (cases "a = []")
  case True
  have "joinPath a c = c" if "plainName c" for c
    using that True by (cases c) (auto simp: joinPath_def cleanPath_def splitOn_single pushComponent_def plainName_def)
  then show ?thesis using assms by (intro exI [of _ "[]"]) simp
next
  case False
  let ?r = "hd a = CHR ''/''"
  let ?out = "fold (pushComponent ?r) (splitOn (CHR ''/'') a) []"
  let ?pre = "(if ?r then [CHR ''/''] else []) @ (if ?out = [] then [] else joinSlash ?out @ [CHR ''/''])"
  have "joinPath a c = ?pre @ c" if "plainName c" for c
    using that False
    by (auto simp: joinPath_def cleanPath_def splitOn_append splitOn_single pushComponent_def plainName_def joinSlash_snoc Let_def)
  then show ?thesis using assms by blast
qed

lemma joinPath_inj: "plainName b \<Longrightarrow> plainName c \<Longrightarrow> joinPath a b = joinPath a c \<longleftrightarrow> b = c"
  using joinPath_plain [of b a] by (metis same_append_eq)

lemma plain_files [simp]:
  "plainName sm2PrivateKeyFile" "plainName sm2PublicKeyFile" "plainName sm2MLKEMPrivateKeyFile" "plainName sm2MLKEMPublicKeyFile"
  by (simp_all add: plainName_def sm2PrivateKeyFile_def sm2PublicKeyFile_def sm2MLKEMPrivateKeyFile_def sm2MLKEMPublicKeyFile_def)

lemma file_names_differ [simp]:
  "sm2PrivateKeyFile \<noteq> sm2PublicKeyFile" "sm2PrivateKeyFile \<noteq> sm2MLKEMPrivateKeyFile" "sm2PrivateKeyFile \<noteq> sm2MLKEMPublicKeyFile"
  "sm2PublicKeyFile \<noteq> sm2MLKEMPrivateKeyFile" "sm2PublicKeyFile \<noteq> sm2MLKEMPublicKeyFile"
  "sm2MLKEMPrivateKeyFile \<noteq> sm2MLKEMPublicKeyFile"
  by (simp_all add: sm2PrivateKeyFile_def sm2PublicKeyFile_def sm2MLKEMPrivateKeyFile_def sm2MLKEMPublicKeyFile_def)

lemmas key_paths = joinPath_inj file_names_differ [symmetric]

section \<open>Properties\<close>

lemma keepNew_filter:
  "keepNew seen parts = filter (\<lambda>x. x \<notin> seen) (rev (remdups (rev (filter (\<lambda>x. x \<noteq> []) (map TrimSpace parts)))))"
proof (induction parts arbitrary: seen)
  case (Cons p ps)
  have "rev (remdups (xs @ [x])) = x # filter (\<lambda>y. y \<noteq> x) (rev (remdups xs))" for x :: string and xs
    by (induction xs) auto
  then show ?case by (simp add: Cons.IH Let_def) (auto intro: filter_cong)
qed simp

text \<open>The list of identifiers holds the parts between the commas without surrounding white space, the
  empty ones left out and each one once, at its first place.\<close>

theorem ids_parsed:
  "parseIDs raw = rev (remdups (rev (filter (\<lambda>x. x \<noteq> []) (map TrimSpace (splitOn (CHR '','') raw)))))"
  by (simp add: parseIDs_def keepNew_filter)

text \<open>C39: without the force flag no run changes a file that was there, whatever the identifiers (also
  ones that lead out of the directory) and wherever it fails.\<close>

theorem no_key_overwritten:
  assumes "fs path = Some f"
  shows "snd (runGenKeys tagged F M mkdir u outDir idsFlag withSM2MLKEM False fs) path = Some f"
  using assms keepsFiles_all [of fs tagged F M mkdir u outDir withSM2MLKEM "parseIDs idsFlag"]
  by (simp add: runGenKeys_def Let_def keepsFiles_def)

lemma no_key_overwritten_witness:
  "snd (runGenKeys True \<lparr>fe_open = (\<lambda>_. False), fe_write = (\<lambda>_. None), fe_chmod = (\<lambda>_. False), fe_umask = (\<lambda>p. p)\<rparr>
     \<lparr>ml_public = (\<lambda>_. None), ml_valid = (\<lambda>_. True)\<rparr> (\<lambda>_. True) (\<lambda>_. \<lparr>uk_priv = Some [1], uk_pub = Some [2], uk_seed = None\<rparr>)
     ''k'' ''a,b'' True False [''k/a/public_key.pem'' \<mapsto> \<lparr>fl_data = [7], fl_perm = 0\<rparr>]) ''k/a/public_key.pem'' =
     Some \<lparr>fl_data = [7], fl_perm = 0\<rparr>"
  by (rule no_key_overwritten) simp

text \<open>When a user's keys are generated with success, the four files in the directory of the user hold
  them with their permissions, no other file has changed, and loading the hybrid files gives back a
  private and a public key that belong together.\<close>

theorem generated_keys_load:
  assumes "generateUserKeys tagged F M mkdir u baseDir uid True force fs = (Inr (), fs')" "mlkem_ok M"
  shows "\<exists>priv pub seed ek. uk_priv u = Some priv \<and> uk_pub u = Some pub \<and> uk_seed u = Some seed \<and> ml_public M seed = Some ek \<and>
    (let dir = joinPath baseDir uid in
       fs' = fs(joinPath dir sm2PrivateKeyFile \<mapsto> \<lparr>fl_data = priv, fl_perm = 0x180\<rparr>,
                joinPath dir sm2PublicKeyFile \<mapsto> \<lparr>fl_data = pub, fl_perm = 0x1A4\<rparr>,
                joinPath dir sm2MLKEMPrivateKeyFile \<mapsto> \<lparr>fl_data = seed, fl_perm = 0x180\<rparr>,
                joinPath dir sm2MLKEMPublicKeyFile \<mapsto> \<lparr>fl_data = ek, fl_perm = 0x1A4\<rparr>) \<and>
       LoadPrivateKey M (joinPath dir sm2MLKEMPrivateKeyFile) fs' = Inr \<lparr>kk_private = Some seed, kk_public = Some ek\<rparr> \<and>
       LoadPublicKey M (joinPath dir sm2MLKEMPublicKeyFile) fs' = Inr \<lparr>kk_private = None, kk_public = Some ek\<rparr> \<and>
       fs' (joinPath dir sm2PrivateKeyFile) = Some \<lparr>fl_data = priv, fl_perm = 0x180\<rparr> \<and>
       fs' (joinPath dir sm2PublicKeyFile) = Some \<lparr>fl_data = pub, fl_perm = 0x1A4\<rparr>)"
proof -
  let ?dir = "joinPath baseDir uid"
  obtain priv pub fs2 where a: "uk_priv u = Some priv" "uk_pub u = Some pub"
      "fs2 = fs(joinPath ?dir sm2PrivateKeyFile \<mapsto> \<lparr>fl_data = priv, fl_perm = 0x180\<rparr>,
                joinPath ?dir sm2PublicKeyFile \<mapsto> \<lparr>fl_data = pub, fl_perm = 0x1A4\<rparr>)"
      "generateSM2MLKEMKeyFiles tagged F M (uk_seed u) ?dir force fs2 = (Inr (), fs')"
    using assms(1) by (auto simp: generateUserKeys_def Let_def keys_Ok_iff dest!: writeKeyFile_Ok split: if_splits)
  obtain seed ek where b: "uk_seed u = Some seed" "ml_public M seed = Some ek" "length seed = kemPrivateKeySize"
      "fs' = fs2(joinPath ?dir sm2MLKEMPrivateKeyFile \<mapsto> \<lparr>fl_data = seed, fl_perm = 0x180\<rparr>,
                 joinPath ?dir sm2MLKEMPublicKeyFile \<mapsto> \<lparr>fl_data = ek, fl_perm = 0x1A4\<rparr>)" "length ek = kemPublicKeySize"
    using a(4)
    by (auto simp: generateSM2MLKEMKeyFiles_def keys_Ok_iff kem_GenerateKey_def ExportPrivateKey_def ExportPublicKey_def
        dest!: writeKeyFile_Ok split: if_splits option.splits)
  have v: "ml_valid M ek" using assms(2) b(2,3) by (auto simp: mlkem_ok_def)
  have "LoadPrivateKey M (joinPath ?dir sm2MLKEMPrivateKeyFile) fs' = Inr \<lparr>kk_private = Some seed, kk_public = Some ek\<rparr>"
    "LoadPublicKey M (joinPath ?dir sm2MLKEMPublicKeyFile) fs' = Inr \<lparr>kk_private = None, kk_public = Some ek\<rparr>"
    "fs' (joinPath ?dir sm2PrivateKeyFile) = Some \<lparr>fl_data = priv, fl_perm = 0x180\<rparr>"
    "fs' (joinPath ?dir sm2PublicKeyFile) = Some \<lparr>fl_data = pub, fl_perm = 0x1A4\<rparr>"
    using v b(2,3,5)
    by (simp_all add: b(4) a(3) key_paths LoadPrivateKey_def LoadPublicKey_def ImportPrivateKey_def ImportPublicKey_def)
  then show ?thesis using a b by (simp add: Let_def)
qed

definition exFileEnv :: fileEnv where
  "exFileEnv = \<lparr>fe_open = (\<lambda>_. False), fe_write = (\<lambda>_. None), fe_chmod = (\<lambda>_. False), fe_umask = (\<lambda>p. p)\<rparr>"

definition exMlkem :: mlkem where
  "exMlkem = \<lparr>ml_public = (\<lambda>_. Some (replicate kemPublicKeySize 1)), ml_valid = (\<lambda>_. True)\<rparr>"

definition exKeys :: userKeys where
  "exKeys = \<lparr>uk_priv = Some [1], uk_pub = Some [2], uk_seed = Some (replicate kemPrivateKeySize 0)\<rparr>"

lemma writeKeyFile_ex:
  "fs p = None \<Longrightarrow> writeKeyFile exFileEnv p d perm force fs = (Inr (), fs(p \<mapsto> \<lparr>fl_data = d, fl_perm = perm\<rparr>))"
  by (simp add: writeKeyFile_def exFileEnv_def Let_def)

lemma generated_keys_load_witness:
  "\<exists>fs'. generateUserKeys True exFileEnv exMlkem (\<lambda>_. True) exKeys ''k'' ''a'' True False Map.empty = (Inr (), fs') \<and>
     (\<exists>k. LoadPrivateKey exMlkem (joinPath (joinPath ''k'' ''a'') sm2MLKEMPrivateKeyFile) fs' = Inr k)"
proof -
  have m: "mlkem_ok exMlkem" by (simp add: mlkem_ok_def exMlkem_def)
  obtain fs' where g: "generateUserKeys True exFileEnv exMlkem (\<lambda>_. True) exKeys ''k'' ''a'' True False Map.empty = (Inr (), fs')"
    by (simp add: generateUserKeys_def generateSM2MLKEMKeyFiles_def Let_def exKeys_def required_def kem_GenerateKey_def
        ExportPrivateKey_def ExportPublicKey_def sized_def exMlkem_def writeKeyFile_ex key_paths)
  from generated_keys_load [OF g m] g show ?thesis by (auto simp: Let_def)
qed

text \<open>A run that fails leaves half of a pair behind: where only the public key file of a user exists,
  the new private key is written before the old public key is found, and stays; the two files of the
  user then belong to different pairs.\<close>

theorem failed_run_mixes_keys:
  assumes "mkdir (joinPath baseDir uid)" "uk_priv u = Some priv" "uk_pub u = Some pub"
    "fs (joinPath (joinPath baseDir uid) sm2PrivateKeyFile) = None" "fs (joinPath (joinPath baseDir uid) sm2PublicKeyFile) = Some old"
    "F = exFileEnv"
  shows "generateUserKeys tagged F M mkdir u baseDir uid withSM2MLKEM False fs =
    (Inl (AlreadyExists (joinPath (joinPath baseDir uid) sm2PublicKeyFile)),
     fs(joinPath (joinPath baseDir uid) sm2PrivateKeyFile \<mapsto> \<lparr>fl_data = priv, fl_perm = 0x180\<rparr>))"
  using assms
  by (simp add: generateUserKeys_def Let_def required_def writeKeyFile_ex key_paths)
    (simp add: writeKeyFile_def exFileEnv_def)

lemma failed_run_mixes_keys_witness:
  "snd (generateUserKeys False exFileEnv exMlkem (\<lambda>_. True) exKeys ''k'' ''a'' False False
     [joinPath (joinPath ''k'' ''a'') sm2PublicKeyFile \<mapsto> \<lparr>fl_data = [7], fl_perm = 0\<rparr>])
     (joinPath (joinPath ''k'' ''a'') sm2PrivateKeyFile) = Some \<lparr>fl_data = [1], fl_perm = 0x180\<rparr>"
  using failed_run_mixes_keys [where mkdir = "\<lambda>_. True" and u = exKeys and baseDir = "''k''" and uid = "''a''" and priv = "[1]"
      and pub = "[2]" and fs = "[joinPath (joinPath ''k'' ''a'') sm2PublicKeyFile \<mapsto> \<lparr>fl_data = [7], fl_perm = 0\<rparr>]"
      and old = "\<lparr>fl_data = [7], fl_perm = 0\<rparr>" and F = exFileEnv and tagged = False and M = exMlkem and withSM2MLKEM = False]
  by (simp add: exKeys_def key_paths)

end
