(* ===== verification/Client.thy ===== *)
theory Client
  imports Relay
begin

text \<open>
  The command line client: its configuration (\<open>configparser\<close>), the message builder (\<open>builder.go\<close>), and
  what it prints of a frame (\<open>parseMsg\<close> in \<open>ws_client.go\<close>).  JSON and YAML decoding are arguments, the
  rest of the codec is the parser's.
\<close>

section \<open>Configuration\<close>

record ClientConfig =
  cc_OperationID :: string
  cc_SendID :: string
  cc_ReceiveID :: string
  cc_SenderNickname :: string
  cc_Token :: string
  cc_ServerAddr :: string

datatype Parser = JsonParser string | YamlParser string

text \<open>\<open>filepath.Ext\<close>, and \<open>strings.ToLower\<close> on the letters of ASCII (no other letter has a lower case
  among those of the known suffixes).\<close>

definition pathExt :: "string \<Rightarrow> string" where
  "pathExt path =
     (let base = takeWhile (\<lambda>c. c \<noteq> CHR ''/'') (rev path) in
      if CHR ''.'' \<in> set base then CHR ''.'' # rev (takeWhile (\<lambda>c. c \<noteq> CHR ''.'') base) else [])"

definition lowerChar :: "char \<Rightarrow> char" where
  "lowerChar c = (if CHR ''A'' \<le> c \<and> c \<le> CHR ''Z'' then char_of (of_char c + 32 :: nat) else c)"

definition NewParser :: "string \<Rightarrow> Parser option" where
  "NewParser configPath =
     (let fileExt = map lowerChar (pathExt configPath) in
      if fileExt = ''.json'' then Some (JsonParser configPath)
      else if fileExt = ''.yaml'' then Some (YamlParser configPath)
      else None)"

datatype cfgError = CfgFile | CfgSyntax | CfgRequired string

definition complete :: "ClientConfig \<Rightarrow> bool" where
  "complete c \<longleftrightarrow>
     \<not> (cc_OperationID c = [] \<or> cc_SendID c = [] \<or> cc_ReceiveID c = [] \<or> cc_SenderNickname c = [] \<or> cc_Token c = [] \<or>
        cc_ServerAddr c = [])"

text \<open>\<open>files\<close> gives the contents of the files that can be read; \<open>json\<close> reads the first JSON value.\<close>

definition ParseFromConfigFile ::
  "(string \<Rightarrow> bytes option) \<Rightarrow> (bytes \<Rightarrow> ClientConfig option) \<Rightarrow> (bytes \<Rightarrow> ClientConfig option) \<Rightarrow> Parser \<Rightarrow>
   cfgError + ClientConfig" where
  "ParseFromConfigFile files json yaml p =
     (case p of
        JsonParser path \<Rightarrow>
          (case files path of None \<Rightarrow> Inl CfgFile
           | Some b \<Rightarrow>
               (case json b of None \<Rightarrow> Inl CfgSyntax
                | Some c \<Rightarrow> if \<not> complete c then Inl (CfgRequired ''operationID, sendID, token, serverAddr are required'') else Inr c))
      | YamlParser path \<Rightarrow>
          (case files path of None \<Rightarrow> Inl CfgFile
           | Some b \<Rightarrow>
               (case yaml b of None \<Rightarrow> Inl CfgSyntax
                | Some c \<Rightarrow>
                    if \<not> complete c
                    then Inl (CfgRequired ''operationID, sendID, receiveID, senderNickname, token, serverAddr are required'')
                    else Inr c)))"

section \<open>The builder\<close>

text \<open>\<open>bd_offline\<close> is the encoded push information (empty for nil), one of the fields of the message that
  only travel along.\<close>

record Builder =
  bd_sendID :: string
  bd_recvID :: string
  bd_nickname :: string
  bd_offline :: bytes
  bd_msgData :: "sdkMsg option"
  bd_req :: "Req option"

definition NewBuilder :: "string \<Rightarrow> string \<Rightarrow> string \<Rightarrow> Builder" where
  "NewBuilder sendID recvID nickname =
     \<lparr>bd_sendID = sendID, bd_recvID = recvID, bd_nickname = nickname, bd_offline = [], bd_msgData = None, bd_req = None\<rparr>"

definition OfflinePushInfo :: "bytes \<Rightarrow> Builder \<Rightarrow> Builder" where
  "OfflinePushInfo info b = b\<lparr>bd_offline := info\<rparr>"

text \<open>The content is put between quotes as it is.\<close>

definition quote :: char where "quote = CHR 0x22"

definition jsonContent :: "string \<Rightarrow> bytes" where
  "jsonContent msg =
     bytes_of_string (CHR ''{'' # quote # ''content'' @ [quote, CHR '':'', quote] @ msg @ [quote, CHR ''}''])"

text \<open>When the random identifier cannot be drawn it is empty, after a line of output.\<close>

definition builder_MsgData :: "nat option list \<Rightarrow> int \<Rightarrow> string \<Rightarrow> Builder \<Rightarrow> Builder" where
  "builder_MsgData draws now msg b =
     (let clientMsgID = (case randomString 32 draws of Ok x \<Rightarrow> x | _ \<Rightarrow> []) in
      b\<lparr>bd_msgData := Some
        \<lparr>sd_SendID = bd_sendID b, sd_RecvID = bd_recvID b, sd_ClientMsgID = clientMsgID, sd_ServerMsgID = [],
         sd_SenderPlatformID = 5, sd_SenderNickname = bd_nickname b, sd_SessionType = 1, sd_MsgFrom = 100,
         sd_ContentType = 101, sd_Content = jsonContent msg, sd_Seq = 0, sd_CreateTime = now, sd_Status = 1,
         sd_Options = [], sd_AttachedInfo = ''null'', sd_Ex = [], sd_other = bd_offline b\<rparr>\<rparr>)"

definition builder_Req :: "string \<Rightarrow> int \<Rightarrow> bytes \<Rightarrow> Builder \<Rightarrow> Builder" where
  "builder_Req uuid now dat b =
     b\<lparr>bd_req := Some
       \<lparr>rq_ReqIdentifier = 1003, rq_Token = [], rq_SendID = bd_sendID b, rq_OperationID = uuid,
        rq_MsgIncr = bd_sendID b @ ''_'' @ decimal now, rq_Data = dat\<rparr>\<rparr>"

text \<open>Errors of encoding and compressing are only printed: what failed counts as no bytes.\<close>

definition Build :: "codec \<Rightarrow> Builder \<Rightarrow> bytes" where
  "Build K b =
     (let encodeData = (case Option.bind (bd_req b) (enc_Req K) of None \<Rightarrow> [] | Some d \<Rightarrow> d)
      in case compress K encodeData of None \<Rightarrow> [] | Some d \<Rightarrow> d)"

text \<open>One line of input (\<open>main\<close>): the frame that is written, \<open>None\<close> when marshalling fails and the program
  ends.\<close>

definition sendInput :: "codec \<Rightarrow> bytes \<Rightarrow> nat option list \<Rightarrow> string \<Rightarrow> int \<Rightarrow> string \<Rightarrow> Builder \<Rightarrow> (bytes \<times> Builder) option" where
  "sendInput K info draws uuid now input b =
     (let b1 = builder_MsgData draws now input (OfflinePushInfo info b) in
      case Option.bind (bd_msgData b1) (pb_marshalMsg K) of
        None \<Rightarrow> None
      | Some msgBytes \<Rightarrow> let b2 = builder_Req uuid now msgBytes b1 in Some (Build K b2, b2))"

section \<open>Reading a frame\<close>

text \<open>\<open>json\<close> gives the content field of a JSON object.  One message that is not JSON makes the whole frame
  fail; a nil message or conversation is dereferenced.\<close>

fun parseMsgs :: "(bytes \<Rightarrow> string option) \<Rightarrow> string \<Rightarrow> sdkMsg option list \<Rightarrow> (string \<times> string) list res" where
  "parseMsgs json conv [] = Ok []"
| "parseMsgs json conv (None # ms) = Panic ''nil pointer dereference''"
| "parseMsgs json conv (Some m # ms) =
     bind_res (of_option LibError (json (sd_Content m))) (\<lambda>c.
     bind_res (parseMsgs json conv ms) (\<lambda>r. Ok ((conv, c) # r)))"

fun parsePush :: "(bytes \<Rightarrow> string option) \<Rightarrow> pushMessages \<Rightarrow> (string \<times> string) list res" where
  "parsePush json [] = Ok []"
| "parsePush json ((conv, None) # ps) = Panic ''nil pointer dereference''"
| "parsePush json ((conv, Some pl) # ps) =
     bind_res (parseMsgs json conv (pm_Msgs pl)) (\<lambda>a. bind_res (parsePush json ps) (\<lambda>r. Ok (a @ r)))"

definition parseMsg :: "codec \<Rightarrow> (bytes \<Rightarrow> string option) \<Rightarrow> bytes \<Rightarrow> (string list \<times> string list) res" where
  "parseMsg K json msg =
     bind_res (of_option LibError (decompress K msg)) (\<lambda>d.
     bind_res (of_option LibError (dec_Resp K d)) (\<lambda>resp.
     bind_res (of_option LibError (pb_unmarshalPush K (rs_Data resp))) (\<lambda>push.
     bind_res (parsePush json push) (\<lambda>r. Ok (map fst r, map snd r)))))"

section \<open>Properties\<close>

text \<open>Both formats accept exactly the files that decode to a configuration without an empty field.\<close>

lemma config_accepted:
  "ParseFromConfigFile files json yaml p = Inr c \<longleftrightarrow>
     complete c \<and> (case p of JsonParser path \<Rightarrow> Option.bind (files path) json = Some c
                    | YamlParser path \<Rightarrow> Option.bind (files path) yaml = Some c)"
  by (auto simp: ParseFromConfigFile_def split: Parser.splits option.splits)

text \<open>What JSON decoding does with the builder's text, by its grammar: characters other than the quote,
  the backslash and the controls stand for themselves.\<close>

definition plainText :: "string \<Rightarrow> bool" where
  "plainText t \<longleftrightarrow> (\<forall>c \<in> set t. c \<noteq> quote \<and> c \<noteq> CHR 0x5C \<and> (32 :: nat) \<le> of_char c \<and> (of_char c :: nat) < 127)"

definition json_ok :: "(bytes \<Rightarrow> string option) \<Rightarrow> bool" where
  "json_ok json \<longleftrightarrow> (\<forall>t. plainText t \<longrightarrow> json (jsonContent t) = Some t)"

definition builtMsg :: "bytes \<Rightarrow> nat option list \<Rightarrow> int \<Rightarrow> string \<Rightarrow> Builder \<Rightarrow> sdkMsg" where
  "builtMsg info draws now input b = the (bd_msgData (builder_MsgData draws now input (OfflinePushInfo info b)))"

lemma builtMsg_simps [simp]:
  "sd_SendID (builtMsg info draws now input b) = bd_sendID b" "sd_RecvID (builtMsg info draws now input b) = bd_recvID b"
  "sd_SessionType (builtMsg info draws now input b) = 1" "sd_ContentType (builtMsg info draws now input b) = 101"
  "sd_Content (builtMsg info draws now input b) = jsonContent input" "sd_Ex (builtMsg info draws now input b) = []"
  by (simp_all add: builtMsg_def builder_MsgData_def OfflinePushInfo_def Let_def)

definition builtReq :: "string \<Rightarrow> int \<Rightarrow> bytes \<Rightarrow> Builder \<Rightarrow> Req" where
  "builtReq uuid now db b = the (bd_req (builder_Req uuid now db b))"

lemma builtReq_simps [simp]:
  "rq_ReqIdentifier (builtReq uuid now db b) = 1003" "rq_SendID (builtReq uuid now db b) = bd_sendID b"
  "rq_Data (builtReq uuid now db b) = db"
  by (simp_all add: builtReq_def builder_Req_def)

lemma sendInput_frame:
  assumes "pb_marshalMsg K (builtMsg info draws now input b) = Some db" "enc_Req K (builtReq uuid now db b) = Some d"
    "compress K d = Some fr"
  shows "\<exists>b'. sendInput K info draws uuid now input b = Some (fr, b')"
proof -
  let ?b1 = "builder_MsgData draws now input (OfflinePushInfo info b)"
  have m: "bd_msgData ?b1 = Some (builtMsg info draws now input b)" "bd_sendID ?b1 = bd_sendID b"
    by (simp_all add: builtMsg_def builder_MsgData_def OfflinePushInfo_def Let_def)
  have "bd_req (builder_Req uuid now db ?b1) = Some (builtReq uuid now db b)"
    using m(2) by (simp add: builder_Req_def builtReq_def)
  then show ?thesis using m(1) assms by (simp add: sendInput_def Build_def Let_def)
qed

text \<open>What the client sends is what the secure connection protects: given to its writer, the frame of
  an input line is recognised as a message to encrypt, with the builder's text as its content.\<close>

theorem built_message_is_secured:
  assumes "codec_ok K" "pb_marshalMsg K (builtMsg info draws now input b) = Some db"
    "enc_Req K (builtReq uuid now db b) = Some d" "compress K d = Some fr" "bd_sendID b \<noteq> []" "bd_recvID b \<noteq> []"
  shows "\<exists>b' m. sendInput K info draws uuid now input b = Some (fr, b') \<and> BytesToMsgDataWriteBound K fr = Ok m \<and>
    GetContent m = jsonContent input \<and> GetSendID m = bd_sendID b \<and> GetRecvID m = bd_recvID b"
proof -
  obtain b' where f: "sendInput K info draws uuid now input b = Some (fr, b')" using sendInput_frame [OF assms(2-4)] by blast
  have "decodeAndDecompressWriteBound K fr = Ok (builtReq uuid now db b)"
    using codec_okD(5) [OF assms(1,4)] codec_okD(3) [OF assms(1,3)] by (simp add: decodeAndDecompressWriteBound_def)
  moreover have "pb_unmarshalMsg K db = Some (builtMsg info draws now input b)" using codec_okD(1) [OF assms(1,2)] .
  ultimately show ?thesis
    using f assms(5,6)
    by (simp add: BytesToMsgDataWriteBound_def shouldSecureOutbound_def secureTextContentType_def GetContent_def GetSendID_def GetRecvID_def)
qed

text \<open>From one client to the other, without the secure connection: a line of plain characters that is
  built, sent and relayed is printed by the receiver's client as it was typed, under the
  conversation the relay names.\<close>

theorem client_message_read:
  assumes "codec_ok K" "json_ok json" "plainText input" "\<And>z. compress K z = Some z"
    "pb_marshalMsg K (builtMsg info draws now input b) = Some db" "enc_Req K (builtReq uuid now db b) = Some fr" "db \<noteq> []"
    "pb_marshalPush K (relayPush (builtMsg info draws now input b)) = Some pb"
    "enc_Resp K (relayResp (builtReq uuid now db b) pb) = Some out" "conns (bd_recvID b) = Some w"
  shows "\<exists>b'. sendInput K info draws uuid now input b = Some (fr, b') \<and> relayFrame K conns fr = [(w, out)] \<and>
    parseMsg K json out = Ok ([bd_recvID b], [input])"
proof -
  let ?m = "builtMsg info draws now input b"
  obtain b' where f: "sendInput K info draws uuid now input b = Some (fr, b')"
    using sendInput_frame [OF assms(5,6) assms(4)] by blast
  have d: "dec_Req K fr = Some (builtReq uuid now db b)" "pb_unmarshalMsg K db = Some ?m"
    using codec_okD(3) [OF assms(1,6)] codec_okD(1) [OF assms(1,5)] by simp_all
  have r: "relayFrame K conns fr = [(w, out)]"
    using d assms(7-10) by (simp add: relayFrame_def Let_def)
  have "decompress K out = Some out" "dec_Resp K out = Some (relayResp (builtReq uuid now db b) pb)"
      "pb_unmarshalPush K pb = Some (relayPush ?m)"
    using codec_okD(5) [OF assms(1) assms(4) [where z = out]] codec_okD(4) [OF assms(1,9)] codec_okD(2) [OF assms(1,8)] by simp_all
  moreover have "json (jsonContent input) = Some input" using assms(2,3) by (simp add: json_ok_def)
  ultimately have "parseMsg K json out = Ok ([bd_recvID b], [input])"
    by (simp add: parseMsg_def relayPush_def) (simp add: relayResp_def)
  then show ?thesis using f r by blast
qed

section \<open>Example\<close>

definition exBuilder :: Builder where
  "exBuilder = NewBuilder ''a'' ''b'' ''n''"

text \<open>The text of the only message, cut out of its quotes.\<close>

definition exJson :: "bytes \<Rightarrow> string option" where
  "exJson x = Some (map (\<lambda>w. char_of (unat w)) (butlast (butlast (drop 12 x))))"

lemma char_of_byte [simp]: "char_of (unat (of_char c :: byte)) = c"
proof -
  have "(of_char c :: byte) = of_nat (of_char c)" by (simp only: of_nat_of_char)
  then have "unat (of_char c :: byte) = of_char c" using unat_of_nat_byte [of "of_char c"] by simp
  then show ?thesis by simp
qed

lemma exJson_ok: "json_ok exJson"
  by (simp add: json_ok_def exJson_def jsonContent_def bytes_of_string_def butlast_append comp_def)

definition exClientCodec :: codec where
  "exClientCodec = (let m = builtMsg [] [] 0 ''hi'' exBuilder; req = builtReq ''u'' 0 [0] exBuilder in
     table_codec (m, m) (relayPush m, relayPush m) (req, req) (relayResp req [0], relayResp req [0]))"

lemma exClientCodec_simps [simp]:
  "codec_ok exClientCodec" "compress exClientCodec z = Some z"
  "pb_marshalMsg exClientCodec (builtMsg [] [] 0 ''hi'' exBuilder) = Some [0]"
  "enc_Req exClientCodec (builtReq ''u'' 0 [0] exBuilder) = Some [0]"
  "pb_marshalPush exClientCodec (relayPush (builtMsg [] [] 0 ''hi'' exBuilder)) = Some [0]"
  "enc_Resp exClientCodec (relayResp (builtReq ''u'' 0 [0] exBuilder) [0]) = Some [0]"
  by (simp_all add: exClientCodec_def Let_def table_codec_ok) (simp_all add: table_codec_def enc2_def)

lemma built_message_is_secured_witness:
  "\<exists>m. BytesToMsgDataWriteBound exClientCodec [0] = Ok m \<and> GetContent m = jsonContent ''hi'' \<and> GetRecvID m = ''b''"
proof -
  have "bd_sendID exBuilder \<noteq> []" "bd_recvID exBuilder \<noteq> []" "bd_recvID exBuilder = ''b''" by (simp_all add: exBuilder_def NewBuilder_def)
  with built_message_is_secured [OF exClientCodec_simps(1,3,4,2)] show ?thesis by auto
qed

lemma client_message_read_witness:
  "relayFrame exClientCodec [''b'' \<mapsto> 7] [0] = [(7, [0])] \<and> parseMsg exClientCodec exJson [0] = Ok ([''b''], [''hi''])"
proof -
  have p: "plainText ''hi''" by (simp add: plainText_def quote_def)
  have c: "[''b'' \<mapsto> 7] (bd_recvID exBuilder) = Some (7 :: nat)" and n: "[0 :: byte] \<noteq> []" and r: "bd_recvID exBuilder = ''b''"
    by (simp_all add: exBuilder_def NewBuilder_def)
  from client_message_read [where conns = "[''b'' \<mapsto> 7]" and b = exBuilder, OF exClientCodec_simps(1) exJson_ok p exClientCodec_simps(2-4) n exClientCodec_simps(5,6) c] r
  show ?thesis by auto
qed

end
