(* ===== verification/CLib.thy ===== *)
theory CLib
  imports Prelude
begin

text \<open>
  The memory that the Go code of \<open>crypto\<close> shares with the C library through cgo: objects that a C call
  allocates, that Go code must free, by a deferred call or by a finalizer, and that nobody else frees.
  \<open>bindC\<close> is statement sequence, \<open>deferC\<close> is Go's \<open>defer\<close>, which also runs when the function panics.
  What the library answers is a parameter and may depend on how many calls were made before, so that
  every call may fail.  \<open>tidy\<close> is the contract of an operation that frees all it allocates.
\<close>

section \<open>Objects\<close>

text \<open>An \<open>EVP_PKEY\<close>: its key material, and the type that \<open>EVP_PKEY_set_alias_type\<close> changes.\<close>

record evpKey =
  ek_mat :: bytes
  ek_type :: nat

datatype cObj =
    KeyObj evpKey | EcObj bytes | KapObj bytes | BioObj bytes | BufObj bytes | MdCtxObj | KeyCtxObj
  | BnObj nat | SigObj "(nat \<times> nat) option"

text \<open>
  The C side of the process: the objects that are allocated, the next address, the objects that a Go
  finalizer frees, the number of calls so far, and whether an object was used or freed after it was freed.
\<close>

record cst =
  cs_live :: "nat \<Rightarrow> cObj option"
  cs_next :: nat
  cs_fin :: "nat set"
  cs_calls :: nat
  cs_bad :: bool

definition initC :: cst where
  "initC = \<lparr>cs_live = (\<lambda>_. None), cs_next = 0, cs_fin = {}, cs_calls = 0, cs_bad = False\<rparr>"

section \<open>Operations\<close>

type_synonym 'a cop = "cst \<Rightarrow> 'a res \<times> cst"

definition returnC :: "'a \<Rightarrow> 'a cop" where "returnC x s = (Ok x, s)"
definition failC :: "error \<Rightarrow> 'a cop" where "failC e s = (Fail e, s)"
definition panicC :: "string \<Rightarrow> 'a cop" where "panicC p s = (Panic p, s)"

definition bindC :: "'a cop \<Rightarrow> ('a \<Rightarrow> 'b cop) \<Rightarrow> 'b cop" where
  "bindC m f s =
     (case m s of
        (Ok x, s') \<Rightarrow> f x s'
      | (Fail e, s') \<Rightarrow> (Fail e, s')
      | (Panic p, s') \<Rightarrow> (Panic p, s'))"

definition deferC :: "(cst \<Rightarrow> cst) \<Rightarrow> 'a cop \<Rightarrow> 'a cop" where
  "deferC final m s = (case m s of (r, s') \<Rightarrow> (r, final s'))"

text \<open>A call whose answer the library decides, given how many were made before.\<close>

definition callC :: "(nat \<Rightarrow> 'a) \<Rightarrow> 'a cop" where
  "callC f s = (Ok (f (cs_calls s)), s\<lparr>cs_calls := Suc (cs_calls s)\<rparr>)"

definition okC :: "error \<Rightarrow> (nat \<Rightarrow> bool) \<Rightarrow> unit cop" where
  "okC e f = bindC (callC f) (\<lambda>ok. if ok then returnC () else failC e)"

definition someC :: "error \<Rightarrow> (nat \<Rightarrow> 'a option) \<Rightarrow> 'a cop" where
  "someC e f = bindC (callC f) (\<lambda>r. case r of None \<Rightarrow> failC e | Some x \<Rightarrow> returnC x)"

text \<open>A call that returns a new object, or \<open>NULL\<close>.\<close>

definition newC :: "(nat \<Rightarrow> cObj option) \<Rightarrow> nat option cop" where
  "newC f s =
     (let s1 = s\<lparr>cs_calls := Suc (cs_calls s)\<rparr> in
      case f (cs_calls s) of
        None \<Rightarrow> (Ok None, s1)
      | Some obj \<Rightarrow> (Ok (Some (cs_next s)), s1\<lparr>cs_live := (cs_live s)(cs_next s \<mapsto> obj), cs_next := Suc (cs_next s)\<rparr>))"

text \<open>Freeing \<open>NULL\<close> does nothing; freeing what is not allocated is the error \<open>cs_bad\<close> records.\<close>

definition freeC :: "nat option \<Rightarrow> cst \<Rightarrow> cst" where
  "freeC p s =
     (case p of
        None \<Rightarrow> s
      | Some h \<Rightarrow> if cs_live s h = None then s\<lparr>cs_bad := True\<rparr> else s\<lparr>cs_live := (cs_live s)(h := None)\<rparr>)"

definition useC :: "nat \<Rightarrow> cObj cop" where
  "useC h s =
     (case cs_live s h of
        None \<Rightarrow> (Panic ''invalid memory address'', s\<lparr>cs_bad := True\<rparr>)
      | Some obj \<Rightarrow> (Ok obj, s))"

definition writeC :: "nat \<Rightarrow> cObj \<Rightarrow> unit cop" where
  "writeC h obj s =
     (case cs_live s h of
        None \<Rightarrow> (Panic ''invalid memory address'', s\<lparr>cs_bad := True\<rparr>)
      | Some _ \<Rightarrow> (Ok (), s\<lparr>cs_live := (cs_live s)(h \<mapsto> obj)\<rparr>))"

text \<open>\<open>runtime.SetFinalizer\<close>, and the collector running the finalizer of an object.\<close>

definition finalizerC :: "nat \<Rightarrow> unit cop" where
  "finalizerC h s = (Ok (), s\<lparr>cs_fin := insert h (cs_fin s)\<rparr>)"

definition collectC :: "nat \<Rightarrow> cst \<Rightarrow> cst" where
  "collectC h s = (if h \<in> cs_fin s then freeC (Some h) (s\<lparr>cs_fin := cs_fin s - {h}\<rparr>) else s)"

section \<open>Ownership\<close>

text \<open>What no finalizer frees: at the end of an operation it is lost, or the caller's to free.\<close>

definition unowned :: "cst \<Rightarrow> nat set" where
  "unowned s = dom (cs_live s) - cs_fin s"

definition cst_ok :: "cst \<Rightarrow> bool" where
  "cst_ok s \<longleftrightarrow> \<not> cs_bad s \<and> dom (cs_live s) \<subseteq> {..<cs_next s} \<and> cs_fin s \<subseteq> dom (cs_live s)"

text \<open>
  The operation uses the objects of \<open>R\<close> and may change those of \<open>W\<close>: the other objects stay as they
  are, and when it ends, in whatever way, there is nothing new that no finalizer frees.
\<close>

definition tidy :: "nat set \<Rightarrow> nat set \<Rightarrow> 'a cop \<Rightarrow> bool" where
  "tidy R W m \<longleftrightarrow>
     (\<forall>s r s'. cst_ok s \<longrightarrow> R \<union> W \<subseteq> dom (cs_live s) \<longrightarrow> m s = (r, s') \<longrightarrow>
        cst_ok s' \<and> unowned s' = unowned s \<and> cs_fin s \<subseteq> cs_fin s' \<and> cs_next s \<le> cs_next s' \<and>
        (\<forall>h\<in>dom (cs_live s). h \<in> dom (cs_live s') \<and> (h \<notin> W \<longrightarrow> cs_live s' h = cs_live s h)))"

named_theorems tidy_intros \<open>operations that free what they allocate\<close>
named_theorems run_simps \<open>running an operation\<close>

lemmas [run_simps] = returnC_def failC_def panicC_def

lemma run_bind [run_simps]:
  "m s = (Ok x, s') \<Longrightarrow> bindC m f s = f x s'"
  "m s = (Fail e, s') \<Longrightarrow> bindC m f s = (Fail e, s')"
  "m s = (Panic p, s') \<Longrightarrow> bindC m f s = (Panic p, s')"
  by (simp_all add: bindC_def)

lemma tidyD:
  assumes "tidy R W m" "m s = (r, s')" "cst_ok s" "R \<union> W \<subseteq> dom (cs_live s)"
  shows "cst_ok s'" "unowned s' = unowned s" "cs_fin s \<subseteq> cs_fin s'" "cs_next s \<le> cs_next s'"
    "dom (cs_live s) \<subseteq> dom (cs_live s')" "h \<in> dom (cs_live s) \<Longrightarrow> h \<notin> W \<Longrightarrow> cs_live s' h = cs_live s h"
  using assms unfolding tidy_def by blast+

lemma tidy_mono:
  assumes "tidy R W m" "R \<subseteq> R'" "W \<subseteq> W'"
  shows "tidy R' W' m"
  unfolding tidy_def
proof (intro allI impI)
  fix s r s'
  assume s: "cst_ok s" "R' \<union> W' \<subseteq> dom (cs_live s)" "m s = (r, s')"
  have "R \<union> W \<subseteq> dom (cs_live s)" using s(2) assms(2,3) by blast
  note t = tidyD [OF assms(1) s(3,1) this]
  show "cst_ok s' \<and> unowned s' = unowned s \<and> cs_fin s \<subseteq> cs_fin s' \<and> cs_next s \<le> cs_next s' \<and>
    (\<forall>h\<in>dom (cs_live s). h \<in> dom (cs_live s') \<and> (h \<notin> W' \<longrightarrow> cs_live s' h = cs_live s h))"
    using t assms(3) by blast
qed

lemma tidy_state:
  assumes "tidy R W m" "\<And>s. snd (m' s) = snd (m s)"
  shows "tidy R W m'"
  unfolding tidy_def
proof (intro allI impI)
  fix s r s'
  assume s: "cst_ok s" "R \<union> W \<subseteq> dom (cs_live s)" "m' s = (r, s')"
  obtain q where m: "m s = (q, s')" using s(3) assms(2) [of s] by (cases "m s") simp
  note t = tidyD [OF assms(1) m s(1,2)]
  show "cst_ok s' \<and> unowned s' = unowned s \<and> cs_fin s \<subseteq> cs_fin s' \<and> cs_next s \<le> cs_next s' \<and>
    (\<forall>h\<in>dom (cs_live s). h \<in> dom (cs_live s') \<and> (h \<notin> W \<longrightarrow> cs_live s' h = cs_live s h))"
    using t by blast
qed

lemma tidy_pure [tidy_intros]:
  "tidy R W (returnC x)" "tidy R W (failC e)" "tidy R W (panicC p)"
  by (simp_all add: tidy_def run_simps)

lemma tidy_call [tidy_intros]: "tidy R W (callC f)"
  by (auto simp: tidy_def callC_def cst_ok_def unowned_def)

lemma tidy_use [tidy_intros]: "h \<in> R \<union> W \<Longrightarrow> tidy R W (useC h)"
  by (fastforce simp: tidy_def useC_def split: option.splits)

lemma tidy_write [tidy_intros]: "h \<in> W \<Longrightarrow> tidy R W (writeC h obj)"
  by (auto simp: tidy_def writeC_def cst_ok_def unowned_def dom_def split: option.splits if_splits)

lemma tidy_bind [tidy_intros]:
  assumes "tidy R W m" "\<And>x. tidy R W (f x)"
  shows "tidy R W (bindC m f)"
  unfolding tidy_def
proof (intro allI impI)
  fix s r s'
  assume s: "cst_ok s" "R \<union> W \<subseteq> dom (cs_live s)" "bindC m f s = (r, s')"
  obtain q s1 where m: "m s = (q, s1)" by fastforce
  note t = tidyD [OF assms(1) m s(1,2)]
  show "cst_ok s' \<and> unowned s' = unowned s \<and> cs_fin s \<subseteq> cs_fin s' \<and> cs_next s \<le> cs_next s' \<and>
    (\<forall>h\<in>dom (cs_live s). h \<in> dom (cs_live s') \<and> (h \<notin> W \<longrightarrow> cs_live s' h = cs_live s h))"
  proof (cases q)
    case (Ok x)
    have f: "f x s1 = (r, s')" using s(3) m Ok by (simp add: run_simps)
    have "R \<union> W \<subseteq> dom (cs_live s1)" using s(2) t(5) by blast
    note u = tidyD [OF assms(2) f t(1) this]
    show ?thesis using t u by (metis order_trans subsetD)
  next
    case (Fail e)
    then have "s' = s1" using s(3) m by (simp add: run_simps)
    then show ?thesis using t by blast
  next
    case (Panic p)
    then have "s' = s1" using s(3) m by (simp add: run_simps)
    then show ?thesis using t by blast
  qed
qed

lemma tidy_okC [tidy_intros]: "tidy R W (okC e f)"
  unfolding okC_def by (intro tidy_bind tidy_call) (simp add: tidy_intros)

lemma tidy_someC [tidy_intros]: "tidy R W (someC e f)"
  unfolding someC_def by (intro tidy_bind tidy_call) (simp add: tidy_intros split: option.split)

lemma tidy_if [tidy_intros]: "(b \<Longrightarrow> tidy R W m) \<Longrightarrow> (\<not> b \<Longrightarrow> tidy R W m') \<Longrightarrow> tidy R W (if b then m else m')"
  by simp

lemma newC_Some:
  assumes "newC f s = (q, s1)" "cst_ok s"
  obtains "q = Ok None" "s1 = s\<lparr>cs_calls := Suc (cs_calls s)\<rparr>"
  | h obj where "q = Ok (Some h)" "h = cs_next s" "h \<notin> dom (cs_live s)" "cst_ok s1" "cs_fin s1 = cs_fin s"
      "cs_next s1 = Suc (cs_next s)" "cs_live s1 = (cs_live s)(h \<mapsto> obj)" "unowned s1 = insert h (unowned s)"
      "f (cs_calls s) = Some obj"
proof (cases "f (cs_calls s)")
  case None
  then show ?thesis using assms(1) that(1) by (simp add: newC_def)
next
  case (Some obj)
  let ?h = "cs_next s"
  have "?h \<notin> {..<cs_next s}" by simp
  then have fresh: "?h \<notin> dom (cs_live s)" "?h \<notin> cs_fin s" using assms(2) unfolding cst_ok_def by blast+
  have s1: "s1 = s\<lparr>cs_calls := Suc (cs_calls s), cs_live := (cs_live s)(?h \<mapsto> obj), cs_next := Suc ?h\<rparr>" "q = Ok (Some ?h)"
    using assms(1) Some by (simp_all add: newC_def)
  show ?thesis
    using assms(2) fresh Some by (intro that(2) [of ?h obj]) (auto simp: s1 cst_ok_def unowned_def)
qed

lemma tidy_defer_new [tidy_intros]:
  assumes "\<And>p. tidy R (W \<union> set_option p) (body p)"
  shows "tidy R W (bindC (newC f) (\<lambda>p. deferC (freeC p) (body p)))"
  unfolding tidy_def
proof (intro allI impI)
  fix s r s'
  assume s: "cst_ok s" "R \<union> W \<subseteq> dom (cs_live s)" "bindC (newC f) (\<lambda>p. deferC (freeC p) (body p)) s = (r, s')"
  obtain q s1 where n: "newC f s = (q, s1)" by fastforce
  from n s(1) show "cst_ok s' \<and> unowned s' = unowned s \<and> cs_fin s \<subseteq> cs_fin s' \<and> cs_next s \<le> cs_next s' \<and>
    (\<forall>h\<in>dom (cs_live s). h \<in> dom (cs_live s') \<and> (h \<notin> W \<longrightarrow> cs_live s' h = cs_live s h))"
  proof (cases rule: newC_Some)
    case 1
    then have b: "body None s1 = (r, s')"
      using s(3) n by (simp add: run_simps deferC_def freeC_def split: prod.splits)
    have "cst_ok s1" "R \<union> (W \<union> set_option None) \<subseteq> dom (cs_live s1)" using s 1 by (simp_all add: cst_ok_def)
    from tidyD [OF assms b this] show ?thesis using 1 by (auto simp: unowned_def)
  next
    case (2 h obj)
    obtain r2 s2 where b: "body (Some h) s1 = (r2, s2)" by fastforce
    have "R \<union> (W \<union> set_option (Some h)) \<subseteq> dom (cs_live s1)" using s(2) 2 by auto
    note t = tidyD [OF assms b 2(4) this]
    have h: "h \<in> unowned s2" using t(2) 2(8) by simp
    then have s': "s' = s2\<lparr>cs_live := (cs_live s2)(h := None)\<rparr>"
      using s(3) n 2(1) b by (auto simp: run_simps deferC_def freeC_def unowned_def)
    have "unowned s' = unowned s" using t(2) 2(3,8) by (auto simp: s' unowned_def)
    moreover have "cst_ok s'" using t(1) h by (auto simp: s' cst_ok_def unowned_def)
    moreover have "x \<in> dom (cs_live s') \<and> (x \<notin> W \<longrightarrow> cs_live s' x = cs_live s x)" if "x \<in> dom (cs_live s)" for x
    proof -
      have "x \<noteq> h" "x \<in> dom (cs_live s1)" using that 2(3,7) by auto
      then show ?thesis using t(5) t(6) [of x] 2(7) by (auto simp: s')
    qed
    moreover have "cs_fin s' = cs_fin s2" "cs_next s' = cs_next s2" by (simp_all add: s')
    ultimately show ?thesis using t(3,4) 2(5,6) by auto
  qed
qed

lemma tidy_defer_new_nil [tidy_intros]:
  assumes "tidy R W n" "\<And>h. tidy R (insert h W) (body h)"
  shows "tidy R W (bindC (newC f) (\<lambda>p. case p of None \<Rightarrow> n | Some h \<Rightarrow> deferC (freeC (Some h)) (body h)))"
proof -
  have "(\<lambda>p. case p of None \<Rightarrow> n | Some h \<Rightarrow> deferC (freeC (Some h)) (body h)) =
      (\<lambda>p. deferC (freeC p) (case p of None \<Rightarrow> n | Some h \<Rightarrow> body h))"
    by (auto simp: fun_eq_iff deferC_def freeC_def split: option.splits prod.splits)
  then show ?thesis using assms by (auto intro!: tidy_defer_new split: option.splits)
qed

text \<open>A new object that gets a finalizer.\<close>

lemma tidy_new_finalizer [tidy_intros]:
  assumes "tidy R W n" "\<And>h. tidy R (insert h W) (g h)"
  shows "tidy R W (bindC (newC f) (\<lambda>p. case p of None \<Rightarrow> n | Some h \<Rightarrow> bindC (finalizerC h) (\<lambda>_. g h)))"
  unfolding tidy_def
proof (intro allI impI)
  fix s r s'
  assume s: "cst_ok s" "R \<union> W \<subseteq> dom (cs_live s)"
    "bindC (newC f) (\<lambda>p. case p of None \<Rightarrow> n | Some h \<Rightarrow> bindC (finalizerC h) (\<lambda>_. g h)) s = (r, s')"
  obtain q s1 where a: "newC f s = (q, s1)" by fastforce
  from a s(1) show "cst_ok s' \<and> unowned s' = unowned s \<and> cs_fin s \<subseteq> cs_fin s' \<and> cs_next s \<le> cs_next s' \<and>
    (\<forall>h\<in>dom (cs_live s). h \<in> dom (cs_live s') \<and> (h \<notin> W \<longrightarrow> cs_live s' h = cs_live s h))"
  proof (cases rule: newC_Some)
    case 1
    then have b: "n s1 = (r, s')" using s(3) a by (simp add: run_simps)
    have "cst_ok s1" "R \<union> W \<subseteq> dom (cs_live s1)" using s 1 by (simp_all add: cst_ok_def)
    from tidyD [OF assms(1) b this] show ?thesis using 1 by (auto simp: unowned_def)
  next
    case (2 h obj)
    let ?s2 = "s1\<lparr>cs_fin := insert h (cs_fin s1)\<rparr>"
    have b: "g h ?s2 = (r, s')" using s(3) a 2(1) by (simp add: run_simps finalizerC_def)
    have ok: "cst_ok ?s2" "R \<union> insert h W \<subseteq> dom (cs_live ?s2)" using 2(4,7) s(2) by (auto simp: cst_ok_def)
    note t = tidyD [OF assms(2) b ok]
    have "unowned s' = unowned s" using t(2) 2(3,5,7) by (auto simp: unowned_def)
    moreover have "x \<in> dom (cs_live s') \<and> (x \<notin> W \<longrightarrow> cs_live s' x = cs_live s x)" if "x \<in> dom (cs_live s)" for x
    proof -
      have "x \<noteq> h" "x \<in> dom (cs_live ?s2)" using that 2(3,7) by auto
      then show ?thesis using t(5) t(6) [of x] 2(7) by auto
    qed
    ultimately show ?thesis using t(1,3,4) 2(5,6) by auto
  qed
qed

text \<open>What the collector frees had a finalizer.\<close>

lemma collect_ok:
  assumes "cst_ok s"
  shows "cst_ok (collectC h s)" "unowned (collectC h s) = unowned s"
  using assms by (auto simp: collectC_def freeC_def cst_ok_def unowned_def dom_def split: option.splits if_splits)

end
