(* ===== verification/EvpKey.thy ===== *)
theory EvpKey
  imports CLib
begin

text \<open>
  \<open>crypto/key.go\<close> and \<open>crypto/sm2tongsuo/sm2tongsuo.go\<close>: keys of the C library, loading and writing them,
  signatures and encryption, over the shared memory of \<open>CLib\<close>.  A \<open>pKey\<close> is the address of its
  \<open>EVP_PKEY\<close>.  What the library computes, and whether a call succeeds, is the parameter \<open>cLib\<close>; keys and
  messages are shorter than \<open>2 ^ 31\<close> bytes, so that \<open>C.int\<close> holds their lengths.
\<close>

section \<open>The library\<close>

definition KeyTypeEC :: nat where "KeyTypeEC = 408"
definition KeyTypeED25519 :: nat where "KeyTypeED25519 = 1087"
definition KeyTypeSM2 :: nat where "KeyTypeSM2 = 1172"

datatype digestMethod = SHA1Method | SHA256Method | SHA512Method | SM3Method

datatype ellipticCurve = Prime256v1 | Secp384r1 | Secp521r1 | SM2Curve

datatype keyFormat = PKCS1PEM | PKCS1DER | PKCS8PEM | PKIXPEM | PKIXDER

text \<open>
  \<open>cl_alloc\<close> and \<open>cl_rc\<close>: whether the call of that number gets its memory, and returns 1.  The others are
  what a call that succeeds computes.  \<open>cl_grow\<close> is how Go's \<open>append\<close> enlarges a slice.
\<close>

record cLib =
  cl_alloc :: "nat \<Rightarrow> bool"
  cl_rc :: "nat \<Rightarrow> bool"
  cl_readPriv :: "bytes \<Rightarrow> string option \<Rightarrow> evpKey option"
  cl_readPrivDER :: "bytes \<Rightarrow> evpKey option"
  cl_readPub :: "bytes \<Rightarrow> evpKey option"
  cl_readPubDER :: "bytes \<Rightarrow> evpKey option"
  cl_isSM2 :: "evpKey \<Rightarrow> bool"
  cl_baseType :: "nat \<Rightarrow> nat"
  cl_write :: "keyFormat \<Rightarrow> evpKey \<Rightarrow> bytes option"
  cl_size :: "evpKey \<Rightarrow> nat"
  cl_signature :: "nat \<Rightarrow> evpKey \<Rightarrow> digestMethod option \<Rightarrow> bytes \<Rightarrow> bytes option"
  cl_valid :: "evpKey \<Rightarrow> digestMethod option \<Rightarrow> bytes \<Rightarrow> bytes \<Rightarrow> bool"
  cl_cryptLen :: "bool \<Rightarrow> evpKey \<Rightarrow> bytes \<Rightarrow> nat option"
  cl_crypt :: "nat \<Rightarrow> bool \<Rightarrow> evpKey \<Rightarrow> bytes \<Rightarrow> bytes option"
  cl_paramgen :: "ellipticCurve \<Rightarrow> evpKey option"
  cl_keygen :: "nat \<Rightarrow> ellipticCurve option \<Rightarrow> evpKey option"
  cl_toEC :: "evpKey \<Rightarrow> bytes option"
  cl_grow :: "nat \<Rightarrow> nat"

definition indexPanic :: string where "indexPanic = ''index out of range [0] with length 0''"
definition slicePanic :: string where "slicePanic = ''slice bounds out of range''"

definition keyAt :: "nat \<Rightarrow> evpKey cop" where
  "keyAt k = bindC (useC k) (\<lambda>obj. case obj of KeyObj key \<Rightarrow> returnC key | _ \<Rightarrow> panicC ''not a key'')"

definition KeyType :: "nat \<Rightarrow> nat cop" where
  "KeyType k = bindC (keyAt k) (\<lambda>key. returnC (ek_type key))"

definition BaseType :: "cLib \<Rightarrow> nat \<Rightarrow> nat cop" where
  "BaseType L k = bindC (keyAt k) (\<lambda>key. returnC (cl_baseType L (ek_type key)))"

definition newObj :: "cLib \<Rightarrow> cObj \<Rightarrow> nat option cop" where
  "newObj L obj = newC (\<lambda>n. if cl_alloc L n then Some obj else None)"

definition newKey :: "cLib \<Rightarrow> evpKey option \<Rightarrow> nat option cop" where
  "newKey L r = newC (\<lambda>n. if cl_rc L n then map_option KeyObj r else None)"

section \<open>Signatures and encryption\<close>

definition finishSign :: "cLib \<Rightarrow> nat \<Rightarrow> digestMethod option \<Rightarrow> bytes \<Rightarrow> bytes cop" where
  "finishSign L k m d =
     bindC (keyAt k) (\<lambda>key.
     if cl_size L key = 0 then panicC indexPanic
     else bindC (someC LibError (\<lambda>n. cl_signature L n key m d)) (\<lambda>sig.
       if cl_size L key < length sig then panicC slicePanic else returnC sig))"

definition SignPKCS1v15 :: "cLib \<Rightarrow> nat \<Rightarrow> digestMethod option \<Rightarrow> bytes \<Rightarrow> bytes cop" where
  "SignPKCS1v15 L k m d =
     bindC (newObj L MdCtxObj) (\<lambda>ctx. deferC (freeC ctx) (
     bindC (KeyType k) (\<lambda>t.
     if t = KeyTypeED25519 then
       (if m \<noteq> None \<or> d = [] then failC ErrNilParameter
        else bindC (okC LibError (cl_rc L)) (\<lambda>_. finishSign L k m d))
     else
       bindC (okC LibError (cl_rc L)) (\<lambda>_.
       bindC (if d \<noteq> [] then okC LibError (cl_rc L) else returnC ()) (\<lambda>_. finishSign L k m d)))))"

text \<open>The signature's first byte has no address when it is empty; only the Ed25519 branch looks first.\<close>

definition finishVerify :: "cLib \<Rightarrow> nat \<Rightarrow> digestMethod option \<Rightarrow> bytes \<Rightarrow> bytes \<Rightarrow> unit cop" where
  "finishVerify L k m d sig =
     bindC (keyAt k) (\<lambda>key.
     if sig = [] then panicC indexPanic
     else okC LibError (\<lambda>n. cl_rc L n \<and> cl_valid L key m d sig))"

definition VerifyPKCS1v15 :: "cLib \<Rightarrow> nat \<Rightarrow> digestMethod option \<Rightarrow> bytes \<Rightarrow> bytes \<Rightarrow> unit cop" where
  "VerifyPKCS1v15 L k m d sig =
     bindC (newObj L MdCtxObj) (\<lambda>ctx. deferC (freeC ctx) (
     bindC (KeyType k) (\<lambda>t.
     if t = KeyTypeED25519 then
       (if m \<noteq> None \<or> d = [] \<or> sig = [] then failC ErrNilParameter
        else bindC (okC LibError (cl_rc L)) (\<lambda>_. finishVerify L k m d sig))
     else
       bindC (okC LibError (cl_rc L)) (\<lambda>_.
       bindC (if d \<noteq> [] then okC LibError (cl_rc L) else returnC ()) (\<lambda>_. finishVerify L k m d sig)))))"

text \<open>
  \<open>Encrypt\<close> (\<open>enc\<close>) and \<open>Decrypt\<close> ask for the length first.  Both take the address of the first byte of
  the input; only \<open>Decrypt\<close> looks whether it got a context.
\<close>

definition finishCrypt :: "cLib \<Rightarrow> bool \<Rightarrow> nat \<Rightarrow> bytes \<Rightarrow> bytes cop" where
  "finishCrypt L enc k d =
     bindC (keyAt k) (\<lambda>key.
     bindC (okC LibError (cl_rc L)) (\<lambda>_.
     if d = [] then panicC indexPanic
     else bindC (someC LibError (\<lambda>n. if cl_rc L n then cl_cryptLen L enc key d else None)) (\<lambda>len.
       if len = 0 then panicC indexPanic
       else bindC (someC LibError (\<lambda>n. cl_crypt L n enc key d)) (\<lambda>out.
         if len < length out then panicC slicePanic else returnC out))))"

definition Encrypt :: "cLib \<Rightarrow> nat \<Rightarrow> bytes \<Rightarrow> bytes cop" where
  "Encrypt L k d = bindC (newObj L KeyCtxObj) (\<lambda>ctx. deferC (freeC ctx) (finishCrypt L True k d))"

definition Decrypt :: "cLib \<Rightarrow> nat \<Rightarrow> bytes \<Rightarrow> bytes cop" where
  "Decrypt L k d =
     bindC (newObj L KeyCtxObj) (\<lambda>ctx.
     case ctx of None \<Rightarrow> failC ErrMallocFailure
     | Some c \<Rightarrow> deferC (freeC (Some c)) (finishCrypt L False k d))"

section \<open>Writing keys\<close>

text \<open>
  \<open>io.ReadAll\<close> over \<open>anyBio\<close>: it reads into what is left of a buffer, which grows when it is full, until
  the BIO has nothing left.  A read into no space reads nothing.
\<close>

function ReadAll :: "(nat \<Rightarrow> nat) \<Rightarrow> nat \<Rightarrow> bytes \<Rightarrow> bytes \<Rightarrow> bytes" where
  "ReadAll grow cap acc rest =
     (if cap \<le> length acc then ReadAll grow (max (Suc (length acc)) (grow cap)) acc rest
      else if rest = [] then acc
      else let n = min (cap - length acc) (length rest)
           in ReadAll grow cap (acc @ take n rest) (drop n rest))"
  by pat_completeness auto
termination
  by (relation "measures [\<lambda>(grow, cap, acc, rest). length rest, \<lambda>(grow, cap, acc, rest). Suc (length acc) - cap]") auto

declare ReadAll.simps [simp del]

definition drainBio :: "cLib \<Rightarrow> nat \<Rightarrow> bytes cop" where
  "drainBio L bio =
     bindC (useC bio) (\<lambda>obj. case obj of
       BioObj d \<Rightarrow> bindC (writeC bio (BioObj [])) (\<lambda>_. returnC (ReadAll (cl_grow L) 512 [] d))
     | _ \<Rightarrow> panicC ''not a BIO'')"

definition writeKey :: "cLib \<Rightarrow> keyFormat \<Rightarrow> nat \<Rightarrow> nat \<Rightarrow> unit cop" where
  "writeKey L fmt k bio =
     bindC (keyAt k) (\<lambda>key.
     bindC (someC LibError (\<lambda>n. if cl_rc L n then cl_write L fmt key else None)) (\<lambda>d. writeC bio (BioObj d)))"

definition marshalKey :: "cLib \<Rightarrow> keyFormat \<Rightarrow> nat \<Rightarrow> bytes cop" where
  "marshalKey L fmt k =
     bindC (newObj L (BioObj [])) (\<lambda>p.
     case p of None \<Rightarrow> failC ErrMallocFailure
     | Some bio \<Rightarrow> deferC (freeC (Some bio)) (bindC (writeKey L fmt k bio) (\<lambda>_. drainBio L bio)))"

definition MarshalPKCS1PrivateKeyPEM :: "cLib \<Rightarrow> nat \<Rightarrow> bytes cop" where
  "MarshalPKCS1PrivateKeyPEM L k = marshalKey L PKCS1PEM k"
definition MarshalPKCS1PrivateKeyDER :: "cLib \<Rightarrow> nat \<Rightarrow> bytes cop" where
  "MarshalPKCS1PrivateKeyDER L k = marshalKey L PKCS1DER k"
definition MarshalPKIXPublicKeyPEM :: "cLib \<Rightarrow> nat \<Rightarrow> bytes cop" where
  "MarshalPKIXPublicKeyPEM L k = marshalKey L PKIXPEM k"
definition MarshalPKIXPublicKeyDER :: "cLib \<Rightarrow> nat \<Rightarrow> bytes cop" where
  "MarshalPKIXPublicKeyDER L k = marshalKey L PKIXDER k"

text \<open>This one copies the BIO's memory, and looks for a key and for data.\<close>

definition MarshalPKCS8PrivateKeyPEM :: "cLib \<Rightarrow> nat option \<Rightarrow> bytes cop" where
  "MarshalPKCS8PrivateKeyPEM L k =
     (case k of None \<Rightarrow> failC ErrEmptyKey
      | Some k \<Rightarrow>
          bindC (newObj L (BioObj [])) (\<lambda>p.
          case p of None \<Rightarrow> failC ErrMallocFailure
          | Some bio \<Rightarrow> deferC (freeC (Some bio)) (
              bindC (writeKey L PKCS8PEM k bio) (\<lambda>_.
              bindC (useC bio) (\<lambda>obj. case obj of
                BioObj d \<Rightarrow> if d = [] then failC ErrNoData else returnC d
              | _ \<Rightarrow> panicC ''not a BIO'')))))"

section \<open>Loading and generating keys\<close>

definition setAlias :: "cLib \<Rightarrow> nat \<Rightarrow> unit cop" where
  "setAlias L k =
     bindC (okC LibError (cl_rc L)) (\<lambda>_.
     bindC (keyAt k) (\<lambda>key. writeC k (KeyObj (key\<lparr>ek_type := KeyTypeSM2\<rparr>))))"

text \<open>A BIO over the block, the key read from it, and its finalizer; \<open>post\<close> is what the loader adds.\<close>

definition loadKey :: "cLib \<Rightarrow> error \<Rightarrow> (bytes \<Rightarrow> evpKey option) \<Rightarrow> (nat \<Rightarrow> unit cop) \<Rightarrow> bytes \<Rightarrow> nat cop" where
  "loadKey L e rd post block =
     (if block = [] then failC e
      else bindC (newObj L (BioObj block)) (\<lambda>p.
        case p of None \<Rightarrow> failC ErrMallocFailure
        | Some bio \<Rightarrow> deferC (freeC (Some bio)) (
            bindC (newKey L (rd block)) (\<lambda>q.
            case q of None \<Rightarrow> failC LibError
            | Some k \<Rightarrow> bindC (finalizerC k) (\<lambda>_. bindC (post k) (\<lambda>_. returnC k))))))"

definition aliasIfSM2 :: "cLib \<Rightarrow> nat \<Rightarrow> unit cop" where
  "aliasIfSM2 L k = bindC (keyAt k) (\<lambda>key. if cl_isSM2 L key then setAlias L k else returnC ())"

definition LoadPrivateKeyFromPEM :: "cLib \<Rightarrow> bytes \<Rightarrow> nat cop" where
  "LoadPrivateKeyFromPEM L = loadKey L ErrNoCert (\<lambda>d. cl_readPriv L d None) (aliasIfSM2 L)"

text \<open>The password's C string is freed too; \<open>C.CString\<close> does not return without it.\<close>

definition LoadPrivateKeyFromPEMWithPassword :: "cLib \<Rightarrow> bytes \<Rightarrow> string \<Rightarrow> nat cop" where
  "LoadPrivateKeyFromPEMWithPassword L block password =
     (if block = [] then failC ErrNoKey
      else bindC (newObj L (BioObj block)) (\<lambda>p.
        case p of None \<Rightarrow> failC ErrMallocFailure
        | Some bio \<Rightarrow> deferC (freeC (Some bio)) (
            bindC (newC (\<lambda>_. Some (BufObj (bytes_of_string password)))) (\<lambda>cs. deferC (freeC cs) (
            bindC (newKey L (cl_readPriv L block (Some password))) (\<lambda>q.
            case q of None \<Rightarrow> failC LibError
            | Some k \<Rightarrow> bindC (finalizerC k) (\<lambda>_. returnC k)))))))"

definition LoadPrivateKeyFromDER :: "cLib \<Rightarrow> bytes \<Rightarrow> nat cop" where
  "LoadPrivateKeyFromDER L = loadKey L ErrNoKey (cl_readPrivDER L) (\<lambda>_. returnC ())"

definition LoadPublicKeyFromPEM :: "cLib \<Rightarrow> bytes \<Rightarrow> nat cop" where
  "LoadPublicKeyFromPEM L = loadKey L ErrNoPubKey (cl_readPub L) (aliasIfSM2 L)"

definition LoadPublicKeyFromDER :: "cLib \<Rightarrow> bytes \<Rightarrow> nat cop" where
  "LoadPublicKeyFromDER L = loadKey L ErrNoPubKey (cl_readPubDER L) (\<lambda>_. returnC ())"

text \<open>The loaders of files; \<open>files\<close> is \<open>os.ReadFile\<close>.\<close>

definition fromFile :: "(string \<Rightarrow> bytes option) \<Rightarrow> (bytes \<Rightarrow> nat cop) \<Rightarrow> string \<Rightarrow> nat cop" where
  "fromFile files load path = (case files path of None \<Rightarrow> failC LibError | Some d \<Rightarrow> load d)"

definition LoadPrivateKeyFileFromPEM :: "(string \<Rightarrow> bytes option) \<Rightarrow> cLib \<Rightarrow> string \<Rightarrow> nat cop" where
  "LoadPrivateKeyFileFromPEM files L = fromFile files (LoadPrivateKeyFromPEM L)"
definition LoadPrivateKeyFileFromPEMWithPassword :: "(string \<Rightarrow> bytes option) \<Rightarrow> cLib \<Rightarrow> string \<Rightarrow> string \<Rightarrow> nat cop" where
  "LoadPrivateKeyFileFromPEMWithPassword files L path password =
     fromFile files (\<lambda>d. LoadPrivateKeyFromPEMWithPassword L d password) path"
definition LoadPrivateKeyFileFromDER :: "(string \<Rightarrow> bytes option) \<Rightarrow> cLib \<Rightarrow> string \<Rightarrow> nat cop" where
  "LoadPrivateKeyFileFromDER files L = fromFile files (LoadPrivateKeyFromDER L)"
definition LoadPublicKeyFileFromPEM :: "(string \<Rightarrow> bytes option) \<Rightarrow> cLib \<Rightarrow> string \<Rightarrow> nat cop" where
  "LoadPublicKeyFileFromPEM files L = fromFile files (LoadPublicKeyFromPEM L)"
definition LoadPublicKeyFileFromDER :: "(string \<Rightarrow> bytes option) \<Rightarrow> cLib \<Rightarrow> string \<Rightarrow> nat cop" where
  "LoadPublicKeyFileFromDER files L = fromFile files (LoadPublicKeyFromDER L)"

text \<open>\<open>Public\<close> writes the public key as DER and reads that; an error is a nil key.\<close>

definition orNil :: "'a cop \<Rightarrow> 'a option cop" where
  "orNil m s = (case m s of (Ok x, s') \<Rightarrow> (Ok (Some x), s') | (Fail e, s') \<Rightarrow> (Ok None, s') | (Panic p, s') \<Rightarrow> (Panic p, s'))"

definition Public :: "cLib \<Rightarrow> nat \<Rightarrow> nat option cop" where
  "Public L k = orNil (bindC (MarshalPKIXPublicKeyDER L k) (\<lambda>der. LoadPublicKeyFromDER L der))"

definition GenerateECKey :: "cLib \<Rightarrow> ellipticCurve \<Rightarrow> nat cop" where
  "GenerateECKey L curve =
     bindC (newObj L KeyCtxObj) (\<lambda>p.
     case p of None \<Rightarrow> failC LibError
     | Some paramCtx \<Rightarrow> deferC (freeC (Some paramCtx)) (
         bindC (okC LibError (cl_rc L)) (\<lambda>_.
         bindC (okC LibError (cl_rc L)) (\<lambda>_.
         if curve = SM2Curve then
           bindC (newC (\<lambda>n. if cl_rc L n then map_option KeyObj (cl_keygen L n (Some curve)) else None)) (\<lambda>q.
           case q of None \<Rightarrow> failC LibError
           | Some k \<Rightarrow> bindC (finalizerC k) (\<lambda>_. bindC (setAlias L k) (\<lambda>_. returnC k)))
         else
           bindC (newKey L (cl_paramgen L curve)) (\<lambda>q.
           case q of None \<Rightarrow> failC LibError
           | Some params \<Rightarrow> deferC (freeC (Some params)) (
               bindC (newObj L KeyCtxObj) (\<lambda>c.
               case c of None \<Rightarrow> failC LibError
               | Some keyCtx \<Rightarrow> deferC (freeC (Some keyCtx)) (
                   bindC (okC LibError (cl_rc L)) (\<lambda>_.
                   bindC (newC (\<lambda>n. if cl_rc L n then map_option KeyObj (cl_keygen L n (Some curve)) else None)) (\<lambda>q.
                   case q of None \<Rightarrow> failC LibError
                   | Some k \<Rightarrow> bindC (finalizerC k) (\<lambda>_. returnC k)))))))))))"

definition GenerateED25519Key :: "cLib \<Rightarrow> nat cop" where
  "GenerateED25519Key L =
     bindC (newObj L KeyCtxObj) (\<lambda>p.
     case p of None \<Rightarrow> failC LibError
     | Some keyCtx \<Rightarrow> deferC (freeC (Some keyCtx)) (
         bindC (okC LibError (cl_rc L)) (\<lambda>_.
         bindC (newC (\<lambda>n. if cl_rc L n then map_option KeyObj (cl_keygen L n None) else None)) (\<lambda>q.
         case q of None \<Rightarrow> failC LibError
         | Some k \<Rightarrow> bindC (finalizerC k) (\<lambda>_. returnC k)))))"

section \<open>No operation leaks\<close>

lemma tidy_newObj [tidy_intros]:
  "(\<And>p. tidy R (W \<union> set_option p) (body p)) \<Longrightarrow> tidy R W (bindC (newObj L obj) (\<lambda>p. deferC (freeC p) (body p)))"
  "tidy R W n \<Longrightarrow> (\<And>h. tidy R (insert h W) (b h)) \<Longrightarrow>
     tidy R W (bindC (newObj L obj) (\<lambda>p. case p of None \<Rightarrow> n | Some h \<Rightarrow> deferC (freeC (Some h)) (b h)))"
  unfolding newObj_def by (rule tidy_defer_new tidy_defer_new_nil; assumption)+

lemma tidy_newKey [tidy_intros]:
  "tidy R W n \<Longrightarrow> (\<And>h. tidy R (insert h W) (b h)) \<Longrightarrow>
     tidy R W (bindC (newKey L r) (\<lambda>p. case p of None \<Rightarrow> n | Some h \<Rightarrow> deferC (freeC (Some h)) (b h)))"
  "tidy R W n \<Longrightarrow> (\<And>h. tidy R (insert h W) (g h)) \<Longrightarrow>
     tidy R W (bindC (newKey L r) (\<lambda>p. case p of None \<Rightarrow> n | Some h \<Rightarrow> bindC (finalizerC h) (\<lambda>_. g h)))"
  unfolding newKey_def by (rule tidy_defer_new_nil tidy_new_finalizer; assumption)+

lemma tidy_keyAt [tidy_intros]: "k \<in> R \<union> W \<Longrightarrow> tidy R W (keyAt k)"
  unfolding keyAt_def by (intro tidy_intros) (auto intro!: tidy_intros split: cObj.splits)

lemma tidy_KeyType [tidy_intros]: "k \<in> R \<union> W \<Longrightarrow> tidy R W (KeyType k)"
  unfolding KeyType_def by (intro tidy_intros)

lemma tidy_finish [tidy_intros]:
  assumes "k \<in> R \<union> W"
  shows "tidy R W (finishSign L k m d)" "tidy R W (finishVerify L k m d sig)" "tidy R W (finishCrypt L enc k d)"
  using assms unfolding finishSign_def finishVerify_def finishCrypt_def by (intro tidy_intros; assumption)+

lemma tidy_sign [tidy_intros]:
  assumes "k \<in> R \<union> W"
  shows "tidy R W (SignPKCS1v15 L k m d)" "tidy R W (VerifyPKCS1v15 L k m d sig)"
    "tidy R W (Encrypt L k d)" "tidy R W (Decrypt L k d)"
  unfolding SignPKCS1v15_def VerifyPKCS1v15_def Encrypt_def Decrypt_def
  by (intro tidy_intros; use assms in blast)+

lemma tidy_setAlias [tidy_intros]: "k \<in> W \<Longrightarrow> tidy R W (setAlias L k)" "k \<in> W \<Longrightarrow> tidy R W (aliasIfSM2 L k)"
  unfolding setAlias_def aliasIfSM2_def by (intro tidy_intros; blast)+

lemma tidy_drainBio [tidy_intros]: "b \<in> W \<Longrightarrow> tidy R W (drainBio L b)"
  unfolding drainBio_def by (intro tidy_intros) (auto intro!: tidy_intros split: cObj.splits)

lemma tidy_writeKey [tidy_intros]: "k \<in> R \<union> W \<Longrightarrow> b \<in> W \<Longrightarrow> tidy R W (writeKey L fmt k b)"
  unfolding writeKey_def by (intro tidy_intros)


lemma tidy_marshal [tidy_intros]:
  assumes "k \<in> R \<union> W"
  shows "tidy R W (marshalKey L fmt k)"
  unfolding marshalKey_def by (intro tidy_intros; use assms in blast)

lemma tidy_pkcs8 [tidy_intros]: "set_option k \<subseteq> R \<union> W \<Longrightarrow> tidy R W (MarshalPKCS8PrivateKeyPEM L k)"
  unfolding MarshalPKCS8PrivateKeyPEM_def
  by (cases k) (auto intro!: tidy_intros split: cObj.splits)

lemma tidy_loadKey [tidy_intros]:
  assumes "\<And>k. tidy R (insert k W) (post k)"
  shows "tidy R W (loadKey L e rd post block)"
proof -
  have post: "tidy R (insert k (insert b W)) (post k)" for k b by (rule tidy_mono [OF assms]) auto
  show ?thesis unfolding loadKey_def by (intro tidy_intros post)
qed

lemma tidy_orNil [tidy_intros]: "tidy R W m \<Longrightarrow> tidy R W (orNil m)"
  by (erule tidy_state) (simp add: orNil_def split: prod.splits res.splits)

lemma tidy_load [tidy_intros]:
  "tidy R W (LoadPrivateKeyFromPEM L d)" "tidy R W (LoadPrivateKeyFromPEMWithPassword L d pw)"
  "tidy R W (LoadPrivateKeyFromDER L d)" "tidy R W (LoadPublicKeyFromPEM L d)" "tidy R W (LoadPublicKeyFromDER L d)"
  unfolding LoadPrivateKeyFromPEM_def LoadPrivateKeyFromPEMWithPassword_def LoadPrivateKeyFromDER_def
    LoadPublicKeyFromPEM_def LoadPublicKeyFromDER_def
  by (intro tidy_intros; simp)+

lemma tidy_public [tidy_intros]: "k \<in> R \<union> W \<Longrightarrow> tidy R W (Public L k)"
  unfolding Public_def MarshalPKIXPublicKeyDER_def by (intro tidy_intros)

lemma tidy_generate [tidy_intros]: "tidy R W (GenerateECKey L c)" "tidy R W (GenerateED25519Key L)"
  unfolding GenerateECKey_def GenerateED25519Key_def by (intro tidy_intros; simp)+


section \<open>Programs that use keys\<close>

datatype keyCall =
    CallSign nat "digestMethod option" bytes | CallVerify nat "digestMethod option" bytes bytes
  | CallEncrypt nat bytes | CallDecrypt nat bytes | CallMarshal keyFormat nat | CallPublic nat
  | CallLoadPrivatePEM bytes | CallLoadPrivatePEMWithPassword bytes string | CallLoadPrivateDER bytes
  | CallLoadPublicPEM bytes | CallLoadPublicDER bytes
  | CallGenerateEC ellipticCurve | CallGenerateED25519

definition ignore :: "'a cop \<Rightarrow> unit cop" where
  "ignore m = bindC m (\<lambda>_. returnC ())"

fun callKey :: "cLib \<Rightarrow> keyCall \<Rightarrow> unit cop" where
  "callKey L (CallSign k m d) = ignore (SignPKCS1v15 L k m d)"
| "callKey L (CallVerify k m d sig) = VerifyPKCS1v15 L k m d sig"
| "callKey L (CallEncrypt k d) = ignore (Encrypt L k d)"
| "callKey L (CallDecrypt k d) = ignore (Decrypt L k d)"
| "callKey L (CallMarshal fmt k) = ignore (
     case fmt of PKCS1PEM \<Rightarrow> MarshalPKCS1PrivateKeyPEM L k | PKCS1DER \<Rightarrow> MarshalPKCS1PrivateKeyDER L k
     | PKCS8PEM \<Rightarrow> MarshalPKCS8PrivateKeyPEM L (Some k)
     | PKIXPEM \<Rightarrow> MarshalPKIXPublicKeyPEM L k | PKIXDER \<Rightarrow> MarshalPKIXPublicKeyDER L k)"
| "callKey L (CallPublic k) = ignore (Public L k)"
| "callKey L (CallLoadPrivatePEM d) = ignore (LoadPrivateKeyFromPEM L d)"
| "callKey L (CallLoadPrivatePEMWithPassword d pw) = ignore (LoadPrivateKeyFromPEMWithPassword L d pw)"
| "callKey L (CallLoadPrivateDER d) = ignore (LoadPrivateKeyFromDER L d)"
| "callKey L (CallLoadPublicPEM d) = ignore (LoadPublicKeyFromPEM L d)"
| "callKey L (CallLoadPublicDER d) = ignore (LoadPublicKeyFromDER L d)"
| "callKey L (CallGenerateEC c) = ignore (GenerateECKey L c)"
| "callKey L CallGenerateED25519 = ignore (GenerateED25519Key L)"

fun keysUsed :: "keyCall \<Rightarrow> nat set" where
  "keysUsed (CallSign k m d) = {k}"
| "keysUsed (CallVerify k m d sig) = {k}"
| "keysUsed (CallEncrypt k d) = {k}"
| "keysUsed (CallDecrypt k d) = {k}"
| "keysUsed (CallMarshal fmt k) = {k}"
| "keysUsed (CallPublic k) = {k}"
| "keysUsed _ = {}"

text \<open>
  What a Go program can do: it calls an operation, on keys it still refers to, whatever comes of it; and the
  collector runs the finalizer of a key it no longer refers to.
\<close>

inductive keyRun :: "cLib \<Rightarrow> cst \<Rightarrow> bool" for L where
  run_start: "keyRun L initC"
| run_call: "keyRun L s \<Longrightarrow> keysUsed c \<subseteq> dom (cs_live s) \<Longrightarrow> callKey L c s = (r, s') \<Longrightarrow> keyRun L s'"
| run_collect: "keyRun L s \<Longrightarrow> keyRun L (collectC k s)"

lemma tidy_ignore [tidy_intros]: "tidy R W m \<Longrightarrow> tidy R W (ignore m)"
  unfolding ignore_def by (intro tidy_intros)

lemma tidy_callKey: "tidy (keysUsed c) {} (callKey L c)"
  by (cases c)
    (auto intro!: tidy_intros split: keyFormat.split
      simp: MarshalPKCS1PrivateKeyPEM_def MarshalPKCS1PrivateKeyDER_def MarshalPKIXPublicKeyPEM_def MarshalPKIXPublicKeyDER_def)



definition exKeyLib :: cLib where
  "exKeyLib = \<lparr>cl_alloc = (\<lambda>_. True), cl_rc = (\<lambda>_. True),
     cl_readPriv = (\<lambda>d _. Some \<lparr>ek_mat = d, ek_type = KeyTypeEC\<rparr>),
     cl_readPrivDER = (\<lambda>d. Some \<lparr>ek_mat = d, ek_type = KeyTypeEC\<rparr>),
     cl_readPub = (\<lambda>d. Some \<lparr>ek_mat = d, ek_type = KeyTypeEC\<rparr>),
     cl_readPubDER = (\<lambda>d. Some \<lparr>ek_mat = d, ek_type = KeyTypeEC\<rparr>),
     cl_isSM2 = (\<lambda>_. True), cl_baseType = (\<lambda>_. KeyTypeEC), cl_write = (\<lambda>_ key. Some (0x30 # ek_mat key)),
     cl_size = (\<lambda>_. 4), cl_signature = (\<lambda>_ _ _ d. Some (take 4 d)), cl_valid = (\<lambda>_ _ d sig. sig = take 4 d),
     cl_cryptLen = (\<lambda>_ _ d. Some (length d)), cl_crypt = (\<lambda>_ _ _ d. Some d),
     cl_paramgen = (\<lambda>_. Some \<lparr>ek_mat = [], ek_type = KeyTypeEC\<rparr>),
     cl_keygen = (\<lambda>n _. Some \<lparr>ek_mat = [of_nat n], ek_type = KeyTypeEC\<rparr>),
     cl_toEC = (\<lambda>key. Some (ek_mat key)), cl_grow = (\<lambda>n. 2 * n)\<rparr>"


section \<open>What the operations compute\<close>

lemma ReadAll_all: "ReadAll grow cap acc rest = acc @ rest"
proof (induction grow cap acc rest rule: ReadAll.induct)
  case (1 grow cap acc rest)
  then show ?case by (subst ReadAll.simps) (auto simp: Let_def)
qed

lemma keyAt_run [run_simps]: "cs_live s k = Some (KeyObj key) \<Longrightarrow> keyAt k s = (Ok key, s)"
  by (simp add: keyAt_def useC_def run_simps)

lemma keyAt_Ok: "keyAt k s = (Ok key, s') \<longleftrightarrow> cs_live s k = Some (KeyObj key) \<and> s' = s"
  by (auto simp: keyAt_def bindC_def useC_def run_simps split: option.splits cObj.splits)

lemma bindC_Ok:
  "bindC m f s = (Ok y, s') \<longleftrightarrow> (\<exists>x s1. m s = (Ok x, s1) \<and> f x s1 = (Ok y, s'))"
  by (auto simp: bindC_def split: prod.splits res.splits)

lemma deferC_Ok: "deferC final m s = (r, s') \<longleftrightarrow> (\<exists>s1. m s = (r, s1) \<and> s' = final s1)"
  by (auto simp: deferC_def split: prod.splits)

lemma okC_Ok: "okC e f s = (Ok u, s') \<longleftrightarrow> f (cs_calls s) \<and> s' = s\<lparr>cs_calls := Suc (cs_calls s)\<rparr>"
  by (auto simp: okC_def bindC_def callC_def run_simps)

lemma someC_Ok: "someC e f s = (Ok x, s') \<longleftrightarrow> f (cs_calls s) = Some x \<and> s' = s\<lparr>cs_calls := Suc (cs_calls s)\<rparr>"
  by (auto simp: someC_def bindC_def callC_def run_simps split: option.splits)

text \<open>A signature that is accepted is valid for the key: no failure of the library on the way is taken for
  an acceptance.\<close>

theorem verify_fails_closed:
  assumes "cst_ok s" "VerifyPKCS1v15 L k m d sig s = (Ok (), s')" "k \<in> dom (cs_live s)"
  shows "\<exists>key. cs_live s k = Some (KeyObj key) \<and> cl_valid L key m d sig"
proof -
  obtain p s1 where n: "newObj L MdCtxObj s = (Ok p, s1)"
    and b: "deferC (freeC p) (bindC (KeyType k) (\<lambda>t.
     if t = KeyTypeED25519 then
       (if m \<noteq> None \<or> d = [] \<or> sig = [] then failC ErrNilParameter
        else bindC (okC LibError (cl_rc L)) (\<lambda>_. finishVerify L k m d sig))
     else
       bindC (okC LibError (cl_rc L)) (\<lambda>_.
       bindC (if d \<noteq> [] then okC LibError (cl_rc L) else returnC ()) (\<lambda>_. finishVerify L k m d sig)))) s1 = (Ok (), s')"
    using assms(2) unfolding VerifyPKCS1v15_def bindC_Ok [of _ _ s] by blast
  have "cs_live s1 k = cs_live s k"
    using assms(3) by (cases rule: newC_Some [OF n [unfolded newObj_def] assms(1)]) auto
  moreover have "\<exists>key. cs_live s1 k = Some (KeyObj key) \<and> cl_valid L key m d sig"
    using b by (auto simp: deferC_Ok bindC_Ok KeyType_def keyAt_Ok okC_Ok finishVerify_def run_simps split: if_splits)
  ultimately show ?thesis by simp
qed


definition exKeyState :: cst where
  "exKeyState = \<lparr>cs_live = [1 \<mapsto> KeyObj \<lparr>ek_mat = [1], ek_type = KeyTypeSM2\<rparr>], cs_next = 2, cs_fin = {1},
     cs_calls = 3, cs_bad = False\<rparr>"

lemmas op_simps = newObj_def newKey_def newC_def bindC_def deferC_def freeC_def finalizerC_def keyAt_def useC_def writeC_def
  okC_def someC_def callC_def run_simps

lemma exKeyState_loaded:
  "LoadPublicKeyFromPEM exKeyLib [1] initC = (Ok 1, exKeyState)"
  by (simp add: op_simps LoadPublicKeyFromPEM_def loadKey_def aliasIfSM2_def setAlias_def exKeyLib_def initC_def exKeyState_def fun_eq_iff)

lemma exKeyState_ok: "cst_ok exKeyState"
  by (auto simp: cst_ok_def exKeyState_def)

lemma verify_fails_closed_witness:
  "\<exists>key. cs_live exKeyState 1 = Some (KeyObj key) \<and> cl_valid exKeyLib key (Some SM3Method) [5, 6] [5, 6]"
proof (rule verify_fails_closed [OF exKeyState_ok])
  show "VerifyPKCS1v15 exKeyLib 1 (Some SM3Method) [5, 6] [5, 6] exKeyState =
      (Ok (), snd (VerifyPKCS1v15 exKeyLib 1 (Some SM3Method) [5, 6] [5, 6] exKeyState))"
    by (simp add: op_simps VerifyPKCS1v15_def KeyType_def finishVerify_def exKeyLib_def exKeyState_def KeyTypeSM2_def
        KeyTypeED25519_def)
qed (simp add: exKeyState_def)

text \<open>What a loader returns: a new key with a finalizer, and nothing else is changed.\<close>

definition loaded :: "cst \<Rightarrow> nat \<Rightarrow> evpKey \<Rightarrow> cst \<Rightarrow> bool" where
  "loaded s k key s' \<longleftrightarrow>
     k \<notin> dom (cs_live s) \<and> cs_live s' = (cs_live s)(k \<mapsto> KeyObj key) \<and> cs_fin s' = insert k (cs_fin s)"

definition asSM2 :: "cLib \<Rightarrow> evpKey \<Rightarrow> evpKey" where
  "asSM2 L key = (if cl_isSM2 L key then key\<lparr>ek_type := KeyTypeSM2\<rparr> else key)"

lemma newC_Ok:
  "newC f s = (Ok (Some h), s1) \<longleftrightarrow> h = cs_next s \<and> (\<exists>obj. f (cs_calls s) = Some obj \<and>
    s1 = s\<lparr>cs_calls := Suc (cs_calls s), cs_live := (cs_live s)(h \<mapsto> obj), cs_next := Suc h\<rparr>)"
  by (auto simp: newC_def Let_def split: option.splits)

lemma cst_fresh: "cst_ok s \<Longrightarrow> cs_next s \<le> n \<Longrightarrow> cs_live s n = None"
  unfolding cst_ok_def dom_def subset_eq by fastforce

lemma setAlias_Ok: "setAlias L k s = (Ok (), s') \<Longrightarrow> \<exists>key. cs_live s k = Some (KeyObj key) \<and>
    cs_live s' = (cs_live s)(k \<mapsto> KeyObj (key\<lparr>ek_type := KeyTypeSM2\<rparr>)) \<and> cs_fin s' = cs_fin s \<and> cs_next s' = cs_next s"
  by (auto simp: setAlias_def bindC_Ok okC_Ok keyAt_Ok writeC_def split: option.splits)


lemma aliasIfSM2_Ok:
  assumes "aliasIfSM2 L k s = (Ok (), s')" "cs_live s k = Some (KeyObj key)"
  shows "cs_live s' = (cs_live s)(k \<mapsto> KeyObj (asSM2 L key)) \<and> cs_fin s' = cs_fin s"
proof (cases "cl_isSM2 L key")
  case True
  then have "setAlias L k s = (Ok (), s')" using assms by (auto simp: aliasIfSM2_def bindC_Ok keyAt_Ok)
  from setAlias_Ok [OF this] show ?thesis using assms(2) True by (auto simp: asSM2_def)
next
  case False
  then have "s' = s" using assms by (auto simp: aliasIfSM2_def bindC_Ok keyAt_Ok run_simps)
  then show ?thesis using assms(2) False by (auto simp: asSM2_def)
qed

lemma loadKey_Ok:
  assumes "loadKey L e rd post block s = (Ok k, s')" "cst_ok s"
  obtains key s1 s2 b where "rd block = Some key" "post k s1 = (Ok (), s2)" "k = Suc b" "s' = freeC (Some b) s2"
    "cs_live s1 = (cs_live s)(b \<mapsto> BioObj block, k \<mapsto> KeyObj key)" "cs_fin s1 = insert k (cs_fin s)"
    "cs_live s b = None" "cs_live s k = None"
proof -
  let ?b = "cs_next s"
  have "\<exists>key s2. rd block = Some key \<and> post k (s\<lparr>cs_calls := Suc (Suc (cs_calls s)),
      cs_live := (cs_live s)(?b \<mapsto> BioObj block, k \<mapsto> KeyObj key), cs_next := Suc k, cs_fin := insert k (cs_fin s)\<rparr>) = (Ok (), s2) \<and>
      k = Suc ?b \<and> s' = freeC (Some ?b) s2"
    using assms(1)
    by (auto simp: loadKey_def newObj_def newKey_def bindC_Ok newC_Ok deferC_Ok finalizerC_def run_simps
        split: if_splits option.splits)
  then obtain key s2 where r: "rd block = Some key" "post k (s\<lparr>cs_calls := Suc (Suc (cs_calls s)),
      cs_live := (cs_live s)(?b \<mapsto> BioObj block, k \<mapsto> KeyObj key), cs_next := Suc k, cs_fin := insert k (cs_fin s)\<rparr>) = (Ok (), s2)"
      "k = Suc ?b" "s' = freeC (Some ?b) s2"
    by blast
  show ?thesis using cst_fresh [OF assms(2)] by (intro that [OF r]) (simp_all add: r(3))
qed

lemma load_plain:
  assumes "loadKey L e rd (\<lambda>_. returnC ()) block s = (Ok k, s')" "cst_ok s"
  shows "\<exists>key. rd block = Some key \<and> loaded s k key s'"
  by (rule loadKey_Ok [OF assms]) (auto simp: run_simps freeC_def loaded_def dom_def fun_eq_iff)

lemma load_alias:
  assumes "loadKey L e rd (aliasIfSM2 L) block s = (Ok k, s')" "cst_ok s"
  shows "\<exists>key. rd block = Some key \<and> loaded s k (asSM2 L key) s'"
proof -
  obtain key s1 s2 b where r: "rd block = Some key" "aliasIfSM2 L k s1 = (Ok (), s2)" "k = Suc b" "s' = freeC (Some b) s2"
    "cs_live s1 = (cs_live s)(b \<mapsto> BioObj block, k \<mapsto> KeyObj key)" "cs_fin s1 = insert k (cs_fin s)"
    "cs_live s b = None" "cs_live s k = None"
    by (rule loadKey_Ok [OF assms])
  have "cs_live s2 = (cs_live s1)(k \<mapsto> KeyObj (asSM2 L key)) \<and> cs_fin s2 = cs_fin s1"
    using aliasIfSM2_Ok [OF r(2)] r(5) by simp
  then show ?thesis using r by (auto simp: loaded_def freeC_def fun_eq_iff dom_def)
qed


text \<open>A key that is written out is written whole, however large it is and however Go's \<open>append\<close> grows the
  buffer it is read into.\<close>

theorem marshal_whole:
  assumes "cs_live s k = Some (KeyObj key)" "cst_ok s" "\<And>n. cl_alloc L n \<and> cl_rc L n" "cl_write L fmt key = Some d"
  shows "fst (marshalKey L fmt k s) = Ok d"
proof -
  have "k \<noteq> cs_next s" using cst_fresh [OF assms(2), of k] assms(1) by auto
  then show ?thesis
    using assms by (simp add: op_simps marshalKey_def writeKey_def drainBio_def ReadAll_all)
qed

lemma marshal_whole_witness:
  "fst (marshalKey exKeyLib PKIXPEM 1 exKeyState) = Ok [0x30, 1]"
  by (rule marshal_whole [OF _ exKeyState_ok, of _ "\<lparr>ek_mat = [1], ek_type = KeyTypeSM2\<rparr>"])
    (simp_all add: exKeyState_def exKeyLib_def)


section \<open>SM2 over the generic operations\<close>

definition VerifyASN1 :: "cLib \<Rightarrow> nat \<Rightarrow> bytes \<Rightarrow> bytes \<Rightarrow> unit cop" where
  "VerifyASN1 L pub d sig =
     bindC (KeyType pub) (\<lambda>t. if t \<noteq> KeyTypeSM2 then failC ErrWrongKeyType
       else VerifyPKCS1v15 L pub (Some SM3Method) d sig)"

definition SignASN1 :: "cLib \<Rightarrow> nat \<Rightarrow> bytes \<Rightarrow> bytes cop" where
  "SignASN1 L priv d =
     bindC (KeyType priv) (\<lambda>t. if t \<noteq> KeyTypeSM2 then failC ErrWrongKeyType
       else SignPKCS1v15 L priv (Some SM3Method) d)"

definition EncryptSM2 :: "cLib \<Rightarrow> nat \<Rightarrow> bytes \<Rightarrow> bytes cop" where
  "EncryptSM2 L pub d =
     bindC (KeyType pub) (\<lambda>t. if t \<noteq> KeyTypeSM2 then failC ErrWrongKeyType else Encrypt L pub d)"

definition DecryptSM2 :: "cLib \<Rightarrow> nat \<Rightarrow> bytes \<Rightarrow> bytes cop" where
  "DecryptSM2 L priv d =
     bindC (KeyType priv) (\<lambda>t. if t \<noteq> KeyTypeSM2 then failC ErrWrongKeyType else Decrypt L priv d)"

definition GenerateKeySM2 :: "cLib \<Rightarrow> nat cop" where
  "GenerateKeySM2 L = GenerateECKey L SM2Curve"

lemma tidy_sm2 [tidy_intros]:
  assumes "k \<in> R \<union> W"
  shows "tidy R W (VerifyASN1 L k d sig)" "tidy R W (SignASN1 L k d)" "tidy R W (EncryptSM2 L k d)" "tidy R W (DecryptSM2 L k d)"
  unfolding VerifyASN1_def SignASN1_def EncryptSM2_def DecryptSM2_def by (intro tidy_intros; use assms in blast)+

lemma KeyType_run [run_simps]: "cs_live s k = Some (KeyObj key) \<Longrightarrow> KeyType k s = (Ok (ek_type key), s)"
  by (simp add: KeyType_def run_simps)

lemma wrong_type_refused:
  "cs_live s k = Some (KeyObj key) \<Longrightarrow> ek_type key \<noteq> KeyTypeSM2 \<Longrightarrow> VerifyASN1 L k d sig s = (Fail ErrWrongKeyType, s)"
  by (simp add: VerifyASN1_def run_simps)

lemma Public_Ok:
  assumes "Public L k s = (Ok (Some p), s')" "cst_ok s" "k \<in> dom (cs_live s)"
  shows "\<exists>der s1 key. cl_readPubDER L der = Some key \<and> loaded s1 p key s'"
proof -
  obtain der s1 where m: "marshalKey L PKIXDER k s = (Ok der, s1)" and l: "LoadPublicKeyFromDER L der s1 = (Ok p, s')"
    using assms(1) by (auto simp: Public_def orNil_def bindC_Ok MarshalPKIXPublicKeyDER_def split: prod.splits res.splits)
  have "tidy {k} {} (marshalKey L PKIXDER k)" by (intro tidy_intros) simp
  from tidyD(1) [OF this m assms(2)] have "cst_ok s1" using assms(3) by simp
  from load_plain [OF l [unfolded LoadPublicKeyFromDER_def] this] show ?thesis by blast
qed

text \<open>The public half that \<open>Public\<close> returns of a private SM2 key is not an SM2 key: with a library whose DER
  reader gives the generic type, which the PEM loaders change and this way does not, every signature is refused
  under it, the key's own too.\<close>

theorem public_half_refused:
  assumes "cst_ok s" "LoadPrivateKeyFromPEM L block s = (Ok k, s1)" "\<And>key. cl_isSM2 L key"
    "Public L k s1 = (Ok (Some p), s2)" "\<And>d key. cl_readPubDER L d = Some key \<Longrightarrow> ek_type key = KeyTypeEC"
  shows "KeyType k s1 = (Ok KeyTypeSM2, s1) \<and> VerifyASN1 L p d sig s2 = (Fail ErrWrongKeyType, s2)"
proof -
  obtain key where k: "loaded s k (asSM2 L key) s1"
    using load_alias [OF assms(2) [unfolded LoadPrivateKeyFromPEM_def] assms(1)] by blast
  then have live: "cs_live s1 k = Some (KeyObj (asSM2 L key))" by (simp add: loaded_def)
  have "tidy {} {} (LoadPrivateKeyFromPEM L block)" by (intro tidy_intros)
  from tidyD(1) [OF this assms(2,1)] have "cst_ok s1" by simp
  from Public_Ok [OF assms(4) this] live obtain der s3 pkey where "cl_readPubDER L der = Some pkey" "loaded s3 p pkey s2"
    by blast
  then have "cs_live s2 p = Some (KeyObj pkey)" "ek_type pkey \<noteq> KeyTypeSM2"
    using assms(5) by (simp_all add: loaded_def KeyTypeEC_def KeyTypeSM2_def)
  from wrong_type_refused [OF this] show ?thesis using live assms(3) by (simp add: run_simps asSM2_def)
qed

lemma public_half_refused_witness:
  "\<exists>s2. VerifyASN1 exKeyLib 4 [5] [5] s2 = (Fail ErrWrongKeyType, s2)"
proof -
  have l: "LoadPrivateKeyFromPEM exKeyLib [1] initC = (Ok 1, exKeyState)"
    by (simp add: op_simps LoadPrivateKeyFromPEM_def loadKey_def aliasIfSM2_def setAlias_def exKeyLib_def initC_def exKeyState_def fun_eq_iff)
  have "fst (Public exKeyLib 1 exKeyState) = Ok (Some 4)"
    by (simp add: op_simps Public_def orNil_def MarshalPKIXPublicKeyDER_def marshalKey_def writeKey_def drainBio_def ReadAll_all
        LoadPublicKeyFromDER_def loadKey_def exKeyLib_def exKeyState_def)
  then have p: "Public exKeyLib 1 exKeyState = (Ok (Some 4), snd (Public exKeyLib 1 exKeyState))"
    by (metis prod.collapse)
  have "cst_ok initC" by (simp add: cst_ok_def initC_def)
  from public_half_refused [OF this l _ p, of "[5]" "[5]"] show ?thesis by (auto simp: exKeyLib_def)
qed

end
