(* ===== verification/EcKey.thy ===== *)
theory EcKey
  imports EvpKey KeyAgreement
begin

text \<open>
  \<open>crypto/eckey.go\<close>, \<open>crypto/sm2keyexch/sm2_keyexch_sdk.go\<close> and \<open>crypto/ecdh_curve/sm2p256v1.go\<close>, with
  \<open>ToECKey\<close> of \<open>key.go\<close> and the constructor of the SM2 key agreement, over the shared memory of \<open>CLib\<close>.  An
  \<open>ECKey\<close> is the address of its \<open>EC_KEY\<close>; it has no finalizer.  A \<open>KAPCtx\<close> is one object that stands for all
  that \<open>SM2_KAP_CTX_init\<close> allocates and \<open>SM2_KAP_CTX_cleanup\<close> frees.
\<close>

record ecLib =
  ec_base :: cLib
  ec_empty :: bytes
  ec_generate :: "nat \<Rightarrow> bytes \<Rightarrow> bytes option"
  ec_setPublic :: "bytes \<Rightarrow> bytes \<Rightarrow> bytes option"
  ec_writePriv :: "bytes \<Rightarrow> bytes option"
  ec_writePub :: "bytes \<Rightarrow> bytes option"
  ec_readPriv :: "bytes \<Rightarrow> bytes option"
  ec_readPub :: "bytes \<Rightarrow> bytes option"
  ec_kapInit :: "bytes \<Rightarrow> string \<Rightarrow> bytes \<Rightarrow> string \<Rightarrow> bool \<Rightarrow> bool \<Rightarrow> bytes option"
  ec_kapPrepare :: "nat \<Rightarrow> bytes \<Rightarrow> (bytes \<times> bytes) option"
  ec_kapCompute :: "bytes \<Rightarrow> bytes \<Rightarrow> nat \<Rightarrow> (bytes \<times> bytes \<times> bytes) option"
  ec_kapFinal :: "bytes \<Rightarrow> bytes \<Rightarrow> bool"

section \<open>Elliptic curve keys\<close>

definition orFail :: "error \<Rightarrow> nat option cop \<Rightarrow> nat cop" where
  "orFail e m = bindC m (\<lambda>p. case p of None \<Rightarrow> failC e | Some h \<Rightarrow> returnC h)"

definition ecAt :: "nat \<Rightarrow> bytes cop" where
  "ecAt h = bindC (useC h) (\<lambda>obj. case obj of EcObj e \<Rightarrow> returnC e | _ \<Rightarrow> panicC ''not an EC_KEY'')"

definition NewECKeySM2 :: "ecLib \<Rightarrow> nat cop" where
  "NewECKeySM2 L = orFail LibError (newObj (ec_base L) (EcObj (ec_empty L)))"

definition ECKey_Generate :: "ecLib \<Rightarrow> nat \<Rightarrow> unit cop" where
  "ECKey_Generate L h =
     bindC (ecAt h) (\<lambda>e. bindC (someC LibError (\<lambda>n. ec_generate L n e)) (\<lambda>e'. writeC h (EcObj e')))"

definition ECKey_SetPublicFrom :: "ecLib \<Rightarrow> nat \<Rightarrow> nat \<Rightarrow> unit cop" where
  "ECKey_SetPublicFrom L h src =
     bindC (ecAt src) (\<lambda>p. bindC (ecAt h) (\<lambda>e.
     bindC (someC LibError (\<lambda>n. if cl_rc (ec_base L) n then ec_setPublic L e p else None)) (\<lambda>e'. writeC h (EcObj e'))))"

text \<open>Writing asks for the length, allocates a C buffer of that size, and writes into it.\<close>

definition writeEC :: "ecLib \<Rightarrow> (bytes \<Rightarrow> bytes option) \<Rightarrow> nat option \<Rightarrow> bytes cop" where
  "writeEC L wr p =
     (case p of None \<Rightarrow> failC ErrEmptyKey
      | Some h \<Rightarrow>
          bindC (ecAt h) (\<lambda>e.
          bindC (someC LibError (\<lambda>n. if cl_rc (ec_base L) n then wr e else None)) (\<lambda>d.
          if d = [] then failC LibError
          else bindC (newObj (ec_base L) (BufObj (replicate (length d) 0))) (\<lambda>b.
            case b of None \<Rightarrow> failC ErrMallocFailure
            | Some buf \<Rightarrow> deferC (freeC (Some buf)) (
                bindC (okC LibError (cl_rc (ec_base L))) (\<lambda>_.
                bindC (writeC buf (BufObj d)) (\<lambda>_. returnC d)))))))"

definition SerializePrivateKey :: "ecLib \<Rightarrow> nat option \<Rightarrow> bytes cop" where
  "SerializePrivateKey L = writeEC L (ec_writePriv L)"

definition SerializePublicKey :: "ecLib \<Rightarrow> nat option \<Rightarrow> bytes cop" where
  "SerializePublicKey L = writeEC L (ec_writePub L)"

definition readEC :: "ecLib \<Rightarrow> (bytes \<Rightarrow> bytes option) \<Rightarrow> bytes \<Rightarrow> nat cop" where
  "readEC L rd d =
     (if d = [] then failC LibError
      else bindC (newC (\<lambda>_. Some (BufObj d))) (\<lambda>buf. deferC (freeC buf) (
        orFail LibError (newC (\<lambda>n. if cl_rc (ec_base L) n then map_option EcObj (rd d) else None)))))"

definition NewECKeyFromPrivateKey :: "ecLib \<Rightarrow> bytes \<Rightarrow> nat cop" where
  "NewECKeyFromPrivateKey L = readEC L (ec_readPriv L)"

definition NewECKeyFromPublicKey :: "ecLib \<Rightarrow> bytes \<Rightarrow> nat cop" where
  "NewECKeyFromPublicKey L = readEC L (ec_readPub L)"

text \<open>\<open>Free\<close> makes the pointer nil, so that freeing again does nothing.\<close>

definition ECKey_Free :: "nat option \<Rightarrow> cst \<Rightarrow> nat option \<times> cst" where
  "ECKey_Free p s = (case p of None \<Rightarrow> (None, s) | Some h \<Rightarrow> (None, freeC (Some h) s))"

text \<open>\<open>ToECKey\<close> of a value: a \<open>pKey\<close>, whose pointer may be nil, or something else.\<close>

datatype keyValue = PKey "nat option" | OtherValue

definition pKey_ToECKey :: "ecLib \<Rightarrow> nat option \<Rightarrow> nat cop" where
  "pKey_ToECKey L p =
     (case p of None \<Rightarrow> failC ErrEmptyKey
      | Some k \<Rightarrow>
          bindC (BaseType (ec_base L) k) (\<lambda>b. bindC (KeyType k) (\<lambda>t.
          if b \<noteq> KeyTypeEC \<and> t \<noteq> KeyTypeSM2 then failC ErrWrongKeyType
          else bindC (keyAt k) (\<lambda>key.
            orFail LibError (newC (\<lambda>n. if cl_rc (ec_base L) n then map_option EcObj (cl_toEC (ec_base L) key) else None))))))"

fun ToECKey :: "ecLib \<Rightarrow> keyValue \<Rightarrow> nat cop" where
  "ToECKey L (PKey p) = pKey_ToECKey L p"
| "ToECKey L OtherValue = failC ErrWrongKeyType"

section \<open>The SM2 key exchange context\<close>

definition kapAt :: "nat \<Rightarrow> bytes cop" where
  "kapAt h = bindC (useC h) (\<lambda>obj. case obj of KapObj c \<Rightarrow> returnC c | _ \<Rightarrow> panicC ''not a context'')"

text \<open>\<open>Init\<close> copies both identifiers to C strings and frees those again; a context that fails frees its parts.\<close>

definition KAPCtx_Init :: "ecLib \<Rightarrow> nat \<Rightarrow> string \<Rightarrow> nat \<Rightarrow> string \<Rightarrow> bool \<Rightarrow> bool \<Rightarrow> nat cop" where
  "KAPCtx_Init L local ident remotePub rid initiator doChecksum =
     bindC (newC (\<lambda>_. Some (BufObj (bytes_of_string ident)))) (\<lambda>cid. deferC (freeC cid) (
     bindC (newC (\<lambda>_. Some (BufObj (bytes_of_string rid)))) (\<lambda>crid. deferC (freeC crid) (
     bindC (ecAt local) (\<lambda>l. bindC (ecAt remotePub) (\<lambda>r.
     orFail LibError (newC (\<lambda>n. if cl_rc (ec_base L) n
       then map_option KapObj (ec_kapInit L l ident r rid initiator doChecksum) else None))))))))"

definition KAPCtx_Prepare :: "ecLib \<Rightarrow> nat \<Rightarrow> bytes cop" where
  "KAPCtx_Prepare L h =
     bindC (kapAt h) (\<lambda>c. bindC (someC LibError (\<lambda>n. ec_kapPrepare L n c)) (\<lambda>(ra, c').
     bindC (writeC h (KapObj c')) (\<lambda>_. if 100 < length ra then panicC slicePanic else returnC ra)))"

definition KAPCtx_ComputeKey :: "ecLib \<Rightarrow> nat \<Rightarrow> bytes \<Rightarrow> nat \<Rightarrow> (bytes \<times> bytes) cop" where
  "KAPCtx_ComputeKey L h point keyLen =
     (if point = [] \<or> keyLen = 0 then panicC indexPanic
      else bindC (kapAt h) (\<lambda>c.
        bindC (someC LibError (\<lambda>n. if cl_rc (ec_base L) n then ec_kapCompute L c point keyLen else None)) (\<lambda>(key, cs, c').
        bindC (writeC h (KapObj c')) (\<lambda>_. if 64 < length cs then panicC slicePanic else returnC (key, cs)))))"

definition KAPCtx_FinalCheck :: "ecLib \<Rightarrow> nat \<Rightarrow> bytes \<Rightarrow> unit cop" where
  "KAPCtx_FinalCheck L h checksum =
     (if checksum = [] then panicC indexPanic
      else bindC (kapAt h) (\<lambda>c. okC LibError (\<lambda>n. cl_rc (ec_base L) n \<and> ec_kapFinal L c checksum)))"

definition KAPCtx_Cleanup :: "nat \<Rightarrow> cst \<Rightarrow> cst" where
  "KAPCtx_Cleanup h = freeC (Some h)"

text \<open>The constructor of the key agreement; any error makes it nil.\<close>

definition openAgreement :: "ecLib \<Rightarrow> keyValue \<Rightarrow> string \<Rightarrow> keyValue \<Rightarrow> string \<Rightarrow> nat option cop" where
  "openAgreement L local localId remote remoteId =
     orNil (bindC (ToECKey L local) (\<lambda>l.
            bindC (ToECKey L remote) (\<lambda>r.
            KAPCtx_Init L l localId r remoteId (remoteId < localId) True)))"

section \<open>The curve\<close>

text \<open>A curve is compared by its address.\<close>

record sm2PublicKey =
  pk_curve :: nat
  pk_bytes :: bytes

record sm2PrivateKey =
  sk_curve :: nat
  sk_bytes :: bytes
  sk_public :: "sm2PublicKey option"

datatype goKey = NilKey | PrivKey sm2PrivateKey | PubKey sm2PublicKey | OtherKey

definition sm2p256v1PrivateKeySize :: nat where "sm2p256v1PrivateKeySize = 121"

definition curve_NewPublicKey :: "nat \<Rightarrow> bytes \<Rightarrow> sm2PublicKey" where
  "curve_NewPublicKey c d = \<lparr>pk_curve = c, pk_bytes = d\<rparr>"

definition curve_NewPrivateKey :: "ecLib \<Rightarrow> nat \<Rightarrow> bytes \<Rightarrow> sm2PrivateKey cop" where
  "curve_NewPrivateKey L c d =
     (if length d \<noteq> sm2p256v1PrivateKeySize then failC ErrKeySize
      else bindC (NewECKeyFromPrivateKey L d) (\<lambda>eckey.
        bindC (NewECKeySM2 L) (\<lambda>pub.
        bindC (ECKey_SetPublicFrom L pub eckey) (\<lambda>_.
        bindC (SerializePublicKey L (Some pub)) (\<lambda>pd.
        returnC \<lparr>sk_curve = c, sk_bytes = d, sk_public = Some (curve_NewPublicKey c pd)\<rparr>)))))"

definition curve_GenerateKey :: "ecLib \<Rightarrow> nat \<Rightarrow> sm2PrivateKey cop" where
  "curve_GenerateKey L c =
     bindC (NewECKeySM2 L) (\<lambda>eckey.
     bindC (ECKey_Generate L eckey) (\<lambda>_.
     bindC (SerializePrivateKey L (Some eckey)) (\<lambda>d. curve_NewPrivateKey L c d)))"

definition NewEmptySm2PrivateKey :: "nat \<Rightarrow> sm2PrivateKey" where
  "NewEmptySm2PrivateKey c = \<lparr>sk_curve = c, sk_bytes = [], sk_public = None\<rparr>"

fun curve_ecdh :: "goKey \<Rightarrow> goKey \<Rightarrow> bytes res" where
  "curve_ecdh local remote =
     (if local \<noteq> NilKey then Fail ErrLocalKeyNotNil
      else case remote of NilKey \<Rightarrow> Fail ErrNilRemoteKey
           | PubKey _ \<Rightarrow> Fail ErrStandardECDH
           | _ \<Rightarrow> Fail ErrKeyTypeMismatch)"

definition sm2_ECDH :: "sm2PrivateKey \<Rightarrow> goKey \<Rightarrow> bytes res" where
  "sm2_ECDH k remote =
     (case remote of NilKey \<Rightarrow> Fail ErrNilRemoteKey
      | PubKey p \<Rightarrow> if pk_curve p \<noteq> sk_curve k then Fail ErrCurveMismatch else curve_ecdh NilKey (PubKey p)
      | _ \<Rightarrow> Fail ErrKeyTypeMismatch)"

definition sm2_ComputeSecret :: "ecLib \<Rightarrow> sm2PrivateKey \<Rightarrow> nat \<Rightarrow> goKey \<Rightarrow> bytes cop" where
  "sm2_ComputeSecret L k ctx remote =
     (case remote of NilKey \<Rightarrow> failC ErrNilRemoteKey
      | PubKey p \<Rightarrow> if pk_curve p \<noteq> sk_curve k then failC ErrCurveMismatch
          else bindC (KAPCtx_ComputeKey L ctx (pk_bytes p) 32) (\<lambda>(key, _). returnC key)
      | _ \<Rightarrow> failC ErrKeyTypeMismatch)"

definition sm2Private_Equal :: "sm2PrivateKey \<Rightarrow> goKey \<Rightarrow> bool" where
  "sm2Private_Equal k x = (case x of PrivKey k' \<Rightarrow> sk_curve k = sk_curve k' \<and> sk_bytes k = sk_bytes k' | _ \<Rightarrow> False)"

definition sm2Public_Equal :: "sm2PublicKey \<Rightarrow> goKey \<Rightarrow> bool" where
  "sm2Public_Equal p x = (case x of PubKey p' \<Rightarrow> pk_curve p = pk_curve p' \<and> pk_bytes p = pk_bytes p' | _ \<Rightarrow> False)"

section \<open>The library behind the key agreement\<close>

lemma newObj_run:
  assumes "cl_alloc L (cs_calls s)" "cst_ok s"
  obtains h s1 where "newObj L obj s = (Ok (Some h), s1)" "h \<notin> dom (cs_live s)" "cs_live s1 = (cs_live s)(h \<mapsto> obj)"
  using assms cst_fresh [OF assms(2), of "cs_next s"] by (auto simp: newObj_def newC_def Let_def)

text \<open>C33: what the key agreement takes as a call of the signature library is what the Go code around the
  library does when the library has memory: the key's type is checked first, then an empty signature crashes,
  and otherwise the library decides.\<close>

theorem VerifyASN1_refines:
  assumes "cst_ok s" "cs_live s k = Some (KeyObj key)" "\<And>n. cl_alloc L n \<and> cl_rc L n"
    "kl_isSM2 KL pub \<longleftrightarrow> ek_type key = KeyTypeSM2" "kl_verify KL pub d sig \<longleftrightarrow> cl_valid L key (Some SM3Method) d sig"
  shows "fst (VerifyASN1 L k d sig s) = SM2_Verify KL pub d sig"
proof (cases "ek_type key = KeyTypeSM2")
  case True
  have "k \<noteq> cs_next s" using cst_fresh [OF assms(1), of k] assms(2) by auto
  then show ?thesis
    using True assms
    by (simp add: op_simps VerifyASN1_def VerifyPKCS1v15_def KeyType_def finishVerify_def SM2_Verify_def
        KeyTypeSM2_def KeyTypeED25519_def indexPanic_def)
next
  case False
  then show ?thesis using assms by (simp add: wrong_type_refused SM2_Verify_def)
qed

lemma VerifyASN1_refines_witness:
  "fst (VerifyASN1 exKeyLib 1 [5, 6] [] exKeyState) =
     SM2_Verify (exKaLib\<lparr>kl_isSM2 := (\<lambda>_. True), kl_verify := (\<lambda>_ d sig. sig = take 4 d)\<rparr>) [1] [5, 6] []"
  by (rule VerifyASN1_refines [OF exKeyState_ok, of 1 "\<lparr>ek_mat = [1], ek_type = KeyTypeSM2\<rparr>"])
    (simp_all add: exKeyState_def exKeyLib_def)

text \<open>The same for the shared secret: \<open>ComputeSecret\<close> with a peer key on the key's own curve.\<close>

lemma ComputeSecret_refines:
  assumes "cs_live s ctx = Some (KapObj c)" "\<And>n. cl_rc (ec_base L) n" "pk_curve p = sk_curve k"
    "kl_kapCompute KL kc (pk_bytes p) 32 = map_option fst (ec_kapCompute L c (pk_bytes p) 32)"
    "\<And>key cs c'. ec_kapCompute L c (pk_bytes p) 32 = Some (key, cs, c') \<Longrightarrow> length cs \<le> 64"
  shows "fst (sm2_ComputeSecret L k ctx (PubKey p) s) = ComputeSecret KL kc (pk_bytes p)"
proof (cases "ec_kapCompute L c (pk_bytes p) 32")
  case None
  then show ?thesis
    using assms by (simp add: op_simps sm2_ComputeSecret_def KAPCtx_ComputeKey_def kapAt_def ComputeSecret_def
        KAP_ComputeKey_def indexPanic_def)
next
  case (Some r)
  obtain key cs c' where r: "r = (key, cs, c')" by (metis prod_cases3)
  have "\<not> 64 < length cs" using assms(5) Some r by fastforce
  then show ?thesis
    using assms Some r by (simp add: op_simps sm2_ComputeSecret_def KAPCtx_ComputeKey_def kapAt_def ComputeSecret_def
        KAP_ComputeKey_def indexPanic_def)
qed

text \<open>The standard key exchange of this curve only fails: the agreement has its own.\<close>

lemma sm2_ECDH_fails: "sm2_ECDH k remote \<noteq> Ok secret"
  by (auto simp: sm2_ECDH_def split: goKey.splits if_splits)

lemma ECKey_Free_twice:
  "(case ECKey_Free p s of (p', s') \<Rightarrow> ECKey_Free p' s') = ECKey_Free p s"
  by (cases p) (simp_all add: ECKey_Free_def)

section \<open>What a key agreement leaves behind\<close>

text \<open>
  Like \<open>tidy\<close>, but the operation leaves objects that no finalizer frees: \<open>n\<close> of them when it succeeds, at most
  as many when it does not.
\<close>

definition leaves :: "nat set \<Rightarrow> nat \<Rightarrow> 'a cop \<Rightarrow> bool" where
  "leaves R n m \<longleftrightarrow>
     (\<forall>s r s'. cst_ok s \<longrightarrow> R \<subseteq> dom (cs_live s) \<longrightarrow> m s = (r, s') \<longrightarrow>
        cst_ok s' \<and> unowned s \<subseteq> unowned s' \<and> dom (cs_live s) \<subseteq> dom (cs_live s') \<and>
        card (unowned s' - unowned s) \<le> n \<and> ((\<exists>x. r = Ok x) \<longrightarrow> card (unowned s' - unowned s) = n))"

named_theorems leaves_intros \<open>what operations leave behind\<close>

lemma leavesD:
  assumes "leaves R n m" "m s = (r, s')" "cst_ok s" "R \<subseteq> dom (cs_live s)"
  shows "cst_ok s'" "unowned s \<subseteq> unowned s'" "dom (cs_live s) \<subseteq> dom (cs_live s')" "card (unowned s' - unowned s) \<le> n"
    "r = Ok x \<Longrightarrow> card (unowned s' - unowned s) = n"
  using assms unfolding leaves_def by blast+

lemma finite_unowned: "cst_ok s \<Longrightarrow> finite (unowned s)"
  unfolding cst_ok_def unowned_def using finite_subset by fastforce

lemma leaves_tidy [leaves_intros]:
  assumes "tidy R {} m" "\<And>x. leaves R n (f x)"
  shows "leaves R n (bindC m f)"
  unfolding leaves_def
proof (intro allI impI)
  fix s r s'
  assume s: "cst_ok s" "R \<subseteq> dom (cs_live s)" "bindC m f s = (r, s')"
  obtain q s1 where m: "m s = (q, s1)" by fastforce
  have "R \<union> {} \<subseteq> dom (cs_live s)" using s(2) by simp
  note t = tidyD [OF assms(1) m s(1) this]
  have R: "R \<subseteq> dom (cs_live s1)" using s(2) t(5) by blast
  show "cst_ok s' \<and> unowned s \<subseteq> unowned s' \<and> dom (cs_live s) \<subseteq> dom (cs_live s') \<and>
        card (unowned s' - unowned s) \<le> n \<and> ((\<exists>x. r = Ok x) \<longrightarrow> card (unowned s' - unowned s) = n)"
  proof (cases q)
    case (Ok x)
    then have "f x s1 = (r, s')" using s(3) m by (simp add: run_simps)
    note l = leavesD [OF assms(2) this t(1) R]
    show ?thesis using l(1,2,4,5) t(2) subset_trans [OF t(5) l(3)] by auto
  qed (use s(3) m t(1,2,5) in \<open>auto simp: run_simps\<close>)
qed

lemma leaves_fail [leaves_intros]: "leaves R n (failC e)" "leaves R n (panicC p)"
  by (simp_all add: leaves_def run_simps)

lemma leaves_if [leaves_intros]: "(b \<Longrightarrow> leaves R n m) \<Longrightarrow> (\<not> b \<Longrightarrow> leaves R n m') \<Longrightarrow> leaves R n (if b then m else m')"
  by simp

lemma orFail_new:
  assumes "orFail e (newC f) s = (q, s1)" "cst_ok s"
  obtains "q = Fail e" "cst_ok s1" "unowned s1 = unowned s" "dom (cs_live s1) = dom (cs_live s)"
  | h where "q = Ok h" "cst_ok s1" "unowned s1 = insert h (unowned s)" "h \<notin> unowned s" "dom (cs_live s1) = insert h (dom (cs_live s))"
proof -
  obtain p s0 where n: "newC f s = (p, s0)" by fastforce
  from n assms(2) show ?thesis
  proof (cases rule: newC_Some)
    case 1
    then have "q = Fail e" "s1 = s0" using assms(1) n by (simp_all add: orFail_def run_simps)
    then show ?thesis using 1 assms(2) by (intro that(1)) (simp_all add: cst_ok_def unowned_def)
  next
    case (2 h obj)
    then have "q = Ok h" "s1 = s0" using assms(1) n by (simp_all add: orFail_def run_simps)
    then show ?thesis using 2 by (intro that(2) [of h]) (auto simp: unowned_def)
  qed
qed


lemma leaves_new:
  assumes "\<And>h. leaves (insert h R) n (g h)"
  shows "leaves R (Suc n) (bindC (orFail e (newC f)) g)"
  unfolding leaves_def
proof (intro allI impI)
  fix s r s'
  assume s: "cst_ok s" "R \<subseteq> dom (cs_live s)" "bindC (orFail e (newC f)) g s = (r, s')"
  obtain q s1 where a: "orFail e (newC f) s = (q, s1)" by fastforce
  from a s(1) show "cst_ok s' \<and> unowned s \<subseteq> unowned s' \<and> dom (cs_live s) \<subseteq> dom (cs_live s') \<and>
        card (unowned s' - unowned s) \<le> Suc n \<and> ((\<exists>x. r = Ok x) \<longrightarrow> card (unowned s' - unowned s) = Suc n)"
  proof (cases rule: orFail_new)
    case 1
    then have "s' = s1" "r = Fail e" using s(3) a by (simp_all add: run_simps)
    then show ?thesis using 1 by simp
  next
    case (2 h)
    have b: "g h s1 = (r, s')" using s(3) a 2(1) by (simp add: run_simps)
    have R: "insert h R \<subseteq> dom (cs_live s1)" using s(2) 2(5) by auto
    note l = leavesD [OF assms b 2(2) R]
    have "unowned s' - unowned s = insert h (unowned s' - unowned s1)" using l(2) 2(3,4) by auto
    moreover have "finite (unowned s' - unowned s1)" "h \<notin> unowned s' - unowned s1"
      using finite_unowned [OF l(1)] 2(3) by simp_all
    ultimately have "card (unowned s' - unowned s) = Suc (card (unowned s' - unowned s1))" by simp
    then show ?thesis using l 2(3,5) by auto
  qed
qed

lemma leaves_new_last [leaves_intros]: "leaves R (Suc 0) (orFail e (newC f))"
proof -
  have "bindC (orFail e (newC f)) returnC = orFail e (newC f)"
    by (auto simp: bindC_def fun_eq_iff run_simps split: prod.splits res.splits)
  moreover have "leaves R (Suc 0) (bindC (orFail e (newC f)) returnC)"
    by (rule leaves_new) (simp add: leaves_def run_simps)
  ultimately show ?thesis by simp
qed

lemma leaves_defer_new [leaves_intros]:
  assumes "\<And>p. leaves R n (body p)"
  shows "leaves R n (bindC (newC (\<lambda>_. Some obj)) (\<lambda>p. deferC (freeC p) (body p)))"
  unfolding leaves_def
proof (intro allI impI)
  fix s r s'
  assume s: "cst_ok s" "R \<subseteq> dom (cs_live s)" "bindC (newC (\<lambda>_. Some obj)) (\<lambda>p. deferC (freeC p) (body p)) s = (r, s')"
  obtain q s1 where a: "newC (\<lambda>_. Some obj) s = (q, s1)" by fastforce
  from a s(1) show "cst_ok s' \<and> unowned s \<subseteq> unowned s' \<and> dom (cs_live s) \<subseteq> dom (cs_live s') \<and>
        card (unowned s' - unowned s) \<le> n \<and> ((\<exists>x. r = Ok x) \<longrightarrow> card (unowned s' - unowned s) = n)"
  proof (cases rule: newC_Some)
    case 1
    then show ?thesis using a by (simp add: newC_def)
  next
    case (2 h ob)
    obtain s2 where b: "body (Some h) s1 = (r, s2)" and s': "s' = freeC (Some h) s2"
      using s(3) a 2(1) by (auto simp: run_simps deferC_def split: prod.splits)
    have R: "R \<subseteq> dom (cs_live s1)" using s(2) 2(7) by auto
    note l = leavesD [OF assms b 2(4) R]
    have h: "h \<in> unowned s2" "h \<notin> unowned s" using l(2) 2(3,8) by (auto simp: unowned_def)
    then have f: "s' = s2\<lparr>cs_live := (cs_live s2)(h := None)\<rparr>" by (auto simp: s' freeC_def unowned_def)
    then have u: "unowned s' = unowned s2 - {h}" by (auto simp: unowned_def)
    have "unowned s' - unowned s = unowned s2 - unowned s1" using u h 2(8) by auto
    moreover have "cst_ok s'" using l(1) h by (auto simp: f cst_ok_def unowned_def)
    moreover have "dom (cs_live s) \<subseteq> dom (cs_live s')" using l(3) 2(3,7) by (auto simp: f)
    moreover have "unowned s \<subseteq> unowned s'" using u l(2) h(2) 2(8) by blast
    ultimately show ?thesis using l(4,5) by auto
  qed
qed

lemma bindC_assoc: "bindC (bindC m f) g = bindC m (\<lambda>x. bindC (f x) g)"
  by (auto simp: bindC_def fun_eq_iff split: prod.splits res.splits)

lemma tidy_ecAt [tidy_intros]: "h \<in> R \<union> W \<Longrightarrow> tidy R W (ecAt h)"
  unfolding ecAt_def by (intro tidy_intros) (auto intro!: tidy_intros split: cObj.splits)

lemma leaves_ToECKey:
  assumes "k \<in> R" "\<And>h. leaves (insert h R) n (g h)"
  shows "leaves R (Suc n) (bindC (ToECKey L (PKey (Some k))) g)"
proof -
  have fail: "bindC (failC e) g = failC e" for e by (simp add: fun_eq_iff bindC_def run_simps)
  have cond: "bindC (if b then m else m') g = (if b then bindC m g else bindC m' g)" for b m m' by simp
  have t: "tidy R {} (BaseType (ec_base L) k)" "tidy R {} (KeyType k)" "tidy R {} (keyAt k)"
    using assms(1) unfolding BaseType_def by (intro tidy_intros; simp)+
  show ?thesis
    unfolding ToECKey.simps pKey_ToECKey_def option.case bindC_assoc cond fail
    by (intro leaves_intros leaves_new t assms(2))
qed

lemma leaves_Init:
  "leaves (insert r (insert l R)) (Suc 0) (KAPCtx_Init L l i r j b1 b2)"
  unfolding KAPCtx_Init_def by (intro leaves_intros tidy_intros) auto

lemma leaves_mono: "leaves R n m \<Longrightarrow> R \<subseteq> R' \<Longrightarrow> leaves R' n m"
  unfolding leaves_def by blast


lemma leaves_open:
  assumes "openAgreement L (PKey (Some k)) i (PKey (Some k')) j s = (r, s')" "cst_ok s" "{k, k'} \<subseteq> dom (cs_live s)"
  shows "cst_ok s'" "unowned s \<subseteq> unowned s'" "card (unowned s' - unowned s) \<le> 3"
    "r = Ok (Some h) \<Longrightarrow> card (unowned s' - unowned s) = 3"
proof -
  let ?m = "bindC (ToECKey L (PKey (Some k))) (\<lambda>l. bindC (ToECKey L (PKey (Some k'))) (\<lambda>r. KAPCtx_Init L l i r j (j < i) True))"
  have m: "leaves {k, k'} (Suc (Suc (Suc 0))) ?m"
    by (intro leaves_ToECKey leaves_Init) simp_all
  obtain q where q: "?m s = (q, s')"
    using assms(1) unfolding openAgreement_def orNil_def by (auto split: prod.splits res.splits)
  have "\<exists>x. q = Ok x" if "r = Ok (Some h)"
    using assms(1) q that unfolding openAgreement_def orNil_def by (auto split: res.splits)
  then show "cst_ok s'" "unowned s \<subseteq> unowned s'" "card (unowned s' - unowned s) \<le> 3"
    "r = Ok (Some h) \<Longrightarrow> card (unowned s' - unowned s) = 3"
    using leavesD [OF m q assms(2,3)] by auto
qed

lemma tidy_kapAt [tidy_intros]: "h \<in> R \<union> W \<Longrightarrow> tidy R W (kapAt h)"
  unfolding kapAt_def by (intro tidy_intros) (auto intro!: tidy_intros split: cObj.splits)

lemma tidy_exchange [tidy_intros]:
  assumes "h \<in> W"
  shows "tidy R W (KAPCtx_Prepare L h)" "tidy R W (KAPCtx_ComputeKey L h point n)"
    "tidy R W (sm2_ComputeSecret L key h remote)" "tidy R W (KAPCtx_FinalCheck L h cs)"
  using assms unfolding KAPCtx_Prepare_def KAPCtx_ComputeKey_def sm2_ComputeSecret_def KAPCtx_FinalCheck_def
  by (auto intro!: tidy_intros split: prod.splits goKey.splits)

text \<open>
  A process that runs key agreements: what a program can do with keys, and for each agreement the constructor, the
  local message and the remote one, in any order and on any contexts.  The number counts the agreements opened.
  Nothing calls \<open>Cleanup\<close> or \<open>Free\<close>, as nothing does outside the SDK's own test program.
\<close>

inductive agreementRun :: "ecLib \<Rightarrow> nat \<Rightarrow> cst \<Rightarrow> bool" for L where
  run_start: "agreementRun L 0 initC"
| run_key: "agreementRun L n s \<Longrightarrow> keysUsed c \<subseteq> dom (cs_live s) \<Longrightarrow> callKey (ec_base L) c s = (r, s') \<Longrightarrow>
    agreementRun L n s'"
| run_collect: "agreementRun L n s \<Longrightarrow> agreementRun L n (collectC k s)"
| run_open: "agreementRun L n s \<Longrightarrow> {k, k'} \<subseteq> dom (cs_live s) \<Longrightarrow>
    openAgreement L (PKey (Some k)) i (PKey (Some k')) j s = (r, s') \<Longrightarrow>
    agreementRun L (case r of Ok (Some h) \<Rightarrow> Suc n | _ \<Rightarrow> n) s'"
| run_prepare: "agreementRun L n s \<Longrightarrow> h \<in> dom (cs_live s) \<Longrightarrow> KAPCtx_Prepare L h s = (r, s') \<Longrightarrow> agreementRun L n s'"
| run_compute: "agreementRun L n s \<Longrightarrow> h \<in> dom (cs_live s) \<Longrightarrow> sm2_ComputeSecret L key h remote s = (r', s') \<Longrightarrow>
    agreementRun L n s'"

text \<open>Every key agreement that is opened leaves three C objects that nothing frees, both keys' copies and its
  context, so that their number grows with the handshakes a peer starts.\<close>

theorem agreements_leak:
  assumes "agreementRun L n s"
  shows "3 * n \<le> card (dom (cs_live s) - cs_fin s) \<and> \<not> cs_bad s"
proof -
  have "cst_ok s \<and> 3 * n \<le> card (unowned s)"
    using assms
  proof induction
    case run_start
    then show ?case by (simp add: cst_ok_def initC_def)
  next
    case (run_key n s c r s')
    then show ?case using tidyD(1,2) [OF tidy_callKey run_key(3)] by simp
  next
    case (run_collect n s k)
    then show ?case using collect_ok by simp
  next
    case (run_open n s k k' i j r s')
    then have s: "cst_ok s" "3 * n \<le> card (unowned s)" by simp_all
    note l = leaves_open [OF run_open(3) s(1) run_open(2)]
    have c: "card (unowned s') = card (unowned s) + card (unowned s' - unowned s)"
      using l(2) finite_unowned [OF l(1)] by (metis card_Diff_subset card_mono finite_subset le_add_diff_inverse)
    show ?case
    proof (cases "\<exists>h. r = Ok (Some h)")
      case True
      then show ?thesis using l(1,4) s(2) c by auto
    next
      case False
      then show ?thesis using l(1) s(2) c by (auto split: res.splits option.splits)
    qed
  next
    case (run_prepare n s h r s')
    have "tidy {} {h} (KAPCtx_Prepare L h)" by (intro tidy_intros) simp
    from tidyD(1,2) [OF this run_prepare(3)] show ?case using run_prepare by simp
  next
    case (run_compute n s h key remote r' s')
    have "tidy {} {h} (sm2_ComputeSecret L key h remote)" by (intro tidy_intros) simp
    from tidyD(1,2) [OF this run_compute(3)] show ?case using run_compute by simp
  qed
  then show ?thesis by (simp add: cst_ok_def unowned_def)
qed


definition exEcLib :: ecLib where
  "exEcLib = \<lparr>ec_base = exKeyLib, ec_empty = [], ec_generate = (\<lambda>n _. Some [of_nat n]), ec_setPublic = (\<lambda>_ p. Some p),
     ec_writePriv = Some, ec_writePub = Some, ec_readPriv = Some, ec_readPub = Some,
     ec_kapInit = (\<lambda>l _ r _ _ _. Some (l @ r)), ec_kapPrepare = (\<lambda>n c. Some ([of_nat n], c)),
     ec_kapCompute = (\<lambda>c point n. Some (replicate n 0, point, c)), ec_kapFinal = (\<lambda>_ _. True)\<rparr>"

lemma agreements_leak_witness:
  "\<exists>s. agreementRun exEcLib 1 s \<and> 3 \<le> card (dom (cs_live s) - cs_fin s)"
proof -
  have "callKey (ec_base exEcLib) (CallLoadPublicPEM [1]) initC = (Ok (), exKeyState)"
    using exKeyState_loaded by (simp add: ignore_def run_simps exEcLib_def)
  from agreementRun.run_key [OF agreementRun.run_start _ this] have s: "agreementRun exEcLib 0 exKeyState" by simp
  let ?o = "openAgreement exEcLib (PKey (Some 1)) ''a'' (PKey (Some 1)) ''b'' exKeyState"
  have "fst ?o = Ok (Some 6)"
    by (simp add: op_simps openAgreement_def orNil_def pKey_ToECKey_def BaseType_def KeyType_def orFail_def
        KAPCtx_Init_def ecAt_def exEcLib_def exKeyLib_def exKeyState_def)
  then have o: "?o = (Ok (Some 6), snd ?o)" by (metis prod.collapse)
  have "agreementRun exEcLib 1 (snd ?o)"
    using agreementRun.run_open [OF s _ o] by (simp add: exKeyState_def)
  then show ?thesis using agreements_leak by fastforce
qed

end
