(* ===== verification/Writers.thy ===== *)
theory Writers
  imports Relay "HOL-Library.Multiset" "HOL-Library.AList"
begin

text \<open>
  Goroutines that write to one session at the same time: the application's \<open>WriteMessage\<close>, and the reader's
  answers to requests for lost messages.  \<open>writeRecordLocked\<close> of \<open>e2ewebsocket/conn.go\<close> holds the lock of the
  half connection while it encrypts and \<open>writeMu\<close> while it writes the frame, but nothing in between, so each
  call is two atomic steps that others may come between.
\<close>

section \<open>Writers\<close>

text \<open>The outgoing half connection, the frames that are encrypted but not yet written, by goroutine, and the
  contents of the frames on the websocket.\<close>

record writers =
  wt_out :: halfConn
  wt_pending :: "(nat \<times> bytes) list"
  wt_wire :: "bytes list"

datatype writerStep = EncryptStep nat recordType bytes | SendStep nat

definition encryptStep :: "evp \<Rightarrow> (nat \<Rightarrow> bytes option) \<Rightarrow> nat \<Rightarrow> recordType \<Rightarrow> bytes \<Rightarrow> writers \<Rightarrow> writers option" where
  "encryptStep L rand g t d w =
     (if map_of (wt_pending w) g \<noteq> None then None
      else case encrypt L rand [] [] (recordByte t # d) (wt_out w) of
        (Ok x, hc) \<Rightarrow> Some (w\<lparr>wt_out := hc, wt_pending := (g, x) # wt_pending w\<rparr>)
      | _ \<Rightarrow> None)"

definition sendStep :: "nat \<Rightarrow> writers \<Rightarrow> writers option" where
  "sendStep g w =
     (case map_of (wt_pending w) g of
        None \<Rightarrow> None
      | Some x \<Rightarrow> Some (w\<lparr>wt_pending := AList.delete g (wt_pending w), wt_wire := wt_wire w @ [x]\<rparr>))"

fun stepWriter :: "evp \<Rightarrow> (nat \<Rightarrow> bytes option) \<Rightarrow> writerStep \<Rightarrow> writers \<Rightarrow> writers option" where
  "stepWriter L rand (EncryptStep g t d) w = encryptStep L rand g t d w"
| "stepWriter L rand (SendStep g) w = sendStep g w"

fun runWriters :: "evp \<Rightarrow> (nat \<Rightarrow> bytes option) \<Rightarrow> writerStep list \<Rightarrow> writers \<Rightarrow> writers option" where
  "runWriters L rand [] w = Some w"
| "runWriters L rand (s # ss) w = Option.bind (stepWriter L rand s w) (runWriters L rand ss)"

fun payloads :: "writerStep list \<Rightarrow> bytes list" where
  "payloads [] = []"
| "payloads (EncryptStep g t d # ss) = (recordByte t # d) # payloads ss"
| "payloads (SendStep g # ss) = payloads ss"

section \<open>What is on the websocket\<close>

definition sealedPayload :: "evp \<Rightarrow> bytes \<Rightarrow> bytes \<Rightarrow> nat \<Rightarrow> bytes \<Rightarrow> bytes" where
  "sealedPayload L k iv n p = seq_bytes n @ replicate 4 0 @ gcm_box L k iv (record_aad n (length p)) p"

definition sealAll :: "evp \<Rightarrow> bytes \<Rightarrow> bytes \<Rightarrow> nat \<Rightarrow> bytes list \<Rightarrow> bytes list" where
  "sealAll L k iv n ps = map (\<lambda>i. sealedPayload L k iv (n + i) (ps ! i)) [0..<length ps]"

lemma sealAll_Nil [simp]: "sealAll L k iv n [] = []"
  by (simp add: sealAll_def)

lemma sealAll_Cons: "sealAll L k iv n (p # ps) = sealedPayload L k iv n p # sealAll L k iv (Suc n) ps"
  by (simp add: sealAll_def upt_conv_Cons map_Suc_upt [symmetric] del: upt_Suc)

lemma length_sealAll [simp]: "length (sealAll L k iv n ps) = length ps"
  by (simp add: sealAll_def)

text \<open>Every record is in exactly one place: on the websocket or with the goroutine that made it.\<close>

definition written :: "writers \<Rightarrow> bytes multiset" where
  "written w = mset (wt_wire w) + mset (map snd (wt_pending w))"

lemma sendStep_written:
  assumes "sendStep g w = Some w'" "distinct (map fst (wt_pending w))"
  shows "written w' = written w" "wt_out w' = wt_out w" "distinct (map fst (wt_pending w'))"
proof -
  obtain x where x: "map_of (wt_pending w) g = Some x"
      "w' = w\<lparr>wt_pending := AList.delete g (wt_pending w), wt_wire := wt_wire w @ [x]\<rparr>"
    using assms(1) by (auto simp: sendStep_def split: option.splits)
  have "mset (map snd ps) = add_mset x (mset (map snd (AList.delete g ps)))"
    if "map_of ps g = Some x" "distinct (map fst ps)" for ps
    using that
  proof (induction ps)
    case (Cons q ps)
    show ?case
    proof (cases "fst q = g")
      case True
      then have "AList.delete g ps = ps" using Cons.prems(2) by (intro delete_id) auto
      then show ?thesis using True Cons.prems(1) by (cases q) auto
    next
      case False
      then show ?thesis using Cons by (cases q) auto
    qed
  qed simp
  from this [OF x(1) assms(2)] show "written w' = written w" "wt_out w' = wt_out w" "distinct (map fst (wt_pending w'))"
    using assms(2) by (simp_all add: x(2) written_def distinct_delete)
qed

lemma encryptStep_written:
  assumes "encryptStep L rand g t d w = Some w'" "gcm_lib L" "length k = 16" "iv \<noteq> []" "at_record k iv n (wt_out w)"
    "n < 2 ^ 64 - 1" "distinct (map fst (wt_pending w))"
  shows "written w' = written w + {#sealedPayload L k iv n (recordByte t # d)#}" "at_record k iv (Suc n) (wt_out w')"
    "distinct (map fst (wt_pending w'))"
proof -
  obtain hc where e: "encrypt L rand [] [] (recordByte t # d) (wt_out w) =
      (Ok (sealedPayload L k iv n (recordByte t # d)), hc)" "at_record k iv (Suc n) hc"
    using encrypt_record [OF assms(2-6), of rand "recordByte t # d"] unfolding sealedPayload_def by blast
  have "map_of (wt_pending w) g = None"
    and w': "w' = w\<lparr>wt_out := hc, wt_pending := (g, sealedPayload L k iv n (recordByte t # d)) # wt_pending w\<rparr>"
    using assms(1) e(1) by (auto simp: encryptStep_def split: if_splits)
  then show "written w' = written w + {#sealedPayload L k iv n (recordByte t # d)#}" "at_record k iv (Suc n) (wt_out w')"
    "distinct (map fst (wt_pending w'))"
    using e(2) assms(7) by (simp_all add: written_def map_of_eq_None_iff)
qed

lemma run_written:
  assumes "runWriters L rand ss w = Some w'" "gcm_lib L" "length k = 16" "iv \<noteq> []" "at_record k iv n (wt_out w)"
    "n + length (payloads ss) < 2 ^ 64" "distinct (map fst (wt_pending w))"
  shows "written w' = written w + mset (sealAll L k iv n (payloads ss)) \<and> at_record k iv (n + length (payloads ss)) (wt_out w')"
  using assms
proof (induction ss arbitrary: w n)
  case (Cons s ss)
  obtain w1 where s: "stepWriter L rand s w = Some w1" "runWriters L rand ss w1 = Some w'"
    using Cons.prems(1) by (auto simp: bind_eq_Some_conv)
  show ?case
  proof (cases s)
    case (EncryptStep g t d)
    have n: "n < 2 ^ 64 - 1" using Cons.prems(6) EncryptStep by simp
    note e = encryptStep_written [OF _ Cons.prems(2-5) n Cons.prems(7), of rand g t d w1]
    have "written w' = written w1 + mset (sealAll L k iv (Suc n) (payloads ss)) \<and>
        at_record k iv (Suc n + length (payloads ss)) (wt_out w')"
      using s e Cons.prems EncryptStep by (intro Cons.IH) auto
    then show ?thesis using e(1) s(1) EncryptStep by (simp add: sealAll_Cons)
  next
    case (SendStep g)
    note e = sendStep_written [OF _ Cons.prems(7), of g w1]
    have "written w' = written w1 + mset (sealAll L k iv n (payloads ss)) \<and> at_record k iv (n + length (payloads ss)) (wt_out w')"
      using s e Cons.prems SendStep by (intro Cons.IH) auto
    then show ?thesis using e(1) s(1) SendStep by simp
  qed
qed simp


section \<open>What the receiver makes of it\<close>

lemma length_sealedPayload:
  assumes "gcm_lib L" "length k = 16" "iv \<noteq> []"
  shows "length (sealedPayload L k iv n p) = length p + 28"
  by (simp add: sealedPayload_def length_gcm_box [OF assms])

text \<open>GCM authenticates the additional data, which holds the number: record \<open>m\<close> does not open as record \<open>n\<close>.\<close>

definition binds_number :: "evp \<Rightarrow> bytes \<Rightarrow> bytes \<Rightarrow> bool" where
  "binds_number L k iv \<longleftrightarrow>
     (\<forall>n m p. n < 2 ^ 64 \<and> m < 2 ^ 64 \<and> n \<noteq> m \<longrightarrow>
        gcm_unbox L k iv (record_aad n (length p)) (gcm_box L k iv (record_aad m (length p)) p) = None)"

lemma decrypt_sealed:
  assumes "gcm_lib L" "length k = 16" "iv \<noteq> []" "at_record k iv n hc" "n < 2 ^ 64 - 1" "binds_number L k iv" "m < 2 ^ 64"
  shows "\<exists>hc'. decrypt L (sealedPayload L k iv m p) hc = (if m = n then Ok p else Fail AlertBadRecordMAC, hc') \<and>
    at_record k iv (if m = n then Suc n else n) hc'"
proof -
  let ?x = "sealedPayload L k iv m p"
  have l: "length ?x = length p + 28" by (rule length_sealedPayload [OF assms(1-3)])
  have d: "drop 12 ?x = gcm_box L k iv (record_aad m (length p)) p" by (simp add: sealedPayload_def)
  have "gcm_unbox L k iv (record_aad n (length ?x - 28)) (drop 12 ?x) = (if m = n then Some p else None)"
    using gcm_unbox_box [OF assms(1-3)] assms(5-7) by (simp add: l d binds_number_def)
  moreover have "28 \<le> length ?x" using l by simp
  ultimately show ?thesis using decrypt_record [OF assms(1-5), of ?x] by fastforce
qed

lemma decryptAll_in_order:
  assumes "gcm_lib L" "length k = 16" "iv \<noteq> []" "at_record k iv n hc" "n + length ps < 2 ^ 64" "binds_number L k iv"
  shows "\<exists>hc'. decryptAll L (sealAll L k iv n ps) hc = (Ok ps, hc')"
  using assms
proof (induction ps arbitrary: n hc)
  case (Cons p ps)
  have n: "n < 2 ^ 64 - 1" "n < 2 ^ 64" using Cons.prems(5) by simp_all
  obtain hc1 where d: "decrypt L (sealedPayload L k iv n p) hc = (Ok p, hc1)" "at_record k iv (Suc n) hc1"
    using decrypt_sealed [OF Cons.prems(1-4) n(1) Cons.prems(6) n(2), of p] by auto
  have "Suc n + length ps < 2 ^ 64" using Cons.prems(5) by simp
  from Cons.IH [OF Cons.prems(1-3) d(2) this Cons.prems(6)] d(1) show ?case by (auto simp: sealAll_Cons)
qed simp

text \<open>Of the records a sender made, in any order, the receiver opens those before the first that is out of turn.\<close>

lemma decryptAll_only_in_order:
  assumes "gcm_lib L" "length k = 16" "iv \<noteq> []" "at_record k iv (n + i) hc" "n + length ps < 2 ^ 64" "binds_number L k iv"
    "set xs \<subseteq> set (sealAll L k iv n ps)" "i + length xs \<le> length ps" "decryptAll L xs hc = (Ok qs, hc')"
  shows "xs = take (length xs) (drop i (sealAll L k iv n ps))"
  using assms(4-9)
proof (induction xs arbitrary: i hc qs)
  case (Cons x xs)
  obtain j where j: "j < length ps" "x = sealedPayload L k iv (n + j) (ps ! j)"
    using Cons.prems(4) by (auto simp: sealAll_def)
  have b: "n + i < 2 ^ 64 - 1" "n + j < 2 ^ 64" using Cons.prems(2,5) j(1) by simp_all
  obtain hc1 where d: "decrypt L x hc = (if n + j = n + i then Ok (ps ! j) else Fail AlertBadRecordMAC, hc1)"
      "at_record k iv (if n + j = n + i then Suc (n + i) else n + i) hc1"
    using decrypt_sealed [OF assms(1-3) Cons.prems(1) b(1) Cons.prems(3) b(2)] j(2) by blast
  have ji: "j = i" using Cons.prems(6) d(1) by (auto split: if_splits)
  then have "at_record k iv (n + Suc i) hc1" using d(2) by simp
  moreover obtain rs where "decryptAll L xs hc1 = (Ok rs, hc')"
    using Cons.prems(6) d(1) ji by (auto simp: outcome_simps split: prod.splits)
  ultimately have "xs = take (length xs) (drop (Suc i) (sealAll L k iv n ps))"
    using Cons.prems(2-5) by (intro Cons.IH) auto
  moreover have "drop i (sealAll L k iv n ps) = x # drop (Suc i) (sealAll L k iv n ps)"
    using j ji by (simp add: Cons_nth_drop_Suc [symmetric] sealAll_def)
  ultimately show ?case by simp
qed simp

text \<open>C10: when goroutines write to a session at the same time, what arrives is what they encrypted, each record
  once, but the receiver can open it exactly when the frames went out in the order in which they were encrypted.\<close>

theorem overtaking_breaks_records:
  assumes "gcm_lib L" "length k = 16" "iv \<noteq> []" "binds_number L k iv"
    "at_record k iv n (wt_out w)" "wt_pending w = []" "wt_wire w = []" "n + length (payloads ss) < 2 ^ 64"
    "runWriters L rand ss w = Some w'" "wt_pending w' = []" "at_record k iv n inn"
  shows "mset (wt_wire w') = mset (sealAll L k iv n (payloads ss)) \<and>
    ((\<exists>qs inn'. decryptAll L (wt_wire w') inn = (Ok qs, inn')) \<longleftrightarrow> wt_wire w' = sealAll L k iv n (payloads ss))"
proof -
  let ?rs = "sealAll L k iv n (payloads ss)"
  have "distinct (map fst (wt_pending w))" by (simp add: assms(6))
  from run_written [OF assms(9,1-3,5,8) this] have m: "mset (wt_wire w') = mset ?rs"
    using assms(6,7,10) by (simp add: written_def)
  have set: "set (wt_wire w') \<subseteq> set ?rs" using m by (metis mset_eq_setD order_refl)
  have len: "length (wt_wire w') = length (payloads ss)" using m by (metis length_sealAll mset_eq_length)
  have "wt_wire w' = ?rs" if "decryptAll L (wt_wire w') inn = (Ok qs, inn')" for qs inn'
    using decryptAll_only_in_order [OF assms(1-3) _ assms(8,4) set _ that, of 0] assms(11) len by simp
  then show ?thesis using m decryptAll_in_order [OF assms(1-3,11,8,4)] by metis
qed

text \<open>Two goroutines, the second of which overtakes the first between its two locks.\<close>

definition overtake :: "nat \<Rightarrow> nat \<Rightarrow> recordType \<Rightarrow> bytes \<Rightarrow> recordType \<Rightarrow> bytes \<Rightarrow> writerStep list" where
  "overtake g1 g2 t1 d1 t2 d2 = [EncryptStep g1 t1 d1, EncryptStep g2 t2 d2, SendStep g2, SendStep g1]"

lemma overtake_wire:
  assumes "gcm_lib L" "length k = 16" "iv \<noteq> []" "at_record k iv n (wt_out w)" "wt_pending w = []" "Suc n < 2 ^ 64 - 1" "g1 \<noteq> g2"
  shows "\<exists>w'. runWriters L rand (overtake g1 g2 t1 d1 t2 d2) w = Some w' \<and> wt_pending w' = [] \<and>
    wt_wire w' = wt_wire w @ [sealedPayload L k iv (Suc n) (recordByte t2 # d2), sealedPayload L k iv n (recordByte t1 # d1)]"
proof -
  have n: "n < 2 ^ 64 - 1" using assms(6) by simp
  obtain hc1 where e1: "encrypt L rand [] [] (recordByte t1 # d1) (wt_out w) = (Ok (sealedPayload L k iv n (recordByte t1 # d1)), hc1)"
      "at_record k iv (Suc n) hc1"
    using encrypt_record [OF assms(1-4) n, of rand "recordByte t1 # d1"] unfolding sealedPayload_def by blast
  obtain hc2 where e2: "encrypt L rand [] [] (recordByte t2 # d2) hc1 = (Ok (sealedPayload L k iv (Suc n) (recordByte t2 # d2)), hc2)"
    using encrypt_record [OF assms(1-3) e1(2) assms(6), of rand "recordByte t2 # d2"] unfolding sealedPayload_def by blast
  show ?thesis using e1(1) e2 assms(5,7) by (simp add: overtake_def encryptStep_def sendStep_def)
qed

text \<open>Nothing in the code keeps that order.  A second goroutine that writes to the session between the two
  locks of the first overtakes it, and the receiver, which takes the frame that comes first for a forgery,
  ends the session.\<close>

theorem overtaking_ends_session:
  assumes "gcm_lib L" "length k = 16" "iv \<noteq> []" "binds_number L k iv" "en_evp (ce_hs E) = L"
    "at_record k iv n (wt_out w)" "wt_pending w = []" "Suc n < 2 ^ 64 - 1" "g1 \<noteq> g2"
    "conn_ok c" "cn_sessions c (getSessionID (cn_hostId c) peer) = Some p" "at_record k iv n (se_in (sessOf p c))"
    "fromPeer c m peer" "runWriters L rand (overtake g1 g2 t1 d1 t2 d2) w = Some w'"
    "GetContent m = wt_wire w' ! length (wt_wire w)" "handleReadBoundMsg E t m c = Some (Ok (), c')"
  shows "se_done (so_sess (cn_heap c' ! p)) \<and> cn_sessions c' (getSessionID (cn_hostId c) peer) \<noteq> Some p"
proof -
  have x: "GetContent m = sealedPayload L k iv (Suc n) (recordByte t2 # d2)"
    using overtake_wire [OF assms(1-3,6-9), of rand t1 d1 t2 d2] assms(14,15) by (auto simp: nth_append)
  have b: "n < 2 ^ 64 - 1" "Suc n < 2 ^ 64" using assms(8) by simp_all
  obtain inn where d: "decrypt (en_evp (ce_hs E)) (GetContent m) (se_in (sessOf p c)) = (Fail AlertBadRecordMAC, inn)"
    using decrypt_sealed [OF assms(1-3,12) b(1) assms(4) b(2), of "recordByte t2 # d2"] assms(5) x by auto
  have "p < length (cn_heap c)" using assms(10,11) by (auto simp: conn_ok_def)
  then show ?thesis
    using undecryptable_ends_session [OF assms(13,10,11) d assms(16)] by (auto split: if_splits)
qed

text \<open>A stand-in for GCM whose tag is taken from the additional data.\<close>

definition exBoundEvp :: evp where
  "exBoundEvp = exEvp\<lparr>evp_encrypt := (\<lambda>_ k iv a p. Some (p, take 16 (case a of None \<Rightarrow> replicate 16 0 | Some x \<Rightarrow> x @ replicate 16 0))),
     evp_decrypt := (\<lambda>_ k iv a c t. if t = Some (take 16 (case a of None \<Rightarrow> replicate 16 0 | Some x \<Rightarrow> x @ replicate 16 0)) then Some c else None)\<rparr>"

lemma exBound_gcm_lib: "gcm_lib exBoundEvp"
  by (auto simp: gcm_lib_def exBoundEvp_def exEvp_def split: if_splits option.splits)

lemma exBound_binds: "binds_number exBoundEvp k iv"
proof (unfold binds_number_def, intro allI impI)
  fix n m :: nat and p :: bytes
  assume a: "n < 2 ^ 64 \<and> m < 2 ^ 64 \<and> n \<noteq> m"
  then have "seq_bytes m \<noteq> seq_bytes n" by (metis be_nat_seq_bytes)
  then show "gcm_unbox exBoundEvp k iv (record_aad n (length p)) (gcm_box exBoundEvp k iv (record_aad m (length p)) p) = None"
    by (auto simp: gcm_unbox_def gcm_box_def exBoundEvp_def record_aad_def Let_def len16_def)
qed

lemma le_bytes_numeral: "le_bytes (numeral k) n = of_nat n # le_bytes (pred_numeral k) (n div 256)"
  by (metis le_bytes.simps(2) numeral_eq_Suc)

lemma seq_bytes_1: "seq_bytes (Suc 0) = replicate 7 0 @ [1]"
proof -
  have "le_bytes 8 1 = 1 # le_bytes 7 0" by (simp add: le_bytes_numeral)
  then show ?thesis by (simp add: seq_bytes_def le_bytes_0)
qed

abbreviation exWriters :: writers where
  "exWriters \<equiv> \<lparr>wt_out = exHalf, wt_pending = [], wt_wire = []\<rparr>"

abbreviation exOvertake :: "writerStep list" where
  "exOvertake \<equiv> overtake 1 2 RecordApplicationData [5] RecordApplicationData [6]"

lemmas exWriters_facts = exBound_gcm_lib exKey_length list.distinct(2) exBound_binds

lemma overtaking_breaks_records_witness:
  "\<exists>w'. runWriters exBoundEvp (\<lambda>_. None) exOvertake exWriters = Some w' \<and> (\<nexists>qs inn'. decryptAll exBoundEvp (wt_wire w') exHalf = (Ok qs, inn'))"
proof -
  let ?iv = "[1, 2, 3, 4 :: byte]" and ?L = exBoundEvp
  have a: "at_record exKey ?iv 0 (wt_out exWriters)" "Suc 0 < 2 ^ 64 - 1" "(1 :: nat) \<noteq> 2" using exHalf_at by simp_all
  obtain w' where w': "runWriters ?L (\<lambda>_. None) exOvertake exWriters = Some w'" "wt_pending w' = []"
      "wt_wire w' = [sealedPayload ?L exKey ?iv 1 [23, 6], sealedPayload ?L exKey ?iv 0 [23, 5]]"
    using overtake_wire [OF exBound_gcm_lib exKey_length _ a(1) _ a(2,3), of "\<lambda>_. None" RecordApplicationData "[5]" RecordApplicationData "[6]"]
    by auto
  have p: "payloads exOvertake = [[23, 5], [23, 6]]" by (simp add: overtake_def)
  have "sealedPayload ?L exKey ?iv 1 [23, 6] \<noteq> sealedPayload ?L exKey ?iv 0 [23, 5]"
    by (simp add: sealedPayload_def seq_bytes_1 seq_bytes_0 numeral_eq_Suc)
  then have "wt_wire w' \<noteq> sealAll ?L exKey ?iv 0 (payloads exOvertake)" unfolding p w'(3) by (simp add: sealAll_Cons)
  moreover have "0 + length (payloads exOvertake) < 2 ^ 64" unfolding p by simp
  ultimately show ?thesis
    using overtaking_breaks_records [OF exBound_gcm_lib exKey_length _ exBound_binds a(1) _ _ _ w'(1,2) exHalf_at] w'(1) by auto
qed

lemma overtaking_ends_session_witness:
  "\<exists>E x c'. handleReadBoundMsg E 2 (exIn x) exSilent = Some (Ok (), c') \<and> se_done (so_sess (cn_heap c' ! 0))"
proof -
  let ?iv = "[1, 2, 3, 4 :: byte]" and ?L = exBoundEvp
  let ?E = "exConnEnv\<lparr>ce_hs := (exEnv ''b'')\<lparr>en_evp := exBoundEvp\<rparr>\<rparr>"
  have a: "at_record exKey ?iv 0 (wt_out exWriters)" "Suc 0 < 2 ^ 64 - 1" "(1 :: nat) \<noteq> 2" using exHalf_at by simp_all
  obtain w' where w': "runWriters ?L (\<lambda>_. None) exOvertake exWriters = Some w'"
      "wt_wire w' = [sealedPayload ?L exKey ?iv 1 [23, 6], sealedPayload ?L exKey ?iv 0 [23, 5]]"
    using overtake_wire [OF exBound_gcm_lib exKey_length _ a(1) _ a(2,3), of "\<lambda>_. None" RecordApplicationData "[5]" RecordApplicationData "[6]"]
    by auto
  let ?x = "sealedPayload ?L exKey ?iv 1 [23, 6]"
  have si: "at_record exKey ?iv 0 (se_in (sessOf 0 exSilent))" using exHalf_at by (simp add: exConn_sess exSealed_def)
  have b: "(0 :: nat) < 2 ^ 64 - 1" "(1 :: nat) < 2 ^ 64" "(1 :: nat) \<noteq> 0" by simp_all
  obtain inn where d: "decrypt ?L ?x (se_in (sessOf 0 exSilent)) = (Fail AlertBadRecordMAC, inn)"
    using decrypt_sealed [OF exBound_gcm_lib exKey_length _ si b(1) exBound_binds b(2), of "[23, 6]"] b(3) by auto
  have "\<not> isPlaintextHelloRecord C ?x" for C
    by (simp add: isPlaintextHelloRecord_def sealedPayload_def seq_bytes_1 recordType_of_def)
  then obtain c' where h: "handleReadBoundMsg ?E 2 (exIn ?x) exSilent = Some (Ok (), c')"
    using exSilent_undecryptable [of ?E ?x] d by (auto simp: exConnEnv_def)
  have x: "GetContent (exIn ?x) = wt_wire w' ! length (wt_wire exWriters)" using w'(2) by simp
  have e: "en_evp (ce_hs ?E) = ?L" by simp
  from overtaking_ends_session [OF exBound_gcm_lib exKey_length _ exBound_binds e a(1) _ a(2,3) exSilent_ok exConn_session si exConn_from w'(1) x h] h
  show ?thesis by auto
qed

end
