(* ===== verification/CipherCtx.thy ===== *)
theory CipherCtx
  imports Sm4Aead
begin

text \<open>
  \<open>crypto/cipher.go\<close> and the encrypters and decrypters of \<open>crypto/sm4tongsuo\<close>, call by call: how \<open>EncryptAll\<close> and
  \<open>DecryptAll\<close> drive a C context through initialisation, additional data, text and the final block, with the
  Go buffers the library writes into and the lengths as \<open>C.int\<close> passes them.  \<open>Sm4Aead\<close>, which has each of these
  sequences as one step, is refined by it.
\<close>

section \<open>The calls of the library\<close>

text \<open>
  A context is a value of the type \<open>'c\<close>, and the answer of a call comes with the context after it.  \<open>True\<close> is the
  direction of encryption.  \<open>api_update\<close> is given the bytes that C reads, \<open>api_negative\<close> is what it answers to a
  negative length.
\<close>

datatype ctrlCode = AeadSetIvLen | AeadGetTag | AeadSetTag

record 'c evpApi =
  api_byname :: "string \<Rightarrow> nat option"
  api_new :: "'c option"
  api_initCipher :: "bool \<Rightarrow> nat \<Rightarrow> 'c \<Rightarrow> bool \<times> 'c"
  api_initKey :: "bool \<Rightarrow> bytes option \<Rightarrow> bytes option \<Rightarrow> 'c \<Rightarrow> bool \<times> 'c"
  api_cipher :: "'c \<Rightarrow> nat option"
  api_encrypting :: "'c \<Rightarrow> bool"
  api_isCcm :: "'c \<Rightarrow> bool"
  api_block :: "'c \<Rightarrow> nat"
  api_keylen :: "'c \<Rightarrow> nat"
  api_ivlen :: "'c \<Rightarrow> nat"
  api_padding :: "bool \<Rightarrow> 'c \<Rightarrow> 'c"
  api_ctrlSet :: "ctrlCode \<Rightarrow> int \<Rightarrow> bytes option \<Rightarrow> 'c \<Rightarrow> bool \<times> 'c"
  api_ctrlGet :: "ctrlCode \<Rightarrow> int \<Rightarrow> 'c \<Rightarrow> bytes option \<times> 'c"
  api_ctrlInt :: "ctrlCode \<Rightarrow> int \<Rightarrow> 'c \<Rightarrow> int option \<times> 'c"
  api_textLength :: "bool \<Rightarrow> int \<Rightarrow> 'c \<Rightarrow> bool \<times> 'c"
  api_aad :: "bool \<Rightarrow> bytes \<Rightarrow> 'c \<Rightarrow> bool \<times> 'c"
  api_update :: "bool \<Rightarrow> bytes \<Rightarrow> 'c \<Rightarrow> bytes option \<times> 'c"
  api_negative :: "'c \<Rightarrow> bytes option \<times> 'c"
  api_final :: "bool \<Rightarrow> 'c \<Rightarrow> bytes option \<times> 'c"

definition bindX :: "('c \<Rightarrow> 'a res \<times> 'c) \<Rightarrow> ('a \<Rightarrow> 'c \<Rightarrow> 'b res \<times> 'c) \<Rightarrow> 'c \<Rightarrow> 'b res \<times> 'c" where
  "bindX m f c =
     (case m c of
        (Ok x, c') \<Rightarrow> f x c'
      | (Fail e, c') \<Rightarrow> (Fail e, c')
      | (Panic p, c') \<Rightarrow> (Panic p, c'))"

definition okX :: "('c \<Rightarrow> bool \<times> 'c) \<Rightarrow> 'c \<Rightarrow> unit res \<times> 'c" where
  "okX call c = (case call c of (ok, c') \<Rightarrow> (if ok then Ok () else Fail LibError, c'))"

text \<open>\<open>C.int(n)\<close> of a Go length, and the bytes of a slice that a call with this length reads.\<close>

definition cInt :: "nat \<Rightarrow> int" where
  "cInt n = sint (word_of_nat n :: 32 word)"

definition cRead :: "bytes \<Rightarrow> bytes" where
  "cRead d = take (nat (cInt (length d))) d"

definition writePanic :: string where "writePanic = ''C writes past the end of the slice''"

section \<open>Cipher contexts\<close>

definition GetCipherByName :: "'c evpApi \<Rightarrow> string \<Rightarrow> nat res" where
  "GetCipherByName A name = of_option LibError (api_byname A name)"

definition newCipherCtx :: "'c evpApi \<Rightarrow> 'c res" where
  "newCipherCtx A = of_option ErrMallocFailure (api_new A)"

definition ctxSetKeyAndIV :: "'c evpApi \<Rightarrow> bytes option \<Rightarrow> bytes option \<Rightarrow> 'c \<Rightarrow> unit res \<times> 'c" where
  "ctxSetKeyAndIV A key iv c =
     (if (case key of Some k \<Rightarrow> length k \<noteq> api_keylen A c | None \<Rightarrow> False) then (Fail LibError, c)
      else if key = Some [] then (Panic ''index out of range'', c)
      else if (case iv of Some v \<Rightarrow> length v \<noteq> api_ivlen A c | None \<Rightarrow> False) then (Fail LibError, c)
      else if iv = Some [] then (Panic ''index out of range'', c)
      else if key = None \<and> iv = None then (Ok (), c)
      else if api_encrypting A c then okX (api_initKey A True key iv) c
      else okX (api_initKey A False key iv) c)"

definition newEncryptionCipherCtx :: "'c evpApi \<Rightarrow> nat option \<Rightarrow> bytes option \<Rightarrow> bytes option \<Rightarrow> 'c res" where
  "newEncryptionCipherCtx A cipher key iv =
     (case cipher of None \<Rightarrow> Fail ErrNilParameter
      | Some p \<Rightarrow>
          bind_res (newCipherCtx A) (\<lambda>c.
          case bindX (okX (api_initCipher A True p)) (\<lambda>_. ctxSetKeyAndIV A key iv) c of
            (r, c') \<Rightarrow> bind_res r (\<lambda>_. Ok c')))"

definition newDecryptionCipherCtx :: "'c evpApi \<Rightarrow> nat option \<Rightarrow> bytes option \<Rightarrow> bytes option \<Rightarrow> 'c res" where
  "newDecryptionCipherCtx A cipher key iv =
     (case cipher of None \<Rightarrow> Fail ErrNilParameter
      | Some p \<Rightarrow>
          bind_res (newCipherCtx A) (\<lambda>c.
          case bindX (okX (api_initCipher A False p)) (\<lambda>_. ctxSetKeyAndIV A key iv) c of
            (r, c') \<Rightarrow> bind_res r (\<lambda>_. Ok c')))"

definition SetCtrl :: "'c evpApi \<Rightarrow> ctrlCode \<Rightarrow> nat \<Rightarrow> 'c \<Rightarrow> unit res \<times> 'c" where
  "SetCtrl A code arg = okX (api_ctrlSet A code (cInt arg) None)"

definition SetCtrlBytes :: "'c evpApi \<Rightarrow> ctrlCode \<Rightarrow> nat \<Rightarrow> bytes \<Rightarrow> 'c \<Rightarrow> unit res \<times> 'c" where
  "SetCtrlBytes A code arg value c =
     (if value = [] then (Panic ''index out of range'', c)
      else okX (api_ctrlSet A code (cInt arg) (Some value)) c)"

definition GetCtrlInt :: "'c evpApi \<Rightarrow> ctrlCode \<Rightarrow> nat \<Rightarrow> 'c \<Rightarrow> int res \<times> 'c" where
  "GetCtrlInt A code arg c = (case api_ctrlInt A code (cInt arg) c of (r, c') \<Rightarrow> (of_option LibError r, c'))"

text \<open>What C leaves of the slice keeps the zeros it was made with.\<close>

definition GetCtrlBytes :: "'c evpApi \<Rightarrow> ctrlCode \<Rightarrow> nat \<Rightarrow> nat \<Rightarrow> 'c \<Rightarrow> bytes res \<times> 'c" where
  "GetCtrlBytes A code arg expectsize c =
     (if expectsize = 0 then (Panic ''index out of range'', c)
      else case api_ctrlGet A code (cInt arg) c of
        (None, c') \<Rightarrow> (Fail LibError, c')
      | (Some out, c') \<Rightarrow>
          (if expectsize < length out then Panic writePanic
           else Ok (out @ replicate (expectsize - length out) 0), c'))"

text \<open>\<open>EVP_EncryptUpdate\<close> and \<open>EVP_DecryptUpdate\<close> on a Go slice.\<close>

definition cUpdate :: "'c evpApi \<Rightarrow> bool \<Rightarrow> bytes \<Rightarrow> 'c \<Rightarrow> bytes option \<times> 'c" where
  "cUpdate A e d = (if cInt (length d) < 0 then api_negative A else api_update A e (cRead d))"

definition intoSlice :: "nat \<Rightarrow> bytes option \<times> 'c \<Rightarrow> bytes res \<times> 'c" where
  "intoSlice cap answer =
     (case answer of
        (None, c) \<Rightarrow> (Fail LibError, c)
      | (Some out, c) \<Rightarrow> (if cap < length out then Panic writePanic else Ok out, c))"

definition EncryptUpdate :: "'c evpApi \<Rightarrow> bytes \<Rightarrow> 'c \<Rightarrow> bytes res \<times> 'c" where
  "EncryptUpdate A input c =
     (if input = [] then (Ok [], c)
      else intoSlice (length input + api_block A c) (cUpdate A True input c))"

definition DecryptUpdate :: "'c evpApi \<Rightarrow> bytes \<Rightarrow> 'c \<Rightarrow> bytes res \<times> 'c" where
  "DecryptUpdate A input c =
     (if input = [] then (Ok [], c)
      else intoSlice (length input + api_block A c) (cUpdate A False input c))"

definition EncryptFinal :: "'c evpApi \<Rightarrow> 'c \<Rightarrow> bytes res \<times> 'c" where
  "EncryptFinal A c =
     (if api_block A c = 0 then (Panic ''index out of range'', c) else intoSlice (api_block A c) (api_final A True c))"

definition DecryptFinal :: "'c evpApi \<Rightarrow> 'c \<Rightarrow> bytes res \<times> 'c" where
  "DecryptFinal A c =
     (if api_block A c = 0 then (Panic ''index out of range'', c) else intoSlice (api_block A c) (api_final A False c))"

section \<open>Encrypters and decrypters\<close>

text \<open>A slice that may be nil is an option; keys and IVs are as the caller gave them.\<close>

record 'c encrypter =
  eo_ctx :: 'c
  eo_key :: "bytes option"
  eo_iv :: "bytes option"
  eo_aad :: "bytes option"
  eo_tagLen :: nat

record 'c decrypter =
  do_ctx :: 'c
  do_key :: "bytes option"
  do_iv :: "bytes option"
  do_aad :: "bytes option"
  do_tag :: "bytes option"

text \<open>The additional data goes through the update call without an output.\<close>

definition addData :: "'c evpApi \<Rightarrow> bool \<Rightarrow> bytes option \<Rightarrow> nat \<Rightarrow> 'c \<Rightarrow> unit res \<times> 'c" where
  "addData A e aad n c =
     (case aad of None \<Rightarrow> (Ok (), c)
      | Some a \<Rightarrow>
          bindX (if api_isCcm A c then okX (api_textLength A e (cInt n)) else (\<lambda>c. (Ok (), c))) (\<lambda>_ c.
          if a = [] then (Panic ''index out of range'', c)
          else if cInt (length a) < 0 then okX (\<lambda>c. (fst (api_negative A c) \<noteq> None, snd (api_negative A c))) c
          else okX (api_aad A e (cRead a)) c) c)"

definition encryptCalls :: "'c evpApi \<Rightarrow> 'c encrypter \<Rightarrow> bytes \<Rightarrow> 'c \<Rightarrow> bytes res \<times> 'c" where
  "encryptCalls A ob src =
     bindX (\<lambda>c. if api_isCcm A c then SetCtrl A AeadSetTag (eo_tagLen ob) c else (Ok (), c)) (\<lambda>_.
     bindX (ctxSetKeyAndIV A (eo_key ob) (eo_iv ob)) (\<lambda>_.
     bindX (addData A True (eo_aad ob) (length src)) (\<lambda>_.
     bindX (EncryptUpdate A src) (\<lambda>buf.
     bindX (EncryptFinal A) (\<lambda>buf2 c. (Ok (buf @ buf2), c))))))"

definition encryptAll :: "'c evpApi \<Rightarrow> bytes \<Rightarrow> 'c encrypter \<Rightarrow> bytes res \<times> 'c encrypter" where
  "encryptAll A src ob = (case encryptCalls A ob src (eo_ctx ob) of (r, c) \<Rightarrow> (r, ob\<lparr>eo_ctx := c\<rparr>))"

definition getTag :: "'c evpApi \<Rightarrow> 'c encrypter \<Rightarrow> bytes res \<times> 'c encrypter" where
  "getTag A ob = (case GetCtrlBytes A AeadGetTag (eo_tagLen ob) (eo_tagLen ob) (eo_ctx ob) of (r, c) \<Rightarrow> (r, ob\<lparr>eo_ctx := c\<rparr>))"

definition decryptCalls :: "'c evpApi \<Rightarrow> 'c decrypter \<Rightarrow> bytes \<Rightarrow> 'c \<Rightarrow> bytes res \<times> 'c" where
  "decryptCalls A ob src =
     bindX (\<lambda>c. case do_tag ob of None \<Rightarrow> (Ok (), c) | Some t \<Rightarrow> SetCtrlBytes A AeadSetTag (length t) t c) (\<lambda>_.
     bindX (ctxSetKeyAndIV A (do_key ob) (do_iv ob)) (\<lambda>_.
     bindX (addData A False (do_aad ob) (length src)) (\<lambda>_.
     bindX (DecryptUpdate A src) (\<lambda>buf.
     bindX (DecryptFinal A) (\<lambda>buf2 c. (Ok (buf @ buf2), c))))))"

definition decryptAllCalls :: "'c evpApi \<Rightarrow> bytes \<Rightarrow> 'c decrypter \<Rightarrow> bytes res \<times> 'c decrypter" where
  "decryptAllCalls A src ob = (case decryptCalls A ob src (do_ctx ob) of (r, c) \<Rightarrow> (r, ob\<lparr>do_ctx := c\<rparr>))"

definition setIvLen :: "'c evpApi \<Rightarrow> mode \<Rightarrow> bytes option \<Rightarrow> 'c \<Rightarrow> 'c res" where
  "setIvLen A m iv c =
     (if iv \<noteq> None \<and> iv \<noteq> Some [] \<and> (m = ModeGCM \<or> m = ModeCCM)
      then case SetCtrl A AeadSetIvLen (length (the iv)) c of (r, c') \<Rightarrow> bind_res r (\<lambda>_. Ok c')
      else Ok c)"

definition cipherOf :: "'c evpApi \<Rightarrow> mode \<Rightarrow> nat res" where
  "cipherOf A m =
     (case m of ModeECB \<Rightarrow> GetCipherByName A ''SM4-ECB'' | ModeCBC \<Rightarrow> GetCipherByName A ''SM4-CBC''
      | ModeCFB \<Rightarrow> GetCipherByName A ''SM4-CFB'' | ModeOFB \<Rightarrow> GetCipherByName A ''SM4-OFB''
      | ModeCTR \<Rightarrow> GetCipherByName A ''SM4-CTR'' | ModeGCM \<Rightarrow> GetCipherByName A gcm_name
      | ModeCCM \<Rightarrow> GetCipherByName A ''SM4-CCM'' | ModeOther _ \<Rightarrow> Fail LibError)"

definition newEncrypter :: "'c evpApi \<Rightarrow> mode \<Rightarrow> bytes option \<Rightarrow> bytes option \<Rightarrow> 'c encrypter res" where
  "newEncrypter A m key iv =
     bind_res (cipherOf A m) (\<lambda>p.
     bind_res (newEncryptionCipherCtx A (Some p) None None) (\<lambda>c.
     bind_res (setIvLen A m iv c) (\<lambda>c.
     Ok \<lparr>eo_ctx = c, eo_key = key, eo_iv = iv, eo_aad = None,
         eo_tagLen = (if m = ModeGCM then 16 else if m = ModeCCM then 12 else 0)\<rparr>)))"

definition newDecrypter :: "'c evpApi \<Rightarrow> mode \<Rightarrow> bytes option \<Rightarrow> bytes option \<Rightarrow> 'c decrypter res" where
  "newDecrypter A m key iv =
     bind_res (cipherOf A m) (\<lambda>p.
     bind_res (newDecryptionCipherCtx A (Some p) None None) (\<lambda>c.
     bind_res (setIvLen A m iv c) (\<lambda>c.
     Ok \<lparr>do_ctx = c, do_key = key, do_iv = iv, do_aad = None, do_tag = None\<rparr>)))"

definition encSetPadding :: "'c evpApi \<Rightarrow> bool \<Rightarrow> 'c encrypter \<Rightarrow> 'c encrypter" where
  "encSetPadding A pad ob = ob\<lparr>eo_ctx := api_padding A pad (eo_ctx ob)\<rparr>"

definition decSetPadding :: "'c evpApi \<Rightarrow> bool \<Rightarrow> 'c decrypter \<Rightarrow> 'c decrypter" where
  "decSetPadding A pad ob = ob\<lparr>do_ctx := api_padding A pad (do_ctx ob)\<rparr>"

section \<open>The AEAD objects\<close>

text \<open>
  \<open>sm4AEADEncrypter\<close> holds an encrypter, \<open>sm4AEADDecrypter\<close> a decrypter; the constructors return nil when they get
  none.  \<open>sm4AEADCipher\<close> holds one of each, its \<open>Seal\<close> is the one of the first and its \<open>Open\<close> that of the second.
  The nonce is not used.
\<close>

definition NewSm4AEADEncrypter :: "'c evpApi \<Rightarrow> bytes option \<Rightarrow> bytes option \<Rightarrow> 'c encrypter option" where
  "NewSm4AEADEncrypter A key iv = (case newEncrypter A ModeGCM key iv of Ok e \<Rightarrow> Some e | _ \<Rightarrow> None)"

definition NewSm4AEADDecrypter :: "'c evpApi \<Rightarrow> bytes option \<Rightarrow> bytes option \<Rightarrow> 'c decrypter option" where
  "NewSm4AEADDecrypter A key iv = (case newDecrypter A ModeGCM key iv of Ok d \<Rightarrow> Some d | _ \<Rightarrow> None)"

definition encrypterOpen :: "'c encrypter \<Rightarrow> bytes res \<times> 'c encrypter" where
  "encrypterOpen ob = (Fail LibError, ob)"

definition decrypterSeal :: "'c decrypter \<Rightarrow> bytes res \<times> 'c decrypter" where
  "decrypterSeal ob = (Ok [], ob)"

definition sealCalls :: "'c evpApi \<Rightarrow> bytes \<Rightarrow> bytes \<Rightarrow> bytes \<Rightarrow> 'c encrypter \<Rightarrow> bytes res \<times> 'c encrypter" where
  "sealCalls A dst p a ob =
     (let o1 = ob\<lparr>eo_aad := Some a\<rparr> in
      case encryptAll A p o1 of
        (Panic x, o2) \<Rightarrow> (Panic x, o2)
      | (Fail _, o2) \<Rightarrow> (Ok [], o2)
      | (Ok ct, o2) \<Rightarrow>
          (case getTag A o2 of
             (Panic x, o3) \<Rightarrow> (Panic x, o3)
           | (Fail _, o3) \<Rightarrow> (Ok [], o3)
           | (Ok tag, o3) \<Rightarrow> (Ok (dst @ ct @ tag), o3)))"

definition openCalls :: "'c evpApi \<Rightarrow> bytes \<Rightarrow> bytes \<Rightarrow> 'c decrypter \<Rightarrow> bytes res \<times> 'c decrypter" where
  "openCalls A x a ob =
     (if length x < 16 then (Panic ''slice bounds out of range'', ob\<lparr>do_aad := Some a\<rparr>)
      else let n = length x - 16 in decryptAllCalls A (take n x) (ob\<lparr>do_aad := Some a, do_tag := Some (drop n x)\<rparr>))"

section \<open>What the library documents of GCM\<close>

text \<open>\<open>gcmCtx e l c\<close>: a context for SM4-GCM in that direction, with IVs of \<open>l\<close> bytes.\<close>

definition gcmCtx :: "'c evpApi \<Rightarrow> bool \<Rightarrow> nat \<Rightarrow> 'c \<Rightarrow> bool" where
  "gcmCtx A e l c \<longleftrightarrow>
     api_byname A gcm_name \<noteq> None \<and> api_cipher A c = api_byname A gcm_name \<and> (api_encrypting A c \<longleftrightarrow> e) \<and>
     api_ivlen A c = l \<and> api_keylen A c = 16 \<and> api_block A c = 1 \<and> \<not> api_isCcm A c"

text \<open>One encryption and one decryption, as the sequence of calls on a context.\<close>

definition optionX :: "('c \<Rightarrow> 'a option \<times> 'c) \<Rightarrow> 'c \<Rightarrow> 'a res \<times> 'c" where
  "optionX call c = (case call c of (r, c') \<Rightarrow> (of_option LibError r, c'))"

definition runText :: "'c evpApi \<Rightarrow> bool \<Rightarrow> bytes \<Rightarrow> bytes \<Rightarrow> bytes option \<Rightarrow> bytes \<Rightarrow> 'c \<Rightarrow> bytes res \<times> 'c" where
  "runText A e k iv a d =
     bindX (okX (api_initKey A e (Some k) (Some iv))) (\<lambda>_.
     bindX (case a of None \<Rightarrow> \<lambda>c. (Ok (), c) | Some x \<Rightarrow> okX (api_aad A e x)) (\<lambda>_.
     bindX (if d = [] then (\<lambda>c. (Ok [], c)) else optionX (api_update A e d)) (\<lambda>x.
     bindX (optionX (api_final A e)) (\<lambda>y c. (Ok (x @ y), c)))))"

definition encryptRun :: "'c evpApi \<Rightarrow> bytes \<Rightarrow> bytes \<Rightarrow> bytes option \<Rightarrow> bytes \<Rightarrow> 'c \<Rightarrow> (bytes \<times> bytes) res \<times> 'c" where
  "encryptRun A k iv a p =
     bindX (runText A True k iv a p) (\<lambda>x. bindX (optionX (api_ctrlGet A AeadGetTag 16)) (\<lambda>t c. (Ok (x, t), c)))"

definition decryptRun :: "'c evpApi \<Rightarrow> bytes \<Rightarrow> bytes \<Rightarrow> bytes option \<Rightarrow> bytes \<Rightarrow> bytes option \<Rightarrow> 'c \<Rightarrow> bytes res \<times> 'c" where
  "decryptRun A k iv a d tag =
     bindX (case tag of None \<Rightarrow> \<lambda>c. (Ok (), c) | Some t \<Rightarrow> okX (api_ctrlSet A AeadSetTag (int (length t)) (Some t))) (\<lambda>_.
     runText A False k iv a d)"

text \<open>
  A context answers every call by a context of the same kind.  The update call writes at most as much as it read
  and a block, the final call at most a block.  Setting key and IV starts anew: what an encryption or a decryption
  returns does not depend on what the context was used for before.
\<close>

definition gcmCalls :: "'c evpApi \<Rightarrow> bool" where
  "gcmCalls A \<longleftrightarrow>
     (\<forall>e l c. gcmCtx A e l c \<longrightarrow>
        (\<forall>k iv. length k = 16 \<longrightarrow> length iv = l \<longrightarrow>
           fst (api_initKey A e (Some k) (Some iv) c) \<and> gcmCtx A e l (snd (api_initKey A e (Some k) (Some iv) c))) \<and>
        (\<forall>a. gcmCtx A e l (snd (api_aad A e a c))) \<and>
        (\<forall>t. gcmCtx A e l (snd (api_ctrlSet A AeadSetTag (int (length t)) (Some t) c))) \<and>
        (\<forall>d. gcmCtx A e l (snd (api_update A e d c)) \<and> (\<forall>x. fst (api_update A e d c) = Some x \<longrightarrow> length x \<le> length d + 1)) \<and>
        gcmCtx A e l (snd (api_final A e c)) \<and> (\<forall>x. fst (api_final A e c) = Some x \<longrightarrow> length x \<le> 1) \<and>
        gcmCtx A e l (snd (api_ctrlGet A AeadGetTag 16 c)) \<and>
        (\<forall>x. fst (api_ctrlGet A AeadGetTag 16 c) = Some x \<longrightarrow> length x = 16))"

definition gcmRestarts :: "'c evpApi \<Rightarrow> bool" where
  "gcmRestarts A \<longleftrightarrow>
     (\<forall>k iv a c c'. length k = 16 \<longrightarrow>
        (\<forall>p. gcmCtx A True (length iv) c \<longrightarrow> gcmCtx A True (length iv) c' \<longrightarrow>
           fst (encryptRun A k iv a p c) = fst (encryptRun A k iv a p c')) \<and>
        (\<forall>d t. gcmCtx A False (length iv) c \<longrightarrow> gcmCtx A False (length iv) c' \<longrightarrow>
           fst (decryptRun A k iv a d (Some t) c) = fst (decryptRun A k iv a d (Some t) c')))"

text \<open>A new context, and the library of \<open>Sm4Aead\<close> that these calls make up.\<close>

definition contextFor :: "'c evpApi \<Rightarrow> bool \<Rightarrow> string \<Rightarrow> nat \<Rightarrow> 'c res" where
  "contextFor A e name l =
     bind_res (if e then newEncryptionCipherCtx A (api_byname A name) None None
               else newDecryptionCipherCtx A (api_byname A name) None None) (\<lambda>c.
     case okX (api_ctrlSet A AeadSetIvLen (int l) None) c of (r, c') \<Rightarrow> bind_res r (\<lambda>_. Ok c'))"

fun to_option :: "'a res \<Rightarrow> 'a option" where
  "to_option (Ok x) = Some x"
| "to_option _ = None"

definition evp_of :: "'c evpApi \<Rightarrow> evp" where
  "evp_of A = \<lparr>
     evp_find = (\<lambda>n. api_byname A n \<noteq> None),
     evp_init = (\<lambda>n. to_option (newEncryptionCipherCtx A (api_byname A n) None None) \<noteq> None \<and>
       to_option (newDecryptionCipherCtx A (api_byname A n) None None) \<noteq> None),
     evp_key_length = (\<lambda>n. case newEncryptionCipherCtx A (api_byname A n) None None of Ok c \<Rightarrow> api_keylen A c | _ \<Rightarrow> 0),
     evp_iv_length = (\<lambda>n. case newEncryptionCipherCtx A (api_byname A n) None None of Ok c \<Rightarrow> api_ivlen A c | _ \<Rightarrow> 0),
     evp_set_ivlen = (\<lambda>n l. to_option (contextFor A True n l) \<noteq> None \<and> to_option (contextFor A False n l) \<noteq> None),
     evp_ccm_setup = (\<lambda>_. False),
     evp_encrypt = (\<lambda>n k iv a p. case contextFor A True n (length iv) of
        Ok c \<Rightarrow> to_option (fst (encryptRun A k iv a p c)) | _ \<Rightarrow> None),
     evp_decrypt = (\<lambda>n k iv a d t. case contextFor A False n (length iv) of
        Ok c \<Rightarrow> to_option (fst (decryptRun A k iv a d t c)) | _ \<Rightarrow> None)\<rparr>"

definition gcm_api :: "'c evpApi \<Rightarrow> bool" where
  "gcm_api A \<longleftrightarrow> gcmCalls A \<and> gcmRestarts A \<and>
     (\<forall>l. 0 < l \<longrightarrow> (\<exists>c. contextFor A True gcm_name l = Ok c \<and> gcmCtx A True l c) \<and>
                    (\<exists>c. contextFor A False gcm_name l = Ok c \<and> gcmCtx A False l c)) \<and>
     (\<exists>c l. newEncryptionCipherCtx A (api_byname A gcm_name) None None = Ok c \<and> gcmCtx A True l c)"

section \<open>Lengths\<close>

lemma cInt_mod: "cInt (n mod 2 ^ 32) = cInt n"
proof -
  have "(word_of_nat (n mod 2 ^ 32) :: 32 word) = word_of_nat n"
    by (rule word_unat_eq_iff [THEN iffD2]) (simp add: unat_of_nat)
  then show ?thesis by (simp add: cInt_def)
qed

lemma cInt_small: "n < 2 ^ 31 \<Longrightarrow> cInt n = int n"
proof -
  assume "n < 2 ^ 31"
  then have "signed_take_bit 31 (int n) = int n" by (intro signed_take_bit_int_eq_self) auto
  then show ?thesis using sint_sbintrunc' [of "int n", where 'a = 32] by (simp add: cInt_def)
qed

lemma cInt_low: "n mod 2 ^ 32 < 2 ^ 31 \<Longrightarrow> cInt n = int (n mod 2 ^ 32)"
  using cInt_mod [of n] cInt_small [of "n mod 2 ^ 32"] by simp

lemma cRead_low: "length d mod 2 ^ 32 < 2 ^ 31 \<Longrightarrow> cRead d = take (length d mod 2 ^ 32) d"
  by (simp add: cRead_def cInt_low)

lemma cRead_small: "length d < 2 ^ 31 \<Longrightarrow> cRead d = d"
  by (simp add: cRead_def cInt_small)

section \<open>What a sequence of calls does\<close>

lemma bindX_eq:
  "m c = m' c \<Longrightarrow> (\<And>x c'. m' c = (Ok x, c') \<Longrightarrow> f x c' = f' x c') \<Longrightarrow> bindX m f c = bindX m' f' c"
  by (auto simp: bindX_def split: prod.splits res.splits)

lemma bindX_simps [outcome_simps]:
  "m c = (Ok x, c') \<Longrightarrow> bindX m f c = f x c'"
  "m c = (Fail e, c') \<Longrightarrow> bindX m f c = (Fail e, c')"
  "m c = (Panic q, c') \<Longrightarrow> bindX m f c = (Panic q, c')"
  by (simp_all add: bindX_def)

lemma bindX_OkD: "bindX m f c = (Ok y, c') \<Longrightarrow> \<exists>x c1. m c = (Ok x, c1) \<and> f x c1 = (Ok y, c')"
  by (auto simp: bindX_def split: prod.splits res.splits)

lemma bindX_inv:
  assumes "P (snd (m c))" "\<And>x c'. m c = (Ok x, c') \<Longrightarrow> P c' \<Longrightarrow> P (snd (f x c'))"
  shows "P (snd (bindX m f c))"
  using assms by (cases "m c") (auto simp: bindX_def split: res.splits)

lemma snd_okX: "snd (okX call c) = snd (call c)"
  by (simp add: okX_def split: prod.splits)

lemma snd_optionX: "snd (optionX call c) = snd (call c)"
  by (simp add: optionX_def split: prod.splits)

lemma gcmCallsD:
  assumes "gcmCalls A" "gcmCtx A e l c"
  shows "length k = 16 \<Longrightarrow> length iv = l \<Longrightarrow> fst (api_initKey A e (Some k) (Some iv) c)"
    "length k = 16 \<Longrightarrow> length iv = l \<Longrightarrow> gcmCtx A e l (snd (api_initKey A e (Some k) (Some iv) c))"
    "gcmCtx A e l (snd (api_aad A e a c))" "gcmCtx A e l (snd (api_ctrlSet A AeadSetTag (int (length t)) (Some t) c))"
    "gcmCtx A e l (snd (api_update A e d c))" "fst (api_update A e d c) = Some x \<Longrightarrow> length x \<le> length d + 1"
    "gcmCtx A e l (snd (api_final A e c))" "fst (api_final A e c) = Some x \<Longrightarrow> length x \<le> 1"
    "gcmCtx A e l (snd (api_ctrlGet A AeadGetTag 16 c))" "fst (api_ctrlGet A AeadGetTag 16 c) = Some x \<Longrightarrow> length x = 16"
  using assms unfolding gcmCalls_def by blast+

lemmas bindX_gcm = bindX_inv [where P = "gcmCtx A e l" for A e l]

lemma runText_gcm:
  assumes "gcmCalls A" "gcmCtx A e (length iv) c" "length k = 16"
  shows "gcmCtx A e (length iv) (snd (runText A e k iv a d c))"
proof -
  note g = gcmCallsD [OF assms(1)]
  have i: "gcmCtx A e (length iv) (snd (okX (api_initKey A e (Some k) (Some iv)) c))"
    using g(2) [OF assms(2,3) refl] by (simp add: snd_okX)
  have a: "gcmCtx A e (length iv) (snd ((case a of None \<Rightarrow> \<lambda>c. (Ok (), c) | Some x \<Rightarrow> okX (api_aad A e x)) c))"
    if "gcmCtx A e (length iv) c" for c using that g(3) by (simp add: snd_okX split: option.split)
  have u: "gcmCtx A e (length iv) (snd ((if d = [] then \<lambda>c. (Ok [], c) else optionX (api_update A e d)) c))"
    if "gcmCtx A e (length iv) c" for c using that g(5) by (simp add: snd_optionX)
  have f: "gcmCtx A e (length iv) (snd (optionX (api_final A e) c))"
    if "gcmCtx A e (length iv) c" for c using that g(7) by (simp add: snd_optionX)
  show ?thesis
    unfolding runText_def
    by (rule bindX_gcm, rule i, rule bindX_gcm, erule a, rule bindX_gcm, erule u, rule bindX_gcm, erule f) simp
qed

lemma encryptRun_gcm:
  assumes "gcmCalls A" "gcmCtx A True (length iv) c" "length k = 16"
  shows "gcmCtx A True (length iv) (snd (encryptRun A k iv a p c))"
  unfolding encryptRun_def
  by (rule bindX_gcm, rule runText_gcm [OF assms], rule bindX_gcm)
    (use gcmCallsD(9) [OF assms(1)] in \<open>simp_all add: snd_optionX\<close>)

lemma decryptRun_gcm:
  assumes "gcmCalls A" "gcmCtx A False (length iv) c" "length k = 16"
  shows "gcmCtx A False (length iv) (snd (decryptRun A k iv a d (Some t) c))"
  unfolding decryptRun_def
  by (rule bindX_gcm, use gcmCallsD(4) [OF assms(1,2)] in \<open>simp add: snd_okX\<close>, rule runText_gcm [OF assms(1) _ assms(3)])

text \<open>The Go code, with its checks and buffers, makes this sequence of calls.\<close>

lemma okX_eq: "fst (call c) \<Longrightarrow> okX call c = (Ok (), snd (call c))"
  by (cases "call c") (simp add: okX_def)

lemma setKey_gcm:
  assumes "gcmCtx A e (length iv) c" "length k = 16" "iv \<noteq> []"
  shows "ctxSetKeyAndIV A (Some k) (Some iv) c = okX (api_initKey A e (Some k) (Some iv)) c"
  using assms by (auto simp: ctxSetKeyAndIV_def gcmCtx_def)

lemma addData_gcm:
  assumes "gcmCtx A e l c" "a \<noteq> []" "length a < 2 ^ 31"
  shows "addData A e (Some a) n c = okX (api_aad A e a) c"
  using assms by (simp add: addData_def gcmCtx_def bindX_def cInt_small cRead_small)

lemma intoSlice_eq: "(\<And>x. fst r = Some x \<Longrightarrow> length x \<le> n) \<Longrightarrow> intoSlice n r = (of_option LibError (fst r), snd r)"
  by (cases r) (auto simp: intoSlice_def split: option.splits)

lemma update_gcm:
  assumes "gcmCalls A" "gcmCtx A e l c" "length d mod 2 ^ 32 < 2 ^ 31" "d = [] \<or> length d mod 2 ^ 32 \<noteq> 0"
  shows "(if d = [] then (Ok [], c) else intoSlice (length d + api_block A c) (cUpdate A e d c)) =
    (if cRead d = [] then (\<lambda>c. (Ok [], c)) else optionX (api_update A e (cRead d))) c"
proof (cases "d = []")
  case False
  have "cRead d \<noteq> []" using False assms(3,4) by (simp add: cRead_low)
  moreover have "\<not> cInt (length d) < 0" using assms(3) by (simp add: cInt_low)
  moreover have "length (cRead d) \<le> length d" by (simp add: cRead_def)
  ultimately show ?thesis
    using False gcmCallsD(6) [OF assms(1,2), of "cRead d"] assms(2)
    by (auto simp: cUpdate_def optionX_def gcmCtx_def intro!: intoSlice_eq [THEN trans] split: prod.splits)
qed (simp add: cRead_def)

lemma final_gcm:
  assumes "gcmCalls A" "gcmCtx A e l c"
  shows "(if api_block A c = 0 then (Panic ''index out of range'', c) else intoSlice (api_block A c) (api_final A e c)) =
    optionX (api_final A e) c"
  using gcmCallsD(8) [OF assms] assms(2)
  by (auto simp: optionX_def gcmCtx_def intro!: intoSlice_eq [THEN trans] split: prod.splits)

lemma textCalls_gcm:
  assumes "gcmCalls A" "gcmCtx A e (length iv) c" "length k = 16" "iv \<noteq> []" "a \<noteq> []" "length a < 2 ^ 31"
    "\<And>c. gcmCtx A e (length iv) c \<Longrightarrow> U c = (if d = [] then (\<lambda>c. (Ok [], c)) else optionX (api_update A e d)) c"
    "\<And>c. gcmCtx A e (length iv) c \<Longrightarrow> F c = optionX (api_final A e) c"
  shows "bindX (ctxSetKeyAndIV A (Some k) (Some iv)) (\<lambda>_. bindX (addData A e (Some a) n) (\<lambda>_.
      bindX U (\<lambda>buf. bindX F (\<lambda>buf2 c. (Ok (buf @ buf2), c))))) c = runText A e k iv (Some a) d c"
  unfolding runText_def option.case
proof (rule bindX_eq)
  note g = gcmCallsD [OF assms(1)]
  show "ctxSetKeyAndIV A (Some k) (Some iv) c = okX (api_initKey A e (Some k) (Some iv)) c"
    by (rule setKey_gcm [OF assms(2-4)])
  fix x1 c1 assume "okX (api_initKey A e (Some k) (Some iv)) c = (Ok x1, c1)"
  then have c1: "gcmCtx A e (length iv) c1"
    using g(2) [OF assms(2,3) refl] snd_okX [of "api_initKey A e (Some k) (Some iv)" c] by simp
  show "bindX (addData A e (Some a) n) (\<lambda>_. bindX U (\<lambda>buf. bindX F (\<lambda>buf2 c. (Ok (buf @ buf2), c)))) c1 =
    bindX (okX (api_aad A e a)) (\<lambda>_. bindX (if d = [] then \<lambda>c. (Ok [], c) else optionX (api_update A e d))
      (\<lambda>x. bindX (optionX (api_final A e)) (\<lambda>y c. (Ok (x @ y), c)))) c1"
  proof (rule bindX_eq)
    show "addData A e (Some a) n c1 = okX (api_aad A e a) c1" by (rule addData_gcm [OF c1 assms(5,6)])
    fix x2 c2 assume "okX (api_aad A e a) c1 = (Ok x2, c2)"
    then have c2: "gcmCtx A e (length iv) c2" using g(3) [OF c1, of a] snd_okX [of "api_aad A e a" c1] by simp
    show "bindX U (\<lambda>buf. bindX F (\<lambda>buf2 c. (Ok (buf @ buf2), c))) c2 =
      bindX (if d = [] then \<lambda>c. (Ok [], c) else optionX (api_update A e d))
        (\<lambda>x. bindX (optionX (api_final A e)) (\<lambda>y c. (Ok (x @ y), c))) c2"
    proof (rule bindX_eq)
      show "U c2 = (if d = [] then \<lambda>c. (Ok [], c) else optionX (api_update A e d)) c2" by (rule assms(7) [OF c2])
      fix x3 c3 assume "(if d = [] then \<lambda>c. (Ok [], c) else optionX (api_update A e d)) c2 = (Ok x3, c3)"
      then have "gcmCtx A e (length iv) c3"
        using g(5) [OF c2, of d] c2 snd_optionX [of "api_update A e d" c2] by (auto split: if_splits)
      then show "bindX F (\<lambda>buf2 c. (Ok (x3 @ buf2), c)) c3 = bindX (optionX (api_final A e)) (\<lambda>y c. (Ok (x3 @ y), c)) c3"
        by (intro bindX_eq assms(8)) auto
    qed
  qed
qed

text \<open>The objects as they are after any number of calls.\<close>

definition enc_of :: "'c evpApi \<Rightarrow> bytes \<Rightarrow> bytes \<Rightarrow> 'c encrypter \<Rightarrow> bool" where
  "enc_of A k iv ob \<longleftrightarrow>
     gcmCtx A True (length iv) (eo_ctx ob) \<and> eo_key ob = Some k \<and> eo_iv ob = Some iv \<and> eo_tagLen ob = 16"

definition dec_of :: "'c evpApi \<Rightarrow> bytes \<Rightarrow> bytes \<Rightarrow> 'c decrypter \<Rightarrow> bool" where
  "dec_of A k iv ob \<longleftrightarrow> gcmCtx A False (length iv) (do_ctx ob) \<and> do_key ob = Some k \<and> do_iv ob = Some iv"

lemma bindX_unit: "bindX (\<lambda>c. (Ok x, c)) f = f x"
  by (simp add: bindX_def fun_eq_iff)

lemma encryptCalls_gcm:
  assumes "gcmCalls A" "enc_of A k iv ob" "length k = 16" "iv \<noteq> []" "a \<noteq> []" "length a < 2 ^ 31"
    "length p mod 2 ^ 32 < 2 ^ 31" "p = [] \<or> length p mod 2 ^ 32 \<noteq> 0"
  shows "encryptCalls A (ob\<lparr>eo_aad := Some a\<rparr>) p (eo_ctx ob) = runText A True k iv (Some a) (cRead p) (eo_ctx ob)"
proof -
  have c: "gcmCtx A True (length iv) (eo_ctx ob)" "\<not> api_isCcm A (eo_ctx ob)" using assms(2) by (auto simp: enc_of_def gcmCtx_def)
  have "EncryptUpdate A p c = (if cRead p = [] then (\<lambda>c. (Ok [], c)) else optionX (api_update A True (cRead p))) c"
    "EncryptFinal A c = optionX (api_final A True) c" if "gcmCtx A True (length iv) c" for c
    using update_gcm [OF assms(1) that assms(7,8)] final_gcm [OF assms(1) that]
    by (simp_all add: EncryptUpdate_def EncryptFinal_def)
  from textCalls_gcm [OF assms(1) c(1) assms(3-6) this, of "length p"] show ?thesis
    using assms(2) c(2) by (simp add: encryptCalls_def bindX_def [of "\<lambda>c. if api_isCcm A c then _ c else _ c"] enc_of_def)
qed

lemma decryptCalls_gcm:
  assumes "gcmCalls A" "dec_of A k iv ob" "length k = 16" "iv \<noteq> []" "a \<noteq> []" "length a < 2 ^ 31"
    "length d < 2 ^ 31" "t \<noteq> []" "length t < 2 ^ 31"
  shows "decryptCalls A (ob\<lparr>do_aad := Some a, do_tag := Some t\<rparr>) d (do_ctx ob) = decryptRun A k iv (Some a) d (Some t) (do_ctx ob)"
proof -
  have c: "gcmCtx A False (length iv) (do_ctx ob)" using assms(2) by (auto simp: dec_of_def)
  have d: "cRead d = d" "length d mod 2 ^ 32 < 2 ^ 31" "d = [] \<or> length d mod 2 ^ 32 \<noteq> 0"
    using cRead_small assms(7) by simp_all
  have u: "DecryptUpdate A d c = (if d = [] then (\<lambda>c. (Ok [], c)) else optionX (api_update A False d)) c"
    "DecryptFinal A c = optionX (api_final A False) c" if "gcmCtx A False (length iv) c" for c
    using update_gcm [OF assms(1) that d(2,3)] final_gcm [OF assms(1) that] d(1)
    by (simp_all add: DecryptUpdate_def DecryptFinal_def)
  have t: "SetCtrlBytes A AeadSetTag (length t) t = okX (api_ctrlSet A AeadSetTag (int (length t)) (Some t))"
    using assms(8,9) by (simp add: SetCtrlBytes_def cInt_small fun_eq_iff)
  show ?thesis
    unfolding decryptCalls_def decryptRun_def
  proof (simp add: t, rule bindX_eq [OF refl])
    fix x c1 assume "okX (api_ctrlSet A AeadSetTag (int (length t)) (Some t)) (do_ctx ob) = (Ok x, c1)"
    then have "gcmCtx A False (length iv) c1"
      using gcmCallsD(4) [OF assms(1) c, of t] snd_okX [of "api_ctrlSet A AeadSetTag (int (length t)) (Some t)" "do_ctx ob"] by simp
    from textCalls_gcm [OF assms(1) this assms(3-6) u]
    show "bindX (ctxSetKeyAndIV A (do_key ob) (do_iv ob)) (\<lambda>_. bindX (addData A False (Some a) (length d)) (\<lambda>_.
        bindX (DecryptUpdate A d) (\<lambda>buf. bindX (DecryptFinal A) (\<lambda>buf2 c. (Ok (buf @ buf2), c))))) c1 = runText A False k iv (Some a) d c1"
      using assms(2) by (simp add: dec_of_def)
  qed
qed

section \<open>Refinement of the AEAD adapter\<close>

definition libResult :: "'a res \<Rightarrow> bool" where
  "libResult r \<longleftrightarrow> r = of_option LibError (to_option r)"

lemma libResult_simps [simp]: "libResult (Ok x)" "libResult (Fail LibError)"
  by (simp_all add: libResult_def)

lemma libResult_of_option [simp]: "libResult (of_option LibError r)"
  by (cases r) simp_all

lemma libResult_bind:
  "libResult (fst (m c)) \<Longrightarrow> (\<And>x c. libResult (fst (f x c))) \<Longrightarrow> libResult (fst (bindX m f c))"
proof -
  assume m: "libResult (fst (m c))" and f: "\<And>x c. libResult (fst (f x c))"
  obtain r c' where "m c = (r, c')" by fastforce
  then show ?thesis using m f by (cases r) (simp_all add: bindX_def libResult_def)
qed

lemma libResult_call [simp]: "libResult (fst (okX call c))" "libResult (fst (optionX call2 c))"
  by (simp_all add: okX_def optionX_def split: prod.split)

lemma libResult_run [simp]:
  "libResult (fst (runText A e k iv a d c))" "libResult (fst (encryptRun A k iv a d c))" "libResult (fst (decryptRun A k iv a d t c))"
proof -
  have t: "libResult (fst (runText A e k iv a d c))" for A e k iv a d c
    unfolding runText_def by (intro libResult_bind) (simp_all split: option.split)
  then show "libResult (fst (runText A e k iv a d c))" .
  show "libResult (fst (encryptRun A k iv a d c))" unfolding encryptRun_def by (intro libResult_bind t) simp_all
  show "libResult (fst (decryptRun A k iv a d t c))" unfolding decryptRun_def by (intro libResult_bind t) (simp split: option.split)
qed

lemma gcm_apiD:
  assumes "gcm_api A"
  shows "gcmCalls A" "gcmRestarts A" "evp_key_length (evp_of A) gcm_name = 16"
    "0 < l \<Longrightarrow> \<exists>c. contextFor A True gcm_name l = Ok c \<and> gcmCtx A True l c"
    "0 < l \<Longrightarrow> \<exists>c. contextFor A False gcm_name l = Ok c \<and> gcmCtx A False l c"
  using assms by (auto simp: gcm_api_def evp_of_def gcmCtx_def)

lemma evp_of_runs:
  assumes "gcm_api A" "length k = 16" "iv \<noteq> []"
  shows "gcmCtx A True (length iv) c \<Longrightarrow> evp_encrypt (evp_of A) gcm_name k iv a p = to_option (fst (encryptRun A k iv a p c))"
    "gcmCtx A False (length iv) c \<Longrightarrow> evp_decrypt (evp_of A) gcm_name k iv a d (Some t) = to_option (fst (decryptRun A k iv a d (Some t) c))"
proof -
  have l: "0 < length iv" using assms(3) by simp
  obtain c1 c2 where c: "contextFor A True gcm_name (length iv) = Ok c1" "gcmCtx A True (length iv) c1"
      "contextFor A False gcm_name (length iv) = Ok c2" "gcmCtx A False (length iv) c2"
    using gcm_apiD(4,5) [OF assms(1) l] by blast
  note r = gcm_apiD(2) [OF assms(1), unfolded gcmRestarts_def, rule_format, OF assms(2)]
  show "evp_encrypt (evp_of A) gcm_name k iv a p = to_option (fst (encryptRun A k iv a p c))" if "gcmCtx A True (length iv) c"
    using r [of iv c1 c a] c(1,2) that by (simp add: evp_of_def)
  show "evp_decrypt (evp_of A) gcm_name k iv a d (Some t) = to_option (fst (decryptRun A k iv a d (Some t) c))"
    if "gcmCtx A False (length iv) c"
    using r [of iv c2 c a] c(3,4) that by (simp add: evp_of_def)
qed

lemma sealCalls_gcm:
  assumes "gcm_api A" "enc_of A k iv ob" "length k = 16" "iv \<noteq> []" "a \<noteq> []" "length a < 2 ^ 31"
    "length p mod 2 ^ 32 < 2 ^ 31" "p = [] \<or> length p mod 2 ^ 32 \<noteq> 0"
  shows "fst (sealCalls A dst p a ob) =
      Ok (case evp_encrypt (evp_of A) gcm_name k iv (Some a) (cRead p) of None \<Rightarrow> [] | Some (x, t) \<Rightarrow> dst @ x @ t)"
    "enc_of A k iv (snd (sealCalls A dst p a ob))"
proof -
  note g = gcm_apiD(1) [OF assms(1)]
  have c: "gcmCtx A True (length iv) (eo_ctx ob)" "eo_tagLen ob = 16" "eo_key ob = Some k" "eo_iv ob = Some iv"
    using assms(2) by (auto simp: enc_of_def)
  have e: "evp_encrypt (evp_of A) gcm_name k iv (Some a) (cRead p) = to_option (fst (encryptRun A k iv (Some a) (cRead p) (eo_ctx ob)))"
    by (rule evp_of_runs(1) [OF assms(1,3,4) c(1)])
  obtain r c1 where r: "runText A True k iv (Some a) (cRead p) (eo_ctx ob) = (r, c1)" by fastforce
  have c1: "gcmCtx A True (length iv) c1" using runText_gcm [OF g c(1) assms(3), of "Some a" "cRead p"] r by simp
  have lr: "libResult r" using libResult_run(1) [of A True k iv "Some a" "cRead p" "eo_ctx ob"] r by simp
  have all: "encryptAll A p (ob\<lparr>eo_aad := Some a\<rparr>) = (r, ob\<lparr>eo_aad := Some a, eo_ctx := c1\<rparr>)"
    using encryptCalls_gcm [OF g assms(2-8)] r by (simp add: encryptAll_def)
  obtain t c2 where t: "api_ctrlGet A AeadGetTag 16 c1 = (t, c2)" by fastforce
  have c2: "gcmCtx A True (length iv) c2" "\<And>x. t = Some x \<Longrightarrow> length x = 16"
    using gcmCallsD(9,10) [OF g c1] t by auto
  have s: "cInt 16 = 16" using cInt_small [of 16] by simp
  have tag: "getTag A (ob\<lparr>eo_aad := Some a, eo_ctx := c1\<rparr>) = (of_option LibError t, ob\<lparr>eo_aad := Some a, eo_ctx := c2\<rparr>)"
    using c(2) t c2(2) by (cases t) (simp_all add: getTag_def GetCtrlBytes_def s)
  have run: "fst (encryptRun A k iv (Some a) (cRead p) (eo_ctx ob)) = bind_res r (\<lambda>x. bind_res (of_option LibError t) (\<lambda>t. Ok (x, t)))"
    using r t by (cases r; cases t) (simp_all add: encryptRun_def bindX_def optionX_def)
  show "fst (sealCalls A dst p a ob) =
      Ok (case evp_encrypt (evp_of A) gcm_name k iv (Some a) (cRead p) of None \<Rightarrow> [] | Some (x, t) \<Rightarrow> dst @ x @ t)"
    unfolding e run sealCalls_def Let_def all
    using tag lr by (cases r; cases t) (simp_all add: libResult_def)
  show "enc_of A k iv (snd (sealCalls A dst p a ob))"
    unfolding sealCalls_def Let_def all
    using tag c c1 c2(1) by (cases r; cases t) (simp_all add: enc_of_def)
qed

lemma openCalls_gcm:
  assumes "gcm_api A" "dec_of A k iv ob" "length k = 16" "iv \<noteq> []" "a \<noteq> []" "length a < 2 ^ 31"
    "16 \<le> length x" "length x < 2 ^ 31"
  shows "fst (openCalls A x a ob) = of_option LibError (evp_decrypt (evp_of A) gcm_name k iv (Some a)
      (take (length x - 16) x) (Some (drop (length x - 16) x)))"
    "dec_of A k iv (snd (openCalls A x a ob))"
proof -
  let ?d = "take (length x - 16) x" and ?t = "drop (length x - 16) x"
  note g = gcm_apiD(1) [OF assms(1)]
  have c: "gcmCtx A False (length iv) (do_ctx ob)" using assms(2) by (auto simp: dec_of_def)
  have len: "length ?d < 2 ^ 31" "?t \<noteq> []" "length ?t < 2 ^ 31" using assms(7,8) by auto
  have all: "openCalls A x a ob = (case decryptRun A k iv (Some a) ?d (Some ?t) (do_ctx ob) of (r, c) \<Rightarrow>
      (r, ob\<lparr>do_aad := Some a, do_tag := Some ?t, do_ctx := c\<rparr>))"
    using assms(7) decryptCalls_gcm [OF g assms(2-6) len]
    by (simp add: openCalls_def decryptAllCalls_def Let_def)
  show "fst (openCalls A x a ob) = of_option LibError (evp_decrypt (evp_of A) gcm_name k iv (Some a) ?d (Some ?t))"
    using libResult_run(3) [of A k iv "Some a" ?d "Some ?t" "do_ctx ob"] evp_of_runs(2) [OF assms(1,3,4) c, of "Some a" ?d ?t]
    by (simp add: all libResult_def split: prod.split)
  show "dec_of A k iv (snd (openCalls A x a ob))"
    using decryptRun_gcm [OF g c assms(3), of "Some a" ?d ?t] assms(2) by (auto simp: all dec_of_def split: prod.split)
qed

section \<open>Runs of calls\<close>

datatype aeadCall = SealCall bytes bytes bytes bytes | OpenCall bytes bytes bytes

definition callAdapter :: "evp \<Rightarrow> aeadCall \<Rightarrow> sm4AEADCipher \<Rightarrow> bytes res \<times> sm4AEADCipher" where
  "callAdapter L call c =
     (case call of
        SealCall dst nonce p a \<Rightarrow>
          (case Seal L c dst nonce p a of Ok (x, c') \<Rightarrow> (Ok x, c') | Fail e \<Rightarrow> (Fail e, c) | Panic q \<Rightarrow> (Panic q, c))
      | OpenCall nonce x a \<Rightarrow> Open L c nonce x a)"

definition callContexts :: "'c evpApi \<Rightarrow> aeadCall \<Rightarrow> 'c encrypter \<times> 'c decrypter \<Rightarrow> bytes res \<times> 'c encrypter \<times> 'c decrypter" where
  "callContexts A call obs =
     (case call of
        SealCall dst nonce p a \<Rightarrow> (case sealCalls A dst p a (fst obs) of (r, e) \<Rightarrow> (r, e, snd obs))
      | OpenCall nonce x a \<Rightarrow> (case openCalls A x a (snd obs) of (r, d) \<Rightarrow> (r, fst obs, d)))"

fun runCalls :: "('q \<Rightarrow> 's \<Rightarrow> bytes res \<times> 's) \<Rightarrow> 'q list \<Rightarrow> 's \<Rightarrow> bytes res list" where
  "runCalls f [] s = []"
| "runCalls f (q # qs) s = (case f q s of (r, s') \<Rightarrow> r # runCalls f qs s')"

text \<open>Lengths that \<open>C.int\<close> can hold, additional data that has a first byte, and a box long enough for a tag.\<close>

fun fits :: "aeadCall \<Rightarrow> bool" where
  "fits (SealCall dst nonce p a) \<longleftrightarrow> a \<noteq> [] \<and> length a < 2 ^ 31 \<and> length p < 2 ^ 31"
| "fits (OpenCall nonce x a) \<longleftrightarrow> a \<noteq> [] \<and> length a < 2 ^ 31 \<and> 16 \<le> length x \<and> length x < 2 ^ 31"

lemma Seal_adapter:
  assumes "evp_key_length L gcm_name = 16" "aead_of c k iv" "length k = 16" "iv \<noteq> []" "a \<noteq> []"
    "\<And>x t. evp_encrypt L gcm_name k iv (Some a) p = Some (x, t) \<Longrightarrow> length t = 16"
  shows "\<exists>c'. Seal L c dst nonce p a =
      Ok (case evp_encrypt L gcm_name k iv (Some a) p of None \<Rightarrow> [] | Some (x, t) \<Rightarrow> dst @ x @ t, c') \<and> aead_of c' k iv"
proof -
  have "k \<noteq> []" using assms(3) by auto
  then show ?thesis
    using assms
    by (cases "evp_encrypt L gcm_name k iv (Some a) p")
      (auto simp: Seal_def EncryptAll_def SetKeyAndIV_def enc_SetAAD_def aead_of_def GetTag_def GetTagBytes_def)
qed

lemma Open_adapter:
  assumes "evp_key_length L gcm_name = 16" "aead_of c k iv" "length k = 16" "iv \<noteq> []" "a \<noteq> []" "16 \<le> length x"
  shows "\<exists>c'. Open L c nonce x a = (of_option LibError (evp_decrypt L gcm_name k iv (Some a)
      (take (length x - 16) x) (Some (drop (length x - 16) x))), c') \<and> aead_of c' k iv"
proof -
  have "k \<noteq> []" "drop (length x - 16) x \<noteq> []" using assms(3,6) by auto
  then show ?thesis
    using assms
    by (simp add: Open_def Overhead_def DecryptAll_def SetKeyAndIV_def dec_SetAAD_def dec_SetTag_def aead_of_def Let_def)
qed

lemma tag_length:
  assumes "gcm_api A" "length k = 16" "iv \<noteq> []" "evp_encrypt (evp_of A) gcm_name k iv a p = Some (x, t)"
  shows "length t = 16"
proof -
  have "0 < length iv" using assms(3) by simp
  then obtain c where c: "gcmCtx A True (length iv) c" using gcm_apiD(4) [OF assms(1)] by blast
  obtain r c1 where r: "runText A True k iv a p c = (r, c1)" by fastforce
  have c1: "gcmCtx A True (length iv) c1" using runText_gcm [OF gcm_apiD(1) [OF assms(1)] c assms(2), of a p] r by simp
  obtain u c2 where u: "api_ctrlGet A AeadGetTag 16 c1 = (u, c2)" by fastforce
  have "u = Some t"
    using assms(4) evp_of_runs(1) [OF assms(1-3) c] r u
    by (cases r; cases u) (simp_all add: encryptRun_def bindX_def optionX_def)
  then show ?thesis using gcmCallsD(10) [OF gcm_apiD(1) [OF assms(1)] c1] u by simp
qed

lemma call_refines:
  assumes "gcm_api A" "length k = 16" "iv \<noteq> []" "fits call" "aead_of c k iv" "enc_of A k iv (fst obs)" "dec_of A k iv (snd obs)"
  shows "\<exists>r c' obs'. callAdapter (evp_of A) call c = (r, c') \<and> callContexts A call obs = (r, obs') \<and>
    aead_of c' k iv \<and> enc_of A k iv (fst obs') \<and> dec_of A k iv (snd obs')"
proof (cases call)
  case (SealCall dst nonce p a)
  have l: "a \<noteq> []" "length a < 2 ^ 31" "length p mod 2 ^ 32 < 2 ^ 31" "p = [] \<or> length p mod 2 ^ 32 \<noteq> 0" "cRead p = p"
    using assms(4) cRead_small by (simp_all add: SealCall)
  obtain c' where "Seal (evp_of A) c dst nonce p a =
      Ok (case evp_encrypt (evp_of A) gcm_name k iv (Some a) p of None \<Rightarrow> [] | Some (x, t) \<Rightarrow> dst @ x @ t, c')" "aead_of c' k iv"
    using Seal_adapter [OF gcm_apiD(3) [OF assms(1)] assms(5,2,3) l(1)] tag_length [OF assms(1-3)] by blast
  moreover note s = sealCalls_gcm [OF assms(1,6,2,3) l(1-4), of dst, unfolded l(5)]
  ultimately show ?thesis
    using assms(7) by (cases "sealCalls A dst p a (fst obs)") (simp add: SealCall callAdapter_def callContexts_def)
next
  case (OpenCall nonce x a)
  have l: "a \<noteq> []" "length a < 2 ^ 31" "16 \<le> length x" "length x < 2 ^ 31" using assms(4) by (simp_all add: OpenCall)
  obtain c' where "Open (evp_of A) c nonce x a = (of_option LibError (evp_decrypt (evp_of A) gcm_name k iv (Some a)
      (take (length x - 16) x) (Some (drop (length x - 16) x))), c')" "aead_of c' k iv"
    using Open_adapter [OF gcm_apiD(3) [OF assms(1)] assms(5,2,3) l(1,3)] by blast
  moreover note openCalls_gcm [OF assms(1,7,2,3) l]
  ultimately show ?thesis
    using assms(6) by (cases "openCalls A x a (snd obs)") (simp add: OpenCall callAdapter_def callContexts_def)
qed

lemma runCalls_refine:
  assumes "gcm_api A" "length k = 16" "iv \<noteq> []" "list_all fits calls" "aead_of c k iv" "enc_of A k iv (fst obs)" "dec_of A k iv (snd obs)"
  shows "runCalls (callContexts A) calls obs = runCalls (callAdapter (evp_of A)) calls c"
  using assms(4-)
proof (induction calls arbitrary: c obs)
  case (Cons call calls)
  obtain r c' obs' where "callAdapter (evp_of A) call c = (r, c')" "callContexts A call obs = (r, obs')"
      "aead_of c' k iv" "enc_of A k iv (fst obs')" "dec_of A k iv (snd obs')"
    using call_refines [OF assms(1-3) _ Cons.prems(2-4), of call] Cons.prems(1) by auto
  then show ?case using Cons.IH [of c' obs'] Cons.prems(1) by simp
qed simp

lemma new_objects:
  assumes "gcm_api A" "iv \<noteq> []" "length iv < 2 ^ 31"
  shows "\<exists>e. newEncrypter A ModeGCM (Some k) (Some iv) = Ok e \<and> enc_of A k iv e"
    "\<exists>d. newDecrypter A ModeGCM (Some k) (Some iv) = Ok d \<and> dec_of A k iv d"
    "\<exists>c. NewSm4AEADCipher (evp_of A) k iv = Some c \<and> aead_of c k iv"
proof -
  have l: "0 < length iv" using assms(2) by simp
  obtain c1 c2 where c: "contextFor A True gcm_name (length iv) = Ok c1" "gcmCtx A True (length iv) c1"
      "contextFor A False gcm_name (length iv) = Ok c2" "gcmCtx A False (length iv) c2"
    using gcm_apiD(4,5) [OF assms(1) l] by blast
  obtain n where n: "api_byname A gcm_name = Some n" using c(2) by (auto simp: gcmCtx_def)
  obtain d1 d2 where d: "newEncryptionCipherCtx A (Some n) None None = Ok d1" "newDecryptionCipherCtx A (Some n) None None = Ok d2"
    using c(1,3) by (auto simp: contextFor_def n outcome_simps)
  have s: "SetCtrl A AeadSetIvLen (length iv) = okX (api_ctrlSet A AeadSetIvLen (int (length iv)) None)"
    using assms(3) by (simp add: SetCtrl_def cInt_small)
  have i: "setIvLen A ModeGCM (Some iv) d1 = Ok c1" "setIvLen A ModeGCM (Some iv) d2 = Ok c2"
    using c(1,3) d assms(2) by (simp_all add: contextFor_def n setIvLen_def s)
  show "\<exists>e. newEncrypter A ModeGCM (Some k) (Some iv) = Ok e \<and> enc_of A k iv e"
    using i(1) d(1) c(2) n by (simp add: newEncrypter_def cipherOf_def GetCipherByName_def enc_of_def)
  show "\<exists>d. newDecrypter A ModeGCM (Some k) (Some iv) = Ok d \<and> dec_of A k iv d"
    using i(2) d(2) c(4) n by (simp add: newDecrypter_def cipherOf_def GetCipherByName_def dec_of_def)
  have "evp_find (evp_of A) gcm_name" "evp_init (evp_of A) gcm_name" "evp_set_ivlen (evp_of A) gcm_name (length iv)"
    using n d c(1,3) by (simp_all add: evp_of_def)
  then show "\<exists>c. NewSm4AEADCipher (evp_of A) k iv = Some c \<and> aead_of c k iv"
    using assms(2) by (simp add: NewSm4AEADCipher_def NewEncrypter_def NewDecrypter_def NewCipherCtx_def prepare_ivlen_def
        SetCtrlIvLen_def aead_of_def)
qed

text \<open>C27: the AEAD object that the record layer uses, with its one-step encryption and decryption, answers any
  sequence of calls exactly as the Go code does call by call on reused C contexts, whose buffers are never
  written past their end.\<close>

theorem aead_calls_refine:
  assumes "gcm_api A" "length k = 16" "iv \<noteq> []" "length iv < 2 ^ 31" "list_all fits calls"
  shows "\<exists>c e d. NewSm4AEADCipher (evp_of A) k iv = Some c \<and> newEncrypter A ModeGCM (Some k) (Some iv) = Ok e \<and>
    newDecrypter A ModeGCM (Some k) (Some iv) = Ok d \<and>
    runCalls (callContexts A) calls (e, d) = runCalls (callAdapter (evp_of A)) calls c"
proof -
  obtain c e d where o: "NewSm4AEADCipher (evp_of A) k iv = Some c" "newEncrypter A ModeGCM (Some k) (Some iv) = Ok e"
      "newDecrypter A ModeGCM (Some k) (Some iv) = Ok d" and r: "aead_of c k iv" "enc_of A k iv e" "dec_of A k iv d"
    using new_objects [OF assms(1,3,4)] by blast
  have "runCalls (callContexts A) calls (e, d) = runCalls (callAdapter (evp_of A)) calls c"
    by (rule runCalls_refine [OF assms(1-3,5) r(1)]) (use r in simp_all)
  then show ?thesis using o by blast
qed


text \<open>A library whose contexts count the bytes they were given.\<close>

record exContext =
  xc_cipher :: "nat option"
  xc_enc :: bool
  xc_ivlen :: nat
  xc_len :: nat
  xc_tag :: bytes

definition exTag :: "nat \<Rightarrow> bytes" where "exTag n = replicate 16 (of_nat n)"

definition exApi :: "exContext evpApi" where
  "exApi = \<lparr>api_byname = (\<lambda>n. if n = gcm_name then Some 0 else None),
     api_new = Some \<lparr>xc_cipher = None, xc_enc = False, xc_ivlen = 0, xc_len = 0, xc_tag = []\<rparr>,
     api_initCipher = (\<lambda>e p c. (True, c\<lparr>xc_cipher := Some p, xc_enc := e, xc_ivlen := 12\<rparr>)),
     api_initKey = (\<lambda>_ _ _ c. (True, c\<lparr>xc_len := 0\<rparr>)), api_cipher = xc_cipher, api_encrypting = xc_enc, api_isCcm = (\<lambda>_. False),
     api_block = (\<lambda>_. 1), api_keylen = (\<lambda>_. 16), api_ivlen = xc_ivlen, api_padding = (\<lambda>_ c. c),
     api_ctrlSet = (\<lambda>code n v c. case (code, v) of (AeadSetIvLen, _) \<Rightarrow> (True, c\<lparr>xc_ivlen := nat n\<rparr>)
        | (AeadSetTag, Some t) \<Rightarrow> (True, c\<lparr>xc_tag := t\<rparr>) | _ \<Rightarrow> (False, c)),
     api_ctrlGet = (\<lambda>_ _ c. (Some (exTag (xc_len c)), c)), api_ctrlInt = (\<lambda>_ _ c. (None, c)), api_textLength = (\<lambda>_ _ c. (True, c)),
     api_aad = (\<lambda>_ _ c. (True, c)), api_update = (\<lambda>_ d c. (Some d, c\<lparr>xc_len := xc_len c + length d\<rparr>)),
     api_negative = (\<lambda>c. (None, c)),
     api_final = (\<lambda>e c. (if e \<or> xc_tag c = exTag (xc_len c) then Some [] else None, c))\<rparr>"

lemma exApi_context:
  "contextFor exApi e gcm_name l = Ok \<lparr>xc_cipher = Some 0, xc_enc = e, xc_ivlen = l, xc_len = 0, xc_tag = []\<rparr>"
  by (simp add: contextFor_def exApi_def newEncryptionCipherCtx_def newDecryptionCipherCtx_def newCipherCtx_def bindX_def okX_def
      ctxSetKeyAndIV_def)

lemma exApi_runs:
  "fst (encryptRun exApi k iv a p c) = Ok (p, exTag (length p))"
  "fst (decryptRun exApi k iv a d (Some t) c) = (if t = exTag (length d) then Ok d else Fail LibError)"
  by (simp_all add: encryptRun_def decryptRun_def runText_def bindX_def okX_def optionX_def exApi_def split: option.split)

lemma exApi_gcm: "gcm_api exApi"
proof -
  have "gcmCtx exApi e l c \<longleftrightarrow> xc_cipher c = Some 0 \<and> xc_enc c = e \<and> xc_ivlen c = l" for e l c
    by (auto simp: gcmCtx_def exApi_def)
  note g = this
  have "gcmCalls exApi" unfolding gcmCalls_def g by (simp add: exApi_def exTag_def)
  moreover have "gcmRestarts exApi" by (simp add: gcmRestarts_def exApi_runs)
  moreover have "newEncryptionCipherCtx exApi (api_byname exApi gcm_name) None None =
      Ok \<lparr>xc_cipher = Some 0, xc_enc = True, xc_ivlen = 12, xc_len = 0, xc_tag = []\<rparr>"
    by (simp add: exApi_def newEncryptionCipherCtx_def newCipherCtx_def bindX_def okX_def ctxSetKeyAndIV_def)
  ultimately show ?thesis by (simp add: gcm_api_def exApi_context g)
qed

lemma exApi_lib: "gcm_lib (evp_of exApi)"
proof -
  have r: "evp_encrypt (evp_of exApi) gcm_name k iv a p = Some (p, exTag (length p))"
    "evp_decrypt (evp_of exApi) gcm_name k iv a d (Some t) = (if t = exTag (length d) then Some d else None)" for k iv a p d t
    by (simp_all add: evp_of_def exApi_context exApi_runs)
  have "evp_find (evp_of exApi) gcm_name" "evp_init (evp_of exApi) gcm_name" "evp_set_ivlen (evp_of exApi) gcm_name n" for n
    by (simp_all add: evp_of_def exApi_context)
      (simp_all add: exApi_def newEncryptionCipherCtx_def newDecryptionCipherCtx_def newCipherCtx_def bindX_def okX_def ctxSetKeyAndIV_def)
  then show ?thesis
    using gcm_apiD(3) [OF exApi_gcm] by (auto simp: gcm_lib_def r exTag_def split: if_splits)
qed

lemma aead_calls_refine_witness:
  "\<exists>c e d. newEncrypter exApi ModeGCM (Some exKey) (Some [1, 2, 3, 4]) = Ok e \<and>
     runCalls (callContexts exApi) [SealCall [9] [] [7, 8] [5], OpenCall [] (7 # exTag 1) [5]] (e, d) =
     runCalls (callAdapter (evp_of exApi)) [SealCall [9] [] [7, 8] [5], OpenCall [] (7 # exTag 1) [5]] c"
  using aead_calls_refine [OF exApi_gcm, of exKey "[1, 2, 3, 4]" "[SealCall [9] [] [7, 8] [5], OpenCall [] (7 # exTag 1) [5]]"]
  by (auto simp: exKey_def exTag_def)


end
