(* ===== verification/WsOptions.thy ===== *)
theory WsOptions
  imports Prelude
begin

text \<open>
  The options of the websocket under a connection of \<open>e2ewebsocket/conn.go\<close>: deadlines, the read limit and the
  handlers, over redials and closings, with every goroutine that writes a frame or sets an option cut into its
  atomic steps.  \<open>connMu\<close> is held only for the single steps that read or replace the websocket; \<open>writeMu\<close> is held
  over several and is part of the state.  Times are in nanoseconds.
\<close>

section \<open>State\<close>

text \<open>A websocket of the library, with its defaults: no deadlines, no limit, handlers of its own.\<close>

record websocket =
  ws_readDeadline :: "int option"
  ws_writeDeadline :: "int option"
  ws_readLimit :: int
  ws_pingHandler :: "nat option"
  ws_pongHandler :: "nat option"
  ws_closed :: bool
  ws_frames :: "(bytes \<times> int option) list"

definition newWebsocket :: websocket where
  "newWebsocket = \<lparr>ws_readDeadline = None, ws_writeDeadline = None, ws_readLimit = 0, ws_pingHandler = None,
     ws_pongHandler = None, ws_closed = False, ws_frames = []\<rparr>"

datatype wsOption = ReadDeadline int | ReadLimit int | PingHandler nat | PongHandler nat | LocalAddr

text \<open>Where a goroutine is: before a step of \<open>writeRawMessage\<close> and \<open>writeWebSocketMessage\<close>, of a setter that looks
  at \<open>c.conn\<close> and then uses it, of \<open>SetWriteDeadline\<close>, or returned.\<close>

datatype wsGo =
    Returned "unit res"
  | LoadConn bytes | LockWrite nat bytes | RefreshDeadline nat bytes | SendFrame nat bytes
  | CheckConn wsOption | UseConn wsOption
  | StoreDeadline int | CheckDeadline int | LockDeadline | ClearDeadline

record wsConn =
  wc_conn :: "nat option"
  wc_sockets :: "websocket list"
  wc_writeDeadlineNanos :: int
  wc_writeMu :: "nat option"
  wc_now :: int
  wc_go :: "nat \<Rightarrow> wsGo"

definition initWs :: wsConn where
  "initWs = \<lparr>wc_conn = None, wc_sockets = [], wc_writeDeadlineNanos = 0, wc_writeMu = None, wc_now = 0,
     wc_go = (\<lambda>_. Returned (Ok ()))\<rparr>"

section \<open>Steps\<close>

definition goTo :: "nat \<Rightarrow> wsGo \<Rightarrow> wsConn \<Rightarrow> wsConn" where
  "goTo g pc s = s\<lparr>wc_go := (wc_go s)(g := pc)\<rparr>"

definition onSocket :: "nat \<Rightarrow> (websocket \<Rightarrow> websocket) \<Rightarrow> wsConn \<Rightarrow> wsConn" where
  "onSocket k f s = s\<lparr>wc_sockets := (wc_sockets s)[k := f (wc_sockets s ! k)]\<rparr>"

definition nilPanic :: string where "nilPanic = ''invalid memory address or nil pointer dereference''"

fun applyOption :: "int \<Rightarrow> wsOption \<Rightarrow> websocket \<Rightarrow> websocket" where
  "applyOption now (ReadDeadline timeout) w = w\<lparr>ws_readDeadline := Some (now + timeout)\<rparr>"
| "applyOption now (ReadLimit n) w = w\<lparr>ws_readLimit := n\<rparr>"
| "applyOption now (PingHandler h) w = w\<lparr>ws_pingHandler := Some h\<rparr>"
| "applyOption now (PongHandler h) w = w\<lparr>ws_pongHandler := Some h\<rparr>"
| "applyOption now LocalAddr w = w"

text \<open>Only \<open>SetReadDeadline\<close> tells its caller that there is no connection.\<close>

fun notConnected :: "wsOption \<Rightarrow> unit res" where
  "notConnected (ReadDeadline _) = Fail ErrNotConnected"
| "notConnected _ = Ok ()"

definition refreshWriteDeadline :: "int \<Rightarrow> int \<Rightarrow> websocket \<Rightarrow> websocket" where
  "refreshWriteDeadline now nanos w = w\<lparr>ws_writeDeadline := (if 0 < nanos then Some (now + nanos) else None)\<rparr>"

definition setOption :: "nat \<Rightarrow> wsOption \<Rightarrow> wsConn \<Rightarrow> wsConn" where
  "setOption g opt s =
     (case wc_conn s of
        None \<Rightarrow> goTo g (Returned (Panic nilPanic)) s
      | Some k \<Rightarrow> goTo g (Returned (Ok ())) (onSocket k (applyOption (wc_now s) opt) s))"

definition lockWriteMu :: "nat \<Rightarrow> wsGo \<Rightarrow> wsConn \<Rightarrow> wsConn option" where
  "lockWriteMu g pc s = (if wc_writeMu s = None then Some (goTo g pc (s\<lparr>wc_writeMu := Some g\<rparr>)) else None)"

definition returnUnlock :: "nat \<Rightarrow> unit res \<Rightarrow> wsConn \<Rightarrow> wsConn" where
  "returnUnlock g r s = goTo g (Returned r) (s\<lparr>wc_writeMu := None\<rparr>)"

text \<open>The next step of a goroutine, by the operation it is in; \<open>ok\<close> is whether the network takes the frame.  Waiting
  for \<open>writeMu\<close> is no step.\<close>

definition writeStep :: "nat \<Rightarrow> bool \<Rightarrow> wsConn \<Rightarrow> wsConn option" where
  "writeStep g ok s =
     (case wc_go s g of
        LoadConn b \<Rightarrow> Some (case wc_conn s of None \<Rightarrow> goTo g (Returned (Fail ErrNotConnected)) s | Some k \<Rightarrow> goTo g (LockWrite k b) s)
      | LockWrite k b \<Rightarrow> lockWriteMu g (RefreshDeadline k b) s
      | RefreshDeadline k b \<Rightarrow>
          Some (goTo g (SendFrame k b) (onSocket k (refreshWriteDeadline (wc_now s) (wc_writeDeadlineNanos s)) s))
      | SendFrame k b \<Rightarrow>
          Some (if ok \<and> \<not> ws_closed (wc_sockets s ! k)
                then returnUnlock g (Ok ()) (onSocket k (\<lambda>w. w\<lparr>ws_frames := ws_frames w @ [(b, ws_writeDeadline w)]\<rparr>) s)
                else returnUnlock g (Fail LibError) s)
      | _ \<Rightarrow> None)"

definition setterStep :: "nat \<Rightarrow> wsConn \<Rightarrow> wsConn option" where
  "setterStep g s =
     (case wc_go s g of
        CheckConn opt \<Rightarrow> Some (if wc_conn s = None then goTo g (Returned (notConnected opt)) s else goTo g (UseConn opt) s)
      | UseConn opt \<Rightarrow> Some (setOption g opt s)
      | _ \<Rightarrow> None)"

definition deadlineStep :: "nat \<Rightarrow> wsConn \<Rightarrow> wsConn option" where
  "deadlineStep g s =
     (case wc_go s g of
        StoreDeadline timeout \<Rightarrow> Some (goTo g (CheckDeadline timeout) (s\<lparr>wc_writeDeadlineNanos := (if 0 < timeout then timeout else 0)\<rparr>))
      | CheckDeadline timeout \<Rightarrow>
          Some (if wc_conn s = None then goTo g (Returned (Fail ErrNotConnected)) s
                else if timeout \<le> 0 then goTo g LockDeadline s else goTo g (Returned (Ok ())) s)
      | LockDeadline \<Rightarrow> lockWriteMu g ClearDeadline s
      | ClearDeadline \<Rightarrow>
          Some (case wc_conn s of
                  None \<Rightarrow> returnUnlock g (Panic nilPanic) s
                | Some k \<Rightarrow> returnUnlock g (Ok ()) (onSocket k (\<lambda>w. w\<lparr>ws_writeDeadline := None\<rparr>) s))
      | _ \<Rightarrow> None)"

fun inSetter :: "wsGo \<Rightarrow> bool" where
  "inSetter (CheckConn _) = True"
| "inSetter (UseConn _) = True"
| "inSetter _ = False"

fun inWrite :: "wsGo \<Rightarrow> bool" where
  "inWrite (LoadConn _) = True"
| "inWrite (LockWrite _ _) = True"
| "inWrite (RefreshDeadline _ _) = True"
| "inWrite (SendFrame _ _) = True"
| "inWrite _ = False"

definition goStepWs :: "nat \<Rightarrow> bool \<Rightarrow> wsConn \<Rightarrow> wsConn option" where
  "goStepWs g ok s =
     (if inWrite (wc_go s g) then writeStep g ok s else if inSetter (wc_go s g) then setterStep g s else deadlineStep g s)"

text \<open>The calls an application makes, and how each begins.\<close>

datatype wsCall = WriteRaw bytes | SetOption wsOption | SetWriteDeadline int

fun callStart :: "wsCall \<Rightarrow> wsGo" where
  "callStart (WriteRaw b) = LoadConn b"
| "callStart (SetOption opt) = CheckConn opt"
| "callStart (SetWriteDeadline timeout) = StoreDeadline timeout"

definition dialWs :: "wsConn \<Rightarrow> wsConn" where
  "dialWs s = s\<lparr>wc_sockets := wc_sockets s @ [newWebsocket], wc_conn := Some (length (wc_sockets s))\<rparr>"

definition closeWs :: "wsConn \<Rightarrow> wsConn" where
  "closeWs s =
     (case wc_conn s of None \<Rightarrow> s
      | Some k \<Rightarrow> (onSocket k (\<lambda>w. w\<lparr>ws_closed := True\<rparr>) s)\<lparr>wc_conn := None\<rparr>)"

definition IsNil :: "wsConn \<Rightarrow> bool" where
  "IsNil s \<longleftrightarrow> wc_conn s = None"

datatype wsAct = Call nat wsCall | Step nat bool | DialWs | CloseWs | Pass nat

fun wsAction :: "wsAct \<Rightarrow> wsConn \<Rightarrow> wsConn option" where
  "wsAction (Call g c) s = (case wc_go s g of Returned _ \<Rightarrow> Some (goTo g (callStart c) s) | _ \<Rightarrow> None)"
| "wsAction (Step g ok) s = goStepWs g ok s"
| "wsAction DialWs s = Some (dialWs s)"
| "wsAction CloseWs s = Some (closeWs s)"
| "wsAction (Pass n) s = Some (s\<lparr>wc_now := wc_now s + int n\<rparr>)"

fun runWs :: "wsAct list \<Rightarrow> wsConn \<Rightarrow> wsConn option" where
  "runWs [] s = Some s"
| "runWs (a # as) s = Option.bind (wsAction a s) (runWs as)"

text \<open>Whose step an action is.\<close>

fun actor :: "wsAct \<Rightarrow> nat option" where
  "actor (Call g c) = Some g"
| "actor (Step g ok) = Some g"
| "actor _ = None"

lemmas goStep_defs = goStepWs_def writeStep_def setterStep_def deadlineStep_def

section \<open>Invariant\<close>

fun holdsWriteMu :: "wsGo \<Rightarrow> bool" where
  "holdsWriteMu (RefreshDeadline k b) = True"
| "holdsWriteMu (SendFrame k b) = True"
| "holdsWriteMu ClearDeadline = True"
| "holdsWriteMu _ = False"

fun socketOf :: "wsGo \<Rightarrow> nat option" where
  "socketOf (LockWrite k b) = Some k"
| "socketOf (RefreshDeadline k b) = Some k"
| "socketOf (SendFrame k b) = Some k"
| "socketOf _ = None"

text \<open>A lock is held by the one goroutine that is between taking it and giving it back, and goroutines name
  websockets that were dialled.\<close>

definition ws_ok :: "wsConn \<Rightarrow> bool" where
  "ws_ok s \<longleftrightarrow>
     (\<forall>g. wc_writeMu s = Some g \<longleftrightarrow> holdsWriteMu (wc_go s g)) \<and>
     (\<forall>g k. socketOf (wc_go s g) = Some k \<longrightarrow> k < length (wc_sockets s)) \<and>
     (\<forall>k. wc_conn s = Some k \<longrightarrow> k < length (wc_sockets s))"

lemma goTo_simps [simp]:
  "wc_go (goTo g pc s) = (wc_go s)(g := pc)" "wc_writeMu (goTo g pc s) = wc_writeMu s" "wc_sockets (goTo g pc s) = wc_sockets s"
  "wc_conn (goTo g pc s) = wc_conn s" "wc_now (goTo g pc s) = wc_now s"
  "wc_writeDeadlineNanos (goTo g pc s) = wc_writeDeadlineNanos s"
  by (simp_all add: goTo_def)

lemma onSocket_simps [simp]:
  "wc_go (onSocket k f s) = wc_go s" "wc_writeMu (onSocket k f s) = wc_writeMu s" "length (wc_sockets (onSocket k f s)) = length (wc_sockets s)"
  "wc_conn (onSocket k f s) = wc_conn s" "wc_now (onSocket k f s) = wc_now s"
  "wc_writeDeadlineNanos (onSocket k f s) = wc_writeDeadlineNanos s"
  by (simp_all add: onSocket_def)

lemma socket_onSocket: "j < length (wc_sockets s) \<Longrightarrow> wc_sockets (onSocket k f s) ! j = (if j = k then f (wc_sockets s ! j) else wc_sockets s ! j)"
  by (simp add: onSocket_def nth_list_update)

lemma initWs_ok: "ws_ok initWs"
  by (simp add: ws_ok_def initWs_def)

lemma callStart_simps [simp]: "\<not> holdsWriteMu (callStart c)" "socketOf (callStart c) = None"
  by (cases c; simp)+

lemma goStepWs_ok:
  assumes "ws_ok s" "goStepWs g ok s = Some s'"
  shows "ws_ok s'"
proof -
  have mu: "\<And>h. wc_writeMu s = Some h \<longleftrightarrow> holdsWriteMu (wc_go s h)" using assms(1) by (simp add: ws_ok_def)
  have excl: "holdsWriteMu (wc_go s g) \<Longrightarrow> holdsWriteMu (wc_go s h) \<Longrightarrow> h = g" for h using mu by (metis option.inject)
  have free: "wc_writeMu s = None \<Longrightarrow> \<not> holdsWriteMu (wc_go s h)" for h using mu by (metis option.distinct(1))
  have sk: "socketOf (wc_go s g) = Some k \<Longrightarrow> k < length (wc_sockets s)" for k using assms(1) by (simp add: ws_ok_def)
  show ?thesis
    using assms mu [of g] sk excl free
    by (cases "wc_go s g")
      (auto simp: goStep_defs lockWriteMu_def returnUnlock_def setOption_def ws_ok_def split: option.splits if_splits)
qed
lemma wsAction_ok:
  assumes "ws_ok s" "wsAction a s = Some s'"
  shows "ws_ok s'"
proof (cases a)
  case (Call g c)
  then have "s' = goTo g (callStart c) s" "\<not> holdsWriteMu (wc_go s g)" using assms(2) by (auto split: wsGo.splits)
  then show ?thesis using assms(1) by (auto simp: ws_ok_def)
next
  case (Step g ok)
  then show ?thesis using goStepWs_ok [OF assms(1)] assms(2) by simp
next
  case DialWs
  then show ?thesis using assms by (fastforce simp: ws_ok_def dialWs_def less_Suc_eq)
next
  case CloseWs
  then show ?thesis using assms by (auto simp: ws_ok_def closeWs_def split: option.splits)
next
  case (Pass n)
  then show ?thesis using assms by (auto simp: ws_ok_def)
qed

lemma runWs_ok: "ws_ok s \<Longrightarrow> runWs as s = Some s' \<Longrightarrow> ws_ok s'"
  by (induction as arbitrary: s) (auto simp: bind_eq_Some_conv intro: wsAction_ok)

lemma runWs_append: "runWs (as @ bs) s = Option.bind (runWs as s) (runWs bs)"
  by (induction as arbitrary: s) (simp_all split: Option.bind_split)

section \<open>Deadlines of frames\<close>

text \<open>While a goroutine is about to send, no other sets the write deadline of a websocket, and it is not moved.\<close>

lemma other_keeps_deadline:
  assumes "ws_ok s" "wc_go s g = SendFrame k b" "wsAction a s = Some s'" "actor a \<noteq> Some g"
  shows "wc_go s' g = SendFrame k b" "ws_writeDeadline (wc_sockets s' ! k) = ws_writeDeadline (wc_sockets s ! k)"
proof -
  have k: "k < length (wc_sockets s)" using assms(1,2) unfolding ws_ok_def by (metis socketOf.simps(3))
  have mu: "wc_writeMu s = Some g" using assms(1,2) unfolding ws_ok_def by (metis holdsWriteMu.simps(2))
  have other: "\<not> holdsWriteMu (wc_go s h)" if "h \<noteq> g" for h using assms(1) mu that unfolding ws_ok_def by (metis option.inject)
  have opt: "ws_writeDeadline (applyOption n opt w) = ws_writeDeadline w" for n opt w by (cases opt) simp_all
  have "wc_go s' g = SendFrame k b \<and> ws_writeDeadline (wc_sockets s' ! k) = ws_writeDeadline (wc_sockets s ! k)"
  proof (cases a)
    case (Call h c)
    then show ?thesis using assms by (auto split: wsGo.splits)
  next
    case (Step h ok)
    then have h: "h \<noteq> g" using assms(4) by simp
    show ?thesis
      using assms(2,3) other [OF h] h mu k opt Step
      by (cases "wc_go s h")
        (auto simp: goStep_defs lockWriteMu_def setOption_def socket_onSocket split: option.splits if_splits)
  next
    case DialWs
    then show ?thesis using assms(2,3) k by (auto simp: dialWs_def nth_append)
  next
    case CloseWs
    then show ?thesis using assms(2,3) k by (auto simp: closeWs_def socket_onSocket split: option.splits)
  next
    case (Pass n)
    then show ?thesis using assms(2,3) by auto
  qed
  then show "wc_go s' g = SendFrame k b" "ws_writeDeadline (wc_sockets s' ! k) = ws_writeDeadline (wc_sockets s ! k)" by auto
qed

lemma others_keep_deadline:
  assumes "ws_ok s" "wc_go s g = SendFrame k b" "runWs as s = Some s'" "list_all (\<lambda>a. actor a \<noteq> Some g) as"
  shows "wc_go s' g = SendFrame k b \<and> ws_writeDeadline (wc_sockets s' ! k) = ws_writeDeadline (wc_sockets s ! k)"
  using assms
proof (induction as arbitrary: s)
  case (Cons a as)
  obtain s1 where s1: "wsAction a s = Some s1" "runWs as s1 = Some s'" using Cons.prems(3) by (auto simp: bind_eq_Some_conv)
  note o = other_keeps_deadline [OF Cons.prems(1,2) s1(1)]
  show ?case using Cons.IH [OF wsAction_ok [OF Cons.prems(1) s1(1)] _ s1(2)] o Cons.prems(4) by auto
qed simp

text \<open>C18: a frame is sent under the deadline that was set for it, the time of the write and the timeout in force
  then, whatever other writers, setters, redials and closings come between.\<close>

theorem frame_deadline:
  assumes "runWs before initWs = Some s" "wc_go s g = RefreshDeadline k b"
    "runWs (Step g x # as @ [Step g ok]) s = Some s'" "list_all (\<lambda>a. actor a \<noteq> Some g) as"
  shows "if wc_go s' g = Returned (Ok ())
    then last (ws_frames (wc_sockets s' ! k)) =
      (b, if 0 < wc_writeDeadlineNanos s then Some (wc_now s + wc_writeDeadlineNanos s) else None) \<and> wc_writeMu s' = None
    else wc_go s' g = Returned (Fail LibError) \<and> wc_writeMu s' = None"
proof -
  let ?s1 = "goTo g (SendFrame k b) (onSocket k (refreshWriteDeadline (wc_now s) (wc_writeDeadlineNanos s)) s)"
  have ok: "ws_ok s" by (rule runWs_ok [OF initWs_ok assms(1)])
  have k: "k < length (wc_sockets s)" using ok assms(2) unfolding ws_ok_def by (metis socketOf.simps(2))
  have s1: "wsAction (Step g x) s = Some ?s1" using assms(2) by (simp add: goStep_defs)
  obtain s2 where s2: "runWs as ?s1 = Some s2" "goStepWs g ok s2 = Some s'"
    using assms(3) s1 by (auto simp: runWs_append bind_eq_Some_conv)
  have o: "wc_go s2 g = SendFrame k b" "ws_writeDeadline (wc_sockets s2 ! k) = ws_writeDeadline (wc_sockets ?s1 ! k)"
    using others_keep_deadline [OF wsAction_ok [OF ok s1] _ s2(1) assms(4)] by auto
  have "ws_ok s2" by (rule runWs_ok [OF wsAction_ok [OF ok s1] s2(1)])
  then have "k < length (wc_sockets s2)" using o(1) unfolding ws_ok_def by (metis socketOf.simps(3))
  then show ?thesis
    using s2(2) o k
    by (auto simp: goStep_defs returnUnlock_def socket_onSocket refreshWriteDeadline_def split: if_splits)
qed

section \<open>Setters that lose the connection\<close>

text \<open>A setter that finds a websocket looks for it a second time without holding a lock: when the connection is
  closed in between it crashes the program, whichever option it sets, also with \<open>SetWriteDeadline\<close>, which
  holds \<open>writeMu\<close> but not the lock of the connection.\<close>

theorem setter_race_panics:
  assumes "wc_conn s = Some k" "wc_writeMu s = None" "wc_go s g = Returned r"
    "c = SetOption opt \<and> n = 1 \<or> c = SetWriteDeadline timeout \<and> timeout \<le> 0 \<and> n = 3"
  shows "\<exists>s'. runWs (Call g c # replicate n (Step g True) @ [CloseWs, Step g True]) s = Some s' \<and>
    wc_go s' g = Returned (Panic nilPanic) \<and> wc_writeMu s' = None"
  using assms
  by (auto simp: goStep_defs setOption_def closeWs_def lockWriteMu_def returnUnlock_def numeral_3_eq_3)

text \<open>A redial starts from the defaults: of all that was set before, on any websocket, only the write deadline is
  carried over, by the next write; the read limit, the read deadline and the handlers are gone.\<close>

theorem redial_forgets_options:
  assumes "wc_writeMu s = None" "wc_go s g = Returned r"
  shows "\<exists>s'. runWs [DialWs, Call g (WriteRaw b), Step g True, Step g True, Step g True, Step g True] s = Some s' \<and>
    wc_go s' g = Returned (Ok ()) \<and>
    wc_conn s' = Some (length (wc_sockets s)) \<and>
    wc_sockets s' ! length (wc_sockets s) = newWebsocket
      \<lparr>ws_writeDeadline := (if 0 < wc_writeDeadlineNanos s then Some (wc_now s + wc_writeDeadlineNanos s) else None),
       ws_frames := [(b, if 0 < wc_writeDeadlineNanos s then Some (wc_now s + wc_writeDeadlineNanos s) else None)]\<rparr>"
  using assms
  by (simp add: goStep_defs dialWs_def lockWriteMu_def returnUnlock_def goTo_def onSocket_def newWebsocket_def refreshWriteDeadline_def)

text \<open>Witnesses.\<close>

abbreviation exDialled :: "wsAct list" where
  "exDialled \<equiv> [DialWs, Call 1 (SetWriteDeadline 5), Step 1 True, Step 1 True, Call 1 (WriteRaw [7]), Step 1 True, Step 1 True]"

lemma frame_deadline_witness:
  "\<exists>s s'. runWs exDialled initWs = Some s \<and>
     runWs (Step 1 True # [Pass 9, Call 2 (SetWriteDeadline 0), Step 2 True] @ [Step 1 True]) s = Some s' \<and>
     last (ws_frames (wc_sockets s' ! 0)) = ([7], Some 5)"
proof -
  obtain s where s: "runWs exDialled initWs = Some s" "wc_go s 1 = RefreshDeadline 0 [7]" "wc_writeDeadlineNanos s = 5" "wc_now s = 0"
      "wc_go s 2 = Returned (Ok ())" "wc_sockets s = [newWebsocket]"
    by (simp add: initWs_def dialWs_def goStep_defs goTo_def lockWriteMu_def)
  obtain s' where s': "runWs (Step 1 True # [Pass 9, Call 2 (SetWriteDeadline 0), Step 2 True] @ [Step 1 True]) s = Some s'"
      "wc_go s' 1 = Returned (Ok ())"
    using s by (simp add: goStep_defs returnUnlock_def socket_onSocket refreshWriteDeadline_def newWebsocket_def goTo_def onSocket_def)
  have "list_all (\<lambda>a. actor a \<noteq> Some 1) [Pass 9, Call 2 (SetWriteDeadline 0), Step 2 True]" by simp
  from frame_deadline [OF s(1,2) s'(1) this] s s' show ?thesis by auto
qed

lemma setter_race_panics_witness:
  "\<exists>s'. runWs (Call 1 (SetOption (ReadLimit 9)) # replicate 1 (Step 1 True) @ [CloseWs, Step 1 True]) (dialWs initWs) = Some s' \<and>
     wc_go s' 1 = Returned (Panic nilPanic)"
proof -
  have s: "wc_conn (dialWs initWs) = Some 0" "wc_writeMu (dialWs initWs) = None" "wc_go (dialWs initWs) 1 = Returned (Ok ())"
    by (simp_all add: dialWs_def initWs_def)
  show ?thesis using setter_race_panics [OF s, of "SetOption (ReadLimit 9)" "ReadLimit 9" 1 0] by blast
qed

lemma redial_forgets_options_witness:
  "\<exists>s s'. runWs [DialWs, Call 1 (SetOption (ReadLimit 9)), Step 1 True, Step 1 True] initWs = Some s \<and> ws_readLimit (wc_sockets s ! 0) = 9 \<and>
     runWs [DialWs, Call 1 (WriteRaw [7]), Step 1 True, Step 1 True, Step 1 True, Step 1 True] s = Some s' \<and>
     ws_readLimit (wc_sockets s' ! 1) = 0"
proof -
  obtain s where s: "runWs [DialWs, Call 1 (SetOption (ReadLimit 9)), Step 1 True, Step 1 True] initWs = Some s"
      "wc_writeMu s = None" "wc_go s 1 = Returned (Ok ())" "ws_readLimit (wc_sockets s ! 0) = 9" "length (wc_sockets s) = 1"
    by (simp add: initWs_def dialWs_def goStep_defs goTo_def setOption_def onSocket_def)
  from redial_forgets_options [OF s(2,3), of "[7]"] s show ?thesis by (auto simp: newWebsocket_def)
qed

end
