(* ===== verification/Gzip.thy ===== *)
theory Gzip
  imports ImParser
begin

text \<open>
  \<open>compressor/compressor.go\<close> and \<open>encoder/encoder.go\<close>: compression with writers and readers that goroutines take
  from a pool and put back, and the encoders.  A pooled writer keeps pointing at the buffer whose bytes
  the call before returned, so buffers are a store, and a call is cut into the steps others may come between.
  The library is a parameter; \<open>gzipCodec\<close> is the codec that the parser of messages gets.
\<close>

section \<open>The library\<close>

text \<open>A write and a close say whether they succeeded, and what they wrote to the buffer of the writer; setting a
  reader reads the header.\<close>

record ('w, 'r) gzipLib =
  gz_newWriter :: 'w
  gz_resetWriter :: "'w \<Rightarrow> 'w"
  gz_write :: "bytes \<Rightarrow> 'w \<Rightarrow> bool \<times> bytes \<times> 'w"
  gz_closeWriter :: "'w \<Rightarrow> bool \<times> bytes \<times> 'w"
  gz_newReader :: 'r
  gz_resetReader :: "bytes \<Rightarrow> 'r \<Rightarrow> bool \<times> 'r"
  gz_readAll :: "'r \<Rightarrow> bool \<times> bytes \<times> 'r"
  gz_closeReader :: "'r \<Rightarrow> bool \<times> 'r"

text \<open>Go returns bytes and an error; the bytes are nil with most errors.\<close>

type_synonym goBytes = "bytes \<times> error option"

section \<open>Without a pool\<close>

definition compressWith :: "('w, 'r) gzipLib \<Rightarrow> bytes \<Rightarrow> 'w \<Rightarrow> goBytes" where
  "compressWith A rawData gz =
     (case gz_write A rawData gz of (ok, out, w) \<Rightarrow>
        if \<not> ok then ([], Some LibError)
        else case gz_closeWriter A w of (ok2, out2, _) \<Rightarrow>
          if \<not> ok2 then ([], Some LibError) else (out @ out2, None))"

definition Compress :: "('w, 'r) gzipLib \<Rightarrow> bytes \<Rightarrow> goBytes" where
  "Compress A rawData = compressWith A rawData (gz_newWriter A)"

text \<open>A reader that fails to close leaves the data it has read beside the error.\<close>

definition decompressWith :: "('w, 'r) gzipLib \<Rightarrow> bytes \<Rightarrow> 'r \<Rightarrow> goBytes" where
  "decompressWith A compressedData reader =
     (case gz_resetReader A compressedData reader of (ok, r) \<Rightarrow>
        if \<not> ok then ([], Some LibError)
        else case gz_readAll A r of (ok2, d, r2) \<Rightarrow>
          if \<not> ok2 then ([], Some LibError)
          else (d, if fst (gz_closeReader A r2) then None else Some LibError))"

definition DeCompress :: "('w, 'r) gzipLib \<Rightarrow> bytes \<Rightarrow> goBytes" where
  "DeCompress A compressedData = decompressWith A compressedData (gz_newReader A)"

section \<open>With the pools\<close>

text \<open>A writer and the buffer it writes to.  Where a goroutine is: in \<open>CompressWithPool\<close>, in \<open>DecompressWithPool\<close>, or
  returned, with a buffer or with data.  The text of the call comes first, for the record.\<close>

datatype ('w, 'r) gzGo =
    NotStarted | GotBuffer bytes nat | GotData bytes goBytes | GotError bytes
  | GetWriter bytes | ResetWriter bytes 'w | WriteAll bytes 'w nat | CloseWriter bytes 'w nat | PutWriter bytes 'w nat bool
  | GetReader bytes | ResetReader bytes 'r | ReadAllData bytes 'r | CloseReader bytes 'r bytes | PutReader bytes 'r goBytes

record ('w, 'r) gzState =
  gs_writers :: "'w list"
  gs_readers :: "'r list"
  gs_buffers :: "bytes list"
  gs_go :: "nat \<Rightarrow> ('w, 'r) gzGo"

definition initGz :: "('w, 'r) gzState" where
  "initGz = \<lparr>gs_writers = [], gs_readers = [], gs_buffers = [], gs_go = (\<lambda>_. NotStarted)\<rparr>"

definition gzGoTo :: "nat \<Rightarrow> ('w, 'r) gzGo \<Rightarrow> ('w, 'r) gzState \<Rightarrow> ('w, 'r) gzState" where
  "gzGoTo g pc s = s\<lparr>gs_go := (gs_go s)(g := pc)\<rparr>"

definition removeNth :: "nat \<Rightarrow> 'a list \<Rightarrow> 'a list" where
  "removeNth i xs = take i xs @ drop (Suc i) xs"

text \<open>\<open>Get\<close> of a pool hands out one of its objects, or makes one: a pool may forget objects.\<close>

definition fromPool :: "nat \<Rightarrow> 'a \<Rightarrow> 'a list \<Rightarrow> 'a \<times> 'a list" where
  "fromPool i new pool = (if i < length pool then (pool ! i, removeNth i pool) else (new, pool))"

definition appendBuffer :: "nat \<Rightarrow> bytes \<Rightarrow> ('w, 'r) gzState \<Rightarrow> ('w, 'r) gzState" where
  "appendBuffer a out s = s\<lparr>gs_buffers := (gs_buffers s)[a := gs_buffers s ! a @ out]\<rparr>"

definition compressStep :: "('w, 'r) gzipLib \<Rightarrow> nat \<Rightarrow> nat \<Rightarrow> ('w, 'r) gzState \<Rightarrow> ('w, 'r) gzState option" where
  "compressStep A g i s =
     (case gs_go s g of
        GetWriter p \<Rightarrow>
          (case fromPool i (gz_newWriter A) (gs_writers s) of (w, ws) \<Rightarrow> Some (gzGoTo g (ResetWriter p w) (s\<lparr>gs_writers := ws\<rparr>)))
      | ResetWriter p w \<Rightarrow>
          Some (gzGoTo g (WriteAll p (gz_resetWriter A w) (length (gs_buffers s))) (s\<lparr>gs_buffers := gs_buffers s @ [[]]\<rparr>))
      | WriteAll p w a \<Rightarrow>
          (case gz_write A p w of (ok, out, w') \<Rightarrow>
             Some (gzGoTo g (if ok then CloseWriter p w' a else PutWriter p w' a False) (appendBuffer a out s)))
      | CloseWriter p w a \<Rightarrow>
          (case gz_closeWriter A w of (ok, out, w') \<Rightarrow> Some (gzGoTo g (PutWriter p w' a ok) (appendBuffer a out s)))
      | PutWriter p w a ok \<Rightarrow> Some (gzGoTo g (if ok then GotBuffer p a else GotError p) (s\<lparr>gs_writers := w # gs_writers s\<rparr>))
      | _ \<Rightarrow> None)"

definition decompressStep :: "('w, 'r) gzipLib \<Rightarrow> nat \<Rightarrow> nat \<Rightarrow> ('w, 'r) gzState \<Rightarrow> ('w, 'r) gzState option" where
  "decompressStep A g i s =
     (case gs_go s g of
        GetReader x \<Rightarrow>
          (case fromPool i (gz_newReader A) (gs_readers s) of (r, rs) \<Rightarrow> Some (gzGoTo g (ResetReader x r) (s\<lparr>gs_readers := rs\<rparr>)))
      | ResetReader x r \<Rightarrow>
          (case gz_resetReader A x r of (ok, r') \<Rightarrow>
             Some (gzGoTo g (if ok then ReadAllData x r' else PutReader x r' ([], Some LibError)) s))
      | ReadAllData x r \<Rightarrow>
          (case gz_readAll A r of (ok, d, r') \<Rightarrow>
             Some (gzGoTo g (if ok then CloseReader x r' d else PutReader x r' ([], Some LibError)) s))
      | CloseReader x r d \<Rightarrow>
          (case gz_closeReader A r of (ok, r') \<Rightarrow> Some (gzGoTo g (PutReader x r' (d, if ok then None else Some LibError)) s))
      | PutReader x r res \<Rightarrow> Some (gzGoTo g (GotData x res) (s\<lparr>gs_readers := r # gs_readers s\<rparr>))
      | _ \<Rightarrow> None)"

fun returned :: "('w, 'r) gzGo \<Rightarrow> bool" where
  "returned NotStarted = True"
| "returned (GotBuffer _ _) = True"
| "returned (GotData _ _) = True"
| "returned (GotError _) = True"
| "returned _ = False"

datatype gzAct = StartCompress nat bytes | StartDecompress nat bytes | CompressStep nat nat | DecompressStep nat nat

fun gzAction :: "('w, 'r) gzipLib \<Rightarrow> gzAct \<Rightarrow> ('w, 'r) gzState \<Rightarrow> ('w, 'r) gzState option" where
  "gzAction A (StartCompress g p) s = (if returned (gs_go s g) then Some (gzGoTo g (GetWriter p) s) else None)"
| "gzAction A (StartDecompress g x) s = (if returned (gs_go s g) then Some (gzGoTo g (GetReader x) s) else None)"
| "gzAction A (CompressStep g i) s = compressStep A g i s"
| "gzAction A (DecompressStep g i) s = decompressStep A g i s"

inductive gzRun :: "('w, 'r) gzipLib \<Rightarrow> ('w, 'r) gzState \<Rightarrow> bool" for A where
  gz_init: "gzRun A initGz"
| gz_step: "gzRun A s \<Longrightarrow> gzAction A a s = Some s' \<Longrightarrow> gzRun A s'"

text \<open>What is documented of \<open>Reset\<close>: the object is then as good as a new one.\<close>

definition gzip_resets :: "('w, 'r) gzipLib \<Rightarrow> bool" where
  "gzip_resets A \<longleftrightarrow>
     (\<forall>w p. compressWith A p (gz_resetWriter A w) = compressWith A p (gz_newWriter A)) \<and>
     (\<forall>r x. decompressWith A x r = decompressWith A x (gz_newReader A))"

section \<open>Invariant\<close>

lemma gzip_resetsD:
  assumes "gzip_resets A"
  shows "gz_write A p (gz_resetWriter A w) = (False, out, w1) \<Longrightarrow> Compress A p = ([], Some LibError)"
    "gz_write A p (gz_resetWriter A w) = (True, out, w1) \<Longrightarrow> gz_closeWriter A w1 = (ok, out2, w2) \<Longrightarrow>
       Compress A p = (if ok then (out @ out2, None) else ([], Some LibError))"
    "gz_resetReader A x r = (False, r1) \<Longrightarrow> DeCompress A x = ([], Some LibError)"
    "gz_resetReader A x r = (True, r1) \<Longrightarrow> gz_readAll A r1 = (False, d, r2) \<Longrightarrow> DeCompress A x = ([], Some LibError)"
    "gz_resetReader A x r = (True, r1) \<Longrightarrow> gz_readAll A r1 = (True, d, r2) \<Longrightarrow>
       DeCompress A x = (d, if fst (gz_closeReader A r2) then None else Some LibError)"
proof -
  have c: "Compress A p = compressWith A p (gz_resetWriter A w)" and d: "DeCompress A x = decompressWith A x r"
    unfolding Compress_def DeCompress_def using assms unfolding gzip_resets_def by metis+
  show "gz_write A p (gz_resetWriter A w) = (False, out, w1) \<Longrightarrow> Compress A p = ([], Some LibError)"
    "gz_write A p (gz_resetWriter A w) = (True, out, w1) \<Longrightarrow> gz_closeWriter A w1 = (ok, out2, w2) \<Longrightarrow>
      Compress A p = (if ok then (out @ out2, None) else ([], Some LibError))"
    unfolding c by (simp_all add: compressWith_def)
  show "gz_resetReader A x r = (False, r1) \<Longrightarrow> DeCompress A x = ([], Some LibError)"
    "gz_resetReader A x r = (True, r1) \<Longrightarrow> gz_readAll A r1 = (False, d, r2) \<Longrightarrow> DeCompress A x = ([], Some LibError)"
    "gz_resetReader A x r = (True, r1) \<Longrightarrow> gz_readAll A r1 = (True, d, r2) \<Longrightarrow>
      DeCompress A x = (d, if fst (gz_closeReader A r2) then None else Some LibError)"
    unfolding d by (simp_all add: decompressWith_def)
qed

fun owned :: "('w, 'r) gzGo \<Rightarrow> nat option" where
  "owned (GotBuffer p a) = Some a"
| "owned (WriteAll p w a) = Some a"
| "owned (CloseWriter p w a) = Some a"
| "owned (PutWriter p w a ok) = Some a"
| "owned _ = None"

fun writing :: "('w, 'r) gzGo \<Rightarrow> nat option" where
  "writing (WriteAll p w a) = Some a"
| "writing (CloseWriter p w a) = Some a"
| "writing _ = None"

fun goOk :: "('w, 'r) gzipLib \<Rightarrow> bytes list \<Rightarrow> ('w, 'r) gzGo \<Rightarrow> bool" where
  "goOk A bufs (WriteAll p w a) \<longleftrightarrow> bufs ! a = [] \<and> (\<exists>w0. w = gz_resetWriter A w0)"
| "goOk A bufs (CloseWriter p w a) \<longleftrightarrow> (\<exists>w0. gz_write A p (gz_resetWriter A w0) = (True, bufs ! a, w))"
| "goOk A bufs (PutWriter p w a ok) \<longleftrightarrow> Compress A p = (if ok then (bufs ! a, None) else ([], Some LibError))"
| "goOk A bufs (GotBuffer p a) \<longleftrightarrow> Compress A p = (bufs ! a, None)"
| "goOk A bufs (GotError p) \<longleftrightarrow> Compress A p = ([], Some LibError)"
| "goOk A bufs (ReadAllData x r) \<longleftrightarrow> (\<exists>r0. gz_resetReader A x r0 = (True, r))"
| "goOk A bufs (CloseReader x r d) \<longleftrightarrow> (\<exists>r0 r1. gz_resetReader A x r0 = (True, r1) \<and> gz_readAll A r1 = (True, d, r))"
| "goOk A bufs (PutReader x r res) \<longleftrightarrow> DeCompress A x = res"
| "goOk A bufs (GotData x res) \<longleftrightarrow> DeCompress A x = res"
| "goOk A bufs _ \<longleftrightarrow> True"

text \<open>A buffer that is being written belongs to one goroutine.\<close>

definition gz_ok :: "('w, 'r) gzipLib \<Rightarrow> ('w, 'r) gzState \<Rightarrow> bool" where
  "gz_ok A s \<longleftrightarrow>
     (\<forall>g. goOk A (gs_buffers s) (gs_go s g)) \<and>
     (\<forall>g a. owned (gs_go s g) = Some a \<longrightarrow> a < length (gs_buffers s)) \<and>
     (\<forall>g h a. writing (gs_go s g) = Some a \<longrightarrow> owned (gs_go s h) = Some a \<longrightarrow> h = g)"

lemma writing_owned: "writing pc = Some a \<Longrightarrow> owned pc = Some a"
  by (cases pc) simp_all

lemma goOk_mono:
  assumes "goOk A bufs pc" "\<And>a. owned pc = Some a \<Longrightarrow> bufs' ! a = bufs ! a"
  shows "goOk A bufs' pc"
  using assms by (cases pc) auto

lemma gz_ok_update:
  assumes "gz_ok A s" "gs_go s' = (gs_go s)(g := pc)" "goOk A (gs_buffers s') pc"
    "\<And>a. owned pc = Some a \<Longrightarrow> a < length (gs_buffers s')" "length (gs_buffers s) \<le> length (gs_buffers s')"
    "\<And>a. a < length (gs_buffers s) \<Longrightarrow> writing (gs_go s g) \<noteq> Some a \<Longrightarrow> gs_buffers s' ! a = gs_buffers s ! a"
    "\<And>a. writing pc = Some a \<Longrightarrow> writing (gs_go s g) = Some a \<or> length (gs_buffers s) \<le> a"
    "\<And>a. owned pc = Some a \<Longrightarrow> owned (gs_go s g) = Some a \<or> length (gs_buffers s) \<le> a"
  shows "gz_ok A s'"
proof -
  note ok = assms(1) [unfolded gz_ok_def]
  have own: "owned (gs_go s h) = Some a \<Longrightarrow> a < length (gs_buffers s)" for h a using ok by blast
  have excl: "writing (gs_go s h) = Some a \<Longrightarrow> owned (gs_go s i) = Some a \<Longrightarrow> i = h" for h i a using ok by blast
  have "goOk A (gs_buffers s') (gs_go s' h)" for h
  proof (cases "h = g")
    case False
    have g: "goOk A (gs_buffers s) (gs_go s h)" using ok by blast
    have "gs_buffers s' ! a = gs_buffers s ! a" if "owned (gs_go s h) = Some a" for a
      using assms(6) [OF own [OF that]] excl [of g a h] that False by blast
    then have "goOk A (gs_buffers s') (gs_go s h)" by (rule goOk_mono [OF g])
    then show ?thesis using False assms(2) by simp
  qed (use assms(2,3) in simp)
  moreover have "owned (gs_go s' h) = Some a \<Longrightarrow> a < length (gs_buffers s')" for h a
    using assms(2,4,5) own [of h a] by (cases "h = g") auto
  moreover have "i = h" if w: "writing (gs_go s' h) = Some a" and o: "owned (gs_go s' i) = Some a" for h i a
  proof (cases "h = g"; cases "i = g")
    assume n: "h = g" "i \<noteq> g"
    then have "owned (gs_go s i) = Some a" "writing pc = Some a" using w o assms(2) by auto
    then have "writing (gs_go s g) = Some a" using assms(7) own by force
    then show ?thesis using excl \<open>owned (gs_go s i) = Some a\<close> n by metis
  next
    assume n: "h \<noteq> g" "i = g"
    then have wr: "writing (gs_go s h) = Some a" "owned pc = Some a" using w o assms(2) by auto
    then have "owned (gs_go s g) = Some a" using assms(8) own writing_owned by force
    then show ?thesis using excl wr(1) n by metis
  qed (use w o assms(2) excl in auto)
  ultimately show ?thesis unfolding gz_ok_def by blast
qed

lemma gzGoTo_simps [simp]:
  "gs_go (gzGoTo g pc s) = (gs_go s)(g := pc)" "gs_buffers (gzGoTo g pc s) = gs_buffers s"
  by (simp_all add: gzGoTo_def)

lemma appendBuffer_simps [simp]:
  "gs_go (appendBuffer a out s) = gs_go s" "length (gs_buffers (appendBuffer a out s)) = length (gs_buffers s)"
  "b < length (gs_buffers s) \<Longrightarrow> gs_buffers (appendBuffer a out s) ! b = (if b = a then gs_buffers s ! b @ out else gs_buffers s ! b)"
  by (simp_all add: appendBuffer_def nth_list_update)

lemma compressStep_ok:
  assumes "gzip_resets A" "gz_ok A s" "compressStep A g i s = Some s'"
  shows "gz_ok A s'"
proof -
  have ok: "goOk A (gs_buffers s) (gs_go s g)" and own: "\<And>a. owned (gs_go s g) = Some a \<Longrightarrow> a < length (gs_buffers s)"
    using assms(2) by (auto simp: gz_ok_def)
  note r = gzip_resetsD(1,2) [OF assms(1)]
  show ?thesis
  proof (cases "gs_go s g")
    case (GetWriter p)
    obtain w ws where f: "fromPool i (gz_newWriter A) (gs_writers s) = (w, ws)" by fastforce
    then have s': "s' = gzGoTo g (ResetWriter p w) (s\<lparr>gs_writers := ws\<rparr>)" using assms(3) GetWriter by (simp add: compressStep_def)
    show ?thesis by (rule gz_ok_update [OF assms(2), of _ g "ResetWriter p w"]) (simp_all add: s')
  next
    case (ResetWriter p w)
    let ?pc = "WriteAll p (gz_resetWriter A w) (length (gs_buffers s))"
    have s': "s' = gzGoTo g ?pc (s\<lparr>gs_buffers := gs_buffers s @ [[]]\<rparr>)" using assms(3) ResetWriter by (simp add: compressStep_def)
    show ?thesis by (rule gz_ok_update [OF assms(2), of _ g ?pc]) (auto simp: s' nth_append)
  next
    case (WriteAll p w a)
    obtain b out w' where e: "gz_write A p w = (b, out, w')" by (metis prod_cases3)
    let ?pc = "if b then CloseWriter p w' a else PutWriter p w' a False"
    have s': "s' = gzGoTo g ?pc (appendBuffer a out s)" using assms(3) WriteAll e by (simp add: compressStep_def)
    obtain w0 where w: "gs_buffers s ! a = []" "w = gz_resetWriter A w0" "a < length (gs_buffers s)" using ok own WriteAll by auto
    show ?thesis
      by (rule gz_ok_update [OF assms(2), of _ g ?pc]) (use w e r(1) WriteAll in \<open>auto simp: s' split: if_splits\<close>)
  next
    case (CloseWriter p w a)
    obtain b out w' where e: "gz_closeWriter A w = (b, out, w')" by (metis prod_cases3)
    have s': "s' = gzGoTo g (PutWriter p w' a b) (appendBuffer a out s)" using assms(3) CloseWriter e by (simp add: compressStep_def)
    obtain w0 where w: "gz_write A p (gz_resetWriter A w0) = (True, gs_buffers s ! a, w)" "a < length (gs_buffers s)"
      using ok own CloseWriter by auto
    show ?thesis
      by (rule gz_ok_update [OF assms(2), of _ g "PutWriter p w' a b"]) (use w e r(2) [OF w(1) e] CloseWriter in \<open>auto simp: s'\<close>)
  next
    case (PutWriter p w a b)
    let ?pc = "if b then GotBuffer p a else GotError p"
    have s': "s' = gzGoTo g ?pc (s\<lparr>gs_writers := w # gs_writers s\<rparr>)" using assms(3) PutWriter by (simp add: compressStep_def)
    show ?thesis
      by (rule gz_ok_update [OF assms(2), of _ g ?pc]) (use ok own PutWriter in \<open>auto simp: s' split: if_splits\<close>)
  qed (use assms(3) in \<open>simp_all add: compressStep_def\<close>)
qed

lemma decompressStep_ok:
  assumes "gzip_resets A" "gz_ok A s" "decompressStep A g i s = Some s'"
  shows "gz_ok A s' \<and> gs_buffers s' = gs_buffers s"
proof -
  have ok: "goOk A (gs_buffers s) (gs_go s g)" using assms(2) by (auto simp: gz_ok_def)
  note r = gzip_resetsD(3-5) [OF assms(1)]
  have pc: "gs_go s' = (gs_go s)(g := gs_go s' g)" "gs_buffers s' = gs_buffers s" "owned (gs_go s' g) = None" "writing (gs_go s' g) = None"
    using assms(3) by (cases "gs_go s g"; force simp: decompressStep_def split: prod.splits if_splits)+
  have g: "goOk A (gs_buffers s) (gs_go s' g)"
  proof (cases "gs_go s g")
    case (ResetReader x r0)
    then show ?thesis using assms(3) r(1) [of x r0] by (auto simp: decompressStep_def split: prod.splits if_splits)
  next
    case (ReadAllData x r1)
    then show ?thesis using assms(3) ok r(2) [of x] by (fastforce simp: decompressStep_def split: prod.splits if_splits)
  next
    case (CloseReader x r2 d)
    then show ?thesis using assms(3) ok r(3) [of x] by (auto simp: decompressStep_def split: prod.splits if_splits)
  qed (use assms(3) ok in \<open>auto simp: decompressStep_def split: prod.splits\<close>)
  have "gz_ok A s'" by (rule gz_ok_update [OF assms(2) pc(1)]) (use pc g in simp_all)
  then show ?thesis using pc(2) by blast
qed

lemma gzAction_ok:
  assumes "gzip_resets A" "gz_ok A s" "gzAction A a s = Some s'"
  shows "gz_ok A s'"
proof (cases a)
  case (StartCompress g p)
  then show ?thesis
    using assms(3) by (intro gz_ok_update [OF assms(2), of s' g "GetWriter p"]) (auto split: if_splits)
next
  case (StartDecompress g x)
  then show ?thesis
    using assms(3) by (intro gz_ok_update [OF assms(2), of s' g "GetReader x"]) (auto split: if_splits)
next
  case (CompressStep g i)
  then show ?thesis using compressStep_ok [OF assms(1,2)] assms(3) by simp
next
  case (DecompressStep g i)
  then show ?thesis using decompressStep_ok [OF assms(1,2)] assms(3) by simp
qed

lemma gzRun_ok:
  assumes "gzip_resets A" "gzRun A s"
  shows "gz_ok A s"
  using assms(2)
proof induction
  case gz_init
  show ?case by (simp add: gz_ok_def initGz_def)
next
  case gz_step
  then show ?case by (blast intro: gzAction_ok [OF assms(1)])
qed

section \<open>What the calls return\<close>

fun gzActions :: "('w, 'r) gzipLib \<Rightarrow> gzAct list \<Rightarrow> ('w, 'r) gzState \<Rightarrow> ('w, 'r) gzState option" where
  "gzActions A [] s = Some s"
| "gzActions A (a # as) s = Option.bind (gzAction A a s) (gzActions A as)"

lemma gzRun_actions: "gzRun A t \<Longrightarrow> gzActions A bs t = Some t' \<Longrightarrow> gzRun A t'"
  by (induction bs arbitrary: t) (auto simp: bind_eq_Some_conv intro: gz_step)

text \<open>A buffer that is nobody's to write keeps its bytes: only new ones are written.\<close>

definition unwritten :: "nat \<Rightarrow> ('w, 'r) gzState \<Rightarrow> bool" where
  "unwritten a s \<longleftrightarrow> a < length (gs_buffers s) \<and> (\<forall>g. writing (gs_go s g) \<noteq> Some a)"

lemma unwritten_step:
  assumes "gzip_resets A" "gz_ok A s" "unwritten a s" "gzAction A act s = Some s'"
  shows "unwritten a s' \<and> gs_buffers s' ! a = gs_buffers s ! a"
proof (cases act)
  case (CompressStep g i)
  have w: "writing (gs_go s g) \<noteq> Some a" "a < length (gs_buffers s)" using assms(3) by (auto simp: unwritten_def)
  then show ?thesis
    using assms(3,4) CompressStep
    by (cases "gs_go s g") (auto simp: compressStep_def unwritten_def nth_append split: prod.splits if_splits)
next
  case (DecompressStep g i)
  have b: "gs_buffers s' = gs_buffers s" using decompressStep_ok [OF assms(1,2)] assms(4) DecompressStep by simp
  show ?thesis
    using assms(3,4) DecompressStep b
    by (cases "gs_go s g") (auto simp: decompressStep_def unwritten_def split: prod.splits if_splits)
qed (use assms(3,4) in \<open>auto simp: unwritten_def split: if_splits\<close>)

lemma unwritten_steps:
  assumes "gzip_resets A" "gz_ok A s" "unwritten a s" "gzActions A as s = Some s'"
  shows "gs_buffers s' ! a = gs_buffers s ! a"
  using assms(2-)
proof (induction as arbitrary: s)
  case (Cons act as)
  obtain s1 where s1: "gzAction A act s = Some s1" "gzActions A as s1 = Some s'" using Cons.prems(3) by (auto simp: bind_eq_Some_conv)
  note u = unwritten_step [OF assms(1) Cons.prems(1,2) s1(1)]
  show ?case using Cons.IH [OF gzAction_ok [OF assms(1) Cons.prems(1) s1(1)] _ s1(2)] u by simp
qed simp

lemma returned_unwritten:
  assumes "gz_ok A s" "gs_go s g = GotBuffer p a"
  shows "unwritten a s"
proof -
  have o: "owned (gs_go s g) = Some a" using assms(2) by simp
  then have "a < length (gs_buffers s)" "\<And>h. writing (gs_go s h) = Some a \<Longrightarrow> g = h" using assms(1) unfolding gz_ok_def by blast+
  moreover have "writing (gs_go s g) \<noteq> Some a" using assms(2) by simp
  ultimately show ?thesis unfolding unwritten_def by blast
qed


section \<open>The codec of the parser\<close>

text \<open>The encoders hand on what \<open>gob\<close> and \<open>json\<close> do, as bytes or an error.\<close>

record 'a valueLib =
  vl_encode :: "'a \<Rightarrow> bytes option"
  vl_decode :: "bytes \<Rightarrow> 'a option"

definition GobEncode :: "'a valueLib \<Rightarrow> 'a \<Rightarrow> bytes res" where
  "GobEncode V x = (case vl_encode V x of None \<Rightarrow> Fail LibError | Some b \<Rightarrow> Ok b)"

definition GobDecode :: "'a valueLib \<Rightarrow> bytes \<Rightarrow> 'a res" where
  "GobDecode V b = (case vl_decode V b of None \<Rightarrow> Fail LibError | Some x \<Rightarrow> Ok x)"

definition JsonEncode :: "'a valueLib \<Rightarrow> 'a \<Rightarrow> bytes res" where
  "JsonEncode V x = (case vl_encode V x of None \<Rightarrow> Fail LibError | Some b \<Rightarrow> Ok b)"

definition JsonDecode :: "'a valueLib \<Rightarrow> bytes \<Rightarrow> 'a res" where
  "JsonDecode V b = (case vl_decode V b of None \<Rightarrow> Fail LibError | Some x \<Rightarrow> Ok x)"

definition ofGo :: "goBytes \<Rightarrow> bytes option" where
  "ofGo r = (case r of (b, None) \<Rightarrow> Some b | _ \<Rightarrow> None)"

definition gzipCodec :: "('w, 'r) gzipLib \<Rightarrow> Req valueLib \<Rightarrow> Resp valueLib \<Rightarrow> codec \<Rightarrow> codec" where
  "gzipCodec A VQ VS K = K\<lparr>
     enc_Req := (\<lambda>x. case GobEncode VQ x of Ok b \<Rightarrow> Some b | _ \<Rightarrow> None),
     dec_Req := (\<lambda>b. case GobDecode VQ b of Ok x \<Rightarrow> Some x | _ \<Rightarrow> None),
     enc_Resp := (\<lambda>x. case GobEncode VS x of Ok b \<Rightarrow> Some b | _ \<Rightarrow> None),
     dec_Resp := (\<lambda>b. case GobDecode VS b of Ok x \<Rightarrow> Some x | _ \<Rightarrow> None),
     compress := (\<lambda>x. ofGo (Compress A x)), decompress := (\<lambda>x. ofGo (DeCompress A x))\<rparr>"

definition gzip_lib :: "('w, 'r) gzipLib \<Rightarrow> bool" where
  "gzip_lib A \<longleftrightarrow> gzip_resets A \<and> (\<forall>p b. Compress A p = (b, None) \<longrightarrow> DeCompress A b = (p, None))"

definition value_lib :: "'a valueLib \<Rightarrow> bool" where
  "value_lib V \<longleftrightarrow> (\<forall>x b. vl_encode V x = Some b \<longrightarrow> vl_decode V b = Some x)"

text \<open>The laws of the codec that the parser, and with it the secure connection, relies on.\<close>

lemma gzipCodec_ok:
  assumes "gzip_lib A" "value_lib VQ" "value_lib VS" "codec_ok K"
  shows "codec_ok (gzipCodec A VQ VS K)"
  using assms
  by (auto simp: codec_ok_def gzipCodec_def gzip_lib_def value_lib_def ofGo_def GobEncode_def GobDecode_def
      split: option.splits prod.splits)

text \<open>What a goroutine compressed with a pooled writer, any goroutine decompresses with a pooled reader, after
  whatever else happened in between.\<close>

theorem pooled_roundtrip:
  assumes "gzip_lib A" "gzRun A s" "gs_go s g = GotBuffer p a" "gzActions A as s = Some s'"
    "gs_go s' h = GotData (gs_buffers s' ! a) res"
  shows "res = (p, None)"
proof -
  have r: "gzip_resets A" using assms(1) by (simp add: gzip_lib_def)
  have "goOk A (gs_buffers s') (gs_go s' h)" "goOk A (gs_buffers s) (gs_go s g)"
    using gzRun_ok [OF r gzRun_actions [OF assms(2,4)]] gzRun_ok [OF r assms(2)] by (simp_all add: gz_ok_def)
  then have d: "DeCompress A (gs_buffers s' ! a) = res" and c: "Compress A p = (gs_buffers s ! a, None)" using assms(3,5) by simp_all
  note ok = gzRun_ok [OF r assms(2)]
  have "gs_buffers s' ! a = gs_buffers s ! a"
    by (rule unwritten_steps [OF r ok returned_unwritten [OF ok assms(3)] assms(4)])
  then show ?thesis using c d assms(1) by (simp add: gzip_lib_def)
qed

text \<open>Witnesses: a library that appends a byte when a writer is closed.\<close>

definition exGzip :: "(unit, bytes) gzipLib" where
  "exGzip = \<lparr>gz_newWriter = (), gz_resetWriter = (\<lambda>_. ()), gz_write = (\<lambda>p _. (True, p, ())), gz_closeWriter = (\<lambda>_. (True, [255], ())),
     gz_newReader = [], gz_resetReader = (\<lambda>x _. (x \<noteq> [], butlast x)), gz_readAll = (\<lambda>r. (True, r, [])), gz_closeReader = (\<lambda>r. (True, r))\<rparr>"

lemma exGzip_lib: "gzip_lib exGzip"
  by (auto simp: gzip_lib_def gzip_resets_def Compress_def DeCompress_def compressWith_def decompressWith_def exGzip_def)

abbreviation exCompress :: "gzAct list" where
  "exCompress \<equiv> [StartCompress 1 [7], CompressStep 1 0, CompressStep 1 0, CompressStep 1 0, CompressStep 1 0, CompressStep 1 0]"

abbreviation exOther :: "gzAct list" where
  "exOther \<equiv> [StartCompress 1 [8], StartDecompress 2 [7, 255], CompressStep 1 0, DecompressStep 2 0, CompressStep 1 0, CompressStep 1 0,
     DecompressStep 2 0, DecompressStep 2 0, DecompressStep 2 0, DecompressStep 2 0]"

lemmas gz_run_simps = initGz_def compressStep_def decompressStep_def gzGoTo_def fromPool_def appendBuffer_def removeNth_def exGzip_def

lemma exGzip_runs:
  "\<exists>s s'. gzActions exGzip exCompress initGz = Some s \<and> gs_go s 1 = GotBuffer [7] 0 \<and>
     gzActions exGzip exOther s = Some s' \<and> gs_buffers s' ! 0 = [7, 255] \<and> gs_go s' 2 = GotData [7, 255] ([7], None)"
  by (simp add: gz_run_simps)


lemma pooled_roundtrip_witness:
  "\<exists>s res. gzRun exGzip s \<and> gs_go s 2 = GotData [7, 255] res \<and> res = ([7], None)"
proof -
  obtain s s' where s: "gzActions exGzip exCompress initGz = Some s" "gs_go s 1 = GotBuffer [7] 0"
      "gzActions exGzip exOther s = Some s'" "gs_buffers s' ! 0 = [7, 255]" "gs_go s' 2 = GotData [7, 255] ([7], None)"
    using exGzip_runs by blast
  have run: "gzRun exGzip s" by (rule gzRun_actions [OF gz_init s(1)])
  have "gs_go s' 2 = GotData (gs_buffers s' ! 0) ([7], None)" using s(4,5) by simp
  from pooled_roundtrip [OF exGzip_lib run s(2,3) this] gzRun_actions [OF run s(3)] s(5) show ?thesis by blast
qed

end
