(* ===== verification/Console.thy ===== *)
theory Console
  imports Client
begin

text \<open>
  The main program of the command line client (\<open>main\<close> of \<open>ws_client.go\<close>) and the check \<open>UnBuild\<close> of its builder:
  the goroutine that prints what arrives and the loop that reads lines and sends them, as two processes that
  share the websocket and the channel \<open>done\<close>.  What is typed, what arrives, and whether a write succeeds
  are labels of the steps.
\<close>

section \<open>State\<close>

definition TextMessage :: nat where "TextMessage = 1"
definition BinaryMessage :: nat where "BinaryMessage = 2"
definition CloseMessage :: nat where "CloseMessage = 8"
definition PingMessage :: nat where "PingMessage = 9"
definition PongMessage :: nat where "PongMessage = 10"

datatype stopReason = ConnectionClosed | NoInput | ExitTyped | MarshalFailed | WriteFailed | Crashed string

text \<open>The loop is about to look at \<open>done\<close>, waits for a line, or the program has ended.\<close>

datatype mainAt = Selecting | Scanning | Stopped stopReason

record console =
  co_main :: mainAt
  co_reading :: bool
  co_builder :: Builder
  co_sent :: "(nat \<times> bytes) list"
  co_printed :: "(string \<times> string) list"

definition initConsole :: "ClientConfig \<Rightarrow> console" where
  "initConsole cfg =
     \<lparr>co_main = Selecting, co_reading = True,
      co_builder = NewBuilder (cc_SendID cfg) (cc_ReceiveID cfg) (cc_SenderNickname cfg), co_sent = [], co_printed = []\<rparr>"

text \<open>\<open>done\<close> is closed when the reading goroutine returns.\<close>

definition done_closed :: "console \<Rightarrow> bool" where
  "done_closed s \<longleftrightarrow> \<not> co_reading s"

section \<open>The two processes\<close>

text \<open>What a line needs besides itself: the push information, the random identifier, and the clock.\<close>

record lineEnv =
  le_info :: bytes
  le_draws :: "nat option list"
  le_uuid :: string
  le_now :: int

datatype label =
    Look
  | Scan "string option" lineEnv bool
  | Receive "(nat \<times> bytes) res" bool

definition stop :: "stopReason \<Rightarrow> console \<Rightarrow> console" where
  "stop r s = s\<lparr>co_main := Stopped r\<rparr>"

definition mainLook :: "console \<Rightarrow> console option" where
  "mainLook s =
     (if co_main s \<noteq> Selecting then None
      else if done_closed s then Some (stop ConnectionClosed s) else Some (s\<lparr>co_main := Scanning\<rparr>))"

definition mainScan :: "codec \<Rightarrow> bytes \<Rightarrow> string option \<Rightarrow> lineEnv \<Rightarrow> bool \<Rightarrow> console \<Rightarrow> console option" where
  "mainScan K closeMsg input e ok s =
     (if co_main s \<noteq> Scanning then None
      else case input of
        None \<Rightarrow> Some (stop NoInput s)
      | Some line \<Rightarrow>
          if line = ''exit'' then Some (stop ExitTyped (if ok then s\<lparr>co_sent := co_sent s @ [(CloseMessage, closeMsg)]\<rparr> else s))
          else case sendInput K (le_info e) (le_draws e) (le_uuid e) (le_now e) line (co_builder s) of
            None \<Rightarrow> Some (stop MarshalFailed s)
          | Some (fr, b) \<Rightarrow>
              if ok then Some (s\<lparr>co_main := Selecting, co_builder := b, co_sent := co_sent s @ [(BinaryMessage, fr)]\<rparr>)
              else Some (stop WriteFailed (s\<lparr>co_builder := b\<rparr>)))"

definition readerStep :: "codec \<Rightarrow> (bytes \<Rightarrow> string option) \<Rightarrow> (nat \<times> bytes) res \<Rightarrow> bool \<Rightarrow> console \<Rightarrow> console option" where
  "readerStep K json incoming ok s =
     (if \<not> co_reading s \<or> (\<exists>r. co_main s = Stopped r) then None
      else case incoming of
        Panic p \<Rightarrow> Some (stop (Crashed p) s)
      | Fail _ \<Rightarrow> Some (s\<lparr>co_reading := False\<rparr>)
      | Ok (msgType, msg) \<Rightarrow>
          if msgType = BinaryMessage then
            (case parseMsg K json msg of
               Panic p \<Rightarrow> Some (stop (Crashed p) s)
             | Fail _ \<Rightarrow> Some s
             | Ok (conversationIds, contentList) \<Rightarrow> Some (s\<lparr>co_printed := co_printed s @ zip conversationIds contentList\<rparr>))
          else if msgType = PingMessage then
            (if ok then Some (s\<lparr>co_sent := co_sent s @ [(PongMessage, [])]\<rparr>) else Some (s\<lparr>co_reading := False\<rparr>))
          else if msgType = CloseMessage then Some (s\<lparr>co_reading := False\<rparr>)
          else Some s)"

fun consoleStep :: "codec \<Rightarrow> (bytes \<Rightarrow> string option) \<Rightarrow> bytes \<Rightarrow> label \<Rightarrow> console \<Rightarrow> console option" where
  "consoleStep K json closeMsg Look s = mainLook s"
| "consoleStep K json closeMsg (Scan input e ok) s = mainScan K closeMsg input e ok s"
| "consoleStep K json closeMsg (Receive incoming ok) s = readerStep K json incoming ok s"

fun runConsole :: "codec \<Rightarrow> (bytes \<Rightarrow> string option) \<Rightarrow> bytes \<Rightarrow> label list \<Rightarrow> console \<Rightarrow> console option" where
  "runConsole K json closeMsg [] s = Some s"
| "runConsole K json closeMsg (l # ls) s = Option.bind (consoleStep K json closeMsg l s) (runConsole K json closeMsg ls)"

section \<open>The check of the builder\<close>

text \<open>A frame that cannot be decompressed is only reported; decoding then gets no bytes.\<close>

definition UnBuild :: "codec \<Rightarrow> bytes \<Rightarrow> Builder \<Rightarrow> unit res" where
  "UnBuild K compressData b =
     (let encodeData = (case decompress K compressData of None \<Rightarrow> [] | Some d \<Rightarrow> d) in
      case dec_Req K encodeData of
        None \<Rightarrow> Fail LibError
      | Some req \<Rightarrow>
          (case bd_req b of
             None \<Rightarrow> Panic ''nil pointer dereference''
           | Some r \<Rightarrow> if req = r then Ok () else Fail LibError))"

lemma unbuild_build:
  assumes "codec_ok K" "bd_req b = Some r" "enc_Req K r = Some d" "compress K d = Some x"
  shows "Build K b = x \<and> UnBuild K (Build K b) b = Ok ()"
  using codec_okD(3) [OF assms(1,3)] codec_okD(5) [OF assms(1,4)] assms(2-)
  by (simp add: Build_def UnBuild_def Let_def)

section \<open>What is sent\<close>

text \<open>The lines that a run took to send, and the frames that carry them, in order.\<close>

definition scanned :: "label list \<Rightarrow> string list" where
  "scanned ls = List.map_filter (\<lambda>l. case l of Scan (Some line) e True \<Rightarrow> (if line = ''exit'' then None else Some line) | _ \<Rightarrow> None) ls"

text \<open>The frame of a line, from a builder that keeps its names.\<close>

definition frameOf :: "codec \<Rightarrow> Builder \<Rightarrow> string \<Rightarrow> bytes \<Rightarrow> bool" where
  "frameOf K b line fr \<longleftrightarrow>
     (\<exists>b0 (e :: lineEnv) b1. bd_sendID b0 = bd_sendID b \<and> bd_recvID b0 = bd_recvID b \<and>
        sendInput K (le_info e) (le_draws e) (le_uuid e) (le_now e) line b0 = Some (fr, b1))"

definition frames :: "console \<Rightarrow> bytes list" where
  "frames s = map snd (filter (\<lambda>f. fst f = BinaryMessage) (co_sent s))"

lemma sendInput_keeps:
  "sendInput K info draws uuid now line b = Some (fr, b') \<Longrightarrow> bd_sendID b' = bd_sendID b \<and> bd_recvID b' = bd_recvID b"
  by (auto simp: sendInput_def builder_MsgData_def builder_Req_def OfflinePushInfo_def Let_def split: option.splits)

lemma message_types [simp]:
  "CloseMessage \<noteq> BinaryMessage" "PongMessage \<noteq> BinaryMessage" "PingMessage \<noteq> BinaryMessage"
  by (simp_all add: CloseMessage_def BinaryMessage_def PongMessage_def PingMessage_def)

lemma scanned_simps [simp]:
  "scanned [] = []" "scanned [Look] = []" "scanned [Receive incoming ok] = []" "scanned [Scan None e ok] = []"
  "scanned [Scan (Some line) e ok] = (if ok \<and> line \<noteq> ''exit'' then [line] else [])"
  by (cases ok; simp add: scanned_def List.map_filter_def)+

lemma mainScan_cases:
  assumes "mainScan K closeMsg input e ok s = Some s1"
  obtains "input = None" "s1 = stop NoInput s"
  | "input = Some ''exit''" "s1 = stop ExitTyped (if ok then s\<lparr>co_sent := co_sent s @ [(CloseMessage, closeMsg)]\<rparr> else s)"
  | line where "input = Some line" "line \<noteq> ''exit''" "s1 = stop MarshalFailed s"
  | line fr b where "input = Some line" "line \<noteq> ''exit''"
      "sendInput K (le_info e) (le_draws e) (le_uuid e) (le_now e) line (co_builder s) = Some (fr, b)" "ok"
      "s1 = s\<lparr>co_main := Selecting, co_builder := b, co_sent := co_sent s @ [(BinaryMessage, fr)]\<rparr>"
  | line fr b where "input = Some line" "line \<noteq> ''exit''"
      "sendInput K (le_info e) (le_draws e) (le_uuid e) (le_now e) line (co_builder s) = Some (fr, b)" "\<not> ok"
      "s1 = stop WriteFailed (s\<lparr>co_builder := b\<rparr>)"
proof (cases input)
  case None
  then show ?thesis using assms that(1) by (simp add: mainScan_def split: if_splits)
next
  case (Some line)
  show ?thesis
  proof (cases "line = ''exit''")
    case True
    then show ?thesis using assms Some that(2) by (simp only: mainScan_def) (simp split: if_splits)
  next
    case False
    let ?r = "sendInput K (le_info e) (le_draws e) (le_uuid e) (le_now e) line (co_builder s)"
    show ?thesis
    proof (cases ?r)
      case None
      then show ?thesis using assms Some False that(3) by (simp add: mainScan_def split: if_splits)
    next
      case (Some p)
      then show ?thesis using assms \<open>input = Some line\<close> False that(4,5)
        by (cases p; cases ok) (simp_all add: mainScan_def split: if_splits)
    qed
  qed
qed

lemma scanned_Cons: "scanned (l # ls) = scanned [l] @ scanned ls"
  by (simp add: scanned_def List.map_filter_def)

lemma frameOf_cong: "bd_sendID b' = bd_sendID b \<Longrightarrow> bd_recvID b' = bd_recvID b \<Longrightarrow> frameOf K b' = frameOf K b"
  unfolding frameOf_def by (intro ext) (simp only:)

lemma stopped_final: "co_main s = Stopped r \<Longrightarrow> runConsole K json closeMsg ls s = Some s' \<Longrightarrow> ls = [] \<and> s' = s"
  by (cases ls; cases "hd ls") (auto simp: mainLook_def mainScan_def readerStep_def)

lemma console_step_sends:
  assumes "consoleStep K json closeMsg l s = Some s1" "co_main s1 \<noteq> Stopped MarshalFailed"
  shows "\<exists>fs. frames s1 = frames s @ fs \<and> list_all2 (frameOf K (co_builder s)) (scanned [l]) fs \<and>
    bd_sendID (co_builder s1) = bd_sendID (co_builder s) \<and> bd_recvID (co_builder s1) = bd_recvID (co_builder s)"
proof (cases l)
  case Look
  then show ?thesis
    using assms(1) by (auto simp: mainLook_def stop_def frames_def split: if_splits)
next
  case (Receive incoming ok)
  then show ?thesis
    using assms(1)
    by (auto simp: readerStep_def stop_def frames_def split: if_splits res.splits prod.splits)
next
  case (Scan input e ok)
  from assms(1) Scan have m: "mainScan K closeMsg input e ok s = Some s1" by simp
  show ?thesis
  proof (rule mainScan_cases [OF m])
    fix line fr b
    assume t: "input = Some line" "line \<noteq> ''exit''" "ok" "s1 = s\<lparr>co_main := Selecting, co_builder := b, co_sent := co_sent s @ [(BinaryMessage, fr)]\<rparr>"
      "sendInput K (le_info e) (le_draws e) (le_uuid e) (le_now e) line (co_builder s) = Some (fr, b)"
    have "frameOf K (co_builder s) line fr" unfolding frameOf_def using t(5) by blast
    then show ?thesis using t sendInput_keeps [OF t(5)] by (simp add: Scan frames_def)
  next
    fix line fr b
    assume t: "input = Some line" "line \<noteq> ''exit''" "\<not> ok" "s1 = stop WriteFailed (s\<lparr>co_builder := b\<rparr>)"
      "sendInput K (le_info e) (le_draws e) (le_uuid e) (le_now e) line (co_builder s) = Some (fr, b)"
    then show ?thesis using sendInput_keeps [OF t(5)] by (simp add: Scan frames_def stop_def)
  qed (use assms(2) in \<open>simp_all add: Scan frames_def stop_def\<close>)
qed

text \<open>As long as the message of a line can be marshalled, the frames the client has sent are those of the lines it
  took, one for each, in the order they were typed, whatever arrives in between.\<close>

theorem typed_lines_sent:
  assumes "runConsole K json closeMsg ls s = Some s'" "co_main s' \<noteq> Stopped MarshalFailed"
  shows "\<exists>fs. frames s' = frames s @ fs \<and> list_all2 (frameOf K (co_builder s)) (scanned ls) fs"
  using assms
proof (induction ls arbitrary: s)
  case Nil
  then show ?case by simp
next
  case (Cons l ls)
  obtain s1 where s1: "consoleStep K json closeMsg l s = Some s1" "runConsole K json closeMsg ls s1 = Some s'"
    using Cons.prems(1) by (auto simp: bind_eq_Some_conv)
  have "co_main s1 \<noteq> Stopped MarshalFailed" using stopped_final [OF _ s1(2)] Cons.prems(2) by blast
  from console_step_sends [OF s1(1) this] obtain fs where fs: "frames s1 = frames s @ fs"
      "list_all2 (frameOf K (co_builder s)) (scanned [l]) fs" "frameOf K (co_builder s1) = frameOf K (co_builder s)"
    using frameOf_cong by blast
  obtain gs where "frames s' = frames s1 @ gs" "list_all2 (frameOf K (co_builder s)) (scanned ls) gs"
    using Cons.IH [OF s1(2) Cons.prems(2)] fs(3) by auto
  then show ?case using fs(1,2) by (auto simp: scanned_Cons [of l ls] intro: list_all2_appendI)
qed

text \<open>A client that waits for a line does not notice that its connection has ended: nothing but a line, or the end of
  the input, lets the loop go on, and the line is still sent to the connection before \<open>done\<close> is looked at.\<close>

theorem ended_connection_unnoticed:
  assumes "co_main s = Scanning" "runConsole K json closeMsg ls (s\<lparr>co_reading := False\<rparr>) = Some s'" "ls \<noteq> []"
  shows "\<exists>input e ok rest. ls = Scan input e ok # rest \<and>
    ((\<exists>r. co_main s' = Stopped r) \<or> (rest = [] \<and> (\<exists>line b fr. input = Some line \<and> ok \<and>
       sendInput K (le_info e) (le_draws e) (le_uuid e) (le_now e) line (co_builder s) = Some (fr, b) \<and>
       co_sent s' = co_sent s @ [(BinaryMessage, fr)])))"
proof -
  obtain l rest where ls: "ls = l # rest" using assms(3) by (cases ls) auto
  then obtain s1 where s1: "consoleStep K json closeMsg l (s\<lparr>co_reading := False\<rparr>) = Some s1" "runConsole K json closeMsg rest s1 = Some s'"
    using assms(2) by (auto simp: bind_eq_Some_conv)
  obtain input e ok where l: "l = Scan input e ok"
    using s1(1) assms(1) by (cases l) (auto simp: mainLook_def readerStep_def)
  have c: "(\<exists>r. co_main s1 = Stopped r) \<or> (co_main s1 = Selecting \<and> \<not> co_reading s1 \<and> (\<exists>line b fr. input = Some line \<and> ok \<and>
       sendInput K (le_info e) (le_draws e) (le_uuid e) (le_now e) line (co_builder s) = Some (fr, b) \<and>
       co_sent s1 = co_sent s @ [(BinaryMessage, fr)]))"
  proof -
    have m: "mainScan K closeMsg input e ok (s\<lparr>co_reading := False\<rparr>) = Some s1" using s1(1) l by simp
    show ?thesis
    proof (rule mainScan_cases [OF m])
      fix line fr b
      assume t: "input = Some line" "ok" "sendInput K (le_info e) (le_draws e) (le_uuid e) (le_now e) line (co_builder (s\<lparr>co_reading := False\<rparr>)) = Some (fr, b)"
        "s1 = s\<lparr>co_reading := False, co_main := Selecting, co_builder := b, co_sent := co_sent (s\<lparr>co_reading := False\<rparr>) @ [(BinaryMessage, fr)]\<rparr>"
      have "co_main s1 = Selecting" "\<not> co_reading s1" "co_sent s1 = co_sent s @ [(BinaryMessage, fr)]"
        "sendInput K (le_info e) (le_draws e) (le_uuid e) (le_now e) line (co_builder s) = Some (fr, b)"
        using t(3,4) by simp_all
      then show ?thesis using t(1,2) by blast
    qed (simp_all add: stop_def)
  qed
  show ?thesis
  proof (cases "\<exists>r. co_main s1 = Stopped r")
    case True
    then obtain r where "co_main s1 = Stopped r" by blast
    moreover from stopped_final [OF this s1(2)] have "s' = s1" by simp
    ultimately show ?thesis using ls l by simp
  next
    case False
    then have sel: "co_main s1 = Selecting" "\<not> co_reading s1" using c by simp_all
    show ?thesis
    proof (cases rest)
      case Nil
      then show ?thesis using c False s1(2) ls l by auto
    next
      case (Cons l2 rest2)
      then have "runConsole K json closeMsg rest2 (stop ConnectionClosed s1) = Some s'"
        using s1(2) sel
        by (cases l2) (auto simp: bind_eq_Some_conv mainLook_def mainScan_def readerStep_def done_closed_def split: if_splits)
      moreover have "co_main (stop ConnectionClosed s1) = Stopped ConnectionClosed" by (simp add: stop_def)
      ultimately have "co_main s' = Stopped ConnectionClosed" using stopped_final by metis
      then show ?thesis using ls l by simp
    qed
  qed
qed

section \<open>Example\<close>

definition exLine :: lineEnv where
  "exLine = \<lparr>le_info = [], le_draws = [], le_uuid = ''u'', le_now = 0\<rparr>"

abbreviation exScanning :: console where
  "exScanning \<equiv> \<lparr>co_main = Scanning, co_reading = True, co_builder = exBuilder, co_sent = [], co_printed = []\<rparr>"

lemma exLine_sent: "\<exists>b. sendInput exClientCodec (le_info exLine) (le_draws exLine) (le_uuid exLine) (le_now exLine) ''hi'' exBuilder = Some ([0], b)"
  using sendInput_frame [OF exClientCodec_simps(3,4,2)] by (simp add: exLine_def)

lemma typed_lines_sent_witness:
  "\<exists>s. runConsole exClientCodec exJson [] [Receive (Ok (1, [])) True, Scan (Some ''hi'') exLine True, Receive (Fail LibError) True, Look] exScanning = Some s \<and>
     length (frames s) = 1 \<and> co_main s = Stopped ConnectionClosed"
proof -
  let ?ls = "[Receive (Ok (1, [])) True, Scan (Some ''hi'') exLine True, Receive (Fail LibError) True, Look]"
  obtain b where b: "sendInput exClientCodec (le_info exLine) (le_draws exLine) (le_uuid exLine) (le_now exLine) ''hi'' exBuilder = Some ([0], b)"
    using exLine_sent by blast
  obtain s where s: "runConsole exClientCodec exJson [] ?ls exScanning = Some s" "co_main s = Stopped ConnectionClosed"
    using b by (simp add: readerStep_def mainScan_def mainLook_def done_closed_def stop_def BinaryMessage_def PingMessage_def CloseMessage_def)
  have "co_main s \<noteq> Stopped MarshalFailed" using s(2) by simp
  from typed_lines_sent [OF s(1) this] have "length (frames s) = length (frames exScanning) + 1"
    by (auto simp: scanned_Cons [of _ "_ # _"] dest: list_all2_lengthD)
  then show ?thesis using s by (auto simp: frames_def)
qed

lemma ended_connection_unnoticed_witness:
  "\<exists>s. runConsole exClientCodec exJson [] [Scan (Some ''hi'') exLine True] (exScanning\<lparr>co_reading := False\<rparr>) = Some s \<and>
     co_sent s = [(BinaryMessage, [0])]"
proof -
  obtain b where b: "sendInput exClientCodec (le_info exLine) (le_draws exLine) (le_uuid exLine) (le_now exLine) ''hi'' exBuilder = Some ([0], b)"
    using exLine_sent by blast
  obtain s where s: "runConsole exClientCodec exJson [] [Scan (Some ''hi'') exLine True] (exScanning\<lparr>co_reading := False\<rparr>) = Some s" "co_main s = Selecting"
    using b by (simp add: mainScan_def)
  have "co_main exScanning = Scanning" by simp
  from ended_connection_unnoticed [OF this s(1)] s b show ?thesis by auto
qed

end
