(* ===== verification/RelayServer.thy ===== *)
theory RelayServer
  imports Relay
begin

text \<open>
  The life of the relay server of \<open>e2ewebsocket/mock_server.go\<close>: every accepted websocket has a handler that
  registers it, forwards what it reads, and removes the registration when a read fails.  Handlers run
  side by side; the map of registrations is locked for single steps, the websockets are not.
\<close>

section \<open>State and steps\<close>

text \<open>Where a handler is: reading, with a frame for another websocket in its hands, writing it, or returned.\<close>

datatype relayGo = RelayReading | RelayTarget nat bytes | RelayWriting nat bytes | RelayEnded

record relayServer =
  rv_conns :: relayConns
  rv_uids :: "string list"
  rv_go :: "relayGo list"
  rv_out :: "(nat \<times> bytes) list"
  rv_crashed :: bool

definition newMockServer :: relayServer where
  "newMockServer = \<lparr>rv_conns = Map.empty, rv_uids = [], rv_go = [], rv_out = [], rv_crashed = False\<rparr>"

definition relayAccept :: "string \<Rightarrow> relayServer \<Rightarrow> relayServer" where
  "relayAccept uid s = s\<lparr>rv_conns := relayRegister uid (length (rv_go s)) (rv_conns s), rv_uids := rv_uids s @ [uid],
     rv_go := rv_go s @ [RelayReading]\<rparr>"

text \<open>A frame is read, decoded and wrapped, and its receiver looked up.\<close>

definition relayRead :: "codec \<Rightarrow> nat \<Rightarrow> bytes \<Rightarrow> relayServer \<Rightarrow> relayServer" where
  "relayRead K w msg s =
     (case relayFrame K (rv_conns s) msg of
        [] \<Rightarrow> s
      | (t, out) # _ \<Rightarrow> s\<lparr>rv_go := (rv_go s)[w := RelayTarget t out]\<rparr>)"

definition beingWritten :: "nat \<Rightarrow> relayServer \<Rightarrow> bool" where
  "beingWritten t s \<longleftrightarrow> list_ex (\<lambda>pc. case pc of RelayWriting t' _ \<Rightarrow> t' = t | _ \<Rightarrow> False) (rv_go s)"

text \<open>The library panics when two goroutines write to a websocket at once.  The result of a write is ignored.\<close>

definition relayBegin :: "nat \<Rightarrow> nat \<Rightarrow> bytes \<Rightarrow> relayServer \<Rightarrow> relayServer" where
  "relayBegin w t out s =
     (if beingWritten t s then s\<lparr>rv_crashed := True\<rparr>
      else s\<lparr>rv_go := (rv_go s)[w := RelayWriting t out]\<rparr>)"

definition relayEnd :: "nat \<Rightarrow> nat \<Rightarrow> bytes \<Rightarrow> bool \<Rightarrow> relayServer \<Rightarrow> relayServer" where
  "relayEnd w t out ok s =
     s\<lparr>rv_go := (rv_go s)[w := RelayReading], rv_out := (if ok then rv_out s @ [(t, out)] else rv_out s)\<rparr>"

text \<open>A failed read ends the handler, whose deferred function removes the registration.\<close>

definition relayLeave :: "nat \<Rightarrow> relayServer \<Rightarrow> relayServer" where
  "relayLeave w s = s\<lparr>rv_conns := relayRemove (rv_uids s ! w) (rv_conns s), rv_go := (rv_go s)[w := RelayEnded]\<rparr>"

datatype relayAct = Accept string | ReadFrame nat bytes | ReadFails nat | Forward nat bool

definition relayStep :: "codec \<Rightarrow> relayAct \<Rightarrow> relayServer \<Rightarrow> relayServer option" where
  "relayStep K a s =
     (if rv_crashed s then None
      else case a of
        Accept uid \<Rightarrow> Some (relayAccept uid s)
      | ReadFrame w msg \<Rightarrow> if w < length (rv_go s) \<and> rv_go s ! w = RelayReading then Some (relayRead K w msg s) else None
      | ReadFails w \<Rightarrow> if w < length (rv_go s) \<and> rv_go s ! w = RelayReading then Some (relayLeave w s) else None
      | Forward w ok \<Rightarrow>
          if w < length (rv_go s) then
            (case rv_go s ! w of
               RelayTarget t out \<Rightarrow> Some (relayBegin w t out s)
             | RelayWriting t out \<Rightarrow> Some (relayEnd w t out ok s)
             | _ \<Rightarrow> None)
          else None)"

fun relaySteps :: "codec \<Rightarrow> relayAct list \<Rightarrow> relayServer \<Rightarrow> relayServer option" where
  "relaySteps K [] s = Some s"
| "relaySteps K (a # as) s = Option.bind (relayStep K a s) (relaySteps K as)"

section \<open>Invariant\<close>

text \<open>A registration names a websocket that was accepted for this user and whose handler still runs, and no
  websocket is written by two handlers.\<close>

definition relay_ok :: "relayServer \<Rightarrow> bool" where
  "relay_ok s \<longleftrightarrow> length (rv_uids s) = length (rv_go s) \<and>
     (\<forall>uid w. rv_conns s uid = Some w \<longrightarrow> uid \<noteq> [] \<and> w < length (rv_go s) \<and> rv_uids s ! w = uid \<and> rv_go s ! w \<noteq> RelayEnded) \<and>
     (\<forall>w1 w2 t o1 o2. w1 < length (rv_go s) \<longrightarrow> w2 < length (rv_go s) \<longrightarrow>
        rv_go s ! w1 = RelayWriting t o1 \<longrightarrow> rv_go s ! w2 = RelayWriting t o2 \<longrightarrow> w1 = w2)"

lemma beingWritten_iff: "beingWritten t s \<longleftrightarrow> (\<exists>w<length (rv_go s). \<exists>out. rv_go s ! w = RelayWriting t out)"
proof -
  have "(case pc of RelayWriting t' _ \<Rightarrow> t' = t | _ \<Rightarrow> False) \<longleftrightarrow> (\<exists>out. pc = RelayWriting t out)" for pc
    by (cases pc) auto
  then show ?thesis by (simp add: beingWritten_def list_ex_length)
qed

lemma relaySteps_append: "relaySteps K (as @ bs) s = Option.bind (relaySteps K as s) (relaySteps K bs)"
  by (induction as arbitrary: s) (simp_all split: Option.bind_split)

lemma relay_okD:
  assumes "relay_ok s"
  shows "length (rv_uids s) = length (rv_go s)" "rv_conns s uid = Some w \<Longrightarrow> uid \<noteq> []" "rv_conns s uid = Some w \<Longrightarrow> w < length (rv_go s)"
    "rv_conns s uid = Some w \<Longrightarrow> rv_uids s ! w = uid" "rv_conns s uid = Some w \<Longrightarrow> rv_go s ! w \<noteq> RelayEnded"
    "w1 < length (rv_go s) \<Longrightarrow> w2 < length (rv_go s) \<Longrightarrow> rv_go s ! w1 = RelayWriting t o1 \<Longrightarrow> rv_go s ! w2 = RelayWriting t o2 \<Longrightarrow> w1 = w2"
  using assms unfolding relay_ok_def by blast+

lemma relay_ok_set:
  assumes "relay_ok s" "w < length (rv_go s)" "pc \<noteq> RelayEnded" "\<And>t out. pc \<noteq> RelayWriting t out"
  shows "relay_ok (s\<lparr>rv_go := (rv_go s)[w := pc], rv_out := x\<rparr>)" "relay_ok (s\<lparr>rv_go := (rv_go s)[w := pc]\<rparr>)"
  using assms unfolding relay_ok_def by (auto simp: nth_list_update)

lemma relayStep_ok:
  assumes "relay_ok s" "relayStep K a s = Some s'"
  shows "relay_ok s'"
proof (cases a)
  case (Accept uid)
  then have s': "s' = relayAccept uid s" using assms(2) by (simp add: relayStep_def split: if_splits)
  note r = relay_okD [OF assms(1)]
  have "u \<noteq> [] \<and> v < length (rv_go s') \<and> rv_uids s' ! v = u \<and> rv_go s' ! v \<noteq> RelayEnded" if "rv_conns s' u = Some v" for u v
    using that r(1) r(2-5) [of u v] by (auto simp: s' relayAccept_def relayRegister_def nth_append split: if_splits)
  moreover have "w1 = w2" if "w1 < length (rv_go s')" "w2 < length (rv_go s')" "rv_go s' ! w1 = RelayWriting t o1" "rv_go s' ! w2 = RelayWriting t o2"
    for w1 w2 t o1 o2
    using that r(6) [of w1 w2 t o1 o2] by (auto simp: s' relayAccept_def nth_append split: if_splits)
  ultimately show ?thesis using r(1) unfolding relay_ok_def by (simp add: s' relayAccept_def)
next
  case (ReadFrame w msg)
  then show ?thesis
    using assms relay_ok_set(2) [OF assms(1)]
    by (auto simp: relayStep_def relayRead_def split: if_splits list.splits)
next
  case (ReadFails w)
  then have s': "s' = relayLeave w s" "w < length (rv_go s)" using assms(2) by (auto simp: relayStep_def split: if_splits)
  then show ?thesis
    using assms(1) by (auto simp: relayLeave_def relayRemove_def relay_ok_def nth_list_update)
next
  case (Forward w ok)
  then have w: "w < length (rv_go s)" using assms(2) by (auto simp: relayStep_def split: if_splits)
  show ?thesis
  proof (cases "rv_go s ! w")
    case (RelayTarget t out)
    then have s': "s' = relayBegin w t out s" using assms(2) w Forward by (auto simp: relayStep_def split: if_splits)
    show ?thesis
    proof (cases "beingWritten t s")
      case True
      then show ?thesis using s' assms(1) by (simp add: relayBegin_def relay_ok_def)
    next
      case False
      note r = relay_okD [OF assms(1)]
      have free: "rv_go s ! v \<noteq> RelayWriting t o2" if "v < length (rv_go s)" for v o2
        using that False unfolding beingWritten_iff by blast
      have "u \<noteq> [] \<and> v < length (rv_go s') \<and> rv_uids s' ! v = u \<and> rv_go s' ! v \<noteq> RelayEnded" if "rv_conns s' u = Some v" for u v
        using that r(2-5) [of u v] False by (cases "v = w") (auto simp: s' relayBegin_def)
      moreover have "w1 = w2" if "w1 < length (rv_go s')" "w2 < length (rv_go s')" "rv_go s' ! w1 = RelayWriting t' o1" "rv_go s' ! w2 = RelayWriting t' o2"
        for w1 w2 t' o1 o2
        using that w r(6) [of w1 w2 t' o1 o2] False free by (auto simp: s' relayBegin_def nth_list_update split: if_splits)
      ultimately show ?thesis using r(1) False unfolding relay_ok_def by (simp add: s' relayBegin_def)
    qed
  next
    case (RelayWriting t out)
    then have "s' = relayEnd w t out ok s" using assms(2) w Forward by (auto simp: relayStep_def split: if_splits)
    then show ?thesis using relay_ok_set(1) [OF assms(1) w, of RelayReading] by (simp add: relayEnd_def)
  qed (use assms(2) w Forward in \<open>auto simp: relayStep_def split: if_splits\<close>)
qed

text \<open>In every run of the server a registration names a websocket that was accepted for that user and is still
  served, and no two handlers are writing to one websocket, unless the server has crashed.\<close>

theorem relay_invariant:
  assumes "relaySteps K as newMockServer = Some s"
  shows "relay_ok s"
proof -
  have "relay_ok s0 \<Longrightarrow> relaySteps K as s0 = Some s \<Longrightarrow> relay_ok s" for s0
    by (induction as arbitrary: s0) (auto simp: bind_eq_Some_conv intro: relayStep_ok)
  moreover have "relay_ok newMockServer" by (simp add: relay_ok_def newMockServer_def)
  ultimately show ?thesis using assms by blast
qed

section \<open>What the invariant does not say\<close>

text \<open>A user who connects again before the server notices that the old websocket is gone is lost: the old handler
  removes the new registration, and nothing is forwarded to the new websocket, which is still served.\<close>

theorem reconnect_unregistered:
  assumes "\<not> rv_crashed s" "relay_ok s" "rv_conns s uid = Some w" "rv_go s ! w = RelayReading"
  shows "\<exists>s'. relaySteps K [Accept uid, ReadFails w] s = Some s' \<and> rv_conns s' uid = None \<and>
    rv_go s' ! length (rv_go s) = RelayReading \<and> rv_uids s' ! length (rv_go s) = uid \<and>
    (\<forall>msg d req. dec_Req K msg = Some req \<longrightarrow> pb_unmarshalMsg K (rq_Data req) = Some d \<longrightarrow> sd_RecvID d = uid \<longrightarrow>
       relayFrame K (rv_conns s') msg = [])"
proof -
  have w: "w < length (rv_go s)" "uid \<noteq> []" "rv_uids s ! w = uid" "length (rv_uids s) = length (rv_go s)"
    using assms(2,3) by (auto simp: relay_ok_def)
  then show ?thesis
    using assms(1,4)
    by (auto simp: relayStep_def relayAccept_def relayRegister_def relayLeave_def relayRemove_def nth_append relayFrame_def Let_def
        split: option.splits)
qed

text \<open>Two clients that write to the same user at the same time crash the server.\<close>

theorem relay_concurrent_writes:
  assumes "\<not> rv_crashed s" "w1 < length (rv_go s)" "w2 < length (rv_go s)" "w1 \<noteq> w2" "\<not> beingWritten t s"
    "rv_go s ! w1 = RelayReading" "rv_go s ! w2 = RelayReading"
    "relayFrame K (rv_conns s) m1 = [(t, o1)]" "relayFrame K (rv_conns s) m2 = [(t, o2)]"
  shows "\<exists>s'. relaySteps K [ReadFrame w1 m1, ReadFrame w2 m2, Forward w1 True, Forward w2 True] s = Some s' \<and> rv_crashed s'"
proof -
  let ?s2 = "s\<lparr>rv_go := (rv_go s)[w1 := RelayTarget t o1, w2 := RelayTarget t o2]\<rparr>"
  let ?s3 = "s\<lparr>rv_go := (rv_go s)[w1 := RelayTarget t o1, w2 := RelayTarget t o2, w1 := RelayWriting t o1]\<rparr>"
  have "\<not> beingWritten t ?s2"
    using assms(2,3,5) unfolding beingWritten_iff by (auto simp: nth_list_update split: if_splits)
  then have 3: "relayBegin w1 t o1 ?s2 = ?s3" by (simp add: relayBegin_def)
  have "rv_go ?s3 ! w1 = RelayWriting t o1" "w1 < length (rv_go ?s3)" using assms(2) by simp_all
  then have 4: "beingWritten t ?s3" unfolding beingWritten_iff by blast
  have "relaySteps K [ReadFrame w1 m1, ReadFrame w2 m2] s = Some ?s2"
    using assms by (simp add: relayStep_def relayRead_def)
  moreover have "relaySteps K [Forward w1 True, Forward w2 True] ?s2 = Some (?s3\<lparr>rv_crashed := True\<rparr>)"
    using assms(1-4) 3 4 by (simp add: relayStep_def relayBegin_def [of w2])
  ultimately show ?thesis
    using relaySteps_append [of K "[ReadFrame w1 m1, ReadFrame w2 m2]" "[Forward w1 True, Forward w2 True]" s] by simp
qed

section \<open>Example\<close>

abbreviation exClients :: "relayAct list" where
  "exClients \<equiv> [Accept ''b'', Accept ''a'', Accept ''c'']"

definition exServer :: relayServer where
  "exServer = the (relaySteps (exRelayCodec []) exClients newMockServer)"

lemma exServer_run: "relaySteps (exRelayCodec []) exClients newMockServer = Some exServer"
  by (simp add: exServer_def relayStep_def relayAccept_def relayRegister_def newMockServer_def)

lemma exServer_simps [simp]:
  "rv_conns exServer ''b'' = Some 0" "rv_go exServer = [RelayReading, RelayReading, RelayReading]" "\<not> rv_crashed exServer"
  by (simp_all add: exServer_def relayStep_def relayAccept_def relayRegister_def newMockServer_def)

lemma exRelay_frames:
  "relayFrame (exRelayCodec []) (rv_conns exServer) [0] = [(0, [0])]"
  "relayFrame (exRelayCodec []) (rv_conns exServer) [1] = [(0, [1])]"
proof -
  have "relayResp (exReq\<lparr>rq_Data := [1]\<rparr>) [1] = relayResp exReq [1]" by (simp add: relayResp_def)
  moreover have "rq_Data exReq = [0]" by (simp add: exReq_def)
  ultimately show "relayFrame (exRelayCodec []) (rv_conns exServer) [0] = [(0, [0])]"
    "relayFrame (exRelayCodec []) (rv_conns exServer) [1] = [(0, [1])]"
    by (simp_all add: relayFrame_def)
qed

lemma relay_invariant_witness: "relay_ok exServer"
  by (rule relay_invariant [OF exServer_run])

lemma reconnect_unregistered_witness:
  "\<exists>s'. relaySteps (exRelayCodec []) [Accept ''b'', ReadFails 0] exServer = Some s' \<and> relayFrame (exRelayCodec []) (rv_conns s') [0] = []"
proof -
  have r: "rv_go exServer ! 0 = RelayReading" by simp
  have ok: "relay_ok exServer"
    by (simp add: relay_ok_def less_Suc_eq numeral_3_eq_3 exServer_def relayStep_def relayAccept_def relayRegister_def newMockServer_def)
  have d: "dec_Req (exRelayCodec []) [0] = Some exReq" "pb_unmarshalMsg (exRelayCodec []) (rq_Data exReq) = Some exOut"
    by (simp_all, simp add: exReq_def)
  from reconnect_unregistered [OF exServer_simps(3) ok exServer_simps(1) r, of "exRelayCodec []"] d show ?thesis by fastforce
qed

lemma relay_concurrent_writes_witness:
  "\<exists>s'. relaySteps (exRelayCodec []) [ReadFrame 1 [0], ReadFrame 2 [1], Forward 1 True, Forward 2 True] exServer = Some s' \<and> rv_crashed s'"
proof -
  have b: "\<not> beingWritten 0 exServer" by (simp add: beingWritten_def)
  have w: "1 < length (rv_go exServer)" "2 < length (rv_go exServer)" "(1 :: nat) \<noteq> 2"
    "rv_go exServer ! 1 = RelayReading" "rv_go exServer ! 2 = RelayReading" by simp_all
  show ?thesis by (rule relay_concurrent_writes [OF exServer_simps(3) w(1-3) b w(4,5) exRelay_frames])
qed

end
