(* ===== verification/Json.thy ===== *)
theory Json
  imports Prelude
begin

text \<open>
  JSON as \<open>encoding/json\<close> of Go reads and writes it: strings with their escapes and UTF-8, the grammar of values
  with its bound on the depth, the compact output of \<open>Marshal\<close>, and base64.  A Go string is a byte sequence;
  bytes are the characters of a \<^typ>\<open>string\<close>.
\<close>

section \<open>UTF-8\<close>

abbreviation code :: "char \<Rightarrow> nat" where "code c \<equiv> of_char c"

definition byteIn :: "string \<Rightarrow> nat \<Rightarrow> nat \<Rightarrow> nat \<Rightarrow> bool" where
  "byteIn s i lo hi \<longleftrightarrow> i < length s \<and> lo \<le> code (s ! i) \<and> code (s ! i) \<le> hi"

text \<open>Sequences of one to four bytes (\<open>utf8.DecodeRune\<close>): no overlong forms, no surrogates, nothing above 0x10FFFF.\<close>

definition rune1 :: "string \<Rightarrow> bool" where
  "rune1 s \<longleftrightarrow> byteIn s 0 0 0x7F"

definition rune2 :: "string \<Rightarrow> bool" where
  "rune2 s \<longleftrightarrow> byteIn s 0 0xC2 0xDF \<and> byteIn s 1 0x80 0xBF"

definition rune3 :: "string \<Rightarrow> bool" where
  "rune3 s \<longleftrightarrow> byteIn s 0 0xE0 0xEF \<and> byteIn s 1 0x80 0xBF \<and> byteIn s 2 0x80 0xBF \<and>
     (byteIn s 0 0xE0 0xE0 \<longrightarrow> byteIn s 1 0xA0 0xBF) \<and> (byteIn s 0 0xED 0xED \<longrightarrow> byteIn s 1 0x80 0x9F)"

definition rune4 :: "string \<Rightarrow> bool" where
  "rune4 s \<longleftrightarrow> byteIn s 0 0xF0 0xF4 \<and> byteIn s 1 0x80 0xBF \<and> byteIn s 2 0x80 0xBF \<and> byteIn s 3 0x80 0xBF \<and>
     (byteIn s 0 0xF0 0xF0 \<longrightarrow> byteIn s 1 0x90 0xBF) \<and> (byteIn s 0 0xF4 0xF4 \<longrightarrow> byteIn s 1 0x80 0x8F)"

text \<open>The length of the rune a text begins with, 0 when its bytes are none.\<close>

definition runeLen :: "string \<Rightarrow> nat" where
  "runeLen s = (if rune1 s then 1 else if rune2 s then 2 else if rune3 s then 3 else if rune4 s then 4 else 0)"

function validUtf8 :: "string \<Rightarrow> bool" where
  "validUtf8 [] = True"
| "validUtf8 (c # cs) = (0 < runeLen (c # cs) \<and> validUtf8 (drop (runeLen (c # cs) - 1) cs))"
  by pat_completeness auto
termination by (relation "measure length") auto

declare validUtf8.simps(2) [simp del]

definition encodeRune :: "nat \<Rightarrow> string" where
  "encodeRune x =
     (if x < 0x80 then [char_of x]
      else if x < 0x800 then [char_of (0xC0 + x div 64), char_of (0x80 + x mod 64)]
      else if x < 0x10000 then [char_of (0xE0 + x div 4096), char_of (0x80 + x div 64 mod 64), char_of (0x80 + x mod 64)]
      else [char_of (0xF0 + x div 262144), char_of (0x80 + x div 4096 mod 64), char_of (0x80 + x div 64 mod 64), char_of (0x80 + x mod 64)])"

text \<open>U+FFFD, which stands for bytes that are no UTF-8.\<close>

definition replacement :: string where "replacement = encodeRune 0xFFFD"

lemma byteIn_append: "i < length s \<Longrightarrow> byteIn (s @ r) i lo hi = byteIn s i lo hi"
  by (simp add: byteIn_def nth_append)

lemma byteIn_take: "i < k \<Longrightarrow> byteIn (take k s) i lo hi = byteIn s i lo hi"
  by (auto simp: byteIn_def)

lemma byteIn_length: "byteIn s i lo hi \<Longrightarrow> Suc i \<le> length s"
  by (simp add: byteIn_def)

lemma rune_lengths: "rune1 s \<Longrightarrow> 1 \<le> length s" "rune2 s \<Longrightarrow> 2 \<le> length s" "rune3 s \<Longrightarrow> 3 \<le> length s" "rune4 s \<Longrightarrow> 4 \<le> length s"
  unfolding rune1_def rune2_def rune3_def rune4_def
  by (drule byteIn_length | elim conjE | simp add: byteIn_def)+

lemma runeLen_le: "runeLen s \<le> length s"
  using rune_lengths [of s] by (simp add: runeLen_def)

lemma rune_first:
  "rune2 s \<or> rune3 s \<or> rune4 s \<Longrightarrow> byteIn s 0 0xC2 0xF4"
  unfolding rune2_def rune3_def rune4_def byteIn_def by linarith

lemma runeLen_wide: "2 \<le> runeLen s \<Longrightarrow> byteIn s 0 0xC2 0xF4 \<and> \<not> rune1 s"
  using rune_first [of s] by (auto simp: runeLen_def split: if_splits)

lemma rune_prefix:
  "1 \<le> k \<Longrightarrow> rune1 (take k s @ r) = (rune1 s \<or> s = [] \<and> rune1 r)"
  "2 \<le> k \<Longrightarrow> k \<le> length s \<Longrightarrow> rune2 (take k s @ r) = rune2 s"
  "3 \<le> k \<Longrightarrow> k \<le> length s \<Longrightarrow> rune3 (take k s @ r) = rune3 s"
  "4 \<le> k \<Longrightarrow> k \<le> length s \<Longrightarrow> rune4 (take k s @ r) = rune4 s"
proof -
  show "1 \<le> k \<Longrightarrow> rune1 (take k s @ r) = (rune1 s \<or> s = [] \<and> rune1 r)"
    by (cases s) (simp_all add: rune1_def byteIn_append byteIn_take, simp add: byteIn_def)
qed (simp_all add: rune2_def rune3_def rune4_def byteIn_append byteIn_take)

text \<open>A rune is recognised by its own bytes.\<close>

lemma runeLen_self: "0 < runeLen s \<Longrightarrow> runeLen (take (runeLen s) s @ rest) = runeLen s"
proof -
  assume pos: "0 < runeLen s"
  have ne: "s \<noteq> []" using pos runeLen_le [of s] by auto
  consider "rune1 s" | "\<not> rune1 s" "rune2 s" | "\<not> rune1 s" "\<not> rune2 s" "rune3 s" | "\<not> rune1 s" "\<not> rune2 s" "\<not> rune3 s" "rune4 s"
    using pos by (auto simp: runeLen_def split: if_splits)
  then show ?thesis
  proof cases
    case 1
    then show ?thesis using rune_prefix(1) [of 1 s rest] by (simp add: runeLen_def)
  next
    case 2
    then show ?thesis using rune_prefix(1,2) [of 2 s rest] rune_lengths(2) [of s] ne by (simp add: runeLen_def)
  next
    case 3
    then show ?thesis using rune_prefix(1-3) [of 3 s rest] rune_lengths(3) [of s] ne by (simp add: runeLen_def)
  next
    case 4
    then show ?thesis using rune_prefix [of 4 s rest] rune_lengths(4) [of s] ne by (simp add: runeLen_def)
  qed
qed

lemma validUtf8_drop: "validUtf8 s \<Longrightarrow> s \<noteq> [] \<Longrightarrow> 0 < runeLen s \<and> validUtf8 (drop (runeLen s) s)"
  by (cases s) (simp_all add: validUtf8.simps(2) drop_Cons')

section \<open>Strings\<close>

definition dquote :: char where "dquote = CHR 0x22"
definition backslash :: char where "backslash = CHR 0x5C"

definition hexDigit :: "nat \<Rightarrow> char" where
  "hexDigit n = char_of (if n < 10 then 48 + n else 87 + n)"

definition hexVal :: "char \<Rightarrow> nat option" where
  "hexVal c =
     (if 48 \<le> code c \<and> code c \<le> 57 then Some (code c - 48)
      else if 97 \<le> code c \<and> code c \<le> 102 then Some (code c - 87)
      else if 65 \<le> code c \<and> code c \<le> 70 then Some (code c - 55)
      else None)"

fun hex4 :: "string \<Rightarrow> nat option" where
  "hex4 (a # b # c # d # _) =
     (case (hexVal a, hexVal b, hexVal c, hexVal d) of
        (Some w, Some x, Some y, Some z) \<Rightarrow> Some (4096 * w + 256 * x + 16 * y + z)
      | _ \<Rightarrow> None)"
| "hex4 _ = None"

text \<open>What \<open>Marshal\<close> writes of a character below 128: HTML characters are escaped too.\<close>

definition escapeChar :: "char \<Rightarrow> string" where
  "escapeChar c =
     (if c = dquote \<or> c = backslash then [backslash, c]
      else if code c = 8 then [backslash, CHR ''b'']
      else if code c = 12 then [backslash, CHR ''f'']
      else if code c = 10 then [backslash, CHR ''n'']
      else if code c = 13 then [backslash, CHR ''r'']
      else if code c = 9 then [backslash, CHR ''t'']
      else if code c < 32 \<or> c \<in> {CHR ''<'', CHR ''>'', CHR ''&''}
        then backslash # ''u00'' @ [hexDigit (code c div 16), hexDigit (code c mod 16)]
      else [c])"

definition escapeRune :: "string \<Rightarrow> string" where
  "escapeRune r =
     (if length r = 1 then escapeChar (hd r)
      else if r = encodeRune 0x2028 then backslash # ''u2028''
      else if r = encodeRune 0x2029 then backslash # ''u2029''
      else r)"

function quoteBody :: "string \<Rightarrow> string" where
  "quoteBody [] = []"
| "quoteBody (c # cs) =
     (let k = runeLen (c # cs) in
      if k = 0 then backslash # ''ufffd'' @ quoteBody cs
      else escapeRune (take k (c # cs)) @ quoteBody (drop (k - 1) cs))"
  by pat_completeness auto
termination by (relation "measure length") auto

declare quoteBody.simps(2) [simp del]

definition quoted :: "string \<Rightarrow> string" where
  "quoted s = dquote # quoteBody s @ [dquote]"

text \<open>The text of an escape and how many characters it takes.  A surrogate that is not followed by its other half
  is replaced.\<close>

definition unescapeHex :: "string \<Rightarrow> (string \<times> nat) option" where
  "unescapeHex es =
     (case hex4 es of None \<Rightarrow> None
      | Some x \<Rightarrow>
          if 0xD800 \<le> x \<and> x < 0xE000 then
            (case hex4 (drop 6 es) of
               Some y \<Rightarrow>
                 if take 2 (drop 4 es) = [backslash, CHR ''u''] \<and> x < 0xDC00 \<and> 0xDC00 \<le> y \<and> y < 0xE000
                 then Some (encodeRune (0x10000 + 1024 * (x - 0xD800) + (y - 0xDC00)), 11)
                 else Some (replacement, 5)
             | None \<Rightarrow> Some (replacement, 5))
          else Some (encodeRune x, 5))"

definition unescape :: "string \<Rightarrow> (string \<times> nat) option" where
  "unescape cs =
     (case cs of [] \<Rightarrow> None
      | e # es \<Rightarrow>
          if e = dquote \<or> e = backslash \<or> e = CHR ''/'' then Some ([e], 1)
          else if e = CHR ''b'' then Some ([char_of (8 :: nat)], 1)
          else if e = CHR ''f'' then Some ([char_of (12 :: nat)], 1)
          else if e = CHR ''n'' then Some ([char_of (10 :: nat)], 1)
          else if e = CHR ''r'' then Some ([char_of (13 :: nat)], 1)
          else if e = CHR ''t'' then Some ([char_of (9 :: nat)], 1)
          else if e = CHR ''u'' then unescapeHex es
          else None)"

text \<open>A string after its opening quote: its text, and what follows the closing quote.\<close>

function unquote :: "string \<Rightarrow> (string \<times> string) option" where
  "unquote [] = None"
| "unquote (c # cs) =
     (if c = dquote then Some ([], cs)
      else if c = backslash then
        (case unescape cs of None \<Rightarrow> None
         | Some (t, k) \<Rightarrow> map_option (apfst ((@) t)) (unquote (drop k cs)))
      else if code c < 32 then None
      else if runeLen (c # cs) = 0 then map_option (apfst ((@) replacement)) (unquote cs)
      else map_option (apfst ((@) (take (runeLen (c # cs)) (c # cs)))) (unquote (drop (runeLen (c # cs) - 1) cs)))"
  by pat_completeness auto
termination by (relation "measure length") auto

declare unquote.simps(2) [simp del]

lemma quote_chars [simp]: "dquote \<noteq> backslash" "backslash \<noteq> dquote" "code dquote = 34" "code backslash = 92"
  by (simp_all add: dquote_def backslash_def)

lemma escape_letters [simp]:
  "CHR ''b'' \<noteq> dquote" "CHR ''f'' \<noteq> dquote" "CHR ''n'' \<noteq> dquote" "CHR ''r'' \<noteq> dquote" "CHR ''t'' \<noteq> dquote" "CHR ''u'' \<noteq> dquote"
  "CHR ''b'' \<noteq> backslash" "CHR ''f'' \<noteq> backslash" "CHR ''n'' \<noteq> backslash" "CHR ''r'' \<noteq> backslash" "CHR ''t'' \<noteq> backslash" "CHR ''u'' \<noteq> backslash"
  by (simp_all add: dquote_def backslash_def)

lemmas escape_letters_sym [simp] = escape_letters [symmetric]

lemma unquote_dquote [simp]: "unquote (dquote # cs) = Some ([], cs)"
  by (simp add: unquote.simps(2))

lemma unquote_backslash:
  "unquote (backslash # cs) = (case unescape cs of None \<Rightarrow> None | Some (t, k) \<Rightarrow> map_option (apfst ((@) t)) (unquote (drop k cs)))"
  by (simp add: unquote.simps(2))

lemma hexVal_hexDigit: "n < 16 \<Longrightarrow> hexVal (hexDigit n) = Some n"
  by (simp add: hexVal_def hexDigit_def)

lemma hex_consts [simp]: "hexVal (CHR ''0'') = Some 0" "hexVal (CHR ''2'') = Some 2" "hexVal (CHR ''8'') = Some 8" "hexVal (CHR ''9'') = Some 9"
  by (simp_all add: hexVal_def)

lemma unescapeHex_simple:
  assumes "hex4 es = Some x" "x < 0xD800"
  shows "unescapeHex es = Some (encodeRune x, 5)"
  using assms by (simp add: unescapeHex_def)

lemma char_of_code: "code c = n \<Longrightarrow> c = char_of n"
  by (metis char_of_char)

lemma prepend_one: "(@) [c] = (#) c"
  by (rule ext) simp

lemma unquote_escapeChar:
  assumes "code c < 128"
  shows "unquote (escapeChar c @ rest) = map_option (apfst ((#) c)) (unquote rest)"
proof -
  have ch: "char_of (code c) = c" by simp
  consider "c = dquote \<or> c = backslash" | "code c \<in> {8, 12, 10, 13, 9}"
    | "c \<noteq> dquote" "c \<noteq> backslash" "code c \<notin> {8, 12, 10, 13, 9}" "code c < 32 \<or> c \<in> {CHR ''<'', CHR ''>'', CHR ''&''}"
    | "c \<noteq> dquote" "c \<noteq> backslash" "\<not> code c < 32" "c \<notin> {CHR ''<'', CHR ''>'', CHR ''&''}"
    by blast
  then show ?thesis
  proof cases
    case 1
    then have "escapeChar c = [backslash, c]" by (simp add: escapeChar_def)
    moreover have "unescape (c # rest) = Some ([c], 1)" using 1 by (auto simp: unescape_def)
    ultimately show ?thesis by (simp add: unquote_backslash prepend_one)
  next
    case 2
    then have n: "c \<noteq> dquote" "c \<noteq> backslash" by auto
    consider "code c = 8" | "code c = 12" | "code c = 10" | "code c = 13" | "code c = 9" using 2 by auto
    then have "\<exists>e. escapeChar c = [backslash, e] \<and> unescape (e # rest) = Some ([c], 1)"
      by cases (insert n ch, simp_all add: escapeChar_def unescape_def)
    then show ?thesis by (auto simp: unquote_backslash prepend_one)
  next
    case 3
    have lt: "code c < 256" using assms by simp
    have e: "escapeChar c = backslash # ''u00'' @ [hexDigit (code c div 16), hexDigit (code c mod 16)]"
      using 3 by (auto simp: escapeChar_def)
    have "hex4 (''00'' @ [hexDigit (code c div 16), hexDigit (code c mod 16)] @ rest) = Some (code c)"
      using lt by (simp add: hexVal_hexDigit less_mult_imp_div_less)
    then have "unescapeHex (''00'' @ [hexDigit (code c div 16), hexDigit (code c mod 16)] @ rest) = Some (encodeRune (code c), 5)"
      using assms by (intro unescapeHex_simple) simp_all
    then have "unescape (''u00'' @ [hexDigit (code c div 16), hexDigit (code c mod 16)] @ rest) = Some ([c], 5)"
      using assms by (simp add: unescape_def dquote_def backslash_def encodeRune_def)
    then show ?thesis by (simp add: e unquote_backslash prepend_one)
  next
    case 4
    have "runeLen (c # rest) = 1" using assms by (simp add: runeLen_def rune1_def byteIn_def)
    moreover have "escapeChar c = [c]" using 4 by (auto simp: escapeChar_def)
    ultimately show ?thesis using 4 by (simp add: unquote.simps(2) [of c] prepend_one)
  qed
qed

lemma unquote_line_separators:
  "unquote (backslash # ''u2028'' @ rest) = map_option (apfst ((@) (encodeRune 0x2028))) (unquote rest)"
  "unquote (backslash # ''u2029'' @ rest) = map_option (apfst ((@) (encodeRune 0x2029))) (unquote rest)"
  by (simp_all add: unquote_backslash unescape_def unescapeHex_def)

lemma unquote_escapeRune:
  assumes "0 < runeLen s"
  shows "unquote (escapeRune (take (runeLen s) s) @ rest) = map_option (apfst ((@) (take (runeLen s) s))) (unquote rest)"
proof -
  let ?r = "take (runeLen s) s"
  have len: "length ?r = runeLen s" using runeLen_le [of s] by simp
  obtain c cs where s: "s = c # cs" using assms runeLen_le [of s] by (cases s) auto
  show ?thesis
  proof (cases "runeLen s = 1")
    case True
    then have "rune1 s" by (auto simp: runeLen_def split: if_splits)
    then have "code c < 128" by (simp add: s rune1_def byteIn_def)
    then show ?thesis using True s by (simp add: escapeRune_def unquote_escapeChar prepend_one)
  next
    case False
    then have two: "2 \<le> runeLen s" using assms by simp
    have c: "0xC2 \<le> code c" using runeLen_wide [OF two] by (simp add: s byteIn_def)
    show ?thesis
    proof (cases "?r = encodeRune 0x2028 \<or> ?r = encodeRune 0x2029")
      case True
      then show ?thesis using two len unquote_line_separators [of rest] by (auto simp: escapeRune_def)
    next
      case False
      then have e: "escapeRune ?r = ?r" using two len by (simp add: escapeRune_def)
      obtain r where r: "?r = c # r" using two s by (cases "runeLen s") auto
      have k: "runeLen (c # r @ rest) = runeLen s" using runeLen_self [OF assms, of rest] r by simp
      have "c \<noteq> dquote" "c \<noteq> backslash" using c by auto
      moreover have "length r = runeLen s - 1" using len r by (metis diff_Suc_1 length_Cons)
      moreover have "take (runeLen s) (c # r @ rest) = c # r" using len r by (metis append_Cons append_eq_conv_conj)
      ultimately show ?thesis using k c two e r by (simp add: unquote.simps(2))
    qed
  qed
qed

lemma drop_rune: "runeLen (c # cs) = k \<Longrightarrow> 0 < k \<Longrightarrow> take k (c # cs) @ drop (k - 1) cs = c # cs"
  by (cases k) simp_all

text \<open>What \<open>Marshal\<close> writes of a text in UTF-8, \<open>Unmarshal\<close> reads back, whatever characters are in it.\<close>

lemma unquote_quoteBody:
  "validUtf8 s \<Longrightarrow> unquote (quoteBody s @ dquote # rest) = Some (s, rest)"
proof (induction s rule: validUtf8.induct)
  case (2 c cs)
  let ?k = "runeLen (c # cs)"
  have k: "0 < ?k" "validUtf8 (drop (?k - 1) cs)" using 2(2) by (simp_all add: validUtf8.simps(2))
  have "quoteBody (c # cs) = escapeRune (take ?k (c # cs)) @ quoteBody (drop (?k - 1) cs)"
    using k(1) by (simp add: quoteBody.simps(2) Let_def)
  then show ?case
    using 2(1) [OF k(2)] unquote_escapeRune [OF k(1), of "quoteBody (drop (?k - 1) cs) @ dquote # rest"] drop_rune [OF refl k(1)]
    by simp
qed simp

section \<open>Values\<close>

text \<open>A number keeps its literal.  Members of an object are in the order of the text, duplicates included.\<close>

datatype json = JNull | JBool bool | JNum string | JStr string | JArr "json list" | JObj "(string \<times> json) list"

definition isSpace :: "char \<Rightarrow> bool" where
  "isSpace c \<longleftrightarrow> code c \<in> {9, 10, 13, 32}"

definition skipSpace :: "string \<Rightarrow> string" where
  "skipSpace s = dropWhile isSpace s"

definition isDigit :: "char \<Rightarrow> bool" where
  "isDigit c \<longleftrightarrow> 48 \<le> code c \<and> code c \<le> 57"

text \<open>The digits a text begins with, of which there must be some.\<close>

definition digits :: "string \<Rightarrow> (string \<times> string) option" where
  "digits s = (if takeWhile isDigit s = [] then None else Some (takeWhile isDigit s, dropWhile isDigit s))"

definition exponent :: "string \<Rightarrow> string \<Rightarrow> (string \<times> string) option" where
  "exponent t s =
     (case s of [] \<Rightarrow> Some (t, s)
      | e # r \<Rightarrow>
          if e \<noteq> CHR ''e'' \<and> e \<noteq> CHR ''E'' then Some (t, s)
          else let k = (if r \<noteq> [] \<and> (hd r = CHR ''+'' \<or> hd r = CHR ''-'') then 1 else 0) in
            map_option (\<lambda>(ds, r'). (t @ e # take k r @ ds, r')) (digits (drop k r)))"

definition fraction :: "string \<Rightarrow> string \<Rightarrow> (string \<times> string) option" where
  "fraction t s =
     (case s of [] \<Rightarrow> Some (t, s)
      | p # r \<Rightarrow>
          if p \<noteq> CHR ''.'' then exponent t s
          else Option.bind (digits r) (\<lambda>(ds, r'). exponent (t @ p # ds) r'))"

definition number :: "string \<Rightarrow> (string \<times> string) option" where
  "number s =
     (let k = (if s \<noteq> [] \<and> hd s = CHR ''-'' then 1 else 0); r = drop k s in
      if r \<noteq> [] \<and> hd r = CHR ''0'' then fraction (take k s @ [CHR ''0'']) (tl r)
      else Option.bind (digits r) (\<lambda>(ds, r'). fraction (take k s @ ds) r'))"

text \<open>A value, the members of an object after its brace, the elements of an array after its bracket.  The first
  argument is fuel, twice the length of the text is enough (\<open>fuel_enough\<close>); the second is how deep values may
  still be nested.\<close>

definition startsWith :: "string \<Rightarrow> string \<Rightarrow> bool" where
  "startsWith p s \<longleftrightarrow> take (length p) s = p"

definition scalar :: "string \<Rightarrow> (json \<times> string) option" where
  "scalar s =
     (if startsWith ''null'' s then Some (JNull, drop 4 s)
      else if startsWith ''true'' s then Some (JBool True, drop 4 s)
      else if startsWith ''false'' s then Some (JBool False, drop 5 s)
      else map_option (apfst JNum) (number s))"

fun jvalue :: "nat \<Rightarrow> nat \<Rightarrow> string \<Rightarrow> (json \<times> string) option"
  and jmembers :: "nat \<Rightarrow> nat \<Rightarrow> string \<Rightarrow> ((string \<times> json) list \<times> string) option"
  and jelements :: "nat \<Rightarrow> nat \<Rightarrow> string \<Rightarrow> (json list \<times> string) option" where
  "jvalue 0 d s = None"
| "jvalue (Suc n) d s =
     (case skipSpace s of [] \<Rightarrow> None
      | c # cs \<Rightarrow>
          if c = dquote then map_option (apfst JStr) (unquote cs)
          else if c = CHR ''{'' then
            (if d = 0 then None
             else case skipSpace cs of [] \<Rightarrow> None
               | e # r \<Rightarrow> if e = CHR ''}'' then Some (JObj [], r) else map_option (apfst JObj) (jmembers n (d - 1) (e # r)))
          else if c = CHR ''['' then
            (if d = 0 then None
             else case skipSpace cs of [] \<Rightarrow> None
               | e # r \<Rightarrow> if e = CHR '']'' then Some (JArr [], r) else map_option (apfst JArr) (jelements n (d - 1) (e # r)))
          else scalar (c # cs))"
| "jmembers 0 d s = None"
| "jmembers (Suc n) d s =
     (case skipSpace s of [] \<Rightarrow> None
      | c # cs \<Rightarrow>
          if c \<noteq> dquote then None
          else case unquote cs of None \<Rightarrow> None
            | Some (k, r) \<Rightarrow>
                (case skipSpace r of [] \<Rightarrow> None
                 | c1 # r1 \<Rightarrow>
                     if c1 \<noteq> CHR '':'' then None
                     else case jvalue n d r1 of None \<Rightarrow> None
                       | Some (v, r2) \<Rightarrow>
                           (case skipSpace r2 of [] \<Rightarrow> None
                            | c2 # r3 \<Rightarrow>
                                if c2 = CHR ''}'' then Some ([(k, v)], r3)
                                else if c2 = CHR '','' then map_option (apfst ((#) (k, v))) (jmembers n d r3)
                                else None)))"
| "jelements 0 d s = None"
| "jelements (Suc n) d s =
     (case jvalue n d s of None \<Rightarrow> None
      | Some (v, r) \<Rightarrow>
          (case skipSpace r of [] \<Rightarrow> None
           | c # r1 \<Rightarrow>
               if c = CHR '']'' then Some ([v], r1)
               else if c = CHR '','' then map_option (apfst ((#) v)) (jelements n d r1)
               else None))"

definition maxNestingDepth :: nat where "maxNestingDepth = 10000"

text \<open>The first value of a text, and a text that is one value.\<close>

definition firstValue :: "string \<Rightarrow> (json \<times> string) option" where
  "firstValue s = jvalue (2 * length s + 1) maxNestingDepth s"

definition parseJson :: "string \<Rightarrow> json option" where
  "parseJson s = (case firstValue s of Some (v, r) \<Rightarrow> if skipSpace r = [] then Some v else None | None \<Rightarrow> None)"

section \<open>Output\<close>

fun commas :: "string list \<Rightarrow> string" where
  "commas [] = []"
| "commas [x] = x"
| "commas (x # y # xs) = x @ CHR '','' # commas (y # xs)"

text \<open>The output of \<open>Marshal\<close> has no spaces.\<close>

fun printJson :: "json \<Rightarrow> string" where
  "printJson JNull = ''null''"
| "printJson (JBool b) = (if b then ''true'' else ''false'')"
| "printJson (JNum t) = t"
| "printJson (JStr s) = quoted s"
| "printJson (JArr xs) = CHR ''['' # commas (map printJson xs) @ '']''"
| "printJson (JObj ms) = CHR ''{'' # commas (map (\<lambda>(k, v). quoted k @ CHR '':'' # printJson v) ms) @ ''}''"

definition intLiteral :: "string \<Rightarrow> bool" where
  "intLiteral t \<longleftrightarrow>
     (\<exists>ds. ds \<noteq> [] \<and> list_all isDigit ds \<and> (hd ds = CHR ''0'' \<longrightarrow> length ds = 1) \<and> (t = ds \<or> t = CHR ''-'' # ds))"

text \<open>Values that can be written and read back: integers, texts in UTF-8, and not nested too deeply.\<close>

fun jsonOk :: "nat \<Rightarrow> json \<Rightarrow> bool" where
  "jsonOk d JNull = True"
| "jsonOk d (JBool b) = True"
| "jsonOk d (JNum t) = intLiteral t"
| "jsonOk d (JStr s) = validUtf8 s"
| "jsonOk d (JArr xs) = (0 < d \<and> (\<forall>x\<in>set xs. jsonOk (d - 1) x))"
| "jsonOk d (JObj ms) = (0 < d \<and> (\<forall>(k, v)\<in>set ms. validUtf8 k \<and> jsonOk (d - 1) v))"

abbreviation member :: "string \<times> json \<Rightarrow> string" where
  "member \<equiv> \<lambda>(k, v). quoted k @ CHR '':'' # printJson v"

text \<open>What may follow a number.\<close>

definition stops :: "string \<Rightarrow> bool" where
  "stops s \<longleftrightarrow> s = [] \<or> \<not> isDigit (hd s) \<and> hd s \<notin> {CHR ''.'', CHR ''e'', CHR ''E''}"

lemma isDigit_simps [simp]: "\<not> isDigit (CHR ''.'')" "\<not> isDigit (CHR ''e'')" "\<not> isDigit (CHR ''E'')" "\<not> isDigit (CHR ''-'')"
  "\<not> isDigit (CHR '','')" "\<not> isDigit (CHR '']'')" "\<not> isDigit (CHR ''}'')" "isDigit (CHR ''0'')"
  by (simp_all add: isDigit_def)

lemma stops_simps [simp]: "stops []" "stops (CHR '','' # s)" "stops (CHR '']'' # s)" "stops (CHR ''}'' # s)"
  by (simp_all add: stops_def)

lemma digits_append: "ds \<noteq> [] \<Longrightarrow> list_all isDigit ds \<Longrightarrow> stops rest \<Longrightarrow> digits (ds @ rest) = Some (ds, rest)"
  by (cases ds; cases rest) (auto simp: digits_def stops_def list_all_iff takeWhile_append2 dropWhile_append2 takeWhile_eq_all_conv)

lemma fraction_stops: "stops rest \<Longrightarrow> fraction t rest = Some (t, rest)"
  by (cases rest) (auto simp: fraction_def exponent_def stops_def)

lemma number_digits:
  assumes "ds \<noteq> []" "list_all isDigit ds" "hd ds = CHR ''0'' \<longrightarrow> length ds = 1" "stops rest"
  shows "number (ds @ rest) = Some (ds, rest)" "number (CHR ''-'' # ds @ rest) = Some (CHR ''-'' # ds, rest)"
proof -
  have m: "hd ds \<noteq> CHR ''-''" using assms(1,2) by (cases ds) auto
  consider "hd ds \<noteq> CHR ''0''" | "ds = ''0''" using assms(1,3) by (cases ds) auto
  then show "number (ds @ rest) = Some (ds, rest)" "number (CHR ''-'' # ds @ rest) = Some (CHR ''-'' # ds, rest)"
    by (cases; use assms(1) m digits_append [OF assms(1,2,4)] fraction_stops [OF assms(4)] in \<open>simp add: number_def Let_def\<close>)+
qed

lemma scalar_number:
  assumes "intLiteral t" "stops rest"
  shows "scalar (t @ rest) = Some (JNum t, rest)"
proof -
  obtain ds where ds: "ds \<noteq> []" "list_all isDigit ds" "hd ds = CHR ''0'' \<longrightarrow> length ds = 1" "t = ds \<or> t = CHR ''-'' # ds"
    using assms(1) by (auto simp: intLiteral_def)
  have "isDigit (hd ds)" using ds(1,2) by (cases ds) auto
  then have "hd ds \<noteq> CHR ''n''" "hd ds \<noteq> CHR ''t''" "hd ds \<noteq> CHR ''f''" by (auto simp: isDigit_def)
  then have "\<not> startsWith ''null'' (t @ rest)" "\<not> startsWith ''true'' (t @ rest)" "\<not> startsWith ''false'' (t @ rest)"
    using ds(1,4) by (cases ds; auto simp: startsWith_def)+
  then show ?thesis using number_digits [OF ds(1-3) assms(2)] ds(4) by (auto simp: scalar_def)
qed

definition opens :: "char \<Rightarrow> bool" where
  "opens c \<longleftrightarrow> \<not> isSpace c \<and> c \<noteq> CHR '']'' \<and> c \<noteq> CHR ''}''"

lemma print_opens: "jsonOk d v \<Longrightarrow> \<exists>c cs. printJson v = c # cs \<and> opens c"
proof (cases v)
  case (JNum t)
  assume "jsonOk d v"
  then obtain ds where ds: "ds \<noteq> []" "list_all isDigit ds" "t = ds \<or> t = CHR ''-'' # ds"
    using JNum by (auto simp: intLiteral_def)
  have "opens (hd ds)" using ds(1,2) by (cases ds) (auto simp: isDigit_def opens_def isSpace_def)
  moreover have "opens (CHR ''-'')" by (simp add: opens_def isSpace_def)
  ultimately show ?thesis using ds(1,3) JNum by (cases ds) auto
qed (auto simp: quoted_def opens_def isSpace_def dquote_def)

lemma skipSpace_opens [simp]: "opens c \<Longrightarrow> skipSpace (c # cs) = c # cs"
  by (simp add: skipSpace_def opens_def)

lemma opens_simps [simp]: "opens dquote" "opens (CHR ''['')" "opens (CHR ''{'')" "\<not> isSpace (CHR '']'')" "\<not> isSpace (CHR ''}'')"
  "\<not> isSpace (CHR '','')" "\<not> isSpace (CHR '':'')" "\<not> isSpace dquote"
  by (simp_all add: opens_def isSpace_def dquote_def)

lemma skipSpace_simps [simp]: "skipSpace [] = []" "\<not> isSpace c \<Longrightarrow> skipSpace (c # cs) = c # cs"
  by (simp_all add: skipSpace_def)

lemma brackets [simp]: "CHR ''['' \<noteq> dquote" "CHR ''{'' \<noteq> dquote" "dquote \<noteq> CHR ''}''" "dquote \<noteq> CHR '']''"
  by (simp_all add: dquote_def)

lemma commas_Cons: "commas (x # xs) = x @ (if xs = [] then [] else CHR '','' # commas xs)"
  by (cases xs) simp_all

lemma unquote_quoted: "validUtf8 s \<Longrightarrow> \<exists>t. quoted s @ rest = dquote # t \<and> unquote t = Some (s, rest)"
  by (simp add: quoted_def unquote_quoteBody)

section \<open>Reading back\<close>

lemma jvalue_nonterminal:
  "jvalue (Suc n) d (CHR ''['' # cs) =
     (if d = 0 then None
      else case skipSpace cs of [] \<Rightarrow> None
        | e # r \<Rightarrow> if e = CHR '']'' then Some (JArr [], r) else map_option (apfst JArr) (jelements n (d - 1) (e # r)))"
  "jvalue (Suc n) d (CHR ''{'' # cs) =
     (if d = 0 then None
      else case skipSpace cs of [] \<Rightarrow> None
        | e # r \<Rightarrow> if e = CHR ''}'' then Some (JObj [], r) else map_option (apfst JObj) (jmembers n (d - 1) (e # r)))"
  "jvalue (Suc n) d (dquote # cs) = map_option (apfst JStr) (unquote cs)"
  by simp_all

lemma jvalue_scalar:
  "opens c \<Longrightarrow> c \<notin> {dquote, CHR ''['', CHR ''{''} \<Longrightarrow> jvalue (Suc n) d (c # cs) = scalar (c # cs)"
  by simp

lemma jmembers_step:
  assumes "validUtf8 k" "jvalue n d (s @ c # r) = Some (v, c # r)" "\<not> isSpace c"
  shows "jmembers (Suc n) d (quoted k @ CHR '':'' # s @ c # r) =
    (if c = CHR ''}'' then Some ([(k, v)], r) else if c = CHR '','' then map_option (apfst ((#) (k, v))) (jmembers n d r) else None)"
proof -
  obtain t where "quoted k @ CHR '':'' # s @ c # r = dquote # t" "unquote t = Some (k, CHR '':'' # s @ c # r)"
    using unquote_quoted [OF assms(1)] by blast
  then show ?thesis using assms(2,3) by simp
qed

declare jvalue.simps(2) [simp del] jmembers.simps(2) [simp del] jelements.simps(2) [simp del]

lemma jelements_step:
  assumes "jvalue n d (s @ c # r) = Some (v, c # r)" "\<not> isSpace c"
  shows "jelements (Suc n) d (s @ c # r) =
    (if c = CHR '']'' then Some ([v], r) else if c = CHR '','' then map_option (apfst ((#) v)) (jelements n d r) else None)"
  using assms by (simp add: jelements.simps(2))

lemma read_elements:
  assumes "\<And>x n rest. x \<in> set xs \<Longrightarrow> stops rest \<Longrightarrow> 2 * length (printJson x) < n \<Longrightarrow> jvalue n d (printJson x @ rest) = Some (x, rest)"
    "\<And>x. x \<in> set xs \<Longrightarrow> printJson x \<noteq> []" "xs \<noteq> []" "2 * length (commas (map printJson xs)) + 1 < n"
  shows "jelements n d (commas (map printJson xs) @ CHR '']'' # rest) = Some (xs, rest)"
  using assms
proof (induction xs arbitrary: n)
  case (Cons x xs)
  obtain m where n: "n = Suc m" using Cons.prems(4) by (cases n) auto
  have len: "2 * length (printJson x) < m" using Cons.prems(4) n by (simp add: commas_Cons)
  show ?case
  proof (cases "xs = []")
    case True
    then show ?thesis using Cons.prems(1) [of x "CHR '']'' # rest" m] len n by (simp add: jelements_step)
  next
    case False
    have pos: "0 < length (printJson x)" using Cons.prems(2) [of x] by simp
    have "jelements m d (commas (map printJson xs) @ CHR '']'' # rest) = Some (xs, rest)"
      using Cons.prems(4) n False pos by (intro Cons.IH Cons.prems(1,2)) (simp_all add: commas_Cons)
    then show ?thesis
      using Cons.prems(1) [of x "CHR '','' # commas (map printJson xs) @ CHR '']'' # rest" m] len n False
      by (simp add: jelements_step commas_Cons)
  qed
qed simp

lemma read_members:
  assumes "\<And>k x n rest. (k, x) \<in> set ms \<Longrightarrow> stops rest \<Longrightarrow> 2 * length (printJson x) < n \<Longrightarrow> jvalue n d (printJson x @ rest) = Some (x, rest)"
    "\<And>k x. (k, x) \<in> set ms \<Longrightarrow> validUtf8 k" "ms \<noteq> []" "2 * length (commas (map member ms)) + 1 < n"
  shows "jmembers n d (commas (map member ms) @ CHR ''}'' # rest) = Some (ms, rest)"
  using assms
proof (induction ms arbitrary: n)
  case (Cons kx ms)
  obtain k x where kx: "kx = (k, x)" by (cases kx)
  obtain m where n: "n = Suc m" using Cons.prems(4) by (cases n) auto
  have len: "2 * length (printJson x) < m" using Cons.prems(4) n kx by (simp add: commas_Cons)
  have k: "validUtf8 k" using Cons.prems(2) [of k x] kx by simp
  show ?case
  proof (cases "ms = []")
    case True
    then show ?thesis
      using Cons.prems(1) [of k x "CHR ''}'' # rest" m] len n kx jmembers_step [OF k, of m d "printJson x" "CHR ''}''" rest x] by simp
  next
    case False
    have "jmembers m d (commas (map member ms) @ CHR ''}'' # rest) = Some (ms, rest)"
    proof (rule Cons.IH [OF _ _ False])
      show "jvalue n d (printJson x @ rest) = Some (x, rest)"
        if "(k, x) \<in> set ms" "stops rest" "2 * length (printJson x) < n" for k x n rest
        by (rule Cons.prems(1) [of k, OF _ that(2,3)]) (use that(1) in simp)
      show "validUtf8 k" if "(k, x) \<in> set ms" for k x using Cons.prems(2) [of k x] that by simp
      show "2 * length (commas (map member ms)) + 1 < m"
        using Cons.prems(4) n False kx by (simp add: commas_Cons)
    qed
    then show ?thesis
      using Cons.prems(1) [of k x "CHR '','' # commas (map member ms) @ CHR ''}'' # rest" m] len n kx False
        jmembers_step [OF k, of m d "printJson x" "CHR '',''" "commas (map member ms) @ CHR ''}'' # rest" x]
      by (simp add: commas_Cons)
  qed
qed simp

lemma quoted_opens: "\<exists>cs. quoted k @ s = dquote # cs"
  by (simp add: quoted_def)

text \<open>What is written of a value is read back as this value.\<close>

lemma read_print:
  "jsonOk d v \<Longrightarrow> stops rest \<Longrightarrow> 2 * length (printJson v) < n \<Longrightarrow> jvalue n d (printJson v @ rest) = Some (v, rest)"
proof (induction d v arbitrary: n rest rule: jsonOk.induct)
  case (1 d)
  then obtain m where "n = Suc m" by (cases n) auto
  then show ?case by (simp add: jvalue_scalar opens_def isSpace_def dquote_def scalar_def startsWith_def)
next
  case (2 d b)
  then obtain m where "n = Suc m" by (cases n) auto
  then show ?case by (cases b) (simp_all add: jvalue_scalar opens_def isSpace_def dquote_def scalar_def startsWith_def)
next
  case (3 d t)
  then obtain m where n: "n = Suc m" by (cases n) auto
  obtain c cs where c: "t = c # cs" "opens c" using print_opens [of d "JNum t"] 3(1) by auto
  have "c = CHR ''-'' \<or> isDigit c" using 3(1) c(1) by (auto simp: intLiteral_def list_all_iff)
  then have "c \<notin> {dquote, CHR ''['', CHR ''{''}" by (auto simp: isDigit_def dquote_def)
  then show ?case using scalar_number [of t rest] 3(1,2) c n by (simp add: jvalue_scalar)
next
  case (4 d s)
  then obtain m where n: "n = Suc m" by (cases n) auto
  obtain t where "quoted s @ rest = dquote # t" "unquote t = Some (s, rest)"
    using unquote_quoted [of s rest] 4(1) by auto
  then show ?case using n by (simp add: jvalue_nonterminal)
next
  case (5 d xs)
  then obtain m where n: "n = Suc m" by (cases n) auto
  have d: "0 < d" "\<forall>x\<in>set xs. jsonOk (d - 1) x" using 5(2) by simp_all
  show ?case
  proof (cases "xs = []")
    case True
    then show ?thesis using n d(1) by (simp add: jvalue_nonterminal)
  next
    case False
    have ne: "printJson x \<noteq> []" if "x \<in> set xs" for x using print_opens [of "d - 1" x] d(2) that by auto
    have e: "jelements m (d - 1) (commas (map printJson xs) @ CHR '']'' # rest) = Some (xs, rest)"
      using 5(4) n False d(2) ne by (intro read_elements 5(1)) auto
    have "jsonOk (d - 1) (hd xs)" using d(2) False by simp
    then obtain c cs where c: "printJson (hd xs) = c # cs" "opens c" using print_opens by blast
    then have "\<exists>cs. commas (map printJson xs) = c # cs" using False by (cases xs) (simp_all add: commas_Cons)
    then show ?thesis using e c(2) n d(1) by (auto simp: jvalue_nonterminal opens_def)
  qed
next
  case (6 d ms)
  then obtain m where n: "n = Suc m" by (cases n) auto
  have d: "0 < d" "\<forall>(k, x)\<in>set ms. validUtf8 k \<and> jsonOk (d - 1) x" using 6(2) by simp_all
  show ?case
  proof (cases "ms = []")
    case True
    then show ?thesis using n d(1) by (simp add: jvalue_nonterminal)
  next
    case False
    have e: "jmembers m (d - 1) (commas (map member ms) @ CHR ''}'' # rest) = Some (ms, rest)"
      using 6(4) n False d(2) by (intro read_members 6(1)) auto
    have "\<exists>cs. commas (map member ms) @ CHR ''}'' # rest = dquote # cs"
      using False by (cases ms) (auto simp: commas_Cons quoted_def)
    then show ?thesis using e n d(1) by (auto simp: jvalue_nonterminal)
  qed
qed

lemma parse_print:
  assumes "jsonOk maxNestingDepth v"
  shows "parseJson (printJson v) = Some v"
  using read_print [OF assms, of "[]" "2 * length (printJson v) + 1"] by (simp add: parseJson_def firstValue_def)

text \<open>Texts around the value do not matter to a decoder that reads the first one.\<close>

lemma first_print:
  assumes "jsonOk maxNestingDepth v" "stops rest"
  shows "firstValue (printJson v @ rest) = Some (v, rest)"
  using read_print [OF assms, of "2 * length (printJson v @ rest) + 1"] by (simp add: firstValue_def)

section \<open>Fuel\<close>

text \<open>Every function of the parser leaves at most what it was given, so that twice the length is enough fuel.\<close>

lemma skipSpace_length: "length (skipSpace s) \<le> length s"
  by (simp add: skipSpace_def length_dropWhile_le)

lemma map_prefix_Some: "map_option (apfst f) m = Some (t, r) \<Longrightarrow> \<exists>u. m = Some (u, r)"
  by (cases m) auto

lemma unquote_length: "unquote s = Some (t, r) \<Longrightarrow> length r < length s"
proof (induction s arbitrary: t rule: unquote.induct)
  case (2 c cs)
  consider "c = dquote" | u k where "c = backslash" "unescape cs = Some (u, k)" "\<exists>v. unquote (drop k cs) = Some (v, r)"
    | "c \<noteq> dquote" "c \<noteq> backslash" "\<not> code c < 32" "runeLen (c # cs) = 0" "\<exists>v. unquote cs = Some (v, r)"
    | "c \<noteq> dquote" "c \<noteq> backslash" "\<not> code c < 32" "runeLen (c # cs) \<noteq> 0" "\<exists>v. unquote (drop (runeLen (c # cs) - 1) cs) = Some (v, r)"
    using 2(4) by (auto simp: unquote.simps(2) split: if_splits option.splits dest!: map_prefix_Some)
  then show ?case
  proof cases
    case 1
    then show ?thesis using 2(4) by simp
  next
    case 2
    then show ?thesis using "2.IH"(1) by fastforce
  next
    case 3
    then show ?thesis using "2.IH"(2) by fastforce
  next
    case 4
    then show ?thesis using "2.IH"(3) by fastforce
  qed
qed simp

lemma digits_length: "digits s = Some (ds, r) \<Longrightarrow> length r \<le> length s"
  by (auto simp: digits_def length_dropWhile_le split: if_splits)

lemma exponent_length: "exponent t s = Some (u, r) \<Longrightarrow> length r \<le> length s"
  by (cases s) (auto simp: exponent_def Let_def split: if_splits dest!: digits_length)

lemma fraction_length: "fraction t s = Some (u, r) \<Longrightarrow> length r \<le> length s"
  by (cases s) (fastforce simp: fraction_def bind_eq_Some_conv split: if_splits dest: digits_length exponent_length)+

lemma number_length: "number s = Some (u, r) \<Longrightarrow> length r \<le> length s"
  by (fastforce simp: number_def Let_def bind_eq_Some_conv split: if_splits dest: digits_length fraction_length)

lemma scalar_length: "scalar s = Some (v, r) \<Longrightarrow> length r \<le> length s"
  by (auto simp: scalar_def split: if_splits dest!: number_length)

lemma lists_length [simp]: "map_option (apfst f) m = Some (t, r) \<longleftrightarrow> (\<exists>u. m = Some (u, r) \<and> t = f u)"
  by (cases m) auto

lemma parser_length:
  "jvalue n d s = Some (v, r) \<Longrightarrow> length r \<le> length s"
  "jmembers n d s = Some (ms, r) \<Longrightarrow> length r \<le> length s"
  "jelements n d s = Some (xs, r) \<Longrightarrow> length r \<le> length s"
proof (induction n arbitrary: d s v ms xs r)
  case (Suc n)
  { case 1
    obtain c cs where c: "skipSpace s = c # cs" using 1 by (auto simp: jvalue.simps(2) split: list.splits)
    have le: "Suc (length cs) \<le> length s" using skipSpace_length [of s] c by simp
    have sp: "length (skipSpace cs) \<le> length cs" by (rule skipSpace_length)
    show ?case
      using 1 c le sp scalar_length [of "c # cs" v r] Suc.IH(2,3) [of "d - 1" "skipSpace cs" _ r] unquote_length [of cs _ r]
      by (fastforce simp: jvalue.simps(2) split: if_splits list.splits) }
  { case 2
    then obtain cs k r0 r1 x r2 c3 r3 where *: "skipSpace s = dquote # cs" "unquote cs = Some (k, r0)" "skipSpace r0 = CHR '':'' # r1"
        "jvalue n d r1 = Some (x, r2)" "skipSpace r2 = c3 # r3" "r = r3 \<or> (\<exists>ms. jmembers n d r3 = Some (ms, r))"
      by (auto simp: jmembers.simps(2) split: list.splits option.splits if_splits prod.splits)
    have "length r \<le> length r3" using *(6) Suc.IH(2) by auto
    then show ?case
      using skipSpace_length [of s] skipSpace_length [of r0] skipSpace_length [of r2] Suc.IH(1) [OF *(4)] unquote_length [OF *(2)] *(1,3,5)
      by simp }
  { case 3
    then obtain x r1 c r2 where *: "jvalue n d s = Some (x, r1)" "skipSpace r1 = c # r2" "r = r2 \<or> (\<exists>xs. jelements n d r2 = Some (xs, r))"
      by (auto simp: jelements.simps(2) split: list.splits option.splits if_splits prod.splits)
    have "length r \<le> length r2" using *(3) Suc.IH(3) by auto
    then show ?case using skipSpace_length [of r1] Suc.IH(1) [OF *(1)] *(2) by simp }
qed simp_all

lemma fuel_enough:
  "2 * length s < n \<Longrightarrow> 2 * length s < m \<Longrightarrow> jvalue n d s = jvalue m d s"
  "2 * length s < n \<Longrightarrow> 2 * length s < m \<Longrightarrow> jmembers n d s = jmembers m d s"
  "2 * length s + 1 < n \<Longrightarrow> 2 * length s + 1 < m \<Longrightarrow> jelements n d s = jelements m d s"
proof (induction n arbitrary: m d s)
  case (Suc n)
  { case 1
    then obtain k where m: "m = Suc k" by (cases m) auto
    show ?case
    proof (cases "skipSpace s")
      case (Cons c cs)
      have le: "Suc (length (skipSpace cs)) \<le> length s" using skipSpace_length [of s] skipSpace_length [of cs] Cons by simp
      have "jmembers n (d - 1) (skipSpace cs) = jmembers k (d - 1) (skipSpace cs)" "jelements n (d - 1) (skipSpace cs) = jelements k (d - 1) (skipSpace cs)"
        using le 1 m by (intro Suc.IH; simp)+
      then show ?thesis using Cons by (cases "skipSpace cs") (simp_all add: jvalue.simps(2) m)
    qed (simp add: jvalue.simps(2) m) }
  { case 2
    then obtain k where m: "m = Suc k" by (cases m) auto
    have v: "jvalue n d r1 = jvalue k d r1" if "skipSpace s = c # cs" "unquote cs = Some (x, r)" "skipSpace r = e # r1" for c cs x r e r1
      using skipSpace_length [of s] skipSpace_length [of r] unquote_length [OF that(2)] that(1,3) 2 m by (intro Suc.IH(1)) simp_all
    have ms: "jmembers n d r3 = jmembers k d r3"
      if "skipSpace s = c # cs" "unquote cs = Some (x, r)" "skipSpace r = e # r1" "jvalue k d r1 = Some (y, r2)" "skipSpace r2 = e' # r3"
      for c cs x r e r1 y r2 e' r3
      using skipSpace_length [of s] skipSpace_length [of r] skipSpace_length [of r2] unquote_length [OF that(2)] parser_length(1) [OF that(4)] that(1,3,5) 2 m
      by (intro Suc.IH(2)) simp_all
    show ?case by (simp add: jmembers.simps(2) m v ms split: list.splits option.splits prod.splits) }
  { case 3
    then obtain k where m: "m = Suc k" by (cases m) auto
    have v: "jvalue n d s = jvalue k d s" using 3 m by (intro Suc.IH(1)) simp_all
    have xs: "jelements n d r2 = jelements k d r2" if "jvalue k d s = Some (y, r1)" "skipSpace r1 = c # r2" for y r1 c r2
      using skipSpace_length [of r1] parser_length(1) [OF that(1)] that(2) 3 m by (intro Suc.IH(3)) simp_all
    show ?case by (simp add: jelements.simps(2) m v xs split: list.splits option.splits prod.splits) }
qed simp_all

end
