(* ===== verification/JsonFrames.thy ===== *)
theory JsonFrames
  imports Json Recovery Client
begin

text \<open>
  The structures that \<open>e2ewebsocket/recovery.go\<close>, \<open>ws_client.go\<close> and \<open>configparser/config_parser.go\<close> exchange as
  JSON, with the names and options of their tags, over the model of \<open>encoding/json\<close> in \<open>Json\<close>.  They
  instantiate the decoders that \<open>Recovery\<close>, \<open>ConnModel\<close> and \<open>Client\<close> take as arguments.
\<close>

section \<open>Base64\<close>

definition b64char :: "nat \<Rightarrow> char" where
  "b64char n =
     char_of (if n < 26 then 65 + n else if n < 52 then 71 + n else if n < 62 then n - 4 else if n = 62 then 43 else 47)"

definition b64val :: "char \<Rightarrow> nat option" where
  "b64val c =
     (if 65 \<le> code c \<and> code c \<le> 90 then Some (code c - 65)
      else if 97 \<le> code c \<and> code c \<le> 122 then Some (code c - 71)
      else if 48 \<le> code c \<and> code c \<le> 57 then Some (code c + 4)
      else if code c = 43 then Some 62
      else if code c = 47 then Some 63
      else None)"

fun base64 :: "bytes \<Rightarrow> string" where
  "base64 [] = []"
| "base64 [x] = [b64char (unat x div 4), b64char (unat x mod 4 * 16), CHR ''='', CHR ''='']"
| "base64 [x, y] = [b64char (unat x div 4), b64char (unat x mod 4 * 16 + unat y div 16), b64char (unat y mod 16 * 4), CHR ''='']"
| "base64 (x # y # z # r) =
     b64char (unat x div 4) # b64char (unat x mod 4 * 16 + unat y div 16) # b64char (unat y mod 16 * 4 + unat z div 64) #
     b64char (unat z mod 64) # base64 r"

text \<open>Quadruples, the last of which may be padded; what is left of the last character is ignored.\<close>

fun unbase64 :: "string \<Rightarrow> bytes option" where
  "unbase64 [] = Some []"
| "unbase64 (a # b # c # d # r) =
     (case (b64val a, b64val b) of
        (Some i, Some j) \<Rightarrow>
          if d = CHR ''='' then
            (if r \<noteq> [] then None
             else if c = CHR ''='' then Some [of_nat (i * 4 + j div 16)]
             else case b64val c of None \<Rightarrow> None
               | Some k \<Rightarrow> Some [of_nat (i * 4 + j div 16), of_nat (j mod 16 * 16 + k div 4)])
          else
            (case (b64val c, b64val d) of
               (Some k, Some l) \<Rightarrow>
                 map_option (\<lambda>x. of_nat (i * 4 + j div 16) # of_nat (j mod 16 * 16 + k div 4) # of_nat (k mod 4 * 64 + l) # x) (unbase64 r)
             | _ \<Rightarrow> None)
      | _ \<Rightarrow> None)"
| "unbase64 _ = None"

text \<open>Line breaks in the text are skipped.\<close>

definition decodeBase64 :: "string \<Rightarrow> bytes option" where
  "decodeBase64 s = unbase64 (filter (\<lambda>c. code c \<noteq> 10 \<and> code c \<noteq> 13) s)"

lemma code_b64char: "n < 64 \<Longrightarrow> code (b64char n) = (if n < 26 then 65 + n else if n < 52 then 71 + n else if n < 62 then n - 4 else if n = 62 then 43 else 47)"
  by (simp add: b64char_def)

lemma b64val_b64char [simp]: "n < 64 \<Longrightarrow> b64val (b64char n) = Some n"
  by (cases "n < 26"; cases "n < 52"; cases "n < 62"; auto simp: b64val_def code_b64char)

lemma b64char_not_pad [simp]: "n < 64 \<Longrightarrow> b64char n \<noteq> CHR ''=''"
proof
  assume "n < 64" "b64char n = CHR ''=''"
  then have "b64val (CHR ''='') = Some n" using b64val_b64char by metis
  then show False by (simp add: b64val_def)
qed

lemma b64char_plain: "n < 64 \<Longrightarrow> 43 \<le> code (b64char n) \<and> code (b64char n) < 128"
  by (auto simp: code_b64char)

lemma byte_pieces:
  fixes x y z :: byte
  shows "unat x div 4 < 64" "unat x mod 4 * 16 + unat y div 16 < 64" "unat x mod 4 * 16 < 64" "unat y mod 16 * 4 + unat z div 64 < 64"
    "unat y mod 16 * 4 < 64" "unat z mod 64 < 64"
  using unat_byte_less [of x] unat_byte_less [of y] unat_byte_less [of z] by linarith+

lemma pieces_join:
  fixes x y z :: nat
  assumes "x < 256" "y < 256" "z < 256"
  shows "x div 4 * 4 + (x mod 4 * 16 + y div 16) div 16 = x" "x div 4 * 4 + x mod 4 * 16 div 16 = x"
    "(x mod 4 * 16 + y div 16) mod 16 * 16 + (y mod 16 * 4 + z div 64) div 4 = y"
    "(x mod 4 * 16 + y div 16) mod 16 * 16 + y mod 16 * 4 div 4 = y"
    "(y mod 16 * 4 + z div 64) mod 4 * 64 + z mod 64 = z"
proof -
  have "y div 16 < 16" "z div 64 < 4" using assms by simp_all
  then show "x div 4 * 4 + (x mod 4 * 16 + y div 16) div 16 = x" "x div 4 * 4 + x mod 4 * 16 div 16 = x"
    "(x mod 4 * 16 + y div 16) mod 16 * 16 + (y mod 16 * 4 + z div 64) div 4 = y"
    "(x mod 4 * 16 + y div 16) mod 16 * 16 + y mod 16 * 4 div 4 = y"
    "(y mod 16 * 4 + z div 64) mod 4 * 64 + z mod 64 = z"
    by (simp_all add: div_mult_mod_eq)
qed

lemmas byte_join = pieces_join [OF unat_byte_less unat_byte_less unat_byte_less]

lemma word_unat_eq: "of_nat (unat x) = (x :: byte)"
  by simp

lemmas b64_steps = base64.simps unbase64.simps b64val_b64char [OF byte_pieces(1)] b64val_b64char [OF byte_pieces(2)]
  b64val_b64char [OF byte_pieces(3)] b64val_b64char [OF byte_pieces(4)] b64val_b64char [OF byte_pieces(5)] b64val_b64char [OF byte_pieces(6)]
  b64char_not_pad [OF byte_pieces(5)] b64char_not_pad [OF byte_pieces(6)] byte_join word_unat_eq

lemma unbase64_base64: "unbase64 (base64 b) = Some b"
  by (induction b rule: base64.induct)
    (simp_all only: b64_steps option.simps prod.case if_True if_False simp_thms map_option_case not_Cons_self2 HOL.refl)

section \<open>Fields\<close>

definition upperChar :: "char \<Rightarrow> char" where
  "upperChar c = (if 97 \<le> code c \<and> code c \<le> 122 then char_of (code c - 32) else c)"

text \<open>Names are compared without case when no field has the exact name.  Outside ASCII only the long s and the
  Kelvin sign fold to letters that occur in the names.\<close>

function foldName :: "string \<Rightarrow> string" where
  "foldName [] = []"
| "foldName (c # cs) =
     (if take 2 (c # cs) = encodeRune 0x17F then CHR ''S'' # foldName (drop 1 cs)
      else if take 3 (c # cs) = encodeRune 0x212A then CHR ''K'' # foldName (drop 2 cs)
      else upperChar c # foldName cs)"
  by pat_completeness auto
termination by (relation "measure length") auto

definition fieldOf :: "string list \<Rightarrow> string \<Rightarrow> string option" where
  "fieldOf names key = (if key \<in> set names then Some key else find (\<lambda>n. foldName n = foldName key) names)"

text \<open>The members of an object are stored in turn; unknown names are skipped, a value of the wrong kind makes the
  whole call fail.\<close>

fun decodeFields :: "(string \<Rightarrow> json \<Rightarrow> 's \<Rightarrow> 's option) \<Rightarrow> string list \<Rightarrow> (string \<times> json) list \<Rightarrow> 's \<Rightarrow> 's option" where
  "decodeFields f names [] st = Some st"
| "decodeFields f names ((k, v) # ms) st =
     (case fieldOf names k of None \<Rightarrow> decodeFields f names ms st
      | Some n \<Rightarrow> Option.bind (f n v st) (decodeFields f names ms))"

definition decodeStruct :: "(string \<Rightarrow> json \<Rightarrow> 's \<Rightarrow> 's option) \<Rightarrow> string list \<Rightarrow> json \<Rightarrow> 's \<Rightarrow> 's option" where
  "decodeStruct f names v st = (case v of JObj ms \<Rightarrow> decodeFields f names ms st | JNull \<Rightarrow> Some st | _ \<Rightarrow> None)"

definition decodeString :: "json \<Rightarrow> string \<Rightarrow> string option" where
  "decodeString v s = (case v of JStr t \<Rightarrow> Some t | JNull \<Rightarrow> Some s | _ \<Rightarrow> None)"

definition natOf :: "string \<Rightarrow> nat" where
  "natOf ds = foldl (\<lambda>n c. 10 * n + (code c - 48)) 0 ds"

text \<open>\<open>strconv.ParseInt\<close> to 64 bits and \<open>ParseUint\<close> to 8 on the literal of a number.\<close>

definition parseInt64 :: "string \<Rightarrow> int option" where
  "parseInt64 t =
     (let neg = (t \<noteq> [] \<and> hd t = CHR ''-''); ds = (if neg then tl t else t); n = int (natOf ds) in
      if ds = [] \<or> \<not> list_all isDigit ds then None
      else if neg then (if n \<le> 2 ^ 63 then Some (- n) else None)
      else (if n < 2 ^ 63 then Some n else None))"

definition parseUint8 :: "string \<Rightarrow> byte option" where
  "parseUint8 t = (if t = [] \<or> \<not> list_all isDigit t \<or> 255 < natOf t then None else Some (of_nat (natOf t)))"

definition decodeInt64 :: "json \<Rightarrow> int \<Rightarrow> int option" where
  "decodeInt64 v i = (case v of JNum t \<Rightarrow> parseInt64 t | JNull \<Rightarrow> Some i | _ \<Rightarrow> None)"

definition decodeUint8 :: "json \<Rightarrow> byte \<Rightarrow> byte option" where
  "decodeUint8 v b = (case v of JNum t \<Rightarrow> parseUint8 t | JNull \<Rightarrow> Some b | _ \<Rightarrow> None)"

text \<open>A slice with its backing array, whose elements decoding uses again: when a name occurs twice, the second
  array is decoded into the elements of the first.\<close>

type_synonym 'a slice = "'a list \<times> nat"

definition elems :: "'a slice \<Rightarrow> 'a list" where
  "elems s = take (snd s) (fst s)"

fun decodeElems :: "(json \<Rightarrow> 'a \<Rightarrow> 'a option) \<Rightarrow> 'a \<Rightarrow> json list \<Rightarrow> 'a list \<Rightarrow> 'a list option" where
  "decodeElems f z [] backing = Some backing"
| "decodeElems f z (v # vs) [] = Option.bind (f v z) (\<lambda>x. map_option ((#) x) (decodeElems f z vs []))"
| "decodeElems f z (v # vs) (b # backing) = Option.bind (f v b) (\<lambda>x. map_option ((#) x) (decodeElems f z vs backing))"

definition decodeSlice :: "(json \<Rightarrow> 'a \<Rightarrow> 'a option) \<Rightarrow> 'a \<Rightarrow> json \<Rightarrow> 'a slice \<Rightarrow> 'a slice option" where
  "decodeSlice f z v s =
     (case v of JNull \<Rightarrow> Some ([], 0)
      | JArr vs \<Rightarrow> if vs = [] then Some ([], 0) else map_option (\<lambda>b. (b, length vs)) (decodeElems f z vs (fst s))
      | _ \<Rightarrow> None)"

definition decodeBytes :: "json \<Rightarrow> byte slice \<Rightarrow> byte slice option" where
  "decodeBytes v s =
     (case v of JStr t \<Rightarrow> map_option (\<lambda>b. (b, length b)) (decodeBase64 t) | _ \<Rightarrow> decodeSlice decodeUint8 0 v s)"

section \<open>Control frames\<close>

definition string_of_bytes :: "bytes \<Rightarrow> string" where
  "string_of_bytes b = map (\<lambda>w. char_of (unat w)) b"

text \<open>Writing: fields in the order of the structure, empty ones left out where the tag says so.\<close>

definition omitEmpty :: "bool \<Rightarrow> string \<Rightarrow> json \<Rightarrow> (string \<times> json) list" where
  "omitEmpty isEmpty name v = (if isEmpty then [] else [(name, v)])"

definition refJson :: "secureMessageRef \<Rightarrow> json" where
  "refJson r =
     JObj (omitEmpty (mr_SendID r = []) ''sendID'' (JStr (mr_SendID r)) @
           omitEmpty (mr_RecvID r = []) ''recvID'' (JStr (mr_RecvID r)) @
           omitEmpty (mr_ClientMsgID r = []) ''clientMsgID'' (JStr (mr_ClientMsgID r)) @
           omitEmpty (mr_ServerMsgID r = []) ''serverMsgID'' (JStr (mr_ServerMsgID r)) @
           omitEmpty (mr_Seq r = 0) ''seq'' (JNum (decimal (mr_Seq r))))"

definition payloadJson :: "secureControlMsgPayload \<Rightarrow> json" where
  "payloadJson p = JObj ((''ref'', refJson (cp_Ref p)) # omitEmpty (cp_Content p = []) ''content'' (JStr (base64 (cp_Content p))))"

definition frameJson :: "secureControlFrame \<Rightarrow> json" where
  "frameJson f =
     JObj ((''type'', JStr (cf_Type f)) # omitEmpty (cf_Messages f = []) ''messages'' (JArr (map payloadJson (cf_Messages f))))"

definition marshalFrame :: "secureControlFrame \<Rightarrow> bytes" where
  "marshalFrame f = bytes_of_string (printJson (frameJson f))"

text \<open>Reading.\<close>

definition emptyRef :: secureMessageRef where
  "emptyRef = \<lparr>mr_SendID = [], mr_RecvID = [], mr_ClientMsgID = [], mr_ServerMsgID = [], mr_Seq = 0\<rparr>"

definition refField :: "string \<Rightarrow> json \<Rightarrow> secureMessageRef \<Rightarrow> secureMessageRef option" where
  "refField n v r =
     (if n = ''sendID'' then map_option (\<lambda>s. r\<lparr>mr_SendID := s\<rparr>) (decodeString v (mr_SendID r))
      else if n = ''recvID'' then map_option (\<lambda>s. r\<lparr>mr_RecvID := s\<rparr>) (decodeString v (mr_RecvID r))
      else if n = ''clientMsgID'' then map_option (\<lambda>s. r\<lparr>mr_ClientMsgID := s\<rparr>) (decodeString v (mr_ClientMsgID r))
      else if n = ''serverMsgID'' then map_option (\<lambda>s. r\<lparr>mr_ServerMsgID := s\<rparr>) (decodeString v (mr_ServerMsgID r))
      else map_option (\<lambda>i. r\<lparr>mr_Seq := i\<rparr>) (decodeInt64 v (mr_Seq r)))"

definition refNames :: "string list" where
  "refNames = [''sendID'', ''recvID'', ''clientMsgID'', ''serverMsgID'', ''seq'']"

definition payloadField :: "string \<Rightarrow> json \<Rightarrow> secureMessageRef \<times> byte slice \<Rightarrow> (secureMessageRef \<times> byte slice) option" where
  "payloadField n v p =
     (if n = ''ref'' then map_option (\<lambda>r. (r, snd p)) (decodeStruct refField refNames v (fst p))
      else map_option (\<lambda>c. (fst p, c)) (decodeBytes v (snd p)))"

definition decodePayload :: "json \<Rightarrow> secureMessageRef \<times> byte slice \<Rightarrow> (secureMessageRef \<times> byte slice) option" where
  "decodePayload v p = decodeStruct payloadField [''ref'', ''content''] v p"

definition frameField ::
  "string \<Rightarrow> json \<Rightarrow> string \<times> (secureMessageRef \<times> byte slice) slice \<Rightarrow> (string \<times> (secureMessageRef \<times> byte slice) slice) option" where
  "frameField n v f =
     (if n = ''type'' then map_option (\<lambda>t. (t, snd f)) (decodeString v (fst f))
      else map_option (\<lambda>ms. (fst f, ms)) (decodeSlice decodePayload (emptyRef, [], 0) v (snd f)))"

definition decodedFrame :: "string \<times> (secureMessageRef \<times> byte slice) slice \<Rightarrow> secureControlFrame" where
  "decodedFrame f =
     \<lparr>cf_Type = fst f, cf_Messages = map (\<lambda>p. \<lparr>cp_Ref = fst p, cp_Content = elems (snd p)\<rparr>) (elems (snd f))\<rparr>"

definition unmarshalFrame :: "bytes \<Rightarrow> secureControlFrame option" where
  "unmarshalFrame payload =
     Option.bind (parseJson (string_of_bytes payload)) (\<lambda>v.
     map_option decodedFrame (decodeStruct frameField [''type'', ''messages''] v ([], [], 0)))"

section \<open>Reading what was written\<close>

lemma string_of_bytes_inverse [simp]: "string_of_bytes (bytes_of_string s) = s"
  by (simp add: string_of_bytes_def bytes_of_string_def comp_def)

lemma decodeFields_append:
  "decodeFields f ns (xs @ ys) st = Option.bind (decodeFields f ns xs st) (decodeFields f ns ys)"
  by (induction f ns xs st rule: decodeFields.induct) (simp_all split: option.splits Option.bind_splits)

lemma fieldOf_exact: "n \<in> set ns \<Longrightarrow> fieldOf ns n = Some n"
  by (simp add: fieldOf_def)

lemma decode_omitEmpty:
  assumes "n \<in> set ns" "e \<Longrightarrow> st' = st" "\<not> e \<Longrightarrow> f n v st = Some st'"
  shows "decodeFields f ns (omitEmpty e n v) st = Some st'"
  using assms by (cases e) (simp_all add: omitEmpty_def fieldOf_exact)

lemma decodeElems_fresh:
  "(\<And>x. x \<in> set xs \<Longrightarrow> f (g x) z = Some (h x)) \<Longrightarrow> decodeElems f z (map g xs) [] = Some (map h xs)"
  by (induction xs) simp_all

text \<open>Decimal numbers.\<close>

lemma natOf_append: "natOf (xs @ [c]) = 10 * natOf xs + (code c - 48)"
  by (simp add: natOf_def)

lemma decimal_nat_digits: "list_all isDigit (decimal_nat n) \<and> decimal_nat n \<noteq> [] \<and> natOf (decimal_nat n) = n"
proof (induction n rule: decimal_nat.induct)
  case (1 n)
  have c: "isDigit (char_of (48 + k :: nat))" "code (char_of (48 + k :: nat)) - 48 = k" if "k < 10" for k
    using that by (simp_all add: isDigit_def)
  show ?case
  proof (cases "n < 10")
    case True
    then show ?thesis using c [of n] by (simp add: decimal_nat.simps [of n] natOf_def)
  next
    case False
    then show ?thesis
      using 1 c [of "n mod 10"] by (simp add: decimal_nat.simps [of n] natOf_append)
  qed
qed

lemma decimal_nat_hd: "hd (decimal_nat n) = CHR ''0'' \<Longrightarrow> n = 0"
proof (induction n rule: decimal_nat.induct)
  case (1 n)
  show ?case
  proof (cases "n < 10")
    case True
    have "code (char_of (48 + n)) = 48" using 1(2) True by (simp add: decimal_nat.simps [of n])
    then show ?thesis using True by simp
  next
    case False
    then have "hd (decimal_nat n) = hd (decimal_nat (n div 10))"
      using decimal_nat_digits [of "n div 10"] by (simp add: decimal_nat.simps [of n])
    then show ?thesis using 1 False by simp
  qed
qed

lemma decimal_intLiteral: "intLiteral (decimal i)"
proof -
  have l: "hd (decimal_nat n) = CHR ''0'' \<longrightarrow> length (decimal_nat n) = 1" for n
    using decimal_nat_hd [of n] by (auto simp: decimal_nat.simps [of 0])
  then show ?thesis
    using decimal_nat_digits unfolding intLiteral_def decimal_def by (cases "i < 0") auto
qed

lemma parseInt64_decimal:
  assumes "- (2 ^ 63) \<le> i" "i < 2 ^ 63"
  shows "parseInt64 (decimal i) = Some i"
proof -
  have h: "hd (decimal_nat n) \<noteq> CHR ''-''" for n using decimal_nat_digits [of n] by (cases "decimal_nat n") auto
  show ?thesis using assms decimal_nat_digits h by (cases "i < 0") (simp_all add: parseInt64_def decimal_def Let_def)
qed

text \<open>Frames that survive JSON: what is in them is UTF-8.\<close>

definition refOk :: "secureMessageRef \<Rightarrow> bool" where
  "refOk r \<longleftrightarrow> validUtf8 (mr_SendID r) \<and> validUtf8 (mr_RecvID r) \<and> validUtf8 (mr_ClientMsgID r) \<and> validUtf8 (mr_ServerMsgID r) \<and>
     - (2 ^ 63) \<le> mr_Seq r \<and> mr_Seq r < 2 ^ 63"

definition frameOk :: "secureControlFrame \<Rightarrow> bool" where
  "frameOk f \<longleftrightarrow> validUtf8 (cf_Type f) \<and> list_all (\<lambda>p. refOk (cp_Ref p)) (cf_Messages f)"

lemma validUtf8_ascii: "list_all (\<lambda>c. code c < 128) s \<Longrightarrow> validUtf8 s"
proof (induction s)
  case (Cons c s)
  then have "runeLen (c # s) = 1" by (simp add: runeLen_def rune1_def byteIn_def)
  then show ?case using Cons by (simp add: validUtf8.simps(2))
qed simp

lemma base64_ascii: "list_all (\<lambda>c. 43 \<le> code c \<and> code c < 128) (base64 b)"
  by (induction b rule: base64.induct) (simp_all add: b64char_plain byte_pieces)

lemma base64_utf8: "validUtf8 (base64 b)"
  using base64_ascii [of b] by (intro validUtf8_ascii) (auto simp: list_all_iff)

lemma decodeBase64_base64: "decodeBase64 (base64 b) = Some b"
proof -
  have "filter (\<lambda>c. code c \<noteq> 10 \<and> code c \<noteq> 13) (base64 b) = base64 b"
    using base64_ascii [of b] by (intro filter_True) (auto simp: list_all_iff)
  then show ?thesis by (simp add: decodeBase64_def unbase64_base64)
qed

lemma omitEmpty_ok: "(\<not> e \<Longrightarrow> validUtf8 n \<and> jsonOk d v) \<Longrightarrow> (\<forall>(k, x)\<in>set (omitEmpty e n v). validUtf8 k \<and> jsonOk d x)"
  by (simp add: omitEmpty_def)

lemma refJson_ok: "refOk r \<Longrightarrow> 0 < d \<Longrightarrow> jsonOk d (refJson r)"
  unfolding refJson_def refOk_def jsonOk.simps set_append ball_Un
  by (intro conjI omitEmpty_ok) (simp_all add: validUtf8_ascii decimal_intLiteral)

lemma payloadJson_ok: "refOk (cp_Ref p) \<Longrightarrow> 1 < d \<Longrightarrow> jsonOk d (payloadJson p)"
  using refJson_ok [of "cp_Ref p" "d - 1"]
  by (simp add: payloadJson_def omitEmpty_def validUtf8_ascii base64_utf8)

lemma frameJson_ok: "frameOk f \<Longrightarrow> 3 < d \<Longrightarrow> jsonOk d (frameJson f)"
  by (auto simp: frameJson_def omitEmpty_def validUtf8_ascii frameOk_def list_all_iff intro!: payloadJson_ok)

lemma decode_ref: "refOk r \<Longrightarrow> decodeStruct refField refNames (refJson r) emptyRef = Some r"
proof -
  assume r: "refOk r"
  let ?r1 = "emptyRef\<lparr>mr_SendID := mr_SendID r\<rparr>"
  let ?r2 = "?r1\<lparr>mr_RecvID := mr_RecvID r\<rparr>"
  let ?r3 = "?r2\<lparr>mr_ClientMsgID := mr_ClientMsgID r\<rparr>"
  let ?r4 = "?r3\<lparr>mr_ServerMsgID := mr_ServerMsgID r\<rparr>"
  have 1: "decodeFields refField refNames (omitEmpty (mr_SendID r = []) ''sendID'' (JStr (mr_SendID r))) emptyRef = Some ?r1"
    by (rule decode_omitEmpty) (simp_all add: refNames_def refField_def decodeString_def emptyRef_def)
  have 2: "decodeFields refField refNames (omitEmpty (mr_RecvID r = []) ''recvID'' (JStr (mr_RecvID r))) ?r1 = Some ?r2"
    by (rule decode_omitEmpty) (simp_all add: refNames_def refField_def decodeString_def emptyRef_def)
  have 3: "decodeFields refField refNames (omitEmpty (mr_ClientMsgID r = []) ''clientMsgID'' (JStr (mr_ClientMsgID r))) ?r2 = Some ?r3"
    by (rule decode_omitEmpty) (simp_all add: refNames_def refField_def decodeString_def emptyRef_def)
  have 4: "decodeFields refField refNames (omitEmpty (mr_ServerMsgID r = []) ''serverMsgID'' (JStr (mr_ServerMsgID r))) ?r3 = Some ?r4"
    by (rule decode_omitEmpty) (simp_all add: refNames_def refField_def decodeString_def emptyRef_def)
  have 5: "decodeFields refField refNames (omitEmpty (mr_Seq r = 0) ''seq'' (JNum (decimal (mr_Seq r)))) ?r4 = Some r"
    by (rule decode_omitEmpty) (use r in \<open>simp_all add: refNames_def refField_def decodeInt64_def emptyRef_def parseInt64_decimal refOk_def\<close>)
  show ?thesis by (simp add: decodeStruct_def refJson_def decodeFields_append 1 2 3 4 5)
qed

lemma decode_payload:
  assumes "refOk (cp_Ref p)"
  shows "decodePayload (payloadJson p) (emptyRef, [], 0) = Some (cp_Ref p, cp_Content p, length (cp_Content p))"
  using decode_ref [OF assms]
  by (simp add: decodePayload_def payloadJson_def decodeStruct_def payloadField_def fieldOf_exact omitEmpty_def decodeBytes_def decodeBase64_base64)

text \<open>A control frame that is written as JSON is read back as it was, whatever characters its identifiers and
  contents are made of, as long as the identifiers are UTF-8.\<close>

lemma frame_roundtrip:
  assumes "frameOk f"
  shows "unmarshalFrame (marshalFrame f) = Some f"
proof -
  have "parseJson (printJson (frameJson f)) = Some (frameJson f)"
    by (rule parse_print) (use frameJson_ok [OF assms, of maxNestingDepth] in \<open>simp add: maxNestingDepth_def\<close>)
  moreover have "decodeElems decodePayload (emptyRef, [], 0) (map payloadJson (cf_Messages f)) [] =
      Some (map (\<lambda>p. (cp_Ref p, cp_Content p, length (cp_Content p))) (cf_Messages f))"
    using assms by (intro decodeElems_fresh decode_payload) (auto simp: frameOk_def list_all_iff)
  moreover have "decodedFrame (cf_Type f, map (\<lambda>p. (cp_Ref p, cp_Content p, length (cp_Content p))) (cf_Messages f), length (cf_Messages f)) = f"
    by (rule secureControlFrame.equality) (simp_all add: decodedFrame_def elems_def comp_def secureControlMsgPayload.equality map_idI)
  moreover have "decodedFrame (cf_Type f, [], 0) = f" if "cf_Messages f = []"
    by (rule secureControlFrame.equality) (simp_all add: decodedFrame_def elems_def that)
  ultimately show ?thesis
    by (simp add: unmarshalFrame_def marshalFrame_def frameJson_def decodeStruct_def frameField_def fieldOf_exact omitEmpty_def
        decodeString_def decodeSlice_def)
qed

text \<open>C30: a lost message comes back over the wire format: the request of the receiver, written as JSON and read by the
  sender, is answered from the cache, and the answer, written and read in turn, restores the message with the
  text that was sent.  It is delivered in the order of the sequence numbers together with the messages it
  releases, or held back for a lower one that is still missing, and nothing else changes hands.\<close>

theorem recovery_over_json:
  assumes "cache_ok sc" "GetClientMsgID m \<noteq> []" "mr_ClientMsgID ref = GetClientMsgID m" "refOk ref" "refOk (messageRef m)"
    "reorderMap_ok ro" "\<And>xs. mset (visit xs) = mset xs" "ro sid = Some st" "map_of (ro_lost st) (messageRefKey ref) = Some l"
    "map_of (ro_pending st) (messageRefKey ref) = None"
    "MsgDataToBytesReadBound K uuid now (SetContent (GetContent m) (li_msgData l)) rt = (Ok b, rt')"
  shows "\<exists>request answer qs st'.
    requestLostAfterHandshake True wait ref = Some request \<and>
    handleSecureControl K2 uuid2 now2 visit2 unmarshalFrame sid2 peer2 (marshalFrame request) (cacheOutboundMessage m sc) s =
      ([], Some answer, s) \<and>
    handleSecureControl K uuid now visit unmarshalFrame sid peer (marshalFrame answer) sc3 (ro, rt) =
      (map pi_item qs, None, ro(sid \<mapsto> st'), rt') \<and>
    sorted (map (\<lambda>p. mr_Seq (pi_ref p)) qs) \<and>
    mset qs + mset (map snd (ro_pending st')) = mset (map snd (ro_pending st)) +
      {#\<lparr>pi_ref = li_ref l, pi_item = \<lparr>ri_sessionId = sid, ri_remoteId = peer, ri_msgType = li_msgType l, ri_msg = b, ri_err = None\<rparr>\<rparr>#} \<and>
    map_of (ro_lost st') (messageRefKey ref) = None"
proof -
  obtain request answer msg where x: "requestLostAfterHandshake True wait ref = Some request" "cf_Type request = secureControlLostRequest"
      "handleLostRequest (cf_Messages request) (cacheOutboundMessage m sc) = Some answer" "cf_Type answer = secureControlRetransmit"
      "cf_Messages answer = [msg]" "cp_Content msg = GetContent m" "cp_Ref msg = mergeMessageRef ref (messageRef m)"
      "findLost (cp_Ref msg) st = Some (messageRefKey ref, l)"
    using recovery_roundtrip [OF assms(1,2,9,3)] by blast
  have "request = \<lparr>cf_Type = secureControlLostRequest, cf_Messages = [\<lparr>cp_Ref = ref, cp_Content = []\<rparr>]\<rparr>"
    using x(1) by (simp add: requestLostAfterHandshake_def)
  then have "frameOk request" using assms(4) by (simp add: frameOk_def secureControlLostRequest_def validUtf8_ascii)
  then have r: "unmarshalFrame (marshalFrame request) = Some request" by (rule frame_roundtrip)
  have "refOk (cp_Ref msg)" using assms(4,5) x(7) by (simp add: refOk_def mergeMessageRef_def)
  then have "frameOk answer" using x(4,5) by (simp add: frameOk_def secureControlRetransmit_def validUtf8_ascii)
  then have a: "unmarshalFrame (marshalFrame answer) = Some answer" by (rule frame_roundtrip)
  obtain items ro' rt'' where h: "handleRetransmit K uuid now visit sid peer [msg] (ro, rt) = (items, ro', rt'')" by (metis prod_cases3)
  obtain qs st' where q: "items = map pi_item qs" "sorted (map (\<lambda>p. mr_Seq (pi_ref p)) qs)"
      "mset qs + mset (map snd (ro_pending st')) = mset (map snd (ro_pending st)) +
        {#\<lparr>pi_ref = li_ref l, pi_item = \<lparr>ri_sessionId = sid, ri_remoteId = peer, ri_msgType = li_msgType l, ri_msg = b, ri_err = None\<rparr>\<rparr>#}"
      "ro' = ro(sid \<mapsto> st')" "map_of (ro_lost st') (messageRefKey ref) = None" "rt'' = rt'"
    using retransmit_in_order [OF assms(6,7,8) x(8) assms(10) _ h] assms(11) x(6) by auto
  have "handleSecureControl K2 uuid2 now2 visit2 unmarshalFrame sid2 peer2 (marshalFrame request) (cacheOutboundMessage m sc) s = ([], Some answer, s)"
    using r x(2,3) by (simp add: handleSecureControl_def)
  moreover have "handleSecureControl K uuid now visit unmarshalFrame sid peer (marshalFrame answer) sc3 (ro, rt) =
      (map pi_item qs, None, ro(sid \<mapsto> st'), rt')"
    using a x(4,5) h q(1,4,6) by (simp add: handleSecureControl_def secureControlLostRequest_def secureControlRetransmit_def)
  ultimately show ?thesis using x(1) q(2,3,5) by blast
qed

section \<open>Texts of the client\<close>

definition messageField :: "string \<Rightarrow> json \<Rightarrow> string \<Rightarrow> string option" where
  "messageField n v s = decodeString v s"

text \<open>The content field of a message, as \<open>parseMsg\<close> reads it.\<close>

definition readContent :: "bytes \<Rightarrow> string option" where
  "readContent b = Option.bind (parseJson (string_of_bytes b)) (\<lambda>v. decodeStruct messageField [''content''] v [])"

definition configField :: "string \<Rightarrow> json \<Rightarrow> ClientConfig \<Rightarrow> ClientConfig option" where
  "configField n v c =
     (if n = ''operationID'' then map_option (\<lambda>s. c\<lparr>cc_OperationID := s\<rparr>) (decodeString v (cc_OperationID c))
      else if n = ''sendID'' then map_option (\<lambda>s. c\<lparr>cc_SendID := s\<rparr>) (decodeString v (cc_SendID c))
      else if n = ''receiveID'' then map_option (\<lambda>s. c\<lparr>cc_ReceiveID := s\<rparr>) (decodeString v (cc_ReceiveID c))
      else if n = ''senderNickname'' then map_option (\<lambda>s. c\<lparr>cc_SenderNickname := s\<rparr>) (decodeString v (cc_SenderNickname c))
      else if n = ''token'' then map_option (\<lambda>s. c\<lparr>cc_Token := s\<rparr>) (decodeString v (cc_Token c))
      else map_option (\<lambda>s. c\<lparr>cc_ServerAddr := s\<rparr>) (decodeString v (cc_ServerAddr c)))"

definition configNames :: "string list" where
  "configNames = [''operationID'', ''sendID'', ''receiveID'', ''senderNickname'', ''token'', ''serverAddr'']"

text \<open>The configuration file is read by a decoder, which stops after the first value.\<close>

definition readConfig :: "bytes \<Rightarrow> ClientConfig option" where
  "readConfig b =
     Option.bind (firstValue (string_of_bytes b)) (\<lambda>(v, _).
     decodeStruct configField configNames v
       \<lparr>cc_OperationID = [], cc_SendID = [], cc_ReceiveID = [], cc_SenderNickname = [], cc_Token = [], cc_ServerAddr = []\<rparr>)"

text \<open>Texts without a character that JSON escapes.\<close>

definition unescaped :: "string \<Rightarrow> bool" where
  "unescaped t \<longleftrightarrow> validUtf8 t \<and> list_all (\<lambda>c. c \<noteq> dquote \<and> c \<noteq> backslash \<and> 32 \<le> code c) t"

lemma list_all_drop: "list_all P xs \<Longrightarrow> list_all P (drop k xs)"
  by (auto simp: list_all_iff dest: in_set_dropD)

lemma unquote_unescaped: "unescaped t \<Longrightarrow> unquote (t @ dquote # rest) = Some (t, rest)"
proof (induction t rule: validUtf8.induct)
  case (2 c cs)
  let ?k = "runeLen (c # cs)"
  have k: "0 < ?k" "?k \<le> length (c # cs)" "unescaped (drop (?k - 1) cs)" "c \<noteq> dquote" "c \<noteq> backslash" "\<not> code c < 32"
    using 2(2) runeLen_le [of "c # cs"] by (simp_all add: unescaped_def validUtf8.simps(2) list_all_drop)
  have cs: "take (?k - 1) cs @ drop (?k - 1) cs = cs" by simp
  have t: "take ?k (c # cs) = c # take (?k - 1) cs" using k(1) by (cases ?k) simp_all
  have "runeLen (take ?k (c # cs) @ drop (?k - 1) cs @ dquote # rest) = ?k" by (rule runeLen_self [OF k(1)])
  then have "runeLen (c # cs @ dquote # rest) = ?k" using t cs by (metis append.assoc append_Cons)
  moreover have "take ?k (c # cs @ dquote # rest) = take ?k (c # cs)" "drop (?k - 1) (cs @ dquote # rest) = drop (?k - 1) cs @ dquote # rest"
    using k(1,2) by (cases ?k; simp)+
  ultimately show ?case
    using 2(1) [OF k(3)] k(1,4-6) drop_rune [OF refl k(1)] by (simp add: unquote.simps(2))
qed simp

lemma quote_dquote: "quote = dquote"
  by (simp add: quote_def dquote_def)

text \<open>The object of the builder, with what comes after the opening quote of its text.\<close>

definition objectAfter :: "string \<Rightarrow> string" where
  "objectAfter s = CHR ''{'' # dquote # ''content'' @ [dquote, CHR '':'', dquote] @ s"

lemma jsonContent_text: "string_of_bytes (jsonContent msg) = objectAfter (msg @ [dquote, CHR ''}''])"
  by (simp add: jsonContent_def objectAfter_def quote_dquote)

lemma content_unescaped: "unescaped ''content''"
  by (simp add: unescaped_def validUtf8_ascii dquote_def backslash_def)

lemma parse_object:
  assumes "unquote s = Some (t, r)"
  shows "parseJson (objectAfter s) =
    (case skipSpace r of [] \<Rightarrow> None
     | c # r1 \<Rightarrow>
         if c = CHR ''}'' then (if skipSpace r1 = [] then Some (JObj [(''content'', JStr t)]) else None)
         else if c = CHR '','' then
           (case jmembers (2 * length (objectAfter s) - 1) (maxNestingDepth - 1) r1 of None \<Rightarrow> None
            | Some (ms, r2) \<Rightarrow> if skipSpace r2 = [] then Some (JObj ((''content'', JStr t) # ms)) else None)
         else None)"
proof -
  define n where "n = 2 * length (objectAfter s) - 1"
  have n: "2 * length (objectAfter s) = Suc n" "\<exists>m. n = Suc m" by (simp_all add: n_def objectAfter_def)
  obtain d where d: "maxNestingDepth = Suc d" by (simp add: maxNestingDepth_def)
  have v: "jvalue n d (dquote # s) = Some (JStr t, r)" using n(2) assms by (auto simp: jvalue_nonterminal)
  have k: "unquote (''content'' @ dquote # CHR '':'' # dquote # s) = Some (''content'', CHR '':'' # dquote # s)"
    by (rule unquote_unescaped [OF content_unescaped])
  have ms: "jmembers (Suc n) d (dquote # ''content'' @ dquote # CHR '':'' # dquote # s) =
      (case skipSpace r of [] \<Rightarrow> None
       | c # r1 \<Rightarrow> if c = CHR ''}'' then Some ([(''content'', JStr t)], r1)
           else if c = CHR '','' then map_option (apfst ((#) (''content'', JStr t))) (jmembers n d r1) else None)"
    using k v by (simp add: jmembers.simps(2) [of n])
  have "firstValue (objectAfter s) = map_option (apfst JObj) (jmembers (Suc n) d (dquote # ''content'' @ dquote # CHR '':'' # dquote # s))"
    using n(1) by (simp add: firstValue_def d objectAfter_def jvalue_nonterminal)
  then have f: "firstValue (objectAfter s) =
      (case skipSpace r of [] \<Rightarrow> None
       | c # r1 \<Rightarrow> if c = CHR ''}'' then Some (JObj [(''content'', JStr t)], r1)
           else if c = CHR '','' then map_option (apfst JObj) (map_option (apfst ((#) (''content'', JStr t))) (jmembers n d r1)) else None)"
    unfolding ms by (simp split: list.splits)
  show ?thesis
    unfolding parseJson_def f n(1) d by (simp split: list.splits option.splits)
qed

lemma readContent_members:
  assumes "parseJson (string_of_bytes b) = Some (JObj ms)" "list_all (\<lambda>(k, v). k = ''content'' \<and> (\<exists>t. v = JStr t)) ms" "ms \<noteq> []"
  shows "readContent b = (case snd (last ms) of JStr t \<Rightarrow> Some t | _ \<Rightarrow> None)"
proof -
  have "decodeFields messageField [''content''] ms st = (case snd (last ms) of JStr t \<Rightarrow> Some t | _ \<Rightarrow> None)" for st
    using assms(2,3)
  proof (induction ms arbitrary: st)
    case (Cons kv ms)
    then obtain t where "kv = (''content'', JStr t)" by (cases kv) auto
    then show ?case using Cons by (cases ms) (simp_all add: fieldOf_exact messageField_def decodeString_def)
  qed simp
  then show ?thesis using assms(1) by (simp add: readContent_def decodeStruct_def)
qed

text \<open>A text without quotes, backslashes and control characters is read as it was typed.\<close>

lemma plain_content_read:
  assumes "unescaped t"
  shows "readContent (jsonContent t) = Some t"
proof -
  have "parseJson (objectAfter (t @ [dquote, CHR ''}''])) = Some (JObj [(''content'', JStr t)])"
    using parse_object [OF unquote_unescaped [OF assms, of "''}''"]] by simp
  then show ?thesis using readContent_members [of "jsonContent t" "[(''content'', JStr t)]"] by (simp add: jsonContent_text)
qed

lemma plainText_unescaped:
  assumes "plainText t"
  shows "unescaped t"
proof -
  have "c \<noteq> dquote \<and> c \<noteq> backslash \<and> 32 \<le> code c \<and> code c < 128" if "c \<in> set t" for c
    using assms that unfolding plainText_def quote_dquote backslash_def by fastforce
  then show ?thesis unfolding unescaped_def list_all_iff by (intro conjI validUtf8_ascii ballI) (simp_all add: list_all_iff)
qed

lemma readContent_json_ok: "json_ok readContent"
  by (simp add: json_ok_def plain_content_read plainText_unescaped)

text \<open>What the receiver reads of a typed line.  A line without quotes, backslashes and control characters, in
  whatever script, is read as it was typed; a quote ends the text: followed by other text it makes the
  message no JSON, and the receiver loses it; followed by another content field it makes the receiver read
  that one instead of what was typed.\<close>

theorem typed_text_read:
  assumes "unescaped a" "unescaped b"
  shows "readContent (jsonContent a) = Some a \<and>
    (b \<noteq> [] \<longrightarrow> hd b \<notin> {CHR '' '', CHR '','', CHR ''}''} \<longrightarrow> readContent (jsonContent (a @ dquote # b)) = None) \<and>
    readContent (jsonContent (a @ dquote # CHR '','' # quoted ''content'' @ CHR '':'' # dquote # b)) = Some b"
proof (intro conjI impI)
  show "readContent (jsonContent a) = Some a" by (rule plain_content_read [OF assms(1)])
next
  assume b: "b \<noteq> []" "hd b \<notin> {CHR '' '', CHR '','', CHR ''}''}"
  obtain c cs where c: "b = c # cs" using b(1) by (cases b) auto
  have "32 \<le> code c" "c \<noteq> CHR '' ''" using assms(2) b(2) c by (simp_all add: unescaped_def)
  moreover have "code c \<noteq> 32" using \<open>c \<noteq> CHR '' ''\<close> char_of_code [of "CHR '' ''" 32] char_of_code [of c 32] by auto
  ultimately have "\<not> isSpace c" by (auto simp: isSpace_def)
  then have "parseJson (objectAfter ((a @ dquote # b) @ [dquote, CHR ''}''])) = None"
    using parse_object [OF unquote_unescaped [OF assms(1), of "b @ [dquote, CHR ''}'']"]] b(2) c by simp
  then show "readContent (jsonContent (a @ dquote # b)) = None"
    unfolding readContent_def jsonContent_text by simp
next
  let ?r = "quoted ''content'' @ CHR '':'' # dquote # b @ [dquote, CHR ''}'']"
  let ?s = "a @ dquote # CHR '','' # ?r"
  have p: "unquote ?s = Some (a, CHR '','' # ?r)" by (rule unquote_unescaped [OF assms(1)])
  obtain n where n: "2 * length (objectAfter ?s) - 1 = Suc (Suc n)"
    by (cases "2 * length (objectAfter ?s) - 1"; cases "2 * length (objectAfter ?s) - 2") (simp_all add: objectAfter_def)
  have v: "jvalue (Suc n) d ((dquote # b @ [dquote]) @ CHR ''}'' # []) = Some (JStr b, CHR ''}'' # [])" for d
    using unquote_unescaped [OF assms(2), of "''}''"] by (simp add: jvalue_nonterminal)
  have "jmembers (Suc (Suc n)) (maxNestingDepth - 1) ?r = Some ([(''content'', JStr b)], [])"
    using jmembers_step [OF _ v, of "''content''"] content_unescaped by (simp add: unescaped_def)
  then have "parseJson (objectAfter ?s) = Some (JObj [(''content'', JStr a), (''content'', JStr b)])"
    using parse_object [OF p] n by simp
  then show "readContent (jsonContent (a @ dquote # CHR '','' # quoted ''content'' @ CHR '':'' # dquote # b)) = Some b"
    using readContent_members [of "jsonContent (a @ dquote # CHR '','' # quoted ''content'' @ CHR '':'' # dquote # b)" "[(''content'', JStr a), (''content'', JStr b)]"]
    by (simp add: jsonContent_text)
qed

text \<open>A configuration file with the six fields, whatever follows, is read as the configuration.\<close>

definition configJson :: "ClientConfig \<Rightarrow> json" where
  "configJson c =
     JObj [(''operationID'', JStr (cc_OperationID c)), (''sendID'', JStr (cc_SendID c)), (''receiveID'', JStr (cc_ReceiveID c)),
           (''senderNickname'', JStr (cc_SenderNickname c)), (''token'', JStr (cc_Token c)), (''serverAddr'', JStr (cc_ServerAddr c))]"

lemma config_read:
  assumes "files path = Some (bytes_of_string (printJson (configJson c) @ rest))" "stops rest" "complete c"
    "list_all validUtf8 [cc_OperationID c, cc_SendID c, cc_ReceiveID c, cc_SenderNickname c, cc_Token c, cc_ServerAddr c]"
  shows "ParseFromConfigFile files readConfig yaml (JsonParser path) = Inr c"
proof -
  have "firstValue (printJson (configJson c) @ rest) = Some (configJson c, rest)"
    by (rule first_print [OF _ assms(2)]) (use assms(4) in \<open>simp add: configJson_def maxNestingDepth_def validUtf8_ascii\<close>)
  moreover have "decodeStruct configField configNames (configJson c)
      \<lparr>cc_OperationID = [], cc_SendID = [], cc_ReceiveID = [], cc_SenderNickname = [], cc_Token = [], cc_ServerAddr = []\<rparr> = Some c"
    by (simp add: decodeStruct_def configJson_def configNames_def fieldOf_exact configField_def decodeString_def)
  ultimately have "readConfig (bytes_of_string (printJson (configJson c) @ rest)) = Some c"
    by (simp add: readConfig_def)
  then show ?thesis using assms(1,3) by (simp add: ParseFromConfigFile_def)
qed

text \<open>Witnesses.\<close>

lemma typed_text_read_witness:
  "readContent (jsonContent (''say '' @ dquote # ''hi'')) = None"
proof -
  have "unescaped ''say ''" "unescaped ''hi''" by (simp_all add: unescaped_def validUtf8_ascii dquote_def backslash_def)
  from typed_text_read [OF this] show ?thesis by simp
qed

lemma recovery_over_json_witness:
  "\<exists>request answer. requestLostAfterHandshake True HandshakeDone (exRefC ''A'' 10) = Some request \<and>
    handleSecureControl exCodec ''u'' 0 id unmarshalFrame ''a_b'' ''b'' (marshalFrame request)
      (cacheOutboundMessage (exDataC ''A'' 10 [9]) emptyCache) (Map.empty, Map.empty) = ([], Some answer, Map.empty, Map.empty)"
proof -
  let ?m = "exDataC ''A'' 10 [9]" and ?l = "exLost ''A'' 10"
  have c: "cache_ok emptyCache" by (simp add: cache_ok_def emptyCache_def)
  have m: "GetClientMsgID ?m \<noteq> []" "mr_ClientMsgID (exRefC ''A'' 10) = GetClientMsgID ?m"
    by (simp_all add: exDataC_def GetClientMsgID_def)
  have r: "refOk (exRefC ''A'' 10)"
    by (simp add: refOk_def) (simp add: exRefC_def exDataC_def messageRef_def GetSendID_def GetRecvID_def exMsg_def validUtf8_ascii)
  then have r': "refOk (messageRef ?m)" by simp
  have ok: "reorderMap_ok [''a_b'' \<mapsto> exTwoGaps]" using conjunct1 [OF retransmit_batch_reorders] by (simp add: reorderMap_ok_def)
  have s: "[''a_b'' \<mapsto> exTwoGaps] ''a_b'' = Some exTwoGaps" by simp
  have l: "map_of (ro_lost exTwoGaps) (messageRefKey (exRefC ''A'' 10)) = Some ?l"
      "map_of (ro_pending exTwoGaps) (messageRefKey (exRefC ''A'' 10)) = None"
    by (simp_all add: exTwoGaps_def clientKey_def)
  have b: "MsgDataToBytesReadBound echoCodec ''u'' 0 (SetContent (GetContent ?m) (li_msgData ?l)) Map.empty = (Ok (GetContent ?m), Map.empty)"
    by (simp add: exLost_def echo_ReadBoundC)
  have v: "\<And>xs :: (string \<times> pendingInboundMsg) list. mset (id xs) = mset xs" by simp
  from recovery_over_json [OF c m r r' ok v s l b, where ?K2.0 = exCodec and ?uuid2.0 = "''u''" and ?now2.0 = 0 and ?visit2.0 = id and ?sid2.0 = "''a_b''" and
      ?peer2.0 = "''b''" and s = "(Map.empty, Map.empty)" and wait = HandshakeDone]
  show ?thesis by blast
qed

end
