(* ===== verification/Dial.thy ===== *)
theory Dial
  imports Console "HOL-Library.AList"
begin

text \<open>
  How \<open>main\<close> of \<open>ws_client.go\<close> starts: the configuration, the address with its query, the connection.  The
  encoding of a query and its decoding at the server (\<open>net/url\<close>) are modelled; taking an address apart and
  connecting are arguments.
\<close>

section \<open>Queries\<close>

definition unreserved :: "char \<Rightarrow> bool" where
  "unreserved c \<longleftrightarrow>
     65 \<le> (of_char c :: nat) \<and> (of_char c :: nat) \<le> 90 \<or> 97 \<le> (of_char c :: nat) \<and> (of_char c :: nat) \<le> 122 \<or>
     48 \<le> (of_char c :: nat) \<and> (of_char c :: nat) \<le> 57 \<or> (of_char c :: nat) \<in> {45, 95, 46, 126}"

definition upperHex :: "nat \<Rightarrow> char" where
  "upperHex n = char_of (if n < 10 then 48 + n else 55 + n)"

definition unHex :: "char \<Rightarrow> nat option" where
  "unHex c =
     (let n = (of_char c :: nat) in
      if 48 \<le> n \<and> n \<le> 57 then Some (n - 48) else if 97 \<le> n \<and> n \<le> 102 then Some (n - 87)
      else if 65 \<le> n \<and> n \<le> 70 then Some (n - 55) else None)"

definition escapeByte :: "char \<Rightarrow> string" where
  "escapeByte c =
     (if unreserved c then [c] else if c = CHR '' '' then ''+''
      else [CHR ''%'', upperHex (of_char c div 16), upperHex (of_char c mod 16)])"

definition QueryEscape :: "string \<Rightarrow> string" where
  "QueryEscape s = concat (map escapeByte s)"

fun QueryUnescape :: "string \<Rightarrow> string option" where
  "QueryUnescape [] = Some []"
| "QueryUnescape (c # cs) =
     (if c = CHR ''%'' then
        (case cs of a # b # r \<Rightarrow>
           (case (unHex a, unHex b) of (Some x, Some y) \<Rightarrow> map_option ((#) (char_of (16 * x + y))) (QueryUnescape (drop 2 cs)) | _ \<Rightarrow> None)
         | _ \<Rightarrow> None)
      else map_option ((#) (if c = CHR ''+'' then CHR '' '' else c)) (QueryUnescape cs))"

declare QueryUnescape.simps(2) [simp del]

text \<open>Values with one string each, in the order of their names.\<close>

fun ampersands :: "string list \<Rightarrow> string" where
  "ampersands [] = []"
| "ampersands [x] = x"
| "ampersands (x # y # xs) = x @ CHR ''&'' # ampersands (y # xs)"

definition queryPair :: "string \<times> string \<Rightarrow> string" where
  "queryPair p = QueryEscape (fst p) @ CHR ''='' # QueryEscape (snd p)"

definition Encode :: "(string \<times> string) list \<Rightarrow> string" where
  "Encode ps = ampersands (map queryPair (sort_key fst ps))"

text \<open>\<open>url.ParseQuery\<close>, as \<open>Query\<close> calls it: pairs that cannot be decoded are left out.\<close>

function splitAmp :: "string \<Rightarrow> string list" where
  "splitAmp s =
     (case dropWhile (\<lambda>c. c \<noteq> CHR ''&'') s of [] \<Rightarrow> [s] | _ # r \<Rightarrow> takeWhile (\<lambda>c. c \<noteq> CHR ''&'') s # splitAmp r)"
  by pat_completeness auto
termination
  by (relation "measure length") (auto simp: dropWhile_eq_Cons_conv dest: arg_cong [of _ _ length])

declare splitAmp.simps [simp del]

definition parsePair :: "string \<Rightarrow> (string \<times> string) option" where
  "parsePair s =
     (if CHR '';'' \<in> set s \<or> s = [] then None
      else Option.bind (QueryUnescape (takeWhile (\<lambda>c. c \<noteq> CHR ''='') s)) (\<lambda>k.
           map_option (Pair k) (QueryUnescape (drop 1 (dropWhile (\<lambda>c. c \<noteq> CHR ''='') s)))))"

definition ParseQuery :: "string \<Rightarrow> (string \<times> string) list" where
  "ParseQuery s = List.map_filter parsePair (splitAmp s)"

definition queryGet :: "(string \<times> string) list \<Rightarrow> string \<Rightarrow> string" where
  "queryGet ps k = (case map_of ps k of None \<Rightarrow> [] | Some v \<Rightarrow> v)"

section \<open>The start of the client\<close>

definition clientParams :: "ClientConfig \<Rightarrow> (string \<times> string) list" where
  "clientParams c =
     [(''compression'', ''gzip''), (''isBackground'', ''false''), (''isMsgResp'', ''true''),
      (''operationID'', cc_OperationID c), (''platformID'', ''5''), (''sendID'', cc_SendID c), (''token'', cc_Token c)]"

text \<open>An address, and how it is written with another query.\<close>

record 'u urlLib =
  ul_Parse :: "string \<Rightarrow> 'u option"
  ul_String :: "'u \<Rightarrow> string \<Rightarrow> string"

datatype startup = Fatal | Connected string console

definition startClient ::
  "'u urlLib \<Rightarrow> (string \<Rightarrow> bytes option) \<Rightarrow> (bytes \<Rightarrow> ClientConfig option) \<Rightarrow> (bytes \<Rightarrow> ClientConfig option) \<Rightarrow>
   (string \<Rightarrow> bool) \<Rightarrow> string \<Rightarrow> startup" where
  "startClient U files json yaml dial configPath =
     (case NewParser configPath of None \<Rightarrow> Fatal
      | Some p \<Rightarrow>
          (case ParseFromConfigFile files json yaml p of Inl _ \<Rightarrow> Fatal
           | Inr cfg \<Rightarrow>
               (case ul_Parse U (cc_ServerAddr cfg) of None \<Rightarrow> Fatal
                | Some u \<Rightarrow>
                    let target = ul_String U u (Encode (clientParams cfg)) in
                    if dial target then Connected target (initConsole cfg) else Fatal)))"

section \<open>What the server reads\<close>

lemma unHex_upperHex: "n < 16 \<Longrightarrow> unHex (upperHex n) = Some n"
  by (auto simp: unHex_def upperHex_def Let_def)

lemma unescape_escapeByte: "QueryUnescape (escapeByte c @ r) = map_option ((#) c) (QueryUnescape r)"
proof -
  have lt: "(of_char c :: nat) div 16 < 16" "16 * ((of_char c :: nat) div 16) + of_char c mod 16 = of_char c" by (simp_all add: less_mult_imp_div_less)
  have "unreserved c \<Longrightarrow> c \<noteq> CHR ''%'' \<and> c \<noteq> CHR ''+''" by (auto simp: unreserved_def)
  then show ?thesis
    using lt by (auto simp: escapeByte_def QueryUnescape.simps(2) unHex_upperHex)
qed

lemma unescape_escape: "QueryUnescape (QueryEscape s) = Some s"
  by (induction s) (simp_all add: QueryEscape_def unescape_escapeByte)

text \<open>No separator occurs in what is escaped.\<close>

lemma escape_chars: "c \<in> set (QueryEscape s) \<Longrightarrow> c \<noteq> CHR ''&'' \<and> c \<noteq> CHR ''='' \<and> c \<noteq> CHR '';''"
proof -
  have h: "upperHex n \<noteq> CHR ''&'' \<and> upperHex n \<noteq> CHR ''='' \<and> upperHex n \<noteq> CHR '';''" if "n < 16" for n
  proof -
    have "unHex (upperHex n) \<noteq> None" using unHex_upperHex [OF that] by simp
    moreover have "unHex (CHR ''&'') = None" "unHex (CHR ''='') = None" "unHex (CHR '';'') = None" by (simp_all add: unHex_def)
    ultimately show ?thesis by metis
  qed
  have lt: "(of_char x :: nat) div 16 < 16" "(of_char x :: nat) mod 16 < 16" for x by (simp_all add: less_mult_imp_div_less)
  have "c \<in> set (escapeByte x) \<Longrightarrow> c \<noteq> CHR ''&'' \<and> c \<noteq> CHR ''='' \<and> c \<noteq> CHR '';''" for x
    using h [OF lt(1) [of x]] h [OF lt(2) [of x]] by (auto simp: escapeByte_def unreserved_def split: if_splits)
  then show "c \<in> set (QueryEscape s) \<Longrightarrow> c \<noteq> CHR ''&'' \<and> c \<noteq> CHR ''='' \<and> c \<noteq> CHR '';''" by (auto simp: QueryEscape_def)
qed

lemma queryPair_chars: "c \<in> set (queryPair p) \<Longrightarrow> c \<noteq> CHR ''&'' \<and> c \<noteq> CHR '';''"
  using escape_chars by (auto simp: queryPair_def)

lemma parsePair_queryPair: "parsePair (queryPair p) = Some p"
proof -
  have k: "\<forall>c\<in>set (QueryEscape (fst p)). c \<noteq> CHR ''=''" using escape_chars by blast
  have "CHR '';'' \<notin> set (queryPair p)" "queryPair p \<noteq> []" using queryPair_chars [of "CHR '';''" p] by (auto simp: queryPair_def)
  moreover have "takeWhile (\<lambda>c. c \<noteq> CHR ''='') (queryPair p) = QueryEscape (fst p)"
      "dropWhile (\<lambda>c. c \<noteq> CHR ''='') (queryPair p) = CHR ''='' # QueryEscape (snd p)"
    using k unfolding queryPair_def by (simp_all add: takeWhile_append2 dropWhile_append2)
  ultimately show ?thesis by (simp add: parsePair_def unescape_escape)
qed

lemma split_ampersands:
  "xs \<noteq> [] \<Longrightarrow> \<forall>x\<in>set xs. CHR ''&'' \<notin> set x \<Longrightarrow> splitAmp (ampersands xs) = xs"
proof (induction xs rule: ampersands.induct)
  case (2 x)
  then have d: "dropWhile (\<lambda>c. c \<noteq> CHR ''&'') x = []" by (auto simp: dropWhile_eq_Nil_conv)
  show ?case by (simp only: ampersands.simps splitAmp.simps [of x] d list.case)
next
  case (3 x y xs)
  have x: "\<forall>c\<in>set x. c \<noteq> CHR ''&''" using 3(3) by auto
  have "dropWhile (\<lambda>c. c \<noteq> CHR ''&'') (x @ CHR ''&'' # r) = CHR ''&'' # r" "takeWhile (\<lambda>c. c \<noteq> CHR ''&'') (x @ CHR ''&'' # r) = x" for r
    using x by (simp_all add: dropWhile_append2 takeWhile_append2)
  then show ?case using 3 by (simp add: splitAmp.simps [of "x @ CHR ''&'' # _"])
qed simp

lemma query_read: "ParseQuery (Encode ps) = sort_key fst ps"
proof (cases "ps = []")
  case True
  then show ?thesis by (simp add: ParseQuery_def Encode_def splitAmp.simps parsePair_def List.map_filter_def)
next
  case False
  then have "sort_key fst ps \<noteq> []" by (metis length_0_conv length_sort)
  then have "splitAmp (Encode ps) = map queryPair (sort_key fst ps)"
    unfolding Encode_def using queryPair_chars by (intro split_ampersands) auto
  then show ?thesis by (simp add: ParseQuery_def List.map_filter_def parsePair_queryPair comp_def)
qed


text \<open>Witness: a configuration with a token that holds separators.\<close>

definition exConfig :: ClientConfig where
  "exConfig = \<lparr>cc_OperationID = ''1'', cc_SendID = ''a b'', cc_ReceiveID = ''c'', cc_SenderNickname = ''n'', cc_Token = ''x&sendID=y'',
     cc_ServerAddr = ''ws://h''\<rparr>"

definition exUrl :: "string urlLib" where
  "exUrl = \<lparr>ul_Parse = Some, ul_String = (\<lambda>u q. u @ ''?'' @ q)\<rparr>"


end
