(* ===== verification/RawSig.thy ===== *)
theory RawSig
  imports EvpKey
begin

text \<open>
  Signatures as pairs of integers (\<open>Sign\<close> and \<open>Verify\<close> of \<open>crypto/sm2tongsuo/sm2tongsuo.go\<close>) over the DER
  signatures of \<open>EvpKey\<close>, with the big numbers and signature objects they allocate in C.
\<close>

section \<open>Integers as bytes\<close>

text \<open>\<open>Bytes\<close> of a \<open>big.Int\<close>: the absolute value, big-endian, without leading zeros.\<close>

fun natBytes :: "nat \<Rightarrow> bytes" where
  "natBytes n = (if n = 0 then [] else natBytes (n div 256) @ [of_nat n])"

declare natBytes.simps [simp del]

definition bigBytes :: "int \<Rightarrow> bytes" where
  "bigBytes i = natBytes (nat \<bar>i\<bar>)"

definition bytesNat :: "bytes \<Rightarrow> nat" where
  "bytesNat b = foldl (\<lambda>n x. 256 * n + unat x) 0 b"

lemma bytesNat_natBytes [simp]: "bytesNat (natBytes n) = n"
proof (induction n rule: natBytes.induct)
  case (1 n)
  show ?case
  proof (cases "n = 0")
    case True
    then show ?thesis by (simp add: natBytes.simps [of 0] bytesNat_def)
  next
    case False
    then show ?thesis using 1 by (simp add: natBytes.simps [of n] bytesNat_def unat_of_nat_byte)
  qed
qed

lemma natBytes_Nil [simp]: "natBytes n = [] \<longleftrightarrow> n = 0"
  by (simp add: natBytes.simps [of n])

section \<open>Operations\<close>

text \<open>The DER encoding of a signature and its inverse are the library's.\<close>

record sigLib =
  sl_i2d :: "nat \<times> nat \<Rightarrow> bytes"
  sl_d2i :: "bytes \<Rightarrow> (nat \<times> nat) option"

definition bin2bn :: "cLib \<Rightarrow> bytes \<Rightarrow> nat option cop" where
  "bin2bn L b = (if b = [] then panicC indexPanic else newObj L (BnObj (bytesNat b)))"

definition bnAt :: "nat \<Rightarrow> nat cop" where
  "bnAt h = bindC (useC h) (\<lambda>obj. case obj of BnObj n \<Rightarrow> returnC n | _ \<Rightarrow> panicC ''not a number'')"

definition sigAt :: "nat \<Rightarrow> (nat \<times> nat) cop" where
  "sigAt h = bindC (useC h) (\<lambda>obj. case obj of SigObj (Some rs) \<Rightarrow> returnC rs | _ \<Rightarrow> panicC ''not a signature'')"

text \<open>\<open>ECDSA_SIG_set0\<close> gives the numbers to the signature, or refuses a missing one and leaves the other to the
  caller.  A missing signature is a fault of the process.\<close>

definition adoptC :: "nat \<Rightarrow> nat \<Rightarrow> nat \<Rightarrow> unit cop" where
  "adoptC h r t =
     bindC (bnAt r) (\<lambda>x. bindC (bnAt t) (\<lambda>y. bindC (writeC h (SigObj (Some (x, y)))) (\<lambda>_ s.
       (Ok (), s\<lparr>cs_live := (cs_live s)(r := None, t := None)\<rparr>))))"

definition set0 :: "nat option \<Rightarrow> nat option \<Rightarrow> nat option \<Rightarrow> bool cop" where
  "set0 sig r t =
     (case (r, t) of
        (Some r', Some t') \<Rightarrow>
          (case sig of None \<Rightarrow> panicC ''segmentation violation'' | Some h \<Rightarrow> bindC (adoptC h r' t') (\<lambda>_. returnC True))
      | _ \<Rightarrow> returnC False)"

definition RawVerify :: "cLib \<Rightarrow> sigLib \<Rightarrow> nat \<Rightarrow> bytes \<Rightarrow> int \<Rightarrow> int \<Rightarrow> unit cop" where
  "RawVerify L S pub d r t =
     bindC (KeyType pub) (\<lambda>kt.
     if kt \<noteq> KeyTypeSM2 then failC ErrWrongKeyType
     else bindC (newObj L (SigObj None)) (\<lambda>sig. deferC (freeC sig) (
       bindC (bin2bn L (bigBytes r)) (\<lambda>rBig.
       bindC (bin2bn L (bigBytes t)) (\<lambda>sBig.
       bindC (set0 sig rBig sBig) (\<lambda>ok.
       if \<not> ok then failC ErrNilParameter
       else bindC (sigAt (the sig)) (\<lambda>rs.
         bindC (newC (\<lambda>_. Some (BufObj (sl_i2d S rs)))) (\<lambda>buf. deferC (freeC buf) (VerifyASN1 L pub d (sl_i2d S rs))))))))))"

definition RawSign :: "cLib \<Rightarrow> sigLib \<Rightarrow> nat \<Rightarrow> bytes \<Rightarrow> (int \<times> int) cop" where
  "RawSign L S priv d =
     bindC (KeyType priv) (\<lambda>kt.
     if kt \<noteq> KeyTypeSM2 then failC ErrWrongKeyType
     else bindC (SignPKCS1v15 L priv (Some SM3Method) d) (\<lambda>sig.
       bindC (newC (\<lambda>_. Some (BufObj sig))) (\<lambda>buf. deferC (freeC buf) (
       if sig = [] then panicC indexPanic
       else bindC (newC (\<lambda>n. if cl_alloc L n then map_option (\<lambda>rs. SigObj (Some rs)) (sl_d2i S sig) else None)) (\<lambda>p.
         case p of None \<Rightarrow> failC LibError
         | Some h \<Rightarrow> deferC (freeC (Some h)) (
             bindC (sigAt h) (\<lambda>(r, t). if r = 0 \<or> t = 0 then panicC indexPanic else returnC (int r, int t))))))))"

section \<open>Properties\<close>

lemma tidy_sigAt [tidy_intros]: "h \<in> R \<union> W \<Longrightarrow> tidy R W (sigAt h)"
  unfolding sigAt_def by (intro tidy_bind tidy_use) (auto intro: tidy_intros split: cObj.split option.split)

lemma tidy_RawSign: "k \<in> R \<union> W \<Longrightarrow> tidy R W (RawSign L S k d)"
  unfolding RawSign_def by (auto intro!: tidy_intros split: prod.split)

lemma bigBytes_minus [simp]: "bigBytes (- i) = bigBytes i"
  by (simp add: bigBytes_def)

lemma bigBytes_Nil [simp]: "bigBytes i = [] \<longleftrightarrow> i = 0"
  by (simp add: bigBytes_def)

text \<open>The state in which the numbers have been handed to the signature object.\<close>

definition adopted :: "nat \<Rightarrow> nat \<Rightarrow> bytes \<Rightarrow> cst \<Rightarrow> cst" where
  "adopted x y der s =
     s\<lparr>cs_calls := cs_calls s + 4,
       cs_live := (cs_live s)(cs_next s \<mapsto> SigObj (Some (x, y)), cs_next s + 1 := None, cs_next s + 2 := None, cs_next s + 3 \<mapsto> BufObj der),
       cs_next := cs_next s + 4\<rparr>"

lemma fresh_handles:
  assumes "cst_ok s" "cs_live s k = Some x"
  shows "k \<noteq> cs_next s + i" "cs_live s (cs_next s + i) = None" "cs_next s + i \<notin> cs_fin s"
proof -
  have d: "dom (cs_live s) \<subseteq> {..<cs_next s}" "cs_fin s \<subseteq> dom (cs_live s)" using assms(1) by (simp_all add: cst_ok_def)
  have "k \<in> dom (cs_live s)" using assms(2) by blast
  then show "k \<noteq> cs_next s + i" using d(1) by auto
  show n: "cs_live s (cs_next s + i) = None" using d(1) by (metis domIff lessThan_iff not_add_less1 subsetD)
  then show "cs_next s + i \<notin> cs_fin s" using d(2) by blast
qed

lemma raw_verify_run:
  assumes "cs_live s k = Some (KeyObj key)" "ek_type key = KeyTypeSM2" "cst_ok s" "\<And>n. cl_alloc L n" "r \<noteq> 0" "t \<noteq> 0"
    "der = sl_i2d S (nat \<bar>r\<bar>, nat \<bar>t\<bar>)"
  shows "RawVerify L S k d r t s =
    (case VerifyASN1 L k d der (adopted (nat \<bar>r\<bar>) (nat \<bar>t\<bar>) der s) of
       (q, s6) \<Rightarrow> (q, freeC (Some (cs_next s)) (freeC (Some (cs_next s + 3)) s6)))"
proof -
  note f = fresh_handles [OF assms(3,1)]
  have k: "k \<noteq> cs_next s" using f(1) [of 0] by simp
  obtain q s6 where v: "VerifyASN1 L k d der (adopted (nat \<bar>r\<bar>) (nat \<bar>t\<bar>) der s) = (q, s6)" by fastforce
  then show ?thesis
    using assms(1,2,4-7) f(1) [of 1] f(1) [of 2] k
    by (simp add: RawVerify_def KeyType_run newObj_def newC_def bindC_def deferC_def useC_def writeC_def returnC_def
        bin2bn_def set0_def adoptC_def bnAt_def sigAt_def bigBytes_def adopted_def eval_nat_numeral)
qed

text \<open>C34: verification of a signature given as two integers is verification of their DER encoding, with everything
  that was allocated freed; it looks at the absolute values only.  But a signature whose second integer is zero,
  which anyone can send, makes it panic, and the number it has made of the first is lost.\<close>

theorem raw_verify_outcome:
  assumes "cs_live s k = Some (KeyObj key)" "ek_type key = KeyTypeSM2" "cst_ok s" "\<And>n. cl_alloc L n" "r \<noteq> 0"
    "RawVerify L S k d r t s = (q, s')"
  shows "if t = 0 then q = Panic indexPanic \<and> (\<exists>h. h \<notin> unowned s \<and> unowned s' = insert h (unowned s))
    else unowned s' = unowned s \<and> \<not> cs_bad s' \<and> RawVerify L S k d (- r) (- t) s = (q, s') \<and>
      (\<exists>s1. q = fst (VerifyASN1 L k d (sl_i2d S (nat \<bar>r\<bar>, nat \<bar>t\<bar>)) s1) \<and> cs_live s1 k = cs_live s k)"
proof (cases "t = 0")
  case True
  note f = fresh_handles [OF assms(3,1)]
  have k: "k \<noteq> cs_next s" using f(1) [of 0] by simp
  have r: "RawVerify L S k d r 0 s = (Panic indexPanic, s\<lparr>cs_calls := cs_calls s + 2,
       cs_live := (cs_live s)(cs_next s + 1 \<mapsto> BnObj (nat \<bar>r\<bar>)), cs_next := cs_next s + 2\<rparr>)"
    using assms(1,2,4,5) f(1) [of 1] f(2) [of 0] k
    by (simp add: RawVerify_def KeyType_run newObj_def newC_def bindC_def deferC_def freeC_def panicC_def bin2bn_def bigBytes_def
        fun_upd_idem fun_upd_twist eval_nat_numeral)
  have "cs_next s + 1 \<notin> unowned s" using f(2) [of 1] by (auto simp: unowned_def)
  moreover have "unowned s' = insert (cs_next s + 1) (unowned s)"
    using r assms(6) True f(3) [of 1] by (auto simp: unowned_def)
  ultimately show ?thesis using r assms(6) True by auto
next
  case False
  let ?der = "sl_i2d S (nat \<bar>r\<bar>, nat \<bar>t\<bar>)" and ?s5 = "adopted (nat \<bar>r\<bar>) (nat \<bar>t\<bar>) (sl_i2d S (nat \<bar>r\<bar>, nat \<bar>t\<bar>)) s"
  note f = fresh_handles [OF assms(3,1)]
  obtain s6 where v: "VerifyASN1 L k d ?der ?s5 = (q, s6)" and s': "s' = freeC (Some (cs_next s)) (freeC (Some (cs_next s + 3)) s6)"
    using raw_verify_run [OF assms(1-5) False refl] assms(6) by (auto split: prod.splits)
  have live: "cs_live ?s5 k = cs_live s k" using f(1) [of 0] f(1) [of 1] f(1) [of 2] f(1) [of 3] by (simp add: adopted_def)
  have ok: "cst_ok ?s5"
    using assms(3) f(2) [of 1] f(2) [of 2] f(3) [of 1] f(3) [of 2] by (auto simp: cst_ok_def adopted_def)
  have u5: "unowned ?s5 = insert (cs_next s) (insert (cs_next s + 3) (unowned s))"
    using f(2) [of 1] f(2) [of 2] f(3) [of 0] f(3) [of 3] by (auto simp: unowned_def adopted_def)
  have td: "tidy {k} {} (VerifyASN1 L k d ?der)" by (intro tidy_intros) simp
  have dm: "{k} \<union> {} \<subseteq> dom (cs_live ?s5)" using live assms(1) by auto
  note t = tidyD(1,2) [OF td v ok dm]
  have in6: "cs_next s \<in> unowned s6" "cs_next s + 3 \<in> unowned s6" using t(2) u5 by auto
  have "unowned s' = unowned s6 - {cs_next s, cs_next s + 3}" "cs_bad s' = cs_bad s6"
    using in6 by (auto simp: s' freeC_def unowned_def)
  moreover have "cs_next s \<notin> unowned s" "cs_next s + 3 \<notin> unowned s" using f(2) [of 0] f(2) [of 3] by (auto simp: unowned_def)
  ultimately have "unowned s' = unowned s" "\<not> cs_bad s'" using t u5 by (auto simp: cst_ok_def)
  moreover have "RawVerify L S k d (- r) (- t) s = (q, s')" using assms(6) unfolding RawVerify_def bigBytes_minus .
  moreover have "q = fst (VerifyASN1 L k d ?der ?s5)" using v by simp
  ultimately show ?thesis using False live by auto
qed

text \<open>Signing and verifying: what \<open>Sign\<close> returns, \<open>Verify\<close> checks as the signature it was taken apart from.\<close>

lemma raw_sign_returns:
  assumes "RawSign L S k d s = (Ok (r, t), s')"
  shows "\<exists>sig s1 s2. SignPKCS1v15 L k (Some SM3Method) d s1 = (Ok sig, s2) \<and> sl_d2i S sig = Some (nat r, nat t) \<and> 0 < r \<and> 0 < t"
proof -
  obtain sig s1 s2 where s: "SignPKCS1v15 L k (Some SM3Method) d s1 = (Ok sig, s2)" and
    r: "bindC (newC (\<lambda>_. Some (BufObj sig))) (\<lambda>buf. deferC (freeC buf) (
       if sig = [] then panicC indexPanic
       else bindC (newC (\<lambda>n. if cl_alloc L n then map_option (\<lambda>rs. SigObj (Some rs)) (sl_d2i S sig) else None)) (\<lambda>p.
         case p of None \<Rightarrow> failC LibError
         | Some h \<Rightarrow> deferC (freeC (Some h)) (
             bindC (sigAt h) (\<lambda>(r, t). if r = 0 \<or> t = 0 then panicC indexPanic else returnC (int r, int t)))))) s2 = (Ok (r, t), s')"
    using assms by (auto simp: RawSign_def bindC_Ok failC_def split: if_splits)
  then have "sl_d2i S sig = Some (nat r, nat t) \<and> 0 < r \<and> 0 < t"
    by (auto simp: bindC_Ok deferC_def newC_def sigAt_def useC_def returnC_def failC_def panicC_def Let_def split: option.splits if_splits prod.splits)
  then show ?thesis using s by blast
qed

text \<open>Witness: a signature with a zero.\<close>

definition exSigLib :: sigLib where
  "exSigLib = \<lparr>sl_i2d = (\<lambda>(r, t). [of_nat r, of_nat t]),
     sl_d2i = (\<lambda>b. case b of [r, t] \<Rightarrow> Some (unat r, unat t) | _ \<Rightarrow> None)\<rparr>"

lemma raw_verify_outcome_witness:
  "\<exists>s' h. RawVerify exKeyLib exSigLib 1 [5] 7 0 exKeyState = (Panic indexPanic, s') \<and> unowned s' = insert h (unowned exKeyState) \<and>
    h \<notin> unowned exKeyState"
proof -
  obtain q s' where v: "RawVerify exKeyLib exSigLib 1 [5] 7 0 exKeyState = (q, s')" by fastforce
  have k: "cs_live exKeyState 1 = Some (KeyObj \<lparr>ek_mat = [1], ek_type = KeyTypeSM2\<rparr>)" "cl_alloc exKeyLib n" for n
    by (simp_all add: exKeyState_def exKeyLib_def)
  from raw_verify_outcome [OF k(1) _ exKeyState_ok k(2) _ v] v show ?thesis by auto
qed

end
