(* ===== verification/KeyStore.thy ===== *)
theory KeyStore
  imports GenKeys KeyAgreement
begin

text \<open>
  The key store: the files the generator writes are the ones the key agreements read.

  \<open>filepathJoin\<close> is \<open>filepath.Join\<close> for any number of elements; \<open>Encapsulate\<close> and \<open>Decapsulate\<close> are the two
  operations of \<open>crypto/sm2mlkem\<close> the hybrid agreement calls.  \<open>storeLib\<close> takes the file operations and the
  hybrid operations that the model of the key agreements has as parameters and replaces them by the models
  of the code that provides them: reading the file map of the generator, \<open>LoadPrivateKey\<close> and
  \<open>LoadPublicKey\<close>, \<open>Encapsulate\<close> and \<open>Decapsulate\<close>.  What remains a parameter is the C library, Go's
  ML-KEM and the reading of PEM texts.
\<close>

section \<open>Paths\<close>

text \<open>Leading empty elements are dropped, the rest is joined and cleaned.\<close>

fun filepathJoin :: "string list \<Rightarrow> string" where
  "filepathJoin [] = []"
| "filepathJoin (e # es) = (if e = [] then filepathJoin es else cleanPath (joinSlash (e # es)))"

text \<open>A list of components that cleaning leaves as it is.\<close>

definition cleanOut :: "bool \<Rightarrow> string list \<Rightarrow> bool" where
  "cleanOut r out \<longleftrightarrow> fold (pushComponent r) out [] = out \<and> (\<forall>c\<in>set out. c \<noteq> [] \<and> c \<noteq> ''.'' \<and> CHR ''/'' \<notin> set c)"

lemma cleanOut_Nil [simp]: "cleanOut r []"
  by (simp add: cleanOut_def)

lemma cleanOut_butlast:
  assumes "cleanOut r (xs @ [x])" "x \<noteq> ''..''"
  shows "cleanOut r xs"
proof -
  have "pushComponent r x (fold (pushComponent r) xs []) = xs @ [x]" "x \<noteq> []" "x \<noteq> ''.''" using assms(1) by (auto simp: cleanOut_def)
  then have "fold (pushComponent r) xs [] = xs" using assms(2) by (simp add: pushComponent_def)
  then show ?thesis using assms(1) by (simp add: cleanOut_def)
qed

lemma cleanOut_push:
  assumes "cleanOut r out" "CHR ''/'' \<notin> set c"
  shows "cleanOut r (pushComponent r c out)"
proof (cases "c = ''..'' \<and> out \<noteq> [] \<and> last out \<noteq> ''..''")
  case True
  then have "cleanOut r (butlast out @ [last out])" using assms(1) by simp
  from cleanOut_butlast [OF this] True show ?thesis by (simp add: pushComponent_def)
next
  case False
  then have "pushComponent r c out = out \<or> (pushComponent r c out = out @ [c] \<and> c \<noteq> [] \<and> c \<noteq> ''.'')"
    by (simp only: pushComponent_def split: if_split) blast
  then show ?thesis
  proof (elim disjE conjE)
    assume "pushComponent r c out = out @ [c]" "c \<noteq> []" "c \<noteq> ''.''"
    then show ?thesis using assms unfolding cleanOut_def by (simp only: fold_append comp_apply fold_simps set_append) simp
  qed (use assms(1) in simp)
qed

lemma cleanOut_fold:
  assumes "cleanOut r out" "\<forall>c\<in>set cs. CHR ''/'' \<notin> set c"
  shows "cleanOut r (fold (pushComponent r) cs out)"
  using assms by (induction cs arbitrary: out) (auto simp: cleanOut_push)

lemma splitOn_no_sep: "\<forall>c\<in>set (splitOn s p). s \<notin> set c"
  by (induction p) (auto split: list.split)

lemma joinSlash_snoc_Nil: "d \<noteq> [] \<Longrightarrow> joinSlash (out @ [d]) \<noteq> []"
  by (simp add: joinSlash_snoc)

lemma splitOn_joinSlash: "\<forall>c\<in>set out. CHR ''/'' \<notin> set c \<Longrightarrow> splitOn (CHR ''/'') (joinSlash out) = (if out = [] then [[]] else out)"
proof (induction out rule: joinSlash.induct)
  case (3 p q ps)
  have "splitOn (CHR ''/'') (p @ CHR ''/'' # joinSlash (q # ps)) = splitOn (CHR ''/'') p @ splitOn (CHR ''/'') (joinSlash (q # ps))"
    by (rule splitOn_append)
  then show ?case using 3 by (simp add: splitOn_single)
qed (simp_all add: splitOn_single)

text \<open>A directory below \<open>base\<close>, and a file in it.\<close>

definition pathOf :: "bool \<Rightarrow> string list \<Rightarrow> string" where
  "pathOf r out = (if r then CHR ''/'' # joinSlash out else joinSlash out)"

lemma joinPath_out:
  obtains r out where "cleanOut r out"
    "\<And>c. plainName c \<Longrightarrow> joinPath base c = pathOf r (out @ [c])"
    "\<And>c d. plainName c \<Longrightarrow> plainName d \<Longrightarrow> filepathJoin [base, c, d] = pathOf r (out @ [c, d])"
proof (cases "base = []")
  case True
  have "joinPath base c = pathOf False ([] @ [c])" if "plainName c" for c
    using that True by (cases c) (auto simp: joinPath_def cleanPath_def pathOf_def splitOn_single pushComponent_def plainName_def)
  moreover have "filepathJoin [base, c, d] = pathOf False ([] @ [c, d])" if "plainName c" "plainName d" for c d
    using that True
    by (cases c) (auto simp: cleanPath_def pathOf_def splitOn_append [where a = "_ # _", simplified] splitOn_append splitOn_single pushComponent_def plainName_def Let_def)
  ultimately show ?thesis using that [of False "[]"] by simp
next
  case False
  let ?r = "hd base = CHR ''/''"
  let ?out = "fold (pushComponent ?r) (splitOn (CHR ''/'') base) []"
  have "cleanOut ?r ?out" by (rule cleanOut_fold) (use splitOn_no_sep in auto)
  moreover have "joinPath base c = pathOf ?r (?out @ [c])" if "plainName c" for c
    using that False
    by (auto simp: joinPath_def cleanPath_def pathOf_def splitOn_append splitOn_single pushComponent_def plainName_def joinSlash_snoc Let_def)
  moreover have "filepathJoin [base, c, d] = pathOf ?r (?out @ [c, d])" if "plainName c" "plainName d" for c d
    using that False joinSlash_snoc_Nil [of d "_ @ [c]"]
    by (auto simp: cleanPath_def pathOf_def splitOn_append splitOn_single pushComponent_def plainName_def Let_def)
  ultimately show ?thesis using that by blast
qed

lemma pathOf_join:
  assumes "cleanOut r out" "out \<noteq> []" "plainName f"
  shows "joinPath (pathOf r out) f = pathOf r (out @ [f])"
proof -
  have s: "\<forall>c\<in>set out. CHR ''/'' \<notin> set c" and o: "fold (pushComponent r) out [] = out" and n: "hd out \<noteq> []"
    using assms(1,2) by (auto simp: cleanOut_def)
  obtain x xs where x: "out = x # xs" "x \<noteq> []" "hd x \<noteq> CHR ''/''"
    using s n assms(2) by (cases out) (auto, metis hd_in_set)
  have h: "joinSlash out \<noteq> []" "hd (joinSlash out) \<noteq> CHR ''/''"
    using x by (cases xs; simp)+
  show ?thesis
    using h s o assms(2,3) splitOn_joinSlash [OF s] joinSlash_snoc [of out f]
    by (cases r) (auto simp: joinPath_def cleanPath_def pathOf_def splitOn_append splitOn_append [where a = "_ # _", simplified]
        splitOn_single pushComponent_def plainName_def Let_def)
qed


text \<open>What a file of a user is called: the generator and the key agreements agree, and the files of different
  users and different files of a user have different paths.\<close>

lemma user_file_path:
  assumes "plainName i" "plainName f"
  shows "filepathJoin [base, i, f] = joinPath (joinPath base i) f" "joinPath (joinPath base i) f = joinPath base i @ CHR ''/'' # f"
proof -
  obtain r out where o: "cleanOut r out" "\<And>c. plainName c \<Longrightarrow> joinPath base c = pathOf r (out @ [c])"
      "\<And>c d. plainName c \<Longrightarrow> plainName d \<Longrightarrow> filepathJoin [base, c, d] = pathOf r (out @ [c, d])"
    using joinPath_out by metis
  have p: "pushComponent r i out = out @ [i]" using assms(1) by (simp add: pushComponent_def plainName_def)
  have "cleanOut r (pushComponent r i out)" using cleanOut_push o(1) assms(1) by (simp add: plainName_def)
  then have j: "joinPath (joinPath base i) f = pathOf r (out @ [i, f])"
    using pathOf_join [of r "out @ [i]" f] assms p o(2) by simp
  then show "filepathJoin [base, i, f] = joinPath (joinPath base i) f" using o(3) assms by simp
  show "joinPath (joinPath base i) f = joinPath base i @ CHR ''/'' # f"
    unfolding j using joinSlash_snoc [of "out @ [i]" f] by (simp add: o(2) [OF assms(1)] pathOf_def)
qed

lemma user_file_inj:
  assumes "plainName i" "plainName j" "plainName f" "plainName g"
  shows "joinPath (joinPath base i) f = joinPath (joinPath base j) g \<longleftrightarrow> i = j \<and> f = g"
proof -
  have "xs @ CHR ''/'' # f = ys @ CHR ''/'' # g \<Longrightarrow> f = g \<and> xs = ys" for xs ys
  proof -
    assume e: "xs @ CHR ''/'' # f = ys @ CHR ''/'' # g"
    have "last (splitOn (CHR ''/'') (zs @ CHR ''/'' # h)) = h" if "plainName h" for zs h
      using that by (simp add: splitOn_append splitOn_single plainName_def)
    then have "f = g" using e assms(3,4) by metis
    then show ?thesis using e by simp
  qed
  then show ?thesis using user_file_path(2) assms joinPath_inj [of i j base] by metis
qed

section \<open>Every user's files after a run\<close>

definition userFiles :: "mlkem \<Rightarrow> string \<Rightarrow> string \<Rightarrow> userKeys \<Rightarrow> files \<Rightarrow> bool" where
  "userFiles M base i u fs \<longleftrightarrow>
     (\<exists>priv pub seed ek. uk_priv u = Some priv \<and> uk_pub u = Some pub \<and> uk_seed u = Some seed \<and>
        ml_public M seed = Some ek \<and> length seed = kemPrivateKeySize \<and>
        fs (joinPath (joinPath base i) sm2PrivateKeyFile) = Some \<lparr>fl_data = priv, fl_perm = 0x180\<rparr> \<and>
        fs (joinPath (joinPath base i) sm2PublicKeyFile) = Some \<lparr>fl_data = pub, fl_perm = 0x1A4\<rparr> \<and>
        fs (joinPath (joinPath base i) sm2MLKEMPrivateKeyFile) = Some \<lparr>fl_data = seed, fl_perm = 0x180\<rparr> \<and>
        fs (joinPath (joinPath base i) sm2MLKEMPublicKeyFile) = Some \<lparr>fl_data = ek, fl_perm = 0x1A4\<rparr> \<and>
        LoadPrivateKey M (joinPath (joinPath base i) sm2MLKEMPrivateKeyFile) fs = Inr \<lparr>kk_private = Some seed, kk_public = Some ek\<rparr> \<and>
        LoadPublicKey M (joinPath (joinPath base i) sm2MLKEMPublicKeyFile) fs = Inr \<lparr>kk_private = None, kk_public = Some ek\<rparr>)"

lemma userFiles_cong:
  assumes "userFiles M base i u fs" "\<And>f. plainName f \<Longrightarrow> fs' (joinPath (joinPath base i) f) = fs (joinPath (joinPath base i) f)"
  shows "userFiles M base i u fs'"
  using assms(1) by (simp add: userFiles_def LoadPrivateKey_def LoadPublicKey_def assms(2))

lemma ImportPrivateKey_Ok:
  "ImportPrivateKey M d = Inr k \<longleftrightarrow> length d = kemPrivateKeySize \<and> (\<exists>ek. ml_public M d = Some ek \<and> k = \<lparr>kk_private = Some d, kk_public = Some ek\<rparr>)"
  by (auto simp: ImportPrivateKey_def split: option.splits)

lemma user_generated:
  assumes "generateUserKeys tagged F M mkdir u base i True force fs = (Inr (), fs')" "mlkem_ok M" "plainName i"
  shows "userFiles M base i u fs'"
    "plainName j \<Longrightarrow> plainName f \<Longrightarrow> j \<noteq> i \<Longrightarrow> fs' (joinPath (joinPath base j) f) = fs (joinPath (joinPath base j) f)"
proof -
  obtain priv pub seed ek where g: "uk_priv u = Some priv" "uk_pub u = Some pub" "uk_seed u = Some seed" "ml_public M seed = Some ek"
      "fs' = fs(joinPath (joinPath base i) sm2PrivateKeyFile \<mapsto> \<lparr>fl_data = priv, fl_perm = 0x180\<rparr>,
                joinPath (joinPath base i) sm2PublicKeyFile \<mapsto> \<lparr>fl_data = pub, fl_perm = 0x1A4\<rparr>,
                joinPath (joinPath base i) sm2MLKEMPrivateKeyFile \<mapsto> \<lparr>fl_data = seed, fl_perm = 0x180\<rparr>,
                joinPath (joinPath base i) sm2MLKEMPublicKeyFile \<mapsto> \<lparr>fl_data = ek, fl_perm = 0x1A4\<rparr>)"
      "LoadPrivateKey M (joinPath (joinPath base i) sm2MLKEMPrivateKeyFile) fs' = Inr \<lparr>kk_private = Some seed, kk_public = Some ek\<rparr>"
      "LoadPublicKey M (joinPath (joinPath base i) sm2MLKEMPublicKeyFile) fs' = Inr \<lparr>kk_private = None, kk_public = Some ek\<rparr>"
    using generated_keys_load [OF assms(1,2)] by (auto simp: Let_def)
  have "fs' (joinPath (joinPath base i) sm2MLKEMPrivateKeyFile) = Some \<lparr>fl_data = seed, fl_perm = 0x180\<rparr>"
    unfolding g(5) by (simp add: key_paths)
  then have "length seed = kemPrivateKeySize" using g(6) by (simp add: LoadPrivateKey_def ImportPrivateKey_Ok)
  then show "userFiles M base i u fs'" using g unfolding userFiles_def by (simp add: key_paths)
  show "plainName j \<Longrightarrow> plainName f \<Longrightarrow> j \<noteq> i \<Longrightarrow> fs' (joinPath (joinPath base j) f) = fs (joinPath (joinPath base j) f)"
    unfolding g(5) using assms(3) by (simp add: user_file_inj)
qed

lemma all_generated:
  assumes "generateAll tagged F M mkdir u base True force ids fs = (Inr (), fs')" "mlkem_ok M" "distinct ids" "\<forall>i\<in>set ids. plainName i"
  shows "(\<forall>i\<in>set ids. userFiles M base i (u i) fs') \<and>
    (\<forall>j f. plainName j \<longrightarrow> plainName f \<longrightarrow> j \<notin> set ids \<longrightarrow> fs' (joinPath (joinPath base j) f) = fs (joinPath (joinPath base j) f))"
  using assms(1,3,4)
proof (induction ids arbitrary: fs)
  case (Cons i ids)
  obtain fs1 where s: "generateUserKeys tagged F M mkdir (u i) base i True force fs = (Inr (), fs1)"
      "generateAll tagged F M mkdir u base True force ids fs1 = (Inr (), fs')"
    using Cons.prems(1) by (auto simp: andThen_Ok_iff)
  have p: "plainName i" "i \<notin> set ids" "distinct ids" "\<forall>j\<in>set ids. plainName j" using Cons.prems(2,3) by auto
  note ih = Cons.IH [OF s(2) p(3,4)] and g = user_generated [OF s(1) assms(2) p(1)]
  have "userFiles M base i (u i) fs'" using userFiles_cong [OF g(1)] ih p(1,2) by blast
  then show ?case using ih g(2) by auto
qed simp

lemma distinct_parseIDs: "distinct (parseIDs raw)"
  by (simp add: parseIDs_def keepNew_filter distinct_filter)

lemma run_generated:
  assumes "runGenKeys tagged F M mkdir u outDir idsFlag True force fs = (Inr (), fs')" "mlkem_ok M"
    "\<forall>i\<in>set (parseIDs idsFlag). plainName i" "i \<in> set (parseIDs idsFlag)"
  shows "userFiles M outDir i (u i) fs'"
  using assms all_generated [OF _ assms(2) distinct_parseIDs assms(3)]
  by (auto simp: runGenKeys_def Let_def split: if_splits)


section \<open>The hybrid operations\<close>

text \<open>Go's ML-KEM beside \<open>mlkem\<close>: encapsulation to the bytes of a public key with the randomness it draws
  (the shared secret first, as Go returns it), and decapsulation with a seed.\<close>

record kemLib =
  em_encapsulate :: "bytes \<Rightarrow> bytes \<Rightarrow> bytes \<times> bytes"
  em_decapsulate :: "bytes \<Rightarrow> bytes \<Rightarrow> bytes option"

definition kemLib_ok :: "mlkem \<Rightarrow> kemLib \<Rightarrow> bool" where
  "kemLib_ok M E \<longleftrightarrow>
     (\<forall>seed ek r ss ct. length seed = kemPrivateKeySize \<longrightarrow> ml_public M seed = Some ek \<longrightarrow> em_encapsulate E ek r = (ss, ct) \<longrightarrow>
        length ct = kemCiphertextSize \<and> length ss = kemSharedSecretSize \<and> em_decapsulate E seed ct = Some ss)"

definition Encapsulate :: "kemLib \<Rightarrow> kemKey option \<Rightarrow> bytes \<Rightarrow> (bytes \<times> bytes) kres" where
  "Encapsulate E k r =
     (case Option.bind k kk_public of
        None \<Rightarrow> Inl (KeyError ''nil SM2MLKEM public key'')
      | Some ek \<Rightarrow> let (sharedSecret, ciphertext) = em_encapsulate E ek r in Inr (ciphertext, sharedSecret))"

definition Decapsulate :: "kemLib \<Rightarrow> kemKey option \<Rightarrow> bytes \<Rightarrow> bytes kres" where
  "Decapsulate E k ciphertext =
     (case Option.bind k kk_private of
        None \<Rightarrow> Inl (KeyError ''nil SM2MLKEM private key'')
      | Some dk \<Rightarrow>
          if length ciphertext \<noteq> kemCiphertextSize then Inl (KeyError ''invalid SM2MLKEM ciphertext length'')
          else (case em_decapsulate E dk ciphertext of None \<Rightarrow> Inl (KeyError ''mlkem'') | Some s \<Rightarrow> Inr s))"

text \<open>A key with both halves recovers what is encapsulated to it, and a key that has only its public half
  encapsulates to the same effect but does not decapsulate.\<close>

lemma Decapsulate_Encapsulate:
  assumes "kemLib_ok M E" "length seed = kemPrivateKeySize" "ml_public M seed = Some ek"
    "Encapsulate E (Some \<lparr>kk_private = p, kk_public = Some ek\<rparr>) r = Inr (ct, ss)"
  shows "Decapsulate E (Some \<lparr>kk_private = Some seed, kk_public = q\<rparr>) ct = Inr ss"
    "length ct = kemCiphertextSize" "length ss = kemSharedSecretSize"
proof -
  have "em_encapsulate E ek r = (ss, ct)" using assms(4) by (auto simp: Encapsulate_def split: prod.splits)
  then have "length ct = kemCiphertextSize \<and> length ss = kemSharedSecretSize \<and> em_decapsulate E seed ct = Some ss"
    using assms(1-3) unfolding kemLib_ok_def by blast
  then show "Decapsulate E (Some \<lparr>kk_private = Some seed, kk_public = q\<rparr>) ct = Inr ss"
      "length ct = kemCiphertextSize" "length ss = kemSharedSecretSize"
    by (simp_all add: Decapsulate_def)
qed

section \<open>The key agreements on the files\<close>

text \<open>\<open>readPriv\<close> and \<open>readPub\<close> read PEM texts; a hybrid key is known to the key agreements by the bytes of
  its seed or of its public half.\<close>

definition keyOf :: "kemKey kres \<Rightarrow> kemKey option" where
  "keyOf x = (case x of Inl _ \<Rightarrow> None | Inr k \<Rightarrow> Some k)"

definition storeLib :: "(bytes \<Rightarrow> bytes option) \<Rightarrow> (bytes \<Rightarrow> bytes option) \<Rightarrow> mlkem \<Rightarrow> kemLib \<Rightarrow> files \<Rightarrow> kaLib \<Rightarrow> kaLib" where
  "storeLib readPriv readPub M E fs L = L\<lparr>
     kl_privateKeyFile := (\<lambda>path. Option.bind (fs (filepathJoin path)) (\<lambda>f. readPriv (fl_data f))),
     kl_publicKeyFile := (\<lambda>path. Option.bind (fs (filepathJoin path)) (\<lambda>f. readPub (fl_data f))),
     kl_kemPrivateFile := (\<lambda>path. Option.bind (keyOf (LoadPrivateKey M (filepathJoin path) fs)) kk_private),
     kl_kemPublicFile := (\<lambda>path. Option.bind (keyOf (LoadPublicKey M (filepathJoin path) fs)) kk_public),
     kl_encapsulate := (\<lambda>ek r. case Encapsulate E (Some \<lparr>kk_private = None, kk_public = Some ek\<rparr>) r of Inl _ \<Rightarrow> ([], []) | Inr x \<Rightarrow> x),
     kl_decapsulate := (\<lambda>seed ct. case Decapsulate E (Some \<lparr>kk_private = Some seed, kk_public = ml_public M seed\<rparr>) ct of
                          Inl _ \<Rightarrow> None | Inr s \<Rightarrow> Some s)\<rparr>"

text \<open>What the C library documents, without the hybrid operations, which are the model's.\<close>

definition sm2Lib_ok :: "kaLib \<Rightarrow> (bytes \<Rightarrow> bytes) \<Rightarrow> bool" where
  "sm2Lib_ok L pub \<longleftrightarrow> sign_ok L pub \<and> point_ok L \<and> kap_ok L pub"

lemma storeLib_ok:
  assumes "sm2Lib_ok L pub" "kemLib_ok M E"
  shows "kaLib_ok (storeLib readPriv readPub M E fs L) pub (\<lambda>seed. the (ml_public M seed))"
proof -
  let ?S = "storeLib readPriv readPub M E fs L"
  have "kem_ok ?S (\<lambda>seed. the (ml_public M seed))"
    unfolding kem_ok_def
  proof (intro allI impI)
    fix path seed r ct ss
    assume "kl_kemPrivateFile ?S path = Some seed" and e: "kl_encapsulate ?S (the (ml_public M seed)) r = (ct, ss)"
    then obtain ek where k: "length seed = kemPrivateKeySize" "ml_public M seed = Some ek"
      by (auto simp: storeLib_def keyOf_def LoadPrivateKey_def ImportPrivateKey_Ok bind_eq_Some_conv split: option.splits sum.splits)
    have "Encapsulate E (Some \<lparr>kk_private = None, kk_public = Some ek\<rparr>) r = Inr (ct, ss)"
      using e k(2) by (simp add: storeLib_def Encapsulate_def split: prod.splits)
    from Decapsulate_Encapsulate [OF assms(2) k this]
    show "length ct = kemCiphertextSize \<and> length ss = kemSharedSecretSize \<and> kl_decapsulate ?S seed ct = Some ss"
      by (simp add: storeLib_def)
  qed
  then show ?thesis
    using assms(1) by (simp add: kaLib_ok_def sm2Lib_ok_def sign_ok_def point_ok_def kap_ok_def storeLib_def)
qed

text \<open>What a user's key file holds, by whom the reading of PEM texts gives it to.\<close>

definition pemPair :: "(bytes \<Rightarrow> bytes option) \<Rightarrow> (bytes \<Rightarrow> bytes option) \<Rightarrow> (bytes \<Rightarrow> bytes) \<Rightarrow> userKeys \<Rightarrow> bool" where
  "pemPair readPriv readPub pub u \<longleftrightarrow>
     (\<forall>p q. uk_priv u = Some p \<longrightarrow> uk_pub u = Some q \<longrightarrow> (\<exists>sk. readPriv p = Some sk \<and> readPub q = Some (pub sk)))"

lemma storeLib_user:
  assumes "userFiles M base a u fs" "plainName a" "pemPair readPriv readPub pub u"
  obtains sk seed where
    "kl_privateKeyFile (storeLib readPriv readPub M E fs L) [base, a, ''private_key.pem''] = Some sk"
    "kl_publicKeyFile (storeLib readPriv readPub M E fs L) [base, a, ''public_key.pem''] = Some (pub sk)"
    "kl_kemPrivateFile (storeLib readPriv readPub M E fs L) [base, a, ''sm2mlkem_private.bin''] = Some seed"
    "kl_kemPublicFile (storeLib readPriv readPub M E fs L) [base, a, ''sm2mlkem_public.bin''] = Some (the (ml_public M seed))"
proof -
  note names = sm2PrivateKeyFile_def sm2PublicKeyFile_def sm2MLKEMPrivateKeyFile_def sm2MLKEMPublicKeyFile_def
  note paths = user_file_path(1) [OF assms(2), of _ base] and plain = plain_files [unfolded names]
  obtain priv p seed ek where k: "uk_priv u = Some priv" "uk_pub u = Some p" "ml_public M seed = Some ek"
      "fs (joinPath (joinPath base a) ''private_key.pem'') = Some \<lparr>fl_data = priv, fl_perm = 0x180\<rparr>"
      "fs (joinPath (joinPath base a) ''public_key.pem'') = Some \<lparr>fl_data = p, fl_perm = 0x1A4\<rparr>"
      "LoadPrivateKey M (joinPath (joinPath base a) ''sm2mlkem_private.bin'') fs = Inr \<lparr>kk_private = Some seed, kk_public = Some ek\<rparr>"
      "LoadPublicKey M (joinPath (joinPath base a) ''sm2mlkem_public.bin'') fs = Inr \<lparr>kk_private = None, kk_public = Some ek\<rparr>"
    using assms(1) unfolding userFiles_def names by blast
  obtain sk where sk: "readPriv priv = Some sk" "readPub p = Some (pub sk)" using assms(3) k(1,2) unfolding pemPair_def by blast
  show thesis
    by (rule that [of sk seed]; simp add: storeLib_def keyOf_def paths plain k sk del: filepathJoin.simps)
qed

lemma storeLib_files:
  assumes "userFiles M base a ua fs" "userFiles M base b ub fs" "plainName a" "plainName b"
    "pemPair readPriv readPub pub ua" "pemPair readPriv readPub pub ub"
  obtains ska skb ka kb where
    "key_files (storeLib readPriv readPub M E fs L) pub (\<lambda>seed. the (ml_public M seed)) base a b ska skb ka kb"
    "key_files (storeLib readPriv readPub M E fs L) pub (\<lambda>seed. the (ml_public M seed)) base b a skb ska kb ka"
  using storeLib_user [OF assms(1,3,5), of E L] storeLib_user [OF assms(2,4,6), of E L] unfolding key_files_def by metis


section \<open>Properties\<close>

text \<open>The factories succeed on the files of two users when the library makes EC keys and contexts.\<close>

definition kap_works :: "kaLib \<Rightarrow> bool" where
  "kap_works L \<longleftrightarrow> (\<forall>k. kl_toECKey L k \<noteq> None) \<and> (\<forall>a i b j ini. kl_kapInit L a i b j ini \<noteq> None)"

lemma storeLib_new:
  assumes "key_files S pub kpub base a b ska skb ka kb" "kap_works S" "kind \<noteq> OtherKA"
  obtains x where "newKeyAgreement SM2MLKEMBuild S kind base a b = Ok (Made x)"
proof -
  have e: "(kl_toECKey S k = None) = False" "(kl_kapInit S i j c d ini = None) = False" for k i j c d ini
    using assms(2) unfolding kap_works_def by blast+
  have "\<exists>x. newSM2KeyAgreement S base a b = Ok x" "\<exists>x. newSM2MLKEMKeyAgreement S base a b = Ok (Made x)"
    using assms(1)
    by (auto simp: e key_files_def newSM2KeyAgreement_def newSM2MLKEMKeyAgreement_def NewSM2KeyAgreement_def
        NewSM2MLKEMKeyAgreement_def split: option.split)
  then have "\<exists>x. newKeyAgreement SM2MLKEMBuild S kind base a b = Ok (Made x)"
    using assms(3) by (cases kind) (auto simp: newKeyAgreement_def)
  then show thesis using that by blast
qed


definition exKem :: kemLib where
  "exKem = \<lparr>em_encapsulate = (\<lambda>ek r. (replicate 32 (hd (r @ [0])), replicate 1088 (hd (r @ [0])))), em_decapsulate = (\<lambda>seed ct. Some (replicate 32 (hd ct)))\<rparr>"

lemma plain_ab [simp]: "plainName ''a''" "plainName ''b''"
  by (simp_all add: plainName_def)

lemma no_space_ab:
  assumes "c = CHR ''a'' \<or> c = CHR ''b''"
  shows "leadingSpace spaceRunes [c] = None" "leadingSpace (map rev spaceRunes) [c] = None"
proof -
  have "of_char c = (97 :: nat) \<or> of_char c = (98 :: nat)" using assms by auto
  then have "\<forall>r\<in>set spaceRunes. r \<noteq> [] \<and> (\<forall>d\<in>set r. c \<noteq> d)"
    by (auto simp: spaceRunes_def char_of_eq_iff [symmetric] eq_commute [of c] char_of_eq_iff)
  then have "\<forall>r\<in>set spaceRunes. \<not> startsWith r [c] \<and> \<not> startsWith (rev r) [c]"
    by (metis startsWith_def list.set_intros(1) set_rev rev_is_Nil_conv take_Cons' take_Nil length_0_conv)
  then show "leadingSpace spaceRunes [c] = None" "leadingSpace (map rev spaceRunes) [c] = None"
    by (simp_all add: leadingSpace_def find_None_iff)
qed

lemma parse_ab: "parseIDs ''a,b'' = [''a'', ''b'']"
  by (simp add: parseIDs_def TrimSpace_def trimLeft.simps [of _ "''a''"] trimLeft.simps [of _ "''b''"] no_space_ab)

lemma ex_user:
  assumes "plainName i" "\<And>f. plainName f \<Longrightarrow> fs (joinPath (joinPath ''k'' i) f) = None"
  shows "\<exists>fs'. generateUserKeys True exFileEnv exMlkem (\<lambda>_. True) exKeys ''k'' i True False fs = (Inr (), fs')"
  by (simp add: generateUserKeys_def generateSM2MLKEMKeyFiles_def exKeys_def required_def kem_GenerateKey_def
      ExportPrivateKey_def ExportPublicKey_def sized_def exMlkem_def Let_def writeKeyFile_ex assms key_paths)

lemma exRun:
  "\<exists>fs'. runGenKeys True exFileEnv exMlkem (\<lambda>_. True) (\<lambda>_. exKeys) ''k'' ''a,b'' True False Map.empty = (Inr (), fs')"
proof -
  have m: "mlkem_ok exMlkem" by (simp add: mlkem_ok_def exMlkem_def)
  obtain fs1 where a: "generateUserKeys True exFileEnv exMlkem (\<lambda>_. True) exKeys ''k'' ''a'' True False Map.empty = (Inr (), fs1)"
    using ex_user [of "''a''" Map.empty] by auto
  obtain fs2 where "generateUserKeys True exFileEnv exMlkem (\<lambda>_. True) exKeys ''k'' ''b'' True False fs1 = (Inr (), fs2)"
    using ex_user [of "''b''" fs1] user_generated(2) [OF a m, of "''b''"] by auto
  then show ?thesis using a by (simp add: runGenKeys_def parse_ab Let_def)
qed


end
