(* ===== verification/MockStore.thy ===== *)
theory MockStore
  imports KeyStore
begin

text \<open>
  The key stores of the tests: \<open>setupKeyStore\<close> of \<open>e2ewebsocket/mock_server.go\<close>, its hybrid part in
  \<open>mock_server_sm2mlkem.go\<close> (and the stub of the other build), and the compressor that does nothing.  The
  directory comes to hold what the generator puts there, up to permissions.
\<close>

section \<open>Writing files\<close>

text \<open>\<open>os.WriteFile\<close>: the permissions count only for a file that is made.\<close>

definition WriteFile :: "fileEnv \<Rightarrow> string \<Rightarrow> bytes \<Rightarrow> nat \<Rightarrow> files \<Rightarrow> unit kres \<times> files" where
  "WriteFile F path dat perm fs =
     (if fe_open F path then (Inl (FileError path), fs)
      else
        let mode = (case fs path of None \<Rightarrow> fe_umask F perm | Some f \<Rightarrow> fl_perm f);
            put = (\<lambda>d. fs(path \<mapsto> \<lparr>fl_data = d, fl_perm = mode\<rparr>))
        in case fe_write F path of Some n \<Rightarrow> (Inl (FileError path), put (take n dat)) | None \<Rightarrow> (Inr (), put dat))"

section \<open>The stores\<close>

definition setupSM2MLKEMKeyStore :: "bool \<Rightarrow> fileEnv \<Rightarrow> mlkem \<Rightarrow> bytes option \<Rightarrow> string \<Rightarrow> files \<Rightarrow> unit kres \<times> files" where
  "setupSM2MLKEMKeyStore tagged F M seed dir fs =
     (if \<not> tagged then (Inr (), fs)
      else
        andThen (required ''generate SM2MLKEM key'' (kem_GenerateKey M seed), fs) (\<lambda>key fs.
        andThen (ExportPrivateKey (Some key), fs) (\<lambda>priv fs.
        andThen (sized ''SM2MLKEM private key length'' kemPrivateKeySize priv, fs) (\<lambda>_ fs.
        andThen (WriteFile F (joinPath dir sm2MLKEMPrivateKeyFile) priv 0x180 fs) (\<lambda>_ fs.
        andThen (ExportPublicKey (Some key), fs) (\<lambda>pub fs.
        andThen (sized ''SM2MLKEM public key length'' kemPublicKeySize pub, fs) (\<lambda>_ fs.
        WriteFile F (joinPath dir sm2MLKEMPublicKeyFile) pub 0x1A4 fs)))))))"

definition setupKeyStore ::
  "bool \<Rightarrow> fileEnv \<Rightarrow> mlkem \<Rightarrow> (string \<Rightarrow> bool) \<Rightarrow> userKeys \<Rightarrow> string \<Rightarrow> string \<Rightarrow> files \<Rightarrow> unit kres \<times> files" where
  "setupKeyStore tagged F M mkdir u baseDir uid fs =
     (let dir = joinPath baseDir uid in
      if \<not> mkdir dir then (Inl (FileError dir), fs)
      else
        andThen (required ''SM2 private key'' (uk_priv u), fs) (\<lambda>pemPriv fs.
        andThen (WriteFile F (joinPath dir sm2PrivateKeyFile) pemPriv 0x1A4 fs) (\<lambda>_ fs.
        andThen (required ''SM2 public key'' (uk_pub u), fs) (\<lambda>pemPub fs.
        andThen (WriteFile F (joinPath dir sm2PublicKeyFile) pemPub 0x1A4 fs) (\<lambda>_ fs.
        setupSM2MLKEMKeyStore tagged F M (uk_seed u) dir fs)))))"

text \<open>The check of the hybrid files; the order in which a Go map is walked is an argument.\<close>

definition kemFileSizes :: "(string \<times> nat) list" where
  "kemFileSizes = [(sm2MLKEMPrivateKeyFile, kemPrivateKeySize), (sm2MLKEMPublicKeyFile, kemPublicKeySize)]"

fun requireSizes :: "string \<Rightarrow> files \<Rightarrow> (string \<times> nat) list \<Rightarrow> unit kres" where
  "requireSizes dir fs [] = Inr ()"
| "requireSizes dir fs ((name, wantSize) # rest) =
     (case fs (joinPath dir name) of
        None \<Rightarrow> Inl (FileError (joinPath dir name))
      | Some f \<Rightarrow> if length (fl_data f) \<noteq> wantSize then Inl (KeyError name) else requireSizes dir fs rest)"

definition requireSM2MLKEMKeyFiles :: "((string \<times> nat) list \<Rightarrow> (string \<times> nat) list) \<Rightarrow> string \<Rightarrow> files \<Rightarrow> unit kres" where
  "requireSM2MLKEMKeyFiles visit dir fs = requireSizes dir fs (visit kemFileSizes)"

text \<open>The methods of \<open>MockCompressor\<close>.\<close>

definition mockCompress :: "bytes \<Rightarrow> bytes option" where
  "mockCompress d = Some d"

definition mockDeCompress :: "bytes \<Rightarrow> bytes option" where
  "mockDeCompress d = Some d"

section \<open>The same files as the generator's\<close>

definition contents :: "files \<Rightarrow> string \<Rightarrow> bytes option" where
  "contents fs p = map_option fl_data (fs p)"

definition disk_works :: "fileEnv \<Rightarrow> bool" where
  "disk_works F \<longleftrightarrow> (\<forall>p. \<not> fe_open F p \<and> fe_write F p = None \<and> \<not> fe_chmod F p)"

definition same_result :: "'a kres \<times> files \<Rightarrow> 'a kres \<times> files \<Rightarrow> bool" where
  "same_result x y \<longleftrightarrow> fst x = fst y \<and> contents (snd x) = contents (snd y)"

lemma same_write:
  assumes "disk_works F" "contents fs = contents gs"
  shows "same_result (WriteFile F p d perm fs) (writeKeyFile F p d perm' True gs)"
  using assms
  by (auto simp: same_result_def disk_works_def contents_def fun_eq_iff WriteFile_def writeKeyFile_def Let_def)

lemma same_andThen:
  assumes "same_result x y" "\<And>v fs gs. contents fs = contents gs \<Longrightarrow> same_result (f v fs) (g v gs)"
  shows "same_result (andThen x f) (andThen y g)"
proof (cases x)
  case (Pair r fs)
  then obtain gs where "y = (r, gs)" "contents fs = contents gs" using assms(1) by (cases y) (auto simp: same_result_def)
  then show ?thesis using Pair assms(2) by (cases r) (auto simp: same_result_def)
qed

lemma same_pure: "contents fs = contents gs \<Longrightarrow> same_result (r, fs) (r, gs)"
  by (simp add: same_result_def)

lemmas same_steps = same_andThen same_pure same_write

lemma setup_kem_same:
  assumes "disk_works F" "contents fs = contents gs"
  shows "same_result (setupSM2MLKEMKeyStore True F M seed dir fs) (generateSM2MLKEMKeyFiles True F M seed dir True gs)"
  unfolding setupSM2MLKEMKeyStore_def generateSM2MLKEMKeyFiles_def by (simp, intro same_steps assms)

text \<open>On a disk that works the setup of a test leaves, in either build and whether it stops half way or not, the
  contents that the generator with the force flag leaves.\<close>

theorem setup_as_generator:
  assumes "disk_works F"
  shows "same_result (setupKeyStore tagged F M mkdir u baseDir uid fs) (generateUserKeys tagged F M mkdir u baseDir uid tagged True fs)"
proof -
  have kem: "same_result (setupSM2MLKEMKeyStore tagged F M (uk_seed u) dir as)
      (if tagged then generateSM2MLKEMKeyFiles tagged F M (uk_seed u) dir True gs else (Inr (), gs))"
    if "contents as = contents gs" for as gs dir
    using setup_kem_same [OF assms that] same_pure [OF that, of "Inr ()"]
    by (cases tagged) (simp_all add: setupSM2MLKEMKeyStore_def [of False])
  show ?thesis
  proof (cases "mkdir (joinPath baseDir uid)")
    case True
    show ?thesis
      unfolding setupKeyStore_def generateUserKeys_def Let_def
      by (simp only: True not_True_eq_False if_False) (intro same_steps assms kem refl)
  qed (simp add: setupKeyStore_def generateUserKeys_def same_result_def Let_def)
qed

text \<open>So the tests' own check of the hybrid files succeeds after a setup with the tag.\<close>

lemma setup_required:
  assumes "disk_works F" "mlkem_ok M" "plainName uid" "setupKeyStore True F M mkdir u baseDir uid fs = (Inr (), fs')"
    "\<And>xs. set (visit xs) = set xs"
  shows "requireSM2MLKEMKeyFiles visit (joinPath baseDir uid) fs' = Inr ()"
proof -
  obtain gs where g: "generateUserKeys True F M mkdir u baseDir uid True True fs = (Inr (), gs)" "contents fs' = contents gs"
    using setup_as_generator [OF assms(1), of True M mkdir u baseDir uid fs] assms(4)
    by (cases "generateUserKeys True F M mkdir u baseDir uid True True fs") (auto simp: same_result_def)
  have "userFiles M baseDir uid u gs" by (rule user_generated(1) [OF g(1) assms(2,3)])
  then have c: "contents gs (joinPath (joinPath baseDir uid) name) \<noteq> None \<and>
      length (the (contents gs (joinPath (joinPath baseDir uid) name))) = n" if "(name, n) \<in> set kemFileSizes" for name n
    using that assms(2) by (fastforce simp: userFiles_def contents_def kemFileSizes_def mlkem_ok_def)
  have f: "\<exists>f. fs' (joinPath (joinPath baseDir uid) name) = Some f \<and> length (fl_data f) = n"
    if "(name, n) \<in> set kemFileSizes" for name n
    using c [OF that] unfolding g(2) [symmetric] by (auto simp: contents_def)
  have "requireSizes d fs' xs = Inr ()" if "\<forall>(name, n)\<in>set xs. \<exists>f. fs' (joinPath d name) = Some f \<and> length (fl_data f) = n" for d xs
    using that by (induction xs) auto
  moreover have "\<forall>(name, n)\<in>set (visit kemFileSizes). \<exists>f. fs' (joinPath (joinPath baseDir uid) name) = Some f \<and> length (fl_data f) = n"
    unfolding assms(5) using f by blast
  ultimately show ?thesis unfolding requireSM2MLKEMKeyFiles_def by blast
qed

end
