(* ===== verification/Sealed.thy ===== *)
theory Sealed
  imports SessionTypes ConnProps
begin

text \<open>
  What leaves the connection as application data is sealed.  \<open>writeRecordLocked\<close> sends whatever
  \<open>encrypt\<close> returns, and \<open>encrypt\<close> without a cipher returns its argument as it is, so that no plaintext
  is sent depends on when the handshake installs the cipher and on when \<open>WriteMessage\<close> writes.  Here the
  log of the records that a session has written is followed through every operation of a connection.
\<close>

section \<open>The log of a session\<close>

definition outKey :: "bytes \<Rightarrow> bytes \<Rightarrow> sess \<Rightarrow> bool" where
  "outKey k iv s \<longleftrightarrow> (\<exists>c. hc_cipher (se_out s) = Some (AEADObj c) \<and> aead_of c k iv \<and> length k = 16 \<and> iv \<noteq> [])"

text \<open>A record of application data under a key: the explicit nonce and a GCM box of the type and the content.\<close>

definition sealedAs :: "evp \<Rightarrow> bytes \<Rightarrow> bytes \<Rightarrow> bytes \<Rightarrow> bool" where
  "sealedAs L k iv x \<longleftrightarrow> (\<exists>n a y. x = n @ gcm_box L k iv a (recordByte RecordApplicationData # y))"

definition underWay :: "phase option \<Rightarrow> bool" where
  "underWay ph = (case ph of None \<Rightarrow> False | Some (Ended r) \<Rightarrow> False | Some p \<Rightarrow> True)"

text \<open>A session and what its handshake waits for: application data is in the log only under the key of the
  cipher in force, and only after the handshake is complete, which it is only with a cipher.\<close>

definition sessionOk :: "evp \<Rightarrow> phase option \<Rightarrow> sess \<Rightarrow> bool" where
  "sessionOk L ph s \<longleftrightarrow>
     typed s \<and> (\<forall>p. ph = Some p \<longrightarrow> typedPhase p) \<and>
     (\<forall>x\<in>appData s. \<exists>k iv. outKey k iv s \<and> sealedAs L k iv x) \<and>
     (\<not> se_complete s \<longrightarrow> appData s = {}) \<and>
     (se_complete s \<longrightarrow> hasCipher (se_out s) \<and> \<not> underWay ph) \<and>
     (\<forall>hs. ph = Some (AwaitFinished hs) \<longrightarrow> hasCipher (se_out s)) \<and>
     (ph = Some (Ended (Ok ())) \<longrightarrow> se_complete s)"

lemma sessionOk_new: "sessionOk L None (NewSession cfg peer)"
  by (simp add: sessionOk_def typed_def NewSession_def appData_def)

lemma typed_cipher: "typed s \<Longrightarrow> hasCipher (se_out s) \<Longrightarrow> \<exists>k iv. outKey k iv s"
  unfolding typed_def typed_half_def hasCipher_def outKey_def goodCipher_def by (metis not_None_eq)

lemma outKey_hasCipher: "outKey k iv s \<Longrightarrow> hasCipher (se_out s)"
  by (auto simp: outKey_def hasCipher_def)

section \<open>Steps that keep the key\<close>

text \<open>What every operation outside of the handshake does to a session: the key of outgoing records stays, and
  nothing is added to the application data of the log.\<close>

definition grows :: "sess \<Rightarrow> sess \<Rightarrow> bool" where
  "grows s s' \<longleftrightarrow> typed s' \<and> se_complete s' = se_complete s \<and> (\<forall>k iv. outKey k iv s \<longrightarrow> outKey k iv s') \<and> appData s' = appData s"

lemma grows_frame [simp]:
  "grows s (s'\<lparr>se_config := a\<rparr>) = grows s s'" "grows s (s'\<lparr>se_done := b\<rparr>) = grows s s'" "grows s (s'\<lparr>se_draws := d\<rparr>) = grows s s'"
  "grows (s\<lparr>se_config := a\<rparr>) s' = grows s s'"
  by (simp_all add: grows_def outKey_def appData_def)

lemma grows_refl [simp]: "grows s s = typed s"
  by (simp add: grows_def)

lemma grows_trans: "grows a b \<Longrightarrow> grows b c \<Longrightarrow> grows a c"
  by (auto simp: grows_def)

lemma sessionOk_frame [simp]:
  "sessionOk L ph (s\<lparr>se_config := a\<rparr>) = sessionOk L ph s" "sessionOk L ph (s\<lparr>se_done := b\<rparr>) = sessionOk L ph s"
  by (simp_all add: sessionOk_def outKey_def appData_def)

lemma sessionOk_grows:
  assumes "sessionOk L ph s" "grows s s'"
  shows "sessionOk L ph s'"
proof -
  have "hasCipher (se_out s')" if "hasCipher (se_out s)"
    using typed_cipher [OF _ that] outKey_hasCipher assms unfolding sessionOk_def grows_def by blast
  moreover have "\<exists>k iv. outKey k iv s' \<and> sealedAs L k iv x" if "x \<in> appData s'" for x
    using that assms unfolding sessionOk_def grows_def by metis
  ultimately show ?thesis using assms unfolding sessionOk_def grows_def by simp
qed

lemma sessionOk_typed: "sessionOk L ph s \<Longrightarrow> typed s"
  by (simp add: sessionOk_def)

section \<open>Writing a record\<close>

lemma hc_cipher_incSeq: "incSeqAndReturn out hc = (r, hc') \<Longrightarrow> hc_cipher hc' = hc_cipher hc \<and> (\<forall>x. r = Ok x \<longrightarrow> x = out)"
  by (auto simp: incSeqAndReturn_def incSeq_def split_def Let_def bind_res_Ok_iff)

text \<open>With a cipher every record that \<open>encrypt\<close> returns is sealed with its key, which stays.\<close>

lemma encrypt_sealed:
  assumes "gcm_lib L" "hc_cipher hc = Some (AEADObj c)" "aead_of c k iv" "length k = 16" "iv \<noteq> []"
    "encrypt L rand rec spare y hc = (r, hc')"
  shows "(\<exists>c'. hc_cipher hc' = Some (AEADObj c') \<and> aead_of c' k iv) \<and> (\<forall>x. r = Ok x \<longrightarrow> (\<exists>n a. x = n @ gcm_box L k iv a y))"
proof -
  let ?e = "go_copy (snd (sliceForAppend rec spare 12)) (hc_seq hc)" and ?a = "hc_seq hc @ len16 (length y)"
  have a: "?a \<noteq> []" by (simp add: len16_def)
  obtain c' where s: "Seal L c (rec @ ?e) (if ?e = [] then hc_seq hc else ?e) y ?a = Ok ((rec @ ?e) @ gcm_box L k iv ?a y, c')"
      "aead_of c' k iv"
    using Seal_box [OF assms(1,3-5) a] by blast
  have "incSeqAndReturn ((rec @ ?e) @ gcm_box L k iv ?a y) (hc\<lparr>hc_cipher := Some (AEADObj c')\<rparr>) = (r, hc')"
    using assms(6) assms(2) s(1) by (simp add: encrypt_def explicitNonceLen_def ExplicitNonceLen_def NonceSize_def Let_def)
  from hc_cipher_incSeq [OF this] have "hc_cipher hc' = Some (AEADObj c')"
      "\<forall>x. r = Ok x \<longrightarrow> x = (rec @ ?e) @ gcm_box L k iv ?a y" by simp_all
  then show ?thesis using s(2) by blast
qed

lemma writeRecord_key:
  assumes "gcm_lib (en_evp E)" "writeRecord E t d s = Some (r, s')" "outKey k iv s"
  shows "outKey k iv s' \<and> (\<forall>x\<in>set (se_sent s'). x \<in> set (se_sent s) \<or> (\<exists>n a. x = (t, n @ gcm_box (en_evp E) k iv a (recordByte t # d))))"
  using assms(2)
proof (cases rule: writeRecord_cases)
  case (2 x out)
  obtain c where c: "hc_cipher (se_out s) = Some (AEADObj c)" "aead_of c k iv" "length k = 16" "iv \<noteq> []"
    using assms(3) by (auto simp: outKey_def)
  note e = encrypt_sealed [OF assms(1) c 2(1)]
  have k: "outKey k iv s'" using 2(2) e c(3,4) by (auto simp: outKey_def)
  from 2(2) show ?thesis
  proof (elim disjE exE conjE)
    fix y
    assume y: "x = Ok y" "s' = s\<lparr>se_out := out, se_draws := Suc (se_draws s), se_sent := se_sent s @ [(t, y)]\<rparr>"
    then obtain n a where "y = n @ gcm_box (en_evp E) k iv a (recordByte t # d)" using e by blast
    then show ?thesis using k y(2) by auto
  qed (use k in auto)
qed (use assms(3) in auto)

lemma writeRecord_grows:
  assumes "gcm_lib (en_evp E)" "typed s" "t \<noteq> RecordApplicationData" "writeRecord E t d s = Some (r, s')"
  shows "grows s s'"
  using assms(3) writeRecord_typed [OF assms(1,2,4)] writeRecord_key [OF assms(1,4)] writeRecord_sent [OF assms(4)]
    writeRecord_log [OF assms(4)] writeRecord_complete [OF assms(4)]
  by (fastforce simp: grows_def appData_def)

text \<open>Application data is written once the handshake is complete.\<close>

lemma writeRecord_app:
  assumes "gcm_lib (en_evp E)" "sessionOk (en_evp E) ph s" "se_complete s"
    "writeRecord E RecordApplicationData d s = Some (r, s')"
  shows "sessionOk (en_evp E) ph s'"
proof -
  have t: "typed s" "hasCipher (se_out s)" using assms(2,3) by (simp_all add: sessionOk_def)
  obtain k iv where k: "outKey k iv s" using typed_cipher [OF t] by blast
  have unique: "k' = k \<and> iv' = iv" if "outKey k' iv' s" for k' iv' using that k by (auto simp: outKey_def aead_of_def)
  note w = writeRecord_key [OF assms(1,4) k]
  have "\<exists>k iv. outKey k iv s' \<and> sealedAs (en_evp E) k iv x" if x: "x \<in> appData s'" for x
  proof (cases "x \<in> appData s")
    case True
    then show ?thesis using assms(2) unique w unfolding sessionOk_def by metis
  next
    case False
    then obtain n a where "x = n @ gcm_box (en_evp E) k iv a (recordByte RecordApplicationData # d)"
      using x w by (fastforce simp: appData_def)
    then have "sealedAs (en_evp E) k iv x" unfolding sealedAs_def by blast
    then show ?thesis using w by blast
  qed
  moreover have "typed s'" "se_complete s'"
    using writeRecord_typed [OF assms(1) t(1) assms(4)] writeRecord_complete [OF assms(4)] assms(3) by simp_all
  moreover have "hasCipher (se_out s')" using w outKey_hasCipher by blast
  ultimately show ?thesis using assms(2,3) by (simp add: sessionOk_def)
qed


section \<open>The steps of a handshake\<close>

text \<open>A session that is not complete has no application data, so a step is fine when it keeps the types and
  completes nothing.\<close>

lemma sessionOk_incomplete:
  assumes "\<not> se_complete s" "typed s" "appData s = {}" "\<And>p. ph = Some p \<Longrightarrow> typedPhase p"
    "\<And>hs. ph = Some (AwaitFinished hs) \<Longrightarrow> hasCipher (se_out s)" "ph \<noteq> Some (Ended (Ok ()))"
  shows "sessionOk L ph s"
  using assms by (simp add: sessionOk_def)

lemma endHandshake_Fail: "fst (endHandshake (Fail e) s) \<noteq> Ok ()"
  by (simp add: endHandshake_def Let_def)

lemma endOr_phase:
  assumes "endOr next c = Some (ph, s')"
  shows "(\<exists>r. ph = Ended r \<and> r \<noteq> Ok ()) \<or> (\<exists>x. c = Some (Ok x, s') \<and> ph = next x)"
proof -
  obtain r s where c: "c = Some (r, s)" using assms by (auto simp: endOr_def)
  show ?thesis
  proof (cases r)
    case (Fail e)
    then have "ph = Ended (fst (endHandshake (Fail e) s))" using assms c by (simp add: endOr_def split_def Let_def)
    then show ?thesis using endHandshake_Fail [of e s] by blast
  qed (use assms c in \<open>auto simp: endOr_def\<close>)
qed

text \<open>The finished message is waited for only with the cipher of outgoing records in place.\<close>

lemma writeHandshakeRecord_cipher:
  assumes "gcm_lib (en_evp E)" "typed s" "writeHandshakeRecord E m t s = Some (Ok h, s')" "hasCipher (se_out s)"
  shows "hasCipher (se_out s')"
proof -
  obtain d where "writeRecord E RecordHandshake d s = Some (Ok (), s')"
    using assms(3) by (auto simp: writeHandshakeRecord_def bindS_Ok_iff)
  then have "grows s s'" by (intro writeRecord_grows [OF assms(1,2)]) simp_all
  moreover obtain k iv where "outKey k iv s" using typed_cipher [OF assms(2,4)] by blast
  ultimately have "outKey k iv s'" by (simp add: grows_def)
  then show ?thesis by (rule outKey_hasCipher)
qed

lemma sendFinished_cipher:
  assumes "gcm_lib (en_evp E)" "typed s" "sendFinished E hs s = Some (Ok x, s')"
  shows "hasCipher (se_out s')"
proof -
  obtain s1 s2 s3 v h where w: "writeChangeCipherRecord E s = Some (Ok (), s1)" "writeHandshakeRecord E (Finished v) None s1 = Some (Ok h, s2)"
      "s' = s2\<lparr>se_localFinished := go_copy (se_localFinished s2) v\<rparr>"
    using assms(3) by (auto simp: sendFinished_def bindS_Ok_iff)
  have t: "typed s1" using yields_writeChangeCipherRecord [OF assms(1,2)] w(1) by (auto simp: yields_def)
  have "hasCipher (se_out s1)"
    using w(1)
    by (auto simp: writeChangeCipherRecord_def bindS_Ok_iff changeCipherSpec_def awaitToken_def switchCipher_def hasCipher_def
        split: if_splits option.splits)
  then show ?thesis using writeHandshakeRecord_cipher [OF assms(1) t w(2)] w(3) by simp
qed

lemma onKeyExchange_cipher:
  assumes "gcm_lib (en_evp E)" "digests_ok (en_digests E)" "real_suite (hs_suite hs)" "typed s"
    "onKeyExchange E hs ka kx ev s = Some (Ok hs', s')"
  shows "hasCipher (se_out s')"
proof -
  obtain msg s1 pre hs1 s2 s3 x where k: "readKeyExchange E hs ka kx msg s = Some (Ok (hs1, pre), s1)"
      "deriveMaster E hs1 pre s1 = Some (Ok hs', s2)" "establishKeys E hs' s2 = Some (Ok (), s3)" "sendFinished E hs' s3 = Some (Ok x, s')"
    using assms(5) by (auto simp: onKeyExchange_def bindS_Ok_iff)
  have "typed s1 \<and> real_suite (hs_suite hs1)"
    using k(1) assms(3,4) yields_readKeyExchange [OF assms(3,4), of E ka kx msg] by (auto simp: yields_def)
  then have "typed s2 \<and> real_suite (hs_suite hs')"
    using k(2) yields_deriveMaster [of s1 hs1 E pre] by (auto simp: yields_def)
  then have "typed s3" using k(3) yields_establishKeys [OF assms(1,2)] by (auto simp: yields_def)
  from sendFinished_cipher [OF assms(1) this k(4)] show ?thesis .
qed


lemma hasCipher_frame [simp]: "hasCipher (se_out (s\<lparr>se_err := e\<rparr>)) = hasCipher (se_out s)"
  by simp

text \<open>The step from one wait to the next.\<close>

lemma stepPhase_ok:
  assumes "gcm_lib (en_evp E)" "digests_ok (en_digests E)" "sessionOk L (Some ph) s" "stepPhase E ph ev s = Some (ph', s')"
  shows "sessionOk L (Some ph') s'"
proof -
  have ty: "typed s" "typedPhase ph" using assms(3) by (simp_all add: sessionOk_def)
  note t = typed_stepPhase [OF assms(1,2) ty(2,1) assms(4)]
  have open_end: "sessionOk L (Some ph') s'"
    if u: "underWay (Some ph)" and e: "endOr next c = Some (ph', s')" "keeps c s"
      and n: "\<And>x hs. c = Some (Ok x, s') \<Longrightarrow> next x = AwaitFinished hs \<Longrightarrow> hasCipher (se_out s')" "\<And>x r. next x \<noteq> Ended r"
    for "next" and c :: "'z comp"
  proof (rule sessionOk_incomplete)
    have "\<not> se_complete s" "appData s = {}" using assms(3) u unfolding sessionOk_def by blast+
    then show "\<not> se_complete s'" "appData s' = {}" using endOr_complete [OF e(2,1)] by simp_all
    show "hasCipher (se_out s')" if "Some ph' = Some (AwaitFinished hs)" for hs
    proof -
      obtain x where "c = Some (Ok x, s')" "next x = AwaitFinished hs" using endOr_phase [OF e(1)] \<open>Some ph' = _\<close> by auto
      then show ?thesis by (rule n(1))
    qed
    show "Some ph' \<noteq> Some (Ended (Ok ()))" using endOr_phase [OF e(1)] n(2) by (metis option.inject phase.inject(4))
  qed (use t in simp_all)
  show ?thesis
  proof (cases ph)
    case (AwaitHello h)
    then have e: "endOr (\<lambda>(hs, ka, kxm). AwaitKeyExchange hs ka kxm) (onHello E h ev s) = Some (ph', s')"
      using assms(4) by (simp add: stepPhase_def)
    show ?thesis by (rule open_end [OF _ e keeps_onHello]) (auto simp: underWay_def AwaitHello split: prod.splits)
  next
    case (AwaitKeyExchange hs ka kx)
    then have e: "endOr AwaitFinished (onKeyExchange E hs ka kx ev s) = Some (ph', s')" and r: "real_suite (hs_suite hs)"
      using assms(4) ty(2) by (simp_all add: stepPhase_def typedPhase_def)
    show ?thesis
      by (rule open_end [OF _ e keeps_onKeyExchange])
        (use onKeyExchange_cipher [OF assms(1,2) r ty(1)] in \<open>auto simp: underWay_def AwaitKeyExchange\<close>)
  next
    case (AwaitFinished hs)
    then obtain r s0 where r: "onFinished E hs ev s = Some (r, s0)" "ph' = Ended (fst (endHandshake r s0))" "s' = snd (endHandshake r s0)"
      using assms(4) by (auto simp: stepPhase_def Let_def split_def)
    have c: "hasCipher (se_out s)" "appData s = {}"
      using assms(3) AwaitFinished unfolding sessionOk_def underWay_def by auto
    have o: "se_out s0 = se_out s" "appData s0 = appData s"
      using r(1)
      by (auto simp: onFinished_def bindS_def split: res.splits option.splits handshakeMessage.splits if_splits prod.splits)
    have s': "se_out s' = se_out s0" "appData s' = appData s0" "ph' = Ended (Ok ()) \<longrightarrow> se_complete s'"
      using r(2,3) by (cases r; simp add: endHandshake_def Let_def split: if_splits)+
    then show ?thesis using o c t r(2) by (simp add: sessionOk_def underWay_def)
  next
    case (Ended r)
    then show ?thesis using assms(3,4) by (simp add: stepPhase_def)
  qed
qed

lemma enterHandshake_ok:
  assumes "gcm_lib (en_evp E)" "sessionOk L None s" "enterHandshake E s = Some (ph, s')"
  shows "sessionOk L (Some ph) s'"
proof (cases "se_complete s \<or> se_err s \<noteq> None")
  case True
  then show ?thesis
    using assms(2,3) by (auto simp: enterHandshake_def sessionOk_def underWay_def typedPhase_def split: if_splits option.splits)
next
  case False
  then have e: "endOr AwaitHello (startHandshake E s) = Some (ph, s')" using assms(3) by (simp add: enterHandshake_def)
  have s: "typed s" "\<not> se_complete s" "appData s = {}" using assms(2) False by (simp_all add: sessionOk_def)
  have k: "keeps (startHandshake E s) s"
    unfolding startHandshake_def
    by (intro keeps_bind keeps_writeHandshakeRecord keeps_Some refl)
      (auto simp: keeps_def makeHello_def Let_def split: if_splits option.splits)
  have "typedPhase ph \<and> typed s'"
    by (rule yields_endOr [OF yields_startHandshake [OF assms(1) s(1)] _ e]) (simp add: typedPhase_def)
  then show ?thesis
    using endOr_complete [OF k e] endOr_phase [OF e] s(2,3) by (intro sessionOk_incomplete) auto
qed

lemma changeIn_grows: "typed s \<Longrightarrow> typed_half inn \<Longrightarrow> grows s (s\<lparr>se_in := inn\<rparr>)"
  by (simp add: grows_def typed_def outKey_def)


section \<open>Connections\<close>

definition secure :: "evp \<Rightarrow> connState \<Rightarrow> bool" where
  "secure L c \<longleftrightarrow> (\<forall>obj\<in>set (cn_heap c). sessionOk L (so_phase obj) (so_sess obj))"

text \<open>The libraries of an environment, which do what they document.\<close>

definition libs :: "evp \<Rightarrow> connEnv \<Rightarrow> bool" where
  "libs L E \<longleftrightarrow> en_evp (ce_hs E) = L \<and> gcm_lib L \<and> digests_ok (en_digests (ce_hs E))"

definition secures :: "evp \<Rightarrow> ('a \<times> connState) option \<Rightarrow> bool" where
  "secures L m \<longleftrightarrow> (\<forall>r c'. m = Some (r, c') \<longrightarrow> secure L c')"

lemma secures_simps [simp]: "secures L None" "secures L (Some (r, c)) = secure L c"
  by (simp_all add: secures_def)

lemma secure_frame [simp]:
  "secure L (c\<lparr>cn_hostId := a\<rparr>) = secure L c" "secure L (c\<lparr>cn_open := b\<rparr>) = secure L c" "secure L (c\<lparr>cn_closed := d\<rparr>) = secure L c"
  "secure L (c\<lparr>cn_config := e\<rparr>) = secure L c" "secure L (c\<lparr>cn_sessions := f\<rparr>) = secure L c" "secure L (c\<lparr>cn_out := g\<rparr>) = secure L c"
  "secure L (c\<lparr>cn_tasks := h\<rparr>) = secure L c" "secure L (c\<lparr>cn_handshakes := i\<rparr>) = secure L c" "secure L (c\<lparr>cn_cache := j\<rparr>) = secure L c"
  "secure L (c\<lparr>cn_reorder := k\<rparr>) = secure L c" "secure L (c\<lparr>cn_realtime := l\<rparr>) = secure L c" "secure L (emit xs c) = secure L c"
  by (simp_all add: secure_def emit_def)

lemma secure_at: "secure L c \<Longrightarrow> p < length (cn_heap c) \<Longrightarrow> sessionOk L (so_phase (cn_heap c ! p)) (so_sess (cn_heap c ! p))"
  by (simp add: secure_def)

lemma secure_heap:
  assumes "secure L c" "p < length (cn_heap c) \<Longrightarrow> sessionOk L (so_phase obj) (so_sess obj)"
  shows "secure L (c\<lparr>cn_heap := (cn_heap c)[p := obj]\<rparr>)"
proof (cases "p < length (cn_heap c)")
  case True
  then show ?thesis using assms by (auto simp: secure_def dest!: set_update_subset_insert [THEN subsetD])
next
  case False
  then have "(cn_heap c)[p := obj] = cn_heap c" by (intro list_update_beyond) simp
  then show ?thesis using assms(1) by (simp add: secure_def)
qed

lemma secure_close [simp]: "secure L c \<Longrightarrow> secure L (closeSessionLocally p c)"
  unfolding closeSessionLocally_def Let_def
  by (simp, rule secure_heap) (simp_all add: secure_at)

lemma secure_storeSess:
  assumes "secure L c" "p < length (cn_heap c) \<Longrightarrow> sessionOk L (so_phase (cn_heap c ! p)) s"
  shows "secure L (storeSess p s c)"
proof -
  have "secure L (c\<lparr>cn_heap := (cn_heap c)[p := (cn_heap c ! p)\<lparr>so_sess := s\<rparr>]\<rparr>)" using assms by (intro secure_heap) simp_all
  then have "secure L (c\<lparr>cn_heap := (cn_heap c)[p := (cn_heap c ! p)\<lparr>so_sess := s\<rparr>], cn_config := se_config s\<rparr>)"
    by (simp add: secure_def)
  then show ?thesis by (simp add: storeSess_def Let_def)
qed

text \<open>An operation on one session that keeps its key.\<close>

lemma secure_storeSess_grows:
  assumes "secure L c" "typed (so_sess (cn_heap c ! p)) \<Longrightarrow> grows (so_sess (cn_heap c ! p)) s"
  shows "secure L (storeSess p s c)"
  using secure_storeSess [OF assms(1)] sessionOk_grows sessionOk_typed secure_at [OF assms(1), of p] assms(2) by blast

lemma secures_onSess:
  assumes "secure L c" "\<And>s r s'. typed s \<Longrightarrow> f s = Some (r, s') \<Longrightarrow> grows s s'"
  shows "secures L (onSess p f c)"
proof (cases "f (sessOf p c)")
  case (Some x)
  obtain r s' where x: "x = (r, s')" by fastforce
  have "grows (so_sess (cn_heap c ! p)) s'" if "typed (so_sess (cn_heap c ! p))"
    using assms(2) [of "sessOf p c" r s'] that Some x by (simp add: sessOf_def)
  then show ?thesis using secure_storeSess_grows [OF assms(1)] Some x by (simp add: onSess_def)
qed (simp add: onSess_def)

lemma secures_writeRecordLocked:
  assumes "libs L E" "secure L c" "t \<noteq> RecordApplicationData"
  shows "secures L (writeRecordLocked E t m p c)"
  unfolding writeRecordLocked_def
  by (rule secures_onSess [OF assms(2)], rule writeRecord_grows [OF _ _ assms(3)])
    (use assms(1) in \<open>auto simp: libs_def recEnv_def\<close>)

lemma secures_terminateSession: "libs L E \<Longrightarrow> secure L c \<Longrightarrow> secures L (terminateSession E p c)"
  using secures_writeRecordLocked [of L E c RecordAlert "controlMsg E c p alertText" p]
  by (auto simp: terminateSession_def secures_def split: option.splits res.splits)

lemma secures_terminateUnlessSynced: "libs L E \<Longrightarrow> secure L c \<Longrightarrow> secures L (terminateUnlessSynced E m p c)"
  by (simp add: terminateUnlessSynced_def secures_terminateSession)

lemma secures_writeSecureControl: "libs L E \<Longrightarrow> secure L c \<Longrightarrow> secures L (writeSecureControl E p frame c)"
  by (auto simp: writeSecureControl_def secures_writeRecordLocked split: option.split)

lemma secure_alloc: "secure L c \<Longrightarrow> secure L (snd (allocSession sid peer c))"
  using sessionOk_new by (auto simp: secure_def allocSession_def)

lemma secure_loadOrStore: "secure L c \<Longrightarrow> loadOrStore sid peer c = (x, c') \<Longrightarrow> secure L c'"
  using secure_alloc [of L c sid peer] by (auto simp: loadOrStore_def split_def Let_def split: option.splits)

lemma secure_markLost [simp]: "secure L (markLost E p peer t m c) = secure L c"
  by (simp add: markLost_def split_def Let_def)


section \<open>Reading\<close>

text \<open>What the other goroutines do while the reader waits.\<close>

definition during_secure :: "evp \<Rightarrow> connEnv \<Rightarrow> bool" where
  "during_secure L E \<longleftrightarrow> (\<forall>c. secure L c \<longrightarrow> secure L (ce_during E c))"

lemma secure_waitHandshake: "during_secure L E \<Longrightarrow> secure L c \<Longrightarrow> waitHandshake E p c = (w, c') \<Longrightarrow> secure L c'"
  by (auto simp: waitHandshake_def during_secure_def split: if_splits)

lemmas secures_ends = secures_terminateSession secures_terminateUnlessSynced secures_writeSecureControl

lemma secures_handleApplicationData:
  assumes "libs L E" "during_secure L E" "secure L c"
  shows "secures L (handleApplicationData E t m peer sid p loaded complete c)"
proof (cases "noCipherYet complete p c")
  case False
  obtain w c1 where w: "(if \<not> complete \<and> loaded then waitHandshake E p c else (HandshakeDone, c)) = (w, c1)" by fastforce
  have c1: "secure L c1" using w assms(3) secure_waitHandshake [OF assms(2,3)] by (auto split: if_splits)
  show ?thesis
    using False secures_ends(2) [OF assms(1), of _ m p] c1
    by (simp add: handleApplicationData_def w split_def Let_def split: handshakeWait.split prod.split res.split)
qed (use assms(3) in \<open>simp add: handleApplicationData_def\<close>)

lemma secures_handleHandshake:
  assumes "libs L E" "secure L c"
  shows "secures L (handleHandshake E t m peer d p complete c)"
  using secures_ends(2) [OF assms] assms(2) secure_heap [OF assms(2), of p] secure_at [OF assms(2), of p]
  by (simp add: handleHandshake_def)

lemma secures_handleChangeCipherSpec:
  assumes "libs L E" "secure L c"
  shows "secures L (handleChangeCipherSpec E m d p c)"
proof -
  have "secures L (onSess p (\<lambda>s. map_option (\<lambda>(r, inn). (r, s\<lparr>se_in := inn\<rparr>))
      (changeCipherSpec (se_done s) (en_pick (ce_hs E)) (se_in s))) c)"
    by (rule secures_onSess [OF assms(2)]) (use changeCipherSpec_typed in \<open>fastforce intro: changeIn_grows simp: typed_def\<close>)
  then show ?thesis
    using secures_ends(2) [OF assms] secures_ends(2) [OF assms(1)]
    by (auto simp: handleChangeCipherSpec_def secures_def split: option.splits res.splits)
qed

lemma secures_handleControl:
  assumes "libs L E" "during_secure L E" "secure L c"
  shows "secures L (handleControl E peer d p loaded complete c)"
proof -
  obtain w c1 where w: "(if \<not> complete \<and> loaded then waitHandshake E p c else (HandshakeDone, c)) = (w, c1)" by fastforce
  have c1: "secure L c1" using w assms(3) secure_waitHandshake [OF assms(2,3)] by (auto split: if_splits)
  obtain items answer ro rt where h: "handleSecureControl (ce_codec E) (ce_uuid E) (ce_now E) (ce_visit E) (ce_json E)
      (so_id (cn_heap c1 ! p)) peer d (cn_cache c1) (cn_reorder c1, cn_realtime c1) = (items, answer, ro, rt)"
    by (metis prod_cases4)
  let ?c2 = "emit items (c1\<lparr>cn_reorder := ro, cn_realtime := rt\<rparr>)"
  have "secures L (case writeSecureControl E p frame ?c2 of None \<Rightarrow> None | Some (Panic s, c3) \<Rightarrow> Some (Panic s, c3)
      | Some (_, c3) \<Rightarrow> Some (Ok (), c3))" for frame
    using secures_ends(3) [OF assms(1), of ?c2 p frame] c1 by (auto simp: secures_def split: option.splits res.splits)
  then show ?thesis
    using c1 by (simp add: handleControl_def w h Let_def split: handshakeWait.split option.split)
qed

lemma secures_handleRecord:
  assumes "libs L E" "during_secure L E" "secure L c"
  shows "secures L (handleRecord E t m peer sid p loaded complete d c)"
  using assms secures_ends(1,2) [OF assms(1,3)] secures_handleApplicationData [OF assms] secures_handleHandshake [OF assms(1,3)]
    secures_handleChangeCipherSpec [OF assms(1,3)] secures_handleControl [OF assms]
  by (simp add: handleRecord_def Let_def split: recordType.split)

lemma secure_reset:
  assumes "secure L c" "tryResetSessionFromPlaintextHello E x old peer sid c = (b, c')"
  shows "secure L c'"
proof (cases "isPlaintextHelloRecord (en_crypto (ce_hs E)) x")
  case True
  obtain p c2 where a: "allocSession sid peer (closeSessionLocally old c) = (p, c2)" by fastforce
  have c2: "secure L c2" using secure_alloc [OF secure_close [OF assms(1), of old], of sid peer] a by simp
  have "secure L (c2\<lparr>cn_heap := (cn_heap c2)[p := (cn_heap c2 ! p)\<lparr>so_chan := [tl x]\<rparr>]\<rparr>)"
    using secure_at [OF c2] by (intro secure_heap [OF c2]) simp
  then show ?thesis
    using assms(2) True a by (auto simp: tryResetSessionFromPlaintextHello_def Let_def secure_def)
qed (use assms in \<open>simp add: tryResetSessionFromPlaintextHello_def\<close>)

lemma secures_handleSecure:
  assumes "libs L E" "during_secure L E" "secure L c"
  shows "secures L (handleSecure E t m peer c)"
proof -
  let ?sid = "getSessionID (cn_hostId c) peer"
  obtain p loaded c0 where l: "loadOrStore ?sid peer c = ((p, loaded), c0)" by (metis prod.exhaust)
  let ?c1 = "if loaded then c0 else c0\<lparr>cn_handshakes := cn_handshakes c0 @ [p]\<rparr>"
  have c1: "secure L ?c1" using secure_loadOrStore [OF assms(3) l] by simp
  obtain r inn where d: "decrypt (en_evp (ce_hs E)) (GetContent m) (se_in (sessOf p ?c1)) = (r, inn)" by fastforce
  let ?c2 = "storeSess p ((sessOf p ?c1)\<lparr>se_in := inn\<rparr>) ?c1"
  have "grows (so_sess (cn_heap ?c1 ! p)) ((sessOf p ?c1)\<lparr>se_in := inn\<rparr>)" if t: "typed (so_sess (cn_heap ?c1 ! p))"
  proof -
    have "typed (sessOf p ?c1)" "grows (so_sess (cn_heap ?c1 ! p)) (sessOf p ?c1)" using t by (simp_all add: sessOf_def)
    moreover have "typed_half inn"
      using decrypt_typed [OF _ _ d] assms(1) calculation(1) by (simp add: libs_def typed_def)
    ultimately show ?thesis using changeIn_grows grows_trans by blast
  qed
  then have c2: "secure L ?c2" by (rule secure_storeSess_grows [OF c1])
  show ?thesis
  proof (cases r)
    case (Ok x)
    show ?thesis using secures_handleRecord [OF assms(1,2) c2] d Ok by (simp add: handleSecure_def l Let_def)
  next
    case (Fail e)
    obtain b c3 where t: "tryResetSessionFromPlaintextHello E (GetContent m) p peer ?sid ?c2 = (b, c3)" by fastforce
    show ?thesis
      using secures_ends(1) [OF assms(1) secure_reset [OF c2 t]] secure_reset [OF c2 t] c2 d Fail t
      by (cases b) (simp_all add: handleSecure_def l Let_def)
  qed (use c2 d in \<open>simp add: handleSecure_def l Let_def\<close>)
qed

lemma secures_handleReadBoundMsg:
  assumes "libs L E" "during_secure L E" "secure L c"
  shows "secures L (handleReadBoundMsg E t m c)"
  using assms(3) secures_handleSecure [OF assms]
  by (simp add: handleReadBoundMsg_def split: prod.split res.split)

lemma secures_handleAll:
  assumes "libs L E" "during_secure L E" "secure L c"
  shows "secures L (handleAll E t ms c)"
  using assms(3)
proof (induction ms arbitrary: c)
  case (Cons m ms)
  then show ?case
    using secures_handleReadBoundMsg [OF assms(1,2) Cons.prems, of t m]
    by (auto simp: secures_def split: option.splits res.splits)
qed simp

lemma secures_readRecord:
  assumes "libs L E" "during_secure L E" "secure L c"
  shows "secures L (readRecord E frame c)"
  using assms(3) secures_handleAll [OF assms(1,2)]
  by (simp add: readRecord_def Let_def split: res.split prod.split)


section \<open>Handshakes and writing\<close>

lemma secure_runHandshake:
  assumes "libs L E" "secure L c" "p < length (cn_heap c)" "runHandshake E p c = Some c'"
  shows "secure L c'"
proof -
  let ?obj = "cn_heap c ! p" and ?H = "recEnv E c p (controlMsg E c p [])"
  have lib: "gcm_lib (en_evp ?H)" "digests_ok (en_digests ?H)" using assms(1) by (simp_all add: libs_def recEnv_def)
  have ok: "sessionOk L (so_phase ?obj) (sessOf p c)" using secure_at [OF assms(2,3)] by (simp add: sessOf_def)
  have store: "secure L (storeSess p s (c\<lparr>cn_heap := (cn_heap c)[p := ?obj\<lparr>so_phase := Some ph, so_chan := ch\<rparr>]\<rparr>))"
    if s: "sessionOk L (Some ph) s" for ph s ch
  proof -
    have "secure L (c\<lparr>cn_heap := (cn_heap c)[p := ?obj\<lparr>so_phase := Some ph, so_chan := ch, so_sess := s\<rparr>]\<rparr>)"
      using s by (intro secure_heap [OF assms(2)]) simp
    then have "secure L (c\<lparr>cn_heap := (cn_heap c)[p := ?obj\<lparr>so_phase := Some ph, so_chan := ch, so_sess := s\<rparr>], cn_config := se_config s\<rparr>)"
      by (simp add: secure_def)
    then show ?thesis using assms(3) by (simp add: storeSess_def Let_def)
  qed
  show ?thesis
  proof (cases "so_phase ?obj")
    case None
    then obtain ph s where e: "enterHandshake ?H (sessOf p c) = Some (ph, s)"
        "c' = storeSess p s (c\<lparr>cn_heap := (cn_heap c)[p := ?obj\<lparr>so_phase := Some ph\<rparr>]\<rparr>)"
      using assms(4) by (auto simp: runHandshake_def Let_def split: option.splits)
    have "sessionOk L (Some ph) s" using enterHandshake_ok [OF lib(1) _ e(1)] ok None by simp
    from store [OF this, of "so_chan ?obj"] show ?thesis using e(2) by simp
  next
    case (Some ph0)
    then obtain d rest ph s where e: "stepPhase ?H ph0 (Arrived d) (sessOf p c) = Some (ph, s)"
        "c' = storeSess p s (c\<lparr>cn_heap := (cn_heap c)[p := ?obj\<lparr>so_phase := Some ph, so_chan := rest\<rparr>]\<rparr>)"
      using assms(4) by (auto simp: runHandshake_def Let_def split: option.splits list.splits)
    have "sessionOk L (Some ph) s" using stepPhase_ok [OF lib _ e(1)] ok Some by simp
    from store [OF this] show ?thesis using e(2) by simp
  qed
qed

text \<open>\<open>session.Handshake()\<close> returns without an error only where the handshake has ended so; an error it may
  return without, to a writer whose session has been closed.\<close>

definition returned :: "nat \<Rightarrow> unit res \<Rightarrow> connState \<Rightarrow> bool" where
  "returned p r c \<longleftrightarrow> (r = Ok () \<longrightarrow> p < length (cn_heap c) \<and> so_phase (cn_heap c ! p) = Some (Ended (Ok ())))"

lemma secures_writeApplication:
  assumes "libs L E" "secure L c" "returned p (Ok ()) c"
  shows "secures L (writeRecordLocked E RecordApplicationData m p c)"
proof (cases "writeRecord (recEnv E c p m) RecordApplicationData (GetContent m) (sessOf p c)")
  case (Some x)
  obtain r s where x: "x = (r, s)" by fastforce
  let ?H = "recEnv E c p m"
  have l: "gcm_lib (en_evp ?H)" "en_evp ?H = L" using assms(1) by (simp_all add: libs_def recEnv_def)
  have p: "p < length (cn_heap c)" "so_phase (cn_heap c ! p) = Some (Ended (Ok ()))"
    using assms(3) unfolding returned_def by blast+
  note at = secure_at [OF assms(2) p(1)]
  have "se_complete (so_sess (cn_heap c ! p))" using at p(2) by (simp add: sessionOk_def)
  then have ok: "sessionOk (en_evp ?H) (so_phase (cn_heap c ! p)) (sessOf p c)" "se_complete (sessOf p c)"
    using at l(2) by (simp_all add: sessOf_def)
  have "sessionOk L (so_phase (cn_heap c ! p)) s"
    using writeRecord_app [OF l(1) ok, of "GetContent m" r s] Some x l(2) by simp
  then show ?thesis using secure_storeSess [OF assms(2)] Some x by (simp add: writeRecordLocked_def onSess_def)
qed (simp add: writeRecordLocked_def onSess_def)

lemma secures_WriteMessage:
  assumes "libs L E" "secure L c" "\<And>p d r d'. run p d = Some (r, d') \<Longrightarrow> secure L d \<Longrightarrow> secure L d' \<and> returned p r d'"
  shows "secures L (WriteMessage E run closeErr binary message c)"
proof (cases "binary \<and> (\<exists>m. BytesToMsgDataWriteBound (ce_codec E) message = Ok m \<and> GetRecvID m \<noteq> [])")
  case True
  then obtain m where m: "BytesToMsgDataWriteBound (ce_codec E) message = Ok m" "GetRecvID m \<noteq> []" by blast
  obtain p l c1 where l: "loadOrStore (getSessionID (cn_hostId c) (GetRecvID m)) (GetRecvID m) c = ((p, l), c1)" by (metis prod.exhaust)
  have c1: "secure L c1" by (rule secure_loadOrStore [OF assms(2) l])
  show ?thesis
  proof (cases "run p c1")
    case (Some x)
    obtain r c2 where x: "x = (r, c2)" by fastforce
    have c2: "secure L c2" "returned p r c2" using assms(3) [OF _ c1] Some x by simp_all
    show ?thesis
    proof (cases r)
      case (Ok u)
      let ?c = "c2\<lparr>cn_cache := cacheOutboundMessage m (cn_cache c2)\<rparr>"
      have "secures L (writeRecordLocked E RecordApplicationData m p ?c)"
        using c2 Ok by (intro secures_writeApplication [OF assms(1)]) (simp_all add: returned_def)
      then show ?thesis
        using True m l Some x Ok
        by (auto simp: WriteMessage_def secures_def connClose_def split: option.splits res.splits if_splits)
    next
      case (Fail e)
      then show ?thesis
        using True m l Some x secures_ends(1) [OF assms(1) c2(1), of p]
        by (auto simp: WriteMessage_def secures_def split: option.splits res.splits)
    qed (use True m l Some x c2 in \<open>simp add: WriteMessage_def\<close>)
  qed (use True m l in \<open>simp add: WriteMessage_def\<close>)
qed (use assms(2) in \<open>auto simp: WriteMessage_def split: res.splits\<close>)

lemma secure_ShutDown: "secure L c \<Longrightarrow> secure L (snd (ShutDown closeErr c))"
  by (auto simp: secure_def ShutDown_def enumerate_eq_zip dest: set_zip_rightD)


section \<open>Runs\<close>

text \<open>The runs of a connection.  What happens while a function waits (a writer for the end of the handshake, the
  reader for a session) is again such a run.  What waits in the channel of a handshake may be
  anything: the relay decides.\<close>

inductive connSteps :: "evp \<Rightarrow> connState \<Rightarrow> connState \<Rightarrow> bool" for L where
  st_refl: "connSteps L c c"
| st_dial: "connSteps L a c \<Longrightarrow> connSteps L a (snd (DialAndSetUserId dialed hostId c))"
| st_read: "connSteps L a c \<Longrightarrow> libs L E \<Longrightarrow> (\<And>d. connSteps L d (ce_during E d)) \<Longrightarrow>
    readRecord E frame c = Some (r, c') \<Longrightarrow> connSteps L a c'"
| st_write: "connSteps L a c \<Longrightarrow> libs L E \<Longrightarrow>
    (\<And>p d r d'. run p d = Some (r, d') \<Longrightarrow> connSteps L d d' \<and> returned p r d') \<Longrightarrow>
    WriteMessage E run closeErr binary message c = Some (r, c') \<Longrightarrow> connSteps L a c'"
| st_handshake: "connSteps L a c \<Longrightarrow> libs L E \<Longrightarrow> p < length (cn_heap c) \<Longrightarrow> runHandshake E p c = Some c' \<Longrightarrow> connSteps L a c'"
| st_arrive: "connSteps L a c \<Longrightarrow> p < length (cn_heap c) \<Longrightarrow>
    connSteps L a (c\<lparr>cn_heap := (cn_heap c)[p := (cn_heap c ! p)\<lparr>so_chan := ms\<rparr>]\<rparr>)"
| st_take: "connSteps L a c \<Longrightarrow> ReadMessage c = Some (x, c') \<Longrightarrow> connSteps L a c'"
| st_timer: "connSteps L a c \<Longrightarrow> expireLostInbound visit sid key (cn_reorder c) = (items, ro) \<Longrightarrow>
    connSteps L a (emit items (c\<lparr>cn_reorder := ro\<rparr>))"
| st_request: "connSteps L a c \<Longrightarrow> libs L E \<Longrightarrow> writeSecureControl E p frame c = Some (r, c') \<Longrightarrow> connSteps L a c'"
| st_close: "connSteps L a c \<Longrightarrow> connSteps L a (snd (connClose closeErr c))"
| st_shutdown: "connSteps L a c \<Longrightarrow> connSteps L a (snd (ShutDown closeErr c))"

lemma connSteps_secure: "connSteps L a c \<Longrightarrow> secure L a \<Longrightarrow> secure L c"
proof (induction rule: connSteps.induct)
  case (st_dial a c dialed hostId)
  then show ?case by (cases dialed) (simp_all add: DialAndSetUserId_def Let_def)
next
  case (st_read a c E frame r c')
  then show ?case using secures_readRecord [of L E c frame] by (simp add: during_secure_def)
next
  case (st_write a c E run closeErr binary message r c')
  then show ?case using secures_WriteMessage [of L E c run closeErr binary message] by simp
next
  case (st_handshake a c E p c')
  then show ?case using secure_runHandshake by blast
next
  case (st_arrive a c p ms)
  then show ?case using secure_at [of L c p] by (intro secure_heap) simp_all
next
  case (st_take a c x c')
  then show ?case by (auto simp: ReadMessage_def split: list.splits)
next
  case (st_request a c E p frame r c')
  then show ?case using secures_writeSecureControl [of L E c p frame] by simp
next
  case (st_close a c closeErr)
  then show ?case by (simp add: connClose_def)
qed (simp_all add: secure_ShutDown)

section \<open>A run\<close>

text \<open>A configuration is there once the handshake has written its last message.\<close>

lemma writeRecord_config:
  assumes "writeRecord E t d s = Some (Ok (), s')"
  shows "se_config s' \<noteq> None"
proof -
  have "se_config s \<noteq> None" using assms by (subst (asm) writeRecord.simps) (auto split: if_splits)
  with assms show ?thesis by (elim writeRecord_cases) auto
qed

lemma onKeyExchange_config: "onKeyExchange E hs ka kx ev s = Some (Ok hs', s') \<Longrightarrow> se_config s' \<noteq> None"
  using writeRecord_config
  by (fastforce simp: onKeyExchange_def sendFinished_def writeHandshakeRecord_def bindS_Ok_iff)

lemma stepPhase_Finished_config:
  assumes "stepPhase E (AwaitFinished hs) ev s = Some (ph, s')"
  shows "se_config s' = se_config s"
proof -
  obtain r s0 where r: "onFinished E hs ev s = Some (r, s0)" "s' = snd (endHandshake r s0)"
    using assms by (auto simp: stepPhase_def Let_def split_def)
  have "se_config s0 = se_config s"
    using r(1) by (auto simp: onFinished_def bindS_def split: res.splits option.splits handshakeMessage.splits if_splits prod.splits)
  then show ?thesis using r(2) by (simp add: endHandshake_def Let_def split: res.splits)
qed

lemma stepPhase_config:
  assumes "stepPhase E (AwaitKeyExchange hs ka kx) ev s = Some (AwaitFinished hs', s')"
  shows "se_config s' \<noteq> None"
proof -
  have "endOr AwaitFinished (onKeyExchange E hs ka kx ev s) = Some (AwaitFinished hs', s')" using assms by (simp add: stepPhase_def)
  from endOr_phase [OF this] show ?thesis using onKeyExchange_config by auto
qed

text \<open>The connection of \<open>a\<close> with one session, with \<open>b\<close>.\<close>

definition exAt :: "connState \<Rightarrow> phase option \<Rightarrow> bytes list \<Rightarrow> sess \<Rightarrow> connState \<Rightarrow> bool" where
  "exAt a ph ch s c \<longleftrightarrow> connSteps exEvp a c \<and> cn_config c = se_config s \<and> cn_hostId c = ''a'' \<and> cn_open c \<and>
     cn_heap c = [\<lparr>so_id = getSessionID ''a'' ''b'', so_sess = s, so_chan = ch, so_phase = ph\<rparr>]"

lemma exAt_sess: "exAt a ph ch s c \<Longrightarrow> sessOf 0 c = s"
  by (simp add: exAt_def sessOf_def)

lemma exConn_libs: "libs exEvp exConnEnv"
  using exEnv_ok [of "''b''"] by (simp add: libs_def env_ok_def)

lemma exAt_env:
  assumes "cn_hostId c = ''a''" "cn_open c" "md_inner m \<noteq> None"
  shows "recEnv exConnEnv c p m = exEnv ''a''"
proof -
  have "net_ok (recEnv exConnEnv c p m)"
    by (rule exConn_net) (use assms in \<open>simp_all add: exConnEnv_def\<close>)
  then have n: "en_net (recEnv exConnEnv c p m) = (\<lambda>_ _. Ok ())" by (simp add: net_ok_def fun_eq_iff)
  show ?thesis by (rule hsEnv.equality) (simp_all only: n exEnv_simps, simp_all add: recEnv_def assms(1) exEnv_def)
qed

lemma exAt_control: "exAt a ph ch s c \<Longrightarrow> recEnv exConnEnv c p (controlMsg exConnEnv c p x) = exEnv ''a''"
  by (rule exAt_env) (simp_all add: exAt_def controlMsg_def ConstructMsgData_def)

lemma exAt_store:
  assumes "cn_heap c = [\<lparr>so_id = getSessionID ''a'' ''b'', so_sess = s0, so_chan = ch, so_phase = ph\<rparr>]" "cn_hostId c = ''a''" "cn_open c"
    "connSteps exEvp a (storeSess 0 s c)"
  shows "exAt a ph ch s (storeSess 0 s c)"
  using assms by (simp add: exAt_def storeSess_def closeSessionLocally_def Let_def)

lemma exAt_enter:
  assumes "exAt a None ch s c" "enterHandshake (exEnv ''a'') s = Some (ph, s')"
  shows "\<exists>c'. exAt a (Some ph) ch s' c'"
proof -
  let ?c = "c\<lparr>cn_heap := (cn_heap c)[0 := (cn_heap c ! 0)\<lparr>so_phase := Some ph\<rparr>]\<rparr>"
  have "runHandshake exConnEnv 0 c = Some (storeSess 0 s' ?c)"
    using assms exAt_control [OF assms(1)] exAt_sess [OF assms(1)] by (simp add: runHandshake_def exAt_def)
  then have "connSteps exEvp a (storeSess 0 s' ?c)"
    using assms(1) st_handshake [OF _ exConn_libs, of a c 0] by (simp add: exAt_def)
  then show ?thesis using assms(1) exAt_store [of ?c s ch "Some ph" a s'] by (auto simp: exAt_def)
qed

lemma exAt_step:
  assumes "exAt a (Some ph) (d # ch) s c" "stepPhase (exEnv ''a'') ph (Arrived d) s = Some (ph', s')"
  shows "\<exists>c'. exAt a (Some ph') ch s' c'"
proof -
  let ?c = "c\<lparr>cn_heap := (cn_heap c)[0 := (cn_heap c ! 0)\<lparr>so_phase := Some ph', so_chan := ch\<rparr>]\<rparr>"
  have "runHandshake exConnEnv 0 c = Some (storeSess 0 s' ?c)"
    using assms exAt_control [OF assms(1)] exAt_sess [OF assms(1)] by (simp add: runHandshake_def exAt_def)
  then have "connSteps exEvp a (storeSess 0 s' ?c)"
    using assms(1) st_handshake [OF _ exConn_libs, of a c 0] by (simp add: exAt_def)
  then show ?thesis using assms(1) exAt_store [of ?c s ch "Some ph'" a s'] by (auto simp: exAt_def)
qed

lemma exAt_arrive: "exAt a ph ch s c \<Longrightarrow> \<exists>c'. exAt a ph ms s c'"
  using st_arrive [of exEvp a c 0 ms] by (intro exI [of _ "c\<lparr>cn_heap := (cn_heap c)[0 := (cn_heap c ! 0)\<lparr>so_chan := ms\<rparr>]\<rparr>"]) (simp add: exAt_def)

text \<open>The handshake of a new session runs to its end.\<close>

lemma exAt_completes:
  assumes "exAt a None [] (NewSession None ''b'') c"
  shows "\<exists>c' s k iv. exAt a (Some (Ended (Ok ()))) [] s c' \<and> at_record k iv 1 (se_out s) \<and> se_config s \<noteq> None"
proof -
  obtain s1 where s1: "enterHandshake (exEnv ''a'') (NewSession None ''b'') = Some (AwaitHello exHello, s1)"
    using exEnter by blast
  obtain hs ka kx s2 where s2: "stepPhase (exEnv ''a'') (AwaitHello exHello) (Arrived (hello_bytes exHello)) s1 =
      Some (AwaitKeyExchange hs ka kx, s2)"
    using exStepHello [OF enterHandshake_fresh(1) [OF exEnv_ok s1]] by blast
  obtain hs' v s3 s4 k iv where s4: "stepPhase (exEnv ''a'') (AwaitKeyExchange hs ka kx) (Arrived (hello_bytes exHello)) s2 = Some (AwaitFinished hs', s3)"
      "stepPhase (exEnv ''a'') (AwaitFinished hs') (Arrived (finishedBytes v)) s3 = Some (Ended (Ok ()), s4)" "at_record k iv 1 (se_out s4)"
    using echoed_hello_completes [OF exEnv_ok s1 exHello_Ok s2] by blast
  obtain c1 where "exAt a (Some (AwaitHello exHello)) [] s1 c1" using exAt_enter [OF assms s1] by blast
  then obtain c2 where "exAt a (Some (AwaitHello exHello)) [hello_bytes exHello, hello_bytes exHello, finishedBytes v] s1 c2"
    using exAt_arrive by blast
  then obtain c3 where "exAt a (Some (AwaitKeyExchange hs ka kx)) [hello_bytes exHello, finishedBytes v] s2 c3"
    using exAt_step [OF _ s2] by blast
  then obtain c4 where "exAt a (Some (AwaitFinished hs')) [finishedBytes v] s3 c4" using exAt_step [OF _ s4(1)] by blast
  then obtain c5 where "exAt a (Some (Ended (Ok ()))) [] s4 c5" using exAt_step [OF _ s4(2)] by blast
  moreover have "se_config s4 \<noteq> None" using stepPhase_config [OF s4(1)] stepPhase_Finished_config [OF s4(2)] by simp
  ultimately show ?thesis using s4(3) by blast
qed

lemma secure_new: "secure L (NewSecureConn cfg)"
  by (simp add: secure_def NewSecureConn_def)

lemma exAt_key:
  assumes "secure exEvp a" "exAt a ph ch s c" "at_record k iv n (se_out s)"
  shows "length k = 16 \<and> iv \<noteq> []"
proof -
  have "secure exEvp c" using connSteps_secure [OF _ assms(1)] assms(2) by (simp add: exAt_def)
  then have t: "typed s" using assms(2) sessionOk_typed by (simp add: exAt_def secure_def)
  have "hasCipher (se_out s)" using assms(3) by (auto simp: at_record_def hasCipher_def)
  from typed_cipher [OF t this] assms(3) show ?thesis by (auto simp: outKey_def at_record_def aead_of_def)
qed

text \<open>An application writes to \<open>b\<close> without a session: the writer starts the handshake, waits, and writes.\<close>

lemma exAt_writes:
  "\<exists>c obj x. connSteps exEvp (NewSecureConn None) c \<and> obj \<in> set (cn_heap c) \<and> (RecordApplicationData, x) \<in> set (se_sent (so_sess obj))"
proof -
  let ?c0 = "snd (DialAndSetUserId (Ok ()) ''a'' (NewSecureConn None))"
  have c0: "connSteps exEvp (NewSecureConn None) ?c0" by (intro st_dial st_refl)
  define m where "m = \<lparr>md_inner = Some exMsg, md_Req = Some exReq, md_Resp = None, md_Push = None, md_SecureRead = False\<rparr>"
  have b: "BytesToMsgDataWriteBound (ce_codec exConnEnv) [0] = Ok m"
    by (simp add: BytesToMsgDataWriteBound_def decodeAndDecompressWriteBound_def m_def exConnCodec_def
        exReq_def shouldSecureOutbound_def exMsg_def secureTextContentType_def)
  have r: "GetRecvID m = ''b''" by (simp add: m_def GetRecvID_def exMsg_def)
  define c1 where "c1 = snd (loadOrStore (getSessionID ''a'' ''b'') ''b'' ?c0)"
  have l: "loadOrStore (getSessionID (cn_hostId ?c0) (GetRecvID m)) (GetRecvID m) ?c0 = ((0, False), c1)"
    by (simp add: c1_def r DialAndSetUserId_def NewSecureConn_def loadOrStore_def allocSession_def)
  have "exAt c1 None [] (NewSession None ''b'') c1"
    by (simp add: exAt_def st_refl c1_def DialAndSetUserId_def NewSecureConn_def loadOrStore_def allocSession_def NewSession_def)
  then obtain c2 s k iv where c2: "exAt c1 (Some (Ended (Ok ()))) [] s c2" "at_record k iv 1 (se_out s)" "se_config s \<noteq> None"
    using exAt_completes by blast
  define run where "run = (\<lambda>(p :: nat) d. if p = 0 \<and> d = c1 then Some (Ok (), c2) else None)"
  have run: "connSteps exEvp d d' \<and> returned p r d'" if "run p d = Some (r, d')" for p d r d'
    using that c2(1) by (auto simp: run_def exAt_def returned_def split: if_splits)
  let ?c2 = "c2\<lparr>cn_cache := cacheOutboundMessage m (cn_cache c2)\<rparr>"
  have len: "length k = 16" "iv \<noteq> []"
    using exAt_key [OF _ c2(1,2)] secure_loadOrStore [OF _ l] connSteps_secure [OF c0] secure_new by simp_all
  have e: "recEnv exConnEnv ?c2 0 m = exEnv ''a''" "sessOf 0 ?c2 = s" "length (cn_heap ?c2) = 1"
    using exAt_env [of ?c2 m 0] c2(1) exAt_sess [OF c2(1)] by (simp_all add: exAt_def sessOf_def m_def)
  obtain out x where w: "writeRecord (exEnv ''a'') RecordApplicationData (GetContent m) s =
      Some (Ok (), s\<lparr>se_out := out, se_draws := Suc (se_draws s), se_sent := se_sent s @ [(RecordApplicationData, x)]\<rparr>)"
    using writeRecord_sealed [OF exEnv_ok len c2(2) _ c2(3)] by fastforce
  let ?s = "s\<lparr>se_out := out, se_draws := Suc (se_draws s), se_sent := se_sent s @ [(RecordApplicationData, x)]\<rparr>"
  have "writeRecordLocked exConnEnv RecordApplicationData m 0 ?c2 = Some (Ok (), storeSess 0 ?s ?c2)"
    using w e by (simp add: writeRecordLocked_def onSess_def)
  then have "WriteMessage exConnEnv run (Ok ()) True [0] ?c0 = Some (Ok (), storeSess 0 ?s ?c2)"
    by (simp add: WriteMessage_def b [unfolded exConnEnv_simps] r l [unfolded r] run_def)
  from st_write [OF c0 exConn_libs _ this] have "connSteps exEvp (NewSecureConn None) (storeSess 0 ?s ?c2)" using run by blast
  moreover have "so_sess (cn_heap (storeSess 0 ?s ?c2) ! 0) = ?s" "0 < length (cn_heap (storeSess 0 ?s ?c2))"
    using e(3) by (auto simp: storeSess_def closeSessionLocally_def Let_def)
  moreover have "(RecordApplicationData, x) \<in> set (se_sent ?s)" by simp
  ultimately show ?thesis by (metis nth_mem)
qed

section \<open>Properties\<close>

text \<open>C3: application data is sent only sealed.  Whatever a connection does from its creation on, in any
  interleaving with its reader, its handshakes, its timers and other writers, and whatever the relay sends it:
  every record of application data that a session has written is an SM4-GCM box under the 16-byte key of the
  cipher that is in force for the session's outgoing records, of the type byte and a content, and the session's
  handshake has been completed.  A record without a cipher, which \<open>writeRecordLocked\<close> would send as it is, is never
  one of application data.\<close>

theorem application_data_sealed:
  assumes "connSteps L (NewSecureConn cfg) c" "obj \<in> set (cn_heap c)" "(RecordApplicationData, x) \<in> set (se_sent (so_sess obj))"
  shows "se_complete (so_sess obj) \<and>
    (\<exists>ob k iv n a y. hc_cipher (se_out (so_sess obj)) = Some (AEADObj ob) \<and> aead_of ob k iv \<and> length k = 16 \<and>
       x = n @ gcm_box L k iv a (recordByte RecordApplicationData # y))"
proof -
  from connSteps_secure [OF assms(1) secure_new] have "sessionOk L (so_phase obj) (so_sess obj)" using assms(2) by (simp add: secure_def)
  then show ?thesis using assms(3) unfolding sessionOk_def appData_def outKey_def sealedAs_def by blast
qed

lemma application_data_sealed_witness:
  "\<exists>c obj x. connSteps exEvp (NewSecureConn None) c \<and> obj \<in> set (cn_heap c) \<and>
     (RecordApplicationData, x) \<in> set (se_sent (so_sess obj)) \<and> se_complete (so_sess obj)"
  using exAt_writes application_data_sealed by blast

end
