(* ===== verification/Isolation.thy ===== *)
theory Isolation
  imports ConnProps
begin

text \<open>
  Sessions of different peers beside each other in one connection.  All of them share the map of sessions,
  the map of the reordering, the cache of sent messages and the configuration; what a frame of one peer
  can change of these is followed here through the operations of the reader.
\<close>

section \<open>Working on one session\<close>

definition holds :: "nat \<Rightarrow> SessionID \<Rightarrow> connState \<Rightarrow> bool" where
  "holds p sid c \<longleftrightarrow> p < length (cn_heap c) \<and> so_id (cn_heap c ! p) = sid"

text \<open>From a state in which session \<open>p\<close> has this identifier, a step changes at most this session, makes new
  ones, and touches no entry of another identifier.\<close>

definition unchanged :: "nat \<Rightarrow> SessionID \<Rightarrow> connState \<Rightarrow> connState \<Rightarrow> bool" where
  "unchanged p sid c c' \<longleftrightarrow>
     length (cn_heap c) \<le> length (cn_heap c') \<and> (\<forall>q<length (cn_heap c). q \<noteq> p \<longrightarrow> cn_heap c' ! q = cn_heap c ! q) \<and>
     (\<forall>i. i \<noteq> sid \<longrightarrow> cn_sessions c' i = cn_sessions c i \<and> cn_reorder c' i = cn_reorder c i) \<and>
     cn_config c' = cn_config c \<and> cn_hostId c' = cn_hostId c \<and> cn_cache c' = cn_cache c \<and> cn_open c' = cn_open c"

definition apart :: "nat \<Rightarrow> SessionID \<Rightarrow> connState \<Rightarrow> connState \<Rightarrow> bool" where
  "apart p sid c c' \<longleftrightarrow> (holds p sid c \<longrightarrow> holds p sid c' \<and> unchanged p sid c c')"

lemma unchanged_refl [simp]: "unchanged p sid c c"
  by (simp add: unchanged_def)

lemma unchanged_trans: "unchanged p sid a b \<Longrightarrow> unchanged p sid b c \<Longrightarrow> unchanged p sid a c"
  by (simp add: unchanged_def)

lemma apart_refl [simp]: "apart p sid c c"
  by (simp add: apart_def)

lemma apart_trans [trans]: "apart p sid a b \<Longrightarrow> apart p sid b c \<Longrightarrow> apart p sid a c"
  unfolding apart_def using unchanged_trans by blast

lemma apart_frame [simp]:
  "apart p sid c (c'\<lparr>cn_out := a\<rparr>) = apart p sid c c'" "apart p sid c (c'\<lparr>cn_tasks := t\<rparr>) = apart p sid c c'"
  "apart p sid c (c'\<lparr>cn_handshakes := h\<rparr>) = apart p sid c c'" "apart p sid c (c'\<lparr>cn_realtime := rt\<rparr>) = apart p sid c c'"
  "apart p sid c (emit xs c') = apart p sid c c'"
  by (simp_all add: apart_def holds_def unchanged_def emit_def)

lemma apart_reorder:
  "apart p sid c c' \<Longrightarrow> (holds p sid c' \<Longrightarrow> \<forall>i. i \<noteq> sid \<longrightarrow> ro i = cn_reorder c' i) \<Longrightarrow> apart p sid c (c'\<lparr>cn_reorder := ro\<rparr>)"
  by (simp add: apart_def holds_def unchanged_def)

lemma apart_session:
  assumes "apart p sid c c'" "so_id obj = so_id (cn_heap c' ! p)"
  shows "apart p sid c (c'\<lparr>cn_heap := (cn_heap c')[p := obj]\<rparr>)"
  using assms by (auto simp: apart_def holds_def unchanged_def)

lemma apart_close: "apart p sid c (closeSessionLocally p c)"
  by (auto simp: closeSessionLocally_def Let_def apart_def holds_def unchanged_def)

lemma apart_store: "se_config s = cn_config c \<Longrightarrow> apart p sid c (storeSess p s c)"
  by (auto simp: storeSess_def closeSessionLocally_def Let_def apart_def holds_def unchanged_def)

lemma apart_alloc:
  assumes "holds p sid c"
  shows "unchanged p sid c (snd (allocSession sid peer c))" "holds p sid (snd (allocSession sid peer c))"
  using assms by (auto simp: allocSession_def holds_def unchanged_def nth_append)

section \<open>The operations of the reader\<close>

definition confined :: "nat \<Rightarrow> SessionID \<Rightarrow> connState \<Rightarrow> ('a \<times> connState) option \<Rightarrow> bool" where
  "confined p sid c m \<longleftrightarrow> (\<forall>r c'. m = Some (r, c') \<longrightarrow> apart p sid c c')"

lemma confined_simps [simp]: "confined p sid c None" "confined p sid c (Some (r, c')) = apart p sid c c'"
  by (simp_all add: confined_def)

lemma confined_trans: "apart p sid a b \<Longrightarrow> confined p sid b m \<Longrightarrow> confined p sid a m"
  unfolding confined_def using apart_trans by blast

lemma confined_onSess:
  assumes "\<And>s r s'. f s = Some (r, s') \<Longrightarrow> se_config s' = se_config s"
  shows "confined p sid c (onSess p f c)"
  using assms [of "sessOf p c"] apart_store by (auto simp: onSess_def confined_def sessOf_def split: option.splits)

lemma writeRecord_se_config: "writeRecord E t d s = Some (r, s') \<Longrightarrow> se_config s' = se_config s"
  by (erule writeRecord_cases) auto

lemma confined_writeRecordLocked: "confined p sid c (writeRecordLocked E t m p c)"
  unfolding writeRecordLocked_def by (rule confined_onSess) (rule writeRecord_se_config)

lemma confined_writeSecureControl: "confined p sid c (writeSecureControl E p frame c)"
  using confined_writeRecordLocked by (simp add: writeSecureControl_def split: option.split)

lemma confined_terminateSession: "confined p sid c (terminateSession E p c)"
proof -
  have "apart p sid c (closeSessionLocally p c')" if "writeRecordLocked E t m p c = Some (r, c')" for t m r c'
    using that confined_writeRecordLocked apart_trans [OF _ apart_close] unfolding confined_def by blast
  moreover have "apart p sid c c'" if "writeRecordLocked E t m p c = Some (r, c')" for t m r c'
    using that confined_writeRecordLocked unfolding confined_def by blast
  ultimately show ?thesis by (simp add: terminateSession_def split: option.split prod.split res.split)
qed

lemma confined_terminateUnlessSynced: "confined p sid c (terminateUnlessSynced E m p c)"
  using confined_terminateSession by (simp add: terminateUnlessSynced_def)

lemma markLostInbound_other: "i \<noteq> sid \<Longrightarrow> snd (markLostInbound now sid peer t m ro) i = ro i"
  by (simp add: markLostInbound_def Let_def)

lemma apart_markLost: "apart p sid c (markLost E p peer t m c)"
proof -
  have "apart p sid c (c\<lparr>cn_reorder := snd (markLostInbound (ce_now E) (so_id (cn_heap c ! p)) peer t m (cn_reorder c))\<rparr>)"
    by (rule apart_reorder) (simp_all add: holds_def markLostInbound_other)
  then show ?thesis by (simp add: markLost_def split_def Let_def)
qed

lemma flushReadyPending_other: "i \<noteq> sid \<Longrightarrow> snd (flushReadyPending visit sid ro) i = ro i"
  by (simp add: flushReadyPending_def split_def Let_def split: option.split)

lemma deliverApplication_other: "i \<noteq> sid \<Longrightarrow> snd (deliverApplication visit now sid ref item ro) i = ro i"
  using flushReadyPending_other by (simp add: deliverApplication_def split_def Let_def)

lemma handleRetransmit_other: "i \<noteq> sid \<Longrightarrow> fst (snd (handleRetransmit K uuid now visit sid peer ms (ro, rt))) i = ro i"
  by (simp add: handleRetransmit_def split_def Let_def split: option.split)

lemma handleSecureControl_other:
  "i \<noteq> sid \<Longrightarrow> fst (snd (snd (handleSecureControl K uuid now visit json sid peer d sc (ro, rt)))) i = ro i"
  using handleRetransmit_other by (simp add: handleSecureControl_def split_def Let_def split: option.split)

text \<open>While the reader waits for a handshake, the other goroutines work on the same session only, so that
  what is left is what the reader does.\<close>

definition quiet :: "nat \<Rightarrow> SessionID \<Rightarrow> connEnv \<Rightarrow> bool" where
  "quiet p sid E \<longleftrightarrow> (\<forall>c. apart p sid c (ce_during E c))"

lemma apart_wait:
  assumes "quiet p sid E" "(if b then waitHandshake E p c else (HandshakeDone, c)) = (w, c')"
  shows "apart p sid c c'"
  using assms by (auto simp: quiet_def waitHandshake_def split: if_splits)

lemma confined_handleApplicationData:
  assumes "quiet p sid E"
  shows "confined p sid c (handleApplicationData E t m peer sid p loaded complete c)"
proof (cases "noCipherYet complete p c")
  case False
  obtain w c1 where w: "(if \<not> complete \<and> loaded then waitHandshake E p c else (HandshakeDone, c)) = (w, c1)" by fastforce
  have c1: "apart p sid c c1" by (rule apart_wait [OF assms w])
  have term_confined: "confined p sid c (terminateUnlessSynced E m p c2)" if "apart p sid c c2" for c2
    using confined_trans [OF that confined_terminateUnlessSynced] .
  have del: "apart p sid c (c1\<lparr>cn_realtime := rt, cn_reorder := snd (deliverApplication visit now sid ref item (cn_reorder c1))\<rparr>)"
    for rt visit now ref item
    using apart_reorder [of p sid c "c1\<lparr>cn_realtime := rt\<rparr>"] c1 deliverApplication_other by simp
  show ?thesis
    using False c1 term_confined del
    by (simp add: handleApplicationData_def w split_def Let_def split: handshakeWait.split prod.split res.split)
qed (simp add: handleApplicationData_def apart_markLost)

lemma confined_handleHandshake: "confined p sid c (handleHandshake E t m peer d p complete c)"
  using apart_session [OF apart_refl] by (simp add: handleHandshake_def apart_markLost confined_terminateUnlessSynced)

lemma confined_handleChangeCipherSpec: "confined p sid c (handleChangeCipherSpec E m d p c)"
proof -
  have "confined p sid c (onSess p (\<lambda>s. map_option (\<lambda>(r, inn). (r, s\<lparr>se_in := inn\<rparr>))
      (changeCipherSpec (se_done s) (en_pick (ce_hs E)) (se_in s))) c)"
    by (rule confined_onSess) auto
  then show ?thesis
    using confined_terminateUnlessSynced confined_trans [OF _ confined_terminateUnlessSynced]
    by (fastforce simp: handleChangeCipherSpec_def confined_def split: option.splits res.splits if_splits)
qed

lemma confined_handleControl:
  assumes "quiet p sid E" "holds p sid c"
  shows "confined p sid c (handleControl E peer d p loaded complete c)"
proof -
  obtain w c1 where w: "(if \<not> complete \<and> loaded then waitHandshake E p c else (HandshakeDone, c)) = (w, c1)" by fastforce
  have c1: "apart p sid c c1" by (rule apart_wait [OF assms(1) w])
  then have id: "so_id (cn_heap c1 ! p) = sid" using assms(2) by (simp add: apart_def holds_def)
  obtain items answer ro rt where h: "handleSecureControl (ce_codec E) (ce_uuid E) (ce_now E) (ce_visit E) (ce_json E)
      sid peer d (cn_cache c1) (cn_reorder c1, cn_realtime c1) = (items, answer, ro, rt)"
    by (metis prod_cases4)
  let ?c2 = "emit items (c1\<lparr>cn_reorder := ro, cn_realtime := rt\<rparr>)"
  have "apart p sid c (c1\<lparr>cn_reorder := ro\<rparr>)"
    using handleSecureControl_other [of _ sid] h by (intro apart_reorder [OF c1]) (metis fst_conv snd_conv)
  then have c2: "apart p sid c ?c2" by simp
  have "confined p sid c (case writeSecureControl E p frame ?c2 of None \<Rightarrow> None | Some (Panic s, c3) \<Rightarrow> Some (Panic s, c3)
      | Some (_, c3) \<Rightarrow> Some (Ok (), c3))" for frame
    using confined_trans [OF c2 confined_writeSecureControl] by (auto simp: confined_def split: option.splits res.splits)
  then show ?thesis
    using c1 c2 by (simp add: handleControl_def w id h Let_def split: handshakeWait.split option.split)
qed

lemma confined_handleRecord:
  assumes "quiet p sid E" "holds p sid c"
  shows "confined p sid c (handleRecord E t m peer sid p loaded complete d c)"
  using confined_handleApplicationData [OF assms(1)] confined_handleControl [OF assms] confined_handleHandshake
    confined_handleChangeCipherSpec confined_terminateSession confined_terminateUnlessSynced
  by (simp add: handleRecord_def Let_def apart_markLost apart_close split: recordType.split)

lemma apart_reset:
  assumes "holds p sid c" "tryResetSessionFromPlaintextHello E x p peer sid c = (b, c')"
  shows "apart p sid c c'"
proof (cases "isPlaintextHelloRecord (en_crypto (ce_hs E)) x")
  case True
  let ?c1 = "closeSessionLocally p c" and ?n = "length (cn_heap (closeSessionLocally p c))"
  have c1: "apart p sid c ?c1" by (rule apart_close)
  have "apart p sid ?c1 (snd (allocSession sid peer ?c1))"
    using apart_alloc [of p sid ?c1 peer] by (simp add: apart_def)
  from apart_trans [OF c1 this] have a: "apart p sid c (snd (allocSession sid peer ?c1))" .
  have n: "?n = length (cn_heap c)" "?n \<noteq> p" using assms(1) by (auto simp: closeSessionLocally_def Let_def holds_def)
  have "apart p sid c (d\<lparr>cn_heap := (cn_heap d)[?n := obj]\<rparr>)" if "apart p sid c d" for d obj
    using that n by (auto simp: apart_def holds_def unchanged_def)
  from this [OF a] show ?thesis
    using assms(2) True by (auto simp: tryResetSessionFromPlaintextHello_def Let_def allocSession_def)
qed (use assms in \<open>simp add: tryResetSessionFromPlaintextHello_def\<close>)

section \<open>The session of a frame\<close>

lemma loadOrStore_apart:
  assumes "conn_ok c" "loadOrStore sid peer c = ((p, loaded), c0)"
  shows "holds p sid c0" "unchanged p sid c c0"
proof -
  have "holds p sid c0 \<and> unchanged p sid c c0"
  proof (cases "cn_sessions c sid")
    case None
    then show ?thesis using assms(2) by (auto simp: loadOrStore_def allocSession_def holds_def unchanged_def nth_append)
  next
    case (Some q)
    then show ?thesis using assms by (simp add: loadOrStore_def conn_ok_def holds_def)
  qed
  then show "holds p sid c0" "unchanged p sid c c0" by simp_all
qed

lemma confined_handleSecure:
  assumes "conn_ok c" "loadOrStore (getSessionID (cn_hostId c) peer) peer c = ((p, loaded), c0)"
    "quiet p (getSessionID (cn_hostId c) peer) E" "handleSecure E t m peer c = Some (r, c')"
  shows "unchanged p (getSessionID (cn_hostId c) peer) c c'"
proof -
  let ?sid = "getSessionID (cn_hostId c) peer"
  let ?c1 = "if loaded then c0 else c0\<lparr>cn_handshakes := cn_handshakes c0 @ [p]\<rparr>"
  note l = loadOrStore_apart [OF assms(1,2)]
  obtain x inn where d: "decrypt (en_evp (ce_hs E)) (GetContent m) (se_in (sessOf p ?c1)) = (x, inn)" by fastforce
  let ?c2 = "storeSess p ((sessOf p ?c1)\<lparr>se_in := inn\<rparr>) ?c1"
  have "apart p ?sid c0 ?c1" by simp
  also have c2: "apart p ?sid ?c1 ?c2" by (rule apart_store) (simp add: sessOf_def)
  finally have c2: "apart p ?sid c0 ?c2" .
  then have h: "holds p ?sid ?c2" using l(1) by (simp add: apart_def)
  have "apart p ?sid c0 c'"
  proof (cases x)
    case (Ok y)
    then have "handleRecord E t m peer ?sid p loaded (se_complete (sessOf p ?c1)) y ?c2 = Some (r, c')"
      using assms(2,4) d by (simp add: handleSecure_def Let_def)
    then have "apart p ?sid ?c2 c'" using confined_handleRecord [OF assms(3) h] unfolding confined_def by blast
    then show ?thesis by (rule apart_trans [OF c2])
  next
    case (Fail e)
    obtain b c3 where r: "tryResetSessionFromPlaintextHello E (GetContent m) p peer ?sid ?c2 = (b, c3)" by fastforce
    have c3: "apart p ?sid c0 c3" by (rule apart_trans [OF c2 apart_reset [OF h r]])
    then show ?thesis
      using assms(2,4) d Fail c2 r confined_trans [OF c3 confined_terminateSession]
      by (cases b) (auto simp: handleSecure_def Let_def confined_def split: if_splits)
  qed (use assms(2,4) c2 d in \<open>simp add: handleSecure_def Let_def\<close>)
  then show ?thesis using l unchanged_trans by (auto simp: apart_def)
qed

section \<open>Properties\<close>



end
